(* ===== verification/Prelude.thy ===== *)
theory Prelude
  imports Main "HOL-Library.Word"
begin

text \<open>
  What every component of the model shares: bytes and byte strings, Go's slice and index
  expressions with their panics made explicit, the byte-order conversions of
  \<open>encoding/binary\<close>, 64-bit signed arithmetic with its wrap-around, and three
  interfaces (a self-delimiting wire codec, an event-driven machine with an invariant, and
  a two-state simulation) whose lemmas the components reuse by interpretation.
\<close>

unbundle bit_operations_syntax

section \<open>Bytes and strings\<close>

type_synonym byte = "8 word"
type_synonym bytes = "byte list"

named_theorems wire \<open>byte-level facts that rewrite a decoder applied to an encoder\<close>
named_theorems bounds \<open>length and range facts of the models\<close>

definition str_bytes :: "string \<Rightarrow> bytes" where
  "str_bytes s = map of_char s"

lemma length_str_bytes [simp]: "length (str_bytes s) = length s"
  by (simp add: str_bytes_def)

section \<open>Slices and indices that can panic\<close>

text \<open>
  Go's \<open>xs[a:b]\<close> and \<open>xs[i]\<close> panic outside their range; \<open>None\<close> is that panic.
  A model function with an \<open>option\<close> result that is proved to be \<open>Some\<close> never panics.
\<close>

definition slice :: "'a list \<Rightarrow> nat \<Rightarrow> nat \<Rightarrow> 'a list option" where
  "slice xs a b = (if a \<le> b \<and> b \<le> length xs then Some (take (b - a) (drop a xs)) else None)"

definition index :: "'a list \<Rightarrow> nat \<Rightarrow> 'a option" where
  "index xs i = (if i < length xs then Some (xs ! i) else None)"

lemma slice_Some [simp]:
  "a \<le> b \<Longrightarrow> b \<le> length xs \<Longrightarrow> slice xs a b = Some (take (b - a) (drop a xs))"
  by (simp add: slice_def)

lemma slice_None_iff: "slice xs a b = None \<longleftrightarrow> b < a \<or> length xs < b"
  by (auto simp: slice_def)

lemma slice_length: "slice xs a b = Some ys \<Longrightarrow> length ys = b - a"
  by (auto simp: slice_def split: if_splits)

lemma index_Some [simp]: "i < length xs \<Longrightarrow> index xs i = Some (xs ! i)"
  by (simp add: index_def)

lemma index_None [simp]: "length xs \<le> i \<Longrightarrow> index xs i = None"
  by (simp add: index_def)

section \<open>Byte order conversions (encoding/binary)\<close>

definition be16 :: "16 word \<Rightarrow> bytes" where
  "be16 v = [ucast (drop_bit 8 v), ucast v]"

definition be24 :: "32 word \<Rightarrow> bytes" where
  "be24 v = [ucast (drop_bit 16 v), ucast (drop_bit 8 v), ucast v]"

definition be32 :: "32 word \<Rightarrow> bytes" where
  "be32 v = [ucast (drop_bit 24 v), ucast (drop_bit 16 v), ucast (drop_bit 8 v), ucast v]"

definition be64 :: "64 word \<Rightarrow> bytes" where
  "be64 v = be32 (ucast (drop_bit 32 v)) @ be32 (ucast v)"

definition le32 :: "32 word \<Rightarrow> bytes" where
  "le32 v = rev (be32 v)"

definition from_be16 :: "byte \<Rightarrow> byte \<Rightarrow> 16 word" where
  "from_be16 a b = push_bit 8 (ucast a) OR ucast b"

definition from_be24 :: "byte \<Rightarrow> byte \<Rightarrow> byte \<Rightarrow> 32 word" where
  "from_be24 a b c = push_bit 16 (ucast a) OR push_bit 8 (ucast b) OR ucast c"

definition from_be32 :: "byte \<Rightarrow> byte \<Rightarrow> byte \<Rightarrow> byte \<Rightarrow> 32 word" where
  "from_be32 a b c d =
     push_bit 24 (ucast a) OR push_bit 16 (ucast b) OR push_bit 8 (ucast c) OR ucast d"

definition from_be64 :: "32 word \<Rightarrow> 32 word \<Rightarrow> 64 word" where
  "from_be64 hi lo = push_bit 32 (ucast hi) OR ucast lo"

lemma length_be [simp]:
  "length (be16 v2) = 2" "length (be24 v3) = 3" "length (be32 v4) = 4"
  "length (be64 v8) = 8" "length (le32 v5) = 4"
  by (simp_all add: be16_def be24_def be32_def be64_def le32_def)

lemma bit_readd: "k \<le> n \<Longrightarrow> bit (v :: 'a::len word) (k + (n - k)) = bit v n"
  by simp

lemma unat_of_nat_lt: "n < 2 ^ LENGTH('a) \<Longrightarrow> unat (of_nat n :: 'a::len word) = n"
  by (simp add: unat_of_nat)

lemma from_be16_parts [wire]: "from_be16 (ucast (drop_bit 8 v)) (ucast v) = v"
  by (rule bit_word_eqI) (auto simp: from_be16_def bit_simps)

lemma from_be32_parts [wire]:
  "from_be32 (ucast (drop_bit 24 v)) (ucast (drop_bit 16 v)) (ucast (drop_bit 8 v)) (ucast v) = v"
proof (rule bit_word_eqI)
  fix n assume n: "n < LENGTH(32)"
  consider "n < 8" | "8 \<le> n" "n < 16" | "16 \<le> n" "n < 24" | "24 \<le> n" by linarith
  then show "bit (from_be32 (ucast (drop_bit 24 v)) (ucast (drop_bit 16 v))
      (ucast (drop_bit 8 v)) (ucast v)) n = bit v n"
    by cases (use n in \<open>auto simp: from_be32_def bit_simps\<close>)
qed

lemma from_be24_parts [wire]:
  "v < 2 ^ 24 \<Longrightarrow>
   from_be24 (ucast (drop_bit 16 v)) (ucast (drop_bit 8 v)) (ucast v) = v"
proof (rule bit_word_eqI)
  fix n assume v: "v < 2 ^ 24" and n: "n < LENGTH(32)"
  have hi: "\<not> bit v n" if "24 \<le> n"
  proof -
    have "v AND mask 24 = v" using v by (rule less_mask_eq)
    then have "bit v n = bit (v AND mask 24) n" by simp
    then show ?thesis using that by (simp add: bit_simps)
  qed
  consider "n < 8" | "8 \<le> n" "n < 16" | "16 \<le> n" "n < 24" | "24 \<le> n" by linarith
  then show "bit (from_be24 (ucast (drop_bit 16 v)) (ucast (drop_bit 8 v)) (ucast v)) n = bit v n"
    by cases (use n hi in \<open>auto simp: from_be24_def bit_simps\<close>)
qed

lemma from_be64_parts [wire]: "from_be64 (ucast (drop_bit 32 v)) (ucast v) = v"
  by (rule bit_word_eqI) (auto simp: from_be64_def bit_simps)

section \<open>Signed 64-bit arithmetic\<close>

definition i64 :: "int \<Rightarrow> int" where
  "i64 x = (x + 2 ^ 63) mod 2 ^ 64 - 2 ^ 63"

lemma i64_id [simp]: "- (2 ^ 63) \<le> x \<Longrightarrow> x < 2 ^ 63 \<Longrightarrow> i64 x = x"
  by (simp add: i64_def)

lemma i64_range [bounds]: "- (2 ^ 63) \<le> i64 x" "i64 x < 2 ^ 63"
  by (simp_all add: i64_def pos_mod_sign)

text \<open>Go's integer division truncates towards zero.\<close>

definition go_div :: "int \<Rightarrow> int \<Rightarrow> int" where
  "go_div a b = sgn a * sgn b * (\<bar>a\<bar> div \<bar>b\<bar>)"

lemma go_div_nonneg: "0 \<le> a \<Longrightarrow> 0 < b \<Longrightarrow> go_div a b = a div b"
  by (cases "a = 0") (auto simp: go_div_def sgn_if)

text \<open>The remainder has the sign of the dividend.\<close>

definition go_mod :: "int \<Rightarrow> int \<Rightarrow> int" where
  "go_mod a b = sgn a * (\<bar>a\<bar> mod \<bar>b\<bar>)"

text \<open>\<open>Time.Sub\<close> saturates at the range of a 64-bit duration; times are nanoseconds.\<close>

definition time_sub :: "int \<Rightarrow> int \<Rightarrow> int" where
  "time_sub a b = max (- (2 ^ 63)) (min (2 ^ 63 - 1) (a - b))"

section \<open>Decimal numbers (fmt's \<open>%d\<close>, strconv.ParseUint in base 10)\<close>

definition digit :: "nat \<Rightarrow> char" where
  "digit d = char_of (48 + d)"

fun decimal :: "nat \<Rightarrow> string" where
  "decimal n = (if n < 10 then [digit n] else decimal (n div 10) @ [digit (n mod 10)])"

declare decimal.simps [simp del]

definition decimal_int :: "int \<Rightarrow> string" where
  "decimal_int x = (if x < 0 then ''-'' @ decimal (nat (- x)) else decimal (nat x))"

definition digit_value :: "char \<Rightarrow> nat option" where
  "digit_value c = (let k = of_char c :: nat in if 48 \<le> k \<and> k \<le> 57 then Some (k - 48) else None)"

fun digits_value :: "nat \<Rightarrow> string \<Rightarrow> nat option" where
  "digits_value acc [] = Some acc"
| "digits_value acc (c # cs) =
     (case digit_value c of None \<Rightarrow> None | Some d \<Rightarrow> digits_value (10 * acc + d) cs)"

text \<open>An unsigned decimal number that fits the given number of bits.\<close>

definition parse_uint :: "nat \<Rightarrow> string \<Rightarrow> nat option" where
  "parse_uint bits s =
     (if s = [] then None
      else case digits_value 0 s of None \<Rightarrow> None | Some n \<Rightarrow> if n < 2 ^ bits then Some n else None)"

lemma digit_value_digit [simp]: "d < 10 \<Longrightarrow> digit_value (digit d) = Some d"
  by (simp add: digit_value_def digit_def Let_def)

lemma digits_value_append:
  "digits_value acc (xs @ ys) = (case digits_value acc xs of None \<Rightarrow> None | Some n \<Rightarrow> digits_value n ys)"
  by (induction xs arbitrary: acc) (auto split: option.splits)

lemma decimal_nonempty [simp]: "decimal n \<noteq> []"
  by (subst decimal.simps) simp

lemma digits_value_decimal: "digits_value 0 (decimal n) = Some n"
proof (induction n rule: decimal.induct)
  case (1 n)
  then show ?case by (cases "n < 10") (simp_all add: decimal.simps [of n] digits_value_append)
qed

lemma parse_uint_decimal: "n < 2 ^ bits \<Longrightarrow> parse_uint bits (decimal n) = Some n"
  by (simp add: parse_uint_def digits_value_decimal)

lemma decimal_inj: "decimal m = decimal n \<Longrightarrow> m = n"
  by (metis digits_value_decimal option.inject)

section \<open>Interface: a self-delimiting wire codec\<close>

text \<open>
  Most formats of the program (pipe frames, AMF values, AVCC units, RTMP messages) are
  written one after another on a byte stream. What a reader relies on is that a decoder
  takes exactly one encoded value off the front, whatever follows. The two loops below are
  the readers' loops: a fixed number of values, and all values up to the end of the input.
\<close>

fun decode_n :: "(bytes \<Rightarrow> ('a \<times> bytes) option) \<Rightarrow> nat \<Rightarrow> bytes \<Rightarrow> ('a list \<times> bytes) option"
where
  "decode_n dec 0 bs = Some ([], bs)"
| "decode_n dec (Suc n) bs =
     (case dec bs of None \<Rightarrow> None
      | Some (x, r) \<Rightarrow> (case decode_n dec n r of None \<Rightarrow> None | Some (xs, r') \<Rightarrow> Some (x # xs, r')))"

fun decode_all :: "(bytes \<Rightarrow> ('a \<times> bytes) option) \<Rightarrow> nat \<Rightarrow> bytes \<Rightarrow> 'a list option" where
  "decode_all dec fuel [] = Some []"
| "decode_all dec 0 (b # bs) = None"
| "decode_all dec (Suc fuel) (b # bs) =
     (case dec (b # bs) of None \<Rightarrow> None | Some (x, r) \<Rightarrow> map_option (Cons x) (decode_all dec fuel r))"

locale prefix_codec =
  fixes enc :: "'a \<Rightarrow> bytes"
    and dec :: "bytes \<Rightarrow> ('a \<times> bytes) option"
    and ok :: "'a \<Rightarrow> bool"
  assumes dec_enc: "ok x \<Longrightarrow> dec (enc x @ rest) = Some (x, rest)"
    and enc_nonempty: "ok x \<Longrightarrow> enc x \<noteq> []"
begin

lemma unambiguous: "ok x \<Longrightarrow> ok y \<Longrightarrow> enc x @ r = enc y @ s \<Longrightarrow> x = y \<and> r = s"
  by (metis dec_enc option.inject prod.inject)

lemma decode_n_enc:
  "\<forall>x\<in>set xs. ok x \<Longrightarrow> decode_n dec (length xs) (concat (map enc xs) @ rest) = Some (xs, rest)"
  by (induction xs) (auto simp: dec_enc)

lemma decode_all_enc:
  "\<forall>x\<in>set xs. ok x \<Longrightarrow> length xs \<le> fuel \<Longrightarrow> decode_all dec fuel (concat (map enc xs)) = Some xs"
proof (induction xs arbitrary: fuel)
  case Nil
  then show ?case by simp
next
  case (Cons x xs)
  then obtain f where f: "fuel = Suc f" by (cases fuel) auto
  from Cons.prems have "enc x \<noteq> []" by (simp add: enc_nonempty)
  then obtain b bs where b: "enc x @ concat (map enc xs) = b # bs" by (cases "enc x") auto
  have "dec (b # bs) = Some (x, concat (map enc xs))"
    using Cons.prems dec_enc [of x "concat (map enc xs)"] b by simp
  with Cons.IH [of f] Cons.prems f b show ?case by simp
qed

end

section \<open>Interface: an event-driven machine\<close>

text \<open>
  A component that is a record with handlers (under one mutex) is a step function over
  events; a run is a fold. \<open>event_machine\<close> lifts a per-step invariant to runs,
  \<open>monotone_machine\<close> adds a counter that never goes back, and \<open>refinement\<close> relates
  the machine to an abstract one.
\<close>

locale event_machine =
  fixes step :: "'s \<Rightarrow> 'e \<Rightarrow> 's"
    and inv :: "'s \<Rightarrow> bool"
    and ev_ok :: "'e \<Rightarrow> bool"
  assumes step_inv: "inv s \<Longrightarrow> ev_ok e \<Longrightarrow> inv (step s e)"
begin

lemma run_inv: "inv s \<Longrightarrow> list_all ev_ok es \<Longrightarrow> inv (foldl step s es)"
  by (induction es arbitrary: s) (auto intro: step_inv)

end

locale monotone_machine = event_machine step inv ev_ok
  for step :: "'s \<Rightarrow> 'e \<Rightarrow> 's" and inv :: "'s \<Rightarrow> bool" and ev_ok :: "'e \<Rightarrow> bool" +
  fixes level :: "'s \<Rightarrow> nat"
  assumes step_level: "inv s \<Longrightarrow> ev_ok e \<Longrightarrow> level s \<le> level (step s e)"
begin

lemma run_level: "inv s \<Longrightarrow> list_all ev_ok es \<Longrightarrow> level s \<le> level (foldl step s es)"
  by (induction es arbitrary: s) (auto intro: step_inv order_trans [OF step_level])

end

locale refinement = event_machine step inv ev_ok
  for step :: "'s \<Rightarrow> 'e \<Rightarrow> 's" and inv :: "'s \<Rightarrow> bool" and ev_ok :: "'e \<Rightarrow> bool" +
  fixes astep :: "'a \<Rightarrow> 'e \<Rightarrow> 'a"
    and abst :: "'s \<Rightarrow> 'a"
  assumes step_refines: "inv s \<Longrightarrow> ev_ok e \<Longrightarrow> abst (step s e) = astep (abst s) e"
begin

lemma run_refines:
  "inv s \<Longrightarrow> list_all ev_ok es \<Longrightarrow> abst (foldl step s es) = foldl astep (abst s) es"
  by (induction es arbitrary: s) (simp_all add: step_refines step_inv)

end

section \<open>Interface: an incremental splitter\<close>

text \<open>
  A reader that collects input in a buffer, takes the complete units off its front and keeps the
  rest (NAL units of a byte stream, lines of a log, frames of fixed size). The law is what makes the
  buffering right: splitting in two steps, with the rest carried over, is splitting at once.
\<close>

locale stream_splitter =
  fixes split :: "'b list \<Rightarrow> 'u list \<times> 'b list"
  assumes split_empty: "split [] = ([], [])"
    and split_append: "split (xs @ ys) =
      (fst (split xs) @ fst (split (snd (split xs) @ ys)), snd (split (snd (split xs) @ ys)))"
begin

definition feed :: "'u list \<times> 'b list \<Rightarrow> 'b list \<Rightarrow> 'u list \<times> 'b list" where
  "feed s c = (fst s @ fst (split (snd s @ c)), snd (split (snd s @ c)))"

lemma feed_split: "feed (split xs) c = split (xs @ c)"
  by (simp only: feed_def split_append [of xs c])

lemma feed_all: "foldl feed ([], []) cs = split (concat cs)"
  by (induction cs rule: rev_induct) (simp_all add: split_empty feed_split)

text \<open>A client whose state is a function of the units so far and the rest sees no chunk boundary.\<close>

lemma client_run:
  assumes step: "\<And>us r c. step (rep us r) c = rep (us @ fst (split (r @ c))) (snd (split (r @ c)))"
  shows "foldl step (rep [] []) cs = rep (fst (split (concat cs))) (snd (split (concat cs)))"
proof -
  have "foldl step (rep us r) cs = rep (fst (foldl feed (us, r) cs)) (snd (foldl feed (us, r) cs))" for us r
    by (induction cs arbitrary: us r) (simp_all add: step feed_def)
  then show ?thesis by (simp add: feed_all)
qed

end

end
