(* ===== verification/Ieee.thy ===== *)
theory Ieee
  imports Prelude
begin

text \<open>
  Floating-point numbers as their IEEE 754 bit patterns: comparison, truncation to integers,
  conversion from integers and between the two widths with rounding to nearest, ties to even. The
  AMF codec, the configuration and the camera parameters use them. Lemmas: comparing patterns is
  comparing values, truncation is monotone, and a 32-bit number survives the way through 64 bits.
\<close>

section \<open>Patterns, truncation, constants\<close>

type_synonym float64 = "64 word"

definition f64_exp :: "float64 \<Rightarrow> nat" where
  "f64_exp v = unat v div 2 ^ 52 mod 2 ^ 11"

definition f64_frac :: "float64 \<Rightarrow> nat" where
  "f64_frac v = unat v mod 2 ^ 52"

definition f64_is_nan :: "float64 \<Rightarrow> bool" where
  "f64_is_nan v \<longleftrightarrow> f64_exp v = 2047 \<and> f64_frac v \<noteq> 0"

definition f64_is_zero :: "float64 \<Rightarrow> bool" where
  "f64_is_zero v \<longleftrightarrow> f64_exp v = 0 \<and> f64_frac v = 0"

text \<open>The \<open>==\<close> of the language: a NaN equals nothing, the two zeros are equal.\<close>

definition f64_eq :: "float64 \<Rightarrow> float64 \<Rightarrow> bool" where
  "f64_eq a b \<longleftrightarrow> \<not> f64_is_nan a \<and> \<not> f64_is_nan b \<and> (a = b \<or> f64_is_zero a \<and> f64_is_zero b)"

text \<open>The value rounded towards zero; \<open>None\<close> for an infinity or a NaN.\<close>

definition f64_trunc :: "float64 \<Rightarrow> int option" where
  "f64_trunc v =
     (let e = f64_exp v;
          m = (if e = 0 then f64_frac v else 2 ^ 52 + f64_frac v);
          x = (if e = 0 then m div 2 ^ 1074 else if 1075 \<le> e then m * 2 ^ (e - 1075) else m div 2 ^ (1075 - e))
      in if e = 2047 then None else Some (if bit v 63 then - int x else int x))"

text \<open>
  \<open>uint32(v)\<close>: the language fixes the result where the truncated value fits and leaves it to
  the implementation elsewhere, hence the parameter \<open>oor\<close>.
\<close>

definition f64_to_u32 :: "(float64 \<Rightarrow> 32 word) \<Rightarrow> float64 \<Rightarrow> 32 word" where
  "f64_to_u32 oor v =
     (case f64_trunc v of Some n \<Rightarrow> if 0 \<le> n \<and> n < 2 ^ 32 then of_int n else oor v | None \<Rightarrow> oor v)"

fun ilog2 :: "nat \<Rightarrow> nat" where
  "ilog2 n = (if n < 2 then 0 else Suc (ilog2 (n div 2)))"

declare ilog2.simps [simp del]

text \<open>The bit pattern of a constant such as \<open>float64(15)\<close>.\<close>

definition f64_of_nat :: "nat \<Rightarrow> float64" where
  "f64_of_nat n =
     (if n = 0 then 0 else let e = ilog2 n in of_nat ((1023 + e) * 2 ^ 52 + (n * 2 ^ (52 - e) - 2 ^ 52)))"

section \<open>Floating-point comparisons\<close>

type_synonym float32 = "32 word"

text \<open>
  Patterns of the same sign are ordered like their magnitudes; the two zeros are equal; a NaN is
  neither below nor above anything.
\<close>

definition ieee_nan :: "nat \<Rightarrow> 'a::len word \<Rightarrow> bool" where
  "ieee_nan expmask x \<longleftrightarrow> expmask < unat (take_bit (LENGTH('a) - 1) x)"

definition ieee_key :: "'a::len word \<Rightarrow> int" where
  "ieee_key x = (let m = int (unat (take_bit (LENGTH('a) - 1) x)) in if bit x (LENGTH('a) - 1) then - m else m)"

definition f64_less :: "float64 \<Rightarrow> float64 \<Rightarrow> bool" where
  "f64_less x y \<longleftrightarrow> \<not> ieee_nan 0x7FF0000000000000 x \<and> \<not> ieee_nan 0x7FF0000000000000 y \<and> ieee_key x < ieee_key y"

definition f32_less :: "float32 \<Rightarrow> float32 \<Rightarrow> bool" where
  "f32_less x y \<longleftrightarrow> \<not> ieee_nan 0x7F800000 x \<and> \<not> ieee_nan 0x7F800000 y \<and> ieee_key x < ieee_key y"

section \<open>Conversions between formats\<close>

text \<open>
  The magnitude of a format is its pattern without the sign: \<open>mb\<close> fraction bits below the exponent.
  A finite magnitude stands for \<open>m * 2 powi e\<close>; \<open>emin\<close> is the exponent of the last place of the
  subnormal numbers.
\<close>

definition fl_decode :: "nat \<Rightarrow> int \<Rightarrow> int \<Rightarrow> int \<times> int" where
  "fl_decode mb emin mag =
     (let e = mag div 2 ^ mb; f = mag mod 2 ^ mb in if e = 0 then (f, emin) else (2 ^ mb + f, emin + e - 1))"

definition round_half_even :: "int \<Rightarrow> nat \<Rightarrow> int" where
  "round_half_even m k =
     (let q = m div 2 ^ k; r = m mod 2 ^ k in if 2 ^ k < 2 * r \<or> 2 * r = 2 ^ k \<and> odd q then q + 1 else q)"

function int_log2 :: "int \<Rightarrow> int" where
  "int_log2 n = (if n < 2 then 0 else 1 + int_log2 (n div 2))"
  by pat_completeness auto
termination by (relation "measure nat") auto

declare int_log2.simps [simp del]

definition fl_encode :: "nat \<Rightarrow> int \<Rightarrow> int \<Rightarrow> int \<times> int \<Rightarrow> int" where
  "fl_encode mb emin top_mag = (\<lambda>(m, e).
     if m = 0 then 0
     else let e' = max (e + int_log2 m - int mb) emin;
              m' = (if e' \<le> e then m * 2 ^ nat (e - e') else round_half_even m (nat (e' - e))) in
          min ((e' - emin) * 2 ^ mb + m') top_mag)"

definition f64_inf :: int where
  "f64_inf = 2047 * 2 ^ 52"

definition f32_inf :: int where
  "f32_inf = 255 * 2 ^ 23"

definition fl_mag :: "'a::len word \<Rightarrow> int" where
  "fl_mag x = uint x mod 2 ^ (LENGTH('a) - 1)"

definition with_sign :: "bool \<Rightarrow> int \<Rightarrow> 'a::len word" where
  "with_sign neg mag = (if neg then word_of_int (2 ^ (LENGTH('a) - 1) + mag) else word_of_int mag)"

text \<open>\<open>float64(n)\<close>, \<open>float64(x)\<close> and \<open>float32(x)\<close>; a NaN becomes quiet and keeps what fits of its payload.\<close>

definition f64_of_int :: "int \<Rightarrow> float64" where
  "f64_of_int n = with_sign (n < 0) (fl_encode 52 (-1074) f64_inf (\<bar>n\<bar>, 0))"

definition f64_of_f32 :: "float32 \<Rightarrow> float64" where
  "f64_of_f32 x =
     (let mag = fl_mag x in
      with_sign (bit x 31)
        (if mag < f32_inf then fl_encode 52 (-1074) f64_inf (fl_decode 23 (-149) mag)
         else if mag = f32_inf then f64_inf
         else f64_inf + (2 ^ 51 + (mag - f32_inf) mod 2 ^ 22 * 2 ^ 29)))"

definition f32_of_f64 :: "float64 \<Rightarrow> float32" where
  "f32_of_f64 x =
     (let mag = fl_mag x in
      with_sign (bit x 63)
        (if mag < f64_inf then fl_encode 23 (-149) f32_inf (fl_decode 52 (-1074) mag)
         else if mag = f64_inf then f32_inf
         else f32_inf + (2 ^ 22 + (mag - f64_inf) div 2 ^ 29 mod 2 ^ 22)))"

text \<open>\<open>uint64(x)\<close>: outside the range the language leaves the result to the implementation (\<open>oor\<close>).\<close>

definition f64_to_u64 :: "(float64 \<Rightarrow> 64 word) \<Rightarrow> float64 \<Rightarrow> 64 word" where
  "f64_to_u64 oor x =
     (case f64_trunc x of Some n \<Rightarrow> if 0 \<le> n \<and> n < 2 ^ 64 then of_int n else oor x | None \<Rightarrow> oor x)"

section \<open>A 32-bit number survives 64 bits\<close>

lemma int_log2_bounds: "0 < n \<Longrightarrow> 0 \<le> int_log2 n \<and> 2 ^ nat (int_log2 n) \<le> n \<and> n < 2 ^ Suc (nat (int_log2 n))"
proof (induction n rule: int_log2.induct)
  case (1 n)
  show ?case
  proof (cases "n < 2")
    case False
    then have ih: "0 \<le> int_log2 (n div 2)" "2 ^ nat (int_log2 (n div 2)) \<le> n div 2" "n div 2 < 2 ^ Suc (nat (int_log2 (n div 2)))"
      using 1 by auto
    have "nat (int_log2 n) = Suc (nat (int_log2 (n div 2)))" using False ih(1) by (simp add: int_log2.simps [of n])
    then have k: "nat (int_log2 n) = Suc (nat (int_log2 (n div 2)))" .
    define p where "p = (2 :: int) ^ nat (int_log2 (n div 2))"
    have "p \<le> n div 2" "n div 2 < 2 * p" using ih by (simp_all add: p_def)
    then have "2 * p \<le> n" "n < 2 * (2 * p)" by presburger+
    moreover have "0 \<le> int_log2 n" using ih(1) False by (simp add: int_log2.simps [of n])
    ultimately show ?thesis unfolding k by (simp add: p_def)
  qed (use "1.prems" in \<open>simp add: int_log2.simps [of n]\<close>)
qed

lemma int_log2_unique: "2 ^ k \<le> n \<Longrightarrow> n < 2 ^ Suc k \<Longrightarrow> int_log2 n = int k"
proof -
  assume a: "(2 :: int) ^ k \<le> n" "n < 2 ^ Suc k"
  then have n: "0 < n" using zero_less_power [of "2 :: int" k] by linarith
  define j where "j = nat (int_log2 n)"
  have j: "2 ^ j \<le> n" "n < 2 ^ Suc j" "int_log2 n = int j" using int_log2_bounds [OF n] by (simp_all add: j_def)
  have "(2 :: int) ^ j < 2 ^ Suc k" "(2 :: int) ^ k < 2 ^ Suc j" using a j by linarith+
  then have "j < Suc k" "k < Suc j" by (simp_all only: power_strict_increasing_iff one_less_numeral_iff semiring_norm)
  then show ?thesis using j by simp
qed

lemma fl_decode_finite:
  assumes "0 < mag" "mag < 255 * 2 ^ 23" "fl_decode 23 (-149) mag = (m, e)"
  shows "0 < m" "m < 2 ^ 24" "-149 \<le> e" "e \<le> 104" "(e + 149) * 2 ^ 23 + m = mag" "m < 2 ^ 23 \<Longrightarrow> e = -149"
proof -
  define E f where "E = mag div 2 ^ 23" and "f = mag mod 2 ^ 23"
  have split: "mag = E * 2 ^ 23 + f" "0 \<le> f" "f < 2 ^ 23" by (simp_all add: E_def f_def)
  have E: "0 \<le> E" "E < 255" using assms by (simp_all add: E_def pos_imp_zdiv_nonneg_iff)
  have "(m, e) = (if E = 0 then (f, - 149) else (2 ^ 23 + f, E - 150))"
    unfolding assms(3) [symmetric] fl_decode_def E_def f_def Let_def by simp
  then show "0 < m" "m < 2 ^ 24" "-149 \<le> e" "e \<le> 104" "(e + 149) * 2 ^ 23 + m = mag" "m < 2 ^ 23 \<Longrightarrow> e = -149"
    using split E assms(1) by (auto simp: algebra_simps split: if_splits)
qed

lemma round_exact: "round_half_even (m * 2 ^ k) k = m"
  by (simp add: round_half_even_def)

lemma fl_encode_widen:
  assumes "0 < m" "m < 2 ^ 24" "-149 \<le> e" "e \<le> 104" "L = nat (int_log2 m)"
  shows "fl_encode 52 (-1074) f64_inf (m, e) = (e + int L - 52 + 1074) * 2 ^ 52 + m * 2 ^ (52 - L)"
    and "2 ^ 52 \<le> m * 2 ^ (52 - L)" "m * 2 ^ (52 - L) < 2 ^ 53" "L < 24"
proof -
  have L: "0 \<le> int_log2 m" "2 ^ L \<le> m" "m < 2 ^ Suc L" using int_log2_bounds [OF assms(1)] assms(5) by simp_all
  have "(2 :: int) ^ L < 2 ^ 24" using L assms(2) by linarith
  then show l: "L < 24" by (simp only: power_strict_increasing_iff one_less_numeral_iff semiring_norm)
  have "2 ^ L * 2 ^ (52 - L) \<le> m * 2 ^ (52 - L)" "m * 2 ^ (52 - L) < 2 ^ Suc L * 2 ^ (52 - L)" using L by simp_all
  moreover have "(2 :: int) ^ L * 2 ^ (52 - L) = 2 ^ 52" "(2 :: int) ^ Suc L * 2 ^ (52 - L) = 2 ^ 53"
    using l by (simp_all only: power_add [symmetric]) simp_all
  ultimately show b: "2 ^ 52 \<le> m * 2 ^ (52 - L)" "m * 2 ^ (52 - L) < 2 ^ 53" by presburger+
  have e': "max (e + int_log2 m - int 52) (-1074) = e + int L - 52" using assms L(1) by simp
  have "e + int L - 52 \<le> e" "nat (e - (e + int L - 52)) = 52 - L" using l by simp_all
  moreover have "(e + int L - 52 + 1074) * 2 ^ 52 + m * 2 ^ (52 - L) \<le> f64_inf"
  proof -
    have "(e + int L - 52 + 1074) * 2 ^ 52 \<le> 1150 * (2 :: int) ^ 52" using l assms(4) by simp
    then show ?thesis using b by (simp add: f64_inf_def)
  qed
  ultimately show "fl_encode 52 (-1074) f64_inf (m, e) = (e + int L - 52 + 1074) * 2 ^ 52 + m * 2 ^ (52 - L)"
    using assms(1) unfolding fl_encode_def prod.case e' Let_def by simp
qed

lemma narrow_widen:
  assumes "0 \<le> mag" "mag < f32_inf"
  shows "fl_encode 23 (-149) f32_inf (fl_decode 52 (-1074) (fl_encode 52 (-1074) f64_inf (fl_decode 23 (-149) mag))) = mag"
    and "0 \<le> fl_encode 52 (-1074) f64_inf (fl_decode 23 (-149) mag)"
    and "fl_encode 52 (-1074) f64_inf (fl_decode 23 (-149) mag) < f64_inf"
proof -
  have "fl_encode 23 (-149) f32_inf (fl_decode 52 (-1074) w) = mag \<and> 0 \<le> w \<and> w < f64_inf"
    if w: "w = fl_encode 52 (-1074) f64_inf (fl_decode 23 (-149) mag)" for w
  proof (cases "mag = 0")
    case True
    then show ?thesis by (simp add: w fl_encode_def fl_decode_def f64_inf_def)
  next
    case False
    obtain m e where d: "fl_decode 23 (-149) mag = (m, e)" by fastforce
    have r: "0 < m" "m < 2 ^ 24" "-149 \<le> e" "e \<le> 104" "(e + 149) * 2 ^ 23 + m = mag" "m < 2 ^ 23 \<Longrightarrow> e = -149"
      using fl_decode_finite [OF _ _ d] False assms by (simp_all add: f32_inf_def)
    define L where "L = nat (int_log2 m)"
    define m' where "m' = m * 2 ^ (52 - L)"
    note en = fl_encode_widen [OF r(1-4) L_def, folded m'_def]
    have wv: "w = (e + int L - 52 + 1074) * 2 ^ 52 + m'" using en(1) by (simp add: w d)
    have w': "w = (e + int L - 52 + 1075) * 2 ^ 52 + (m' - 2 ^ 52)" by (simp add: wv algebra_simps)
    have q: "w div 2 ^ 52 = e + int L - 52 + 1075" "w mod 2 ^ 52 = m' - 2 ^ 52"
    proof -
      have m: "0 \<le> m' - 2 ^ 52" "m' - 2 ^ 52 < 2 ^ 52" using en(2,3) by simp_all
      show "w div 2 ^ 52 = e + int L - 52 + 1075" unfolding w' using m by (simp only: div_mult_self3 div_pos_pos_trivial)
      show "w mod 2 ^ 52 = m' - 2 ^ 52" unfolding w' using m by (simp only: mod_mult_self3 mod_pos_pos_trivial)
    qed
    have dec: "fl_decode 52 (-1074) w = (m', e + int L - 52)"
      using q r(3) by (simp add: fl_decode_def)
    have lm: "int_log2 m' = 52" using int_log2_unique [of 52 m'] en(2,3) by simp
    have small: "L < 23 \<Longrightarrow> m < 2 ^ 23"
    proof -
      assume "L < 23"
      have "m < 2 ^ Suc L" using int_log2_bounds [OF r(1)] by (simp add: L_def)
      also have "(2 :: int) ^ Suc L \<le> 2 ^ 23" using \<open>L < 23\<close> by (intro power_increasing) auto
      finally show ?thesis .
    qed
    have ex: "max (e + int L - 52 + 52 - int 23) (-149) = e" using r(3,6) small en(4) by (cases "L < 23") auto
    have sh: "\<not> e \<le> e + int L - 52" "nat (e - (e + int L - 52)) = 52 - L" using en(4) by simp_all
    have "m' \<noteq> 0" using en(2) by auto
    have "fl_encode 23 (-149) f32_inf (m', e + int L - 52) = min ((e - (-149)) * 2 ^ 23 + round_half_even m' (52 - L)) f32_inf"
      using \<open>m' \<noteq> 0\<close> unfolding fl_encode_def prod.case lm ex Let_def sh(2) by (simp only: sh if_False)
    also have "\<dots> = mag" using r(5) assms(2) by (simp add: m'_def round_exact)
    finally have "fl_encode 23 (-149) f32_inf (fl_decode 52 (-1074) w) = mag" by (simp add: dec)
    moreover have "w < f64_inf"
    proof -
      have "(e + int L - 52 + 1074) * 2 ^ 52 \<le> 1150 * (2 :: int) ^ 52" using en(4) r(4) by simp
      then show ?thesis using en(3) by (simp add: wv f64_inf_def)
    qed
    moreover have "0 \<le> w" using en(2) r(3) by (simp add: wv)
    ultimately show ?thesis by simp
  qed
  then show "fl_encode 23 (-149) f32_inf (fl_decode 52 (-1074) (fl_encode 52 (-1074) f64_inf (fl_decode 23 (-149) mag))) = mag"
    and "0 \<le> fl_encode 52 (-1074) f64_inf (fl_decode 23 (-149) mag)"
    and "fl_encode 52 (-1074) f64_inf (fl_decode 23 (-149) mag) < f64_inf" by blast+
qed

lemma bit_top: "bit x (LENGTH('a) - 1) = odd (uint (x :: 'a::len word) div 2 ^ (LENGTH('a) - 1))"
proof -
  have "odd (uint x div 2 ^ (LENGTH('a) - 1)) = bit (uint x) (LENGTH('a) - 1)" by (simp only: bit_iff_odd)
  then show ?thesis by (simp add: bit_uint_iff)
qed

lemma with_sign_parts:
  assumes "0 \<le> mag" "mag < 2 ^ (LENGTH('a) - 1)"
  shows "fl_mag (with_sign s mag :: 'a::len word) = mag" and "bit (with_sign s mag :: 'a word) (LENGTH('a) - 1) = s"
proof -
  have l: "(2 :: int) ^ LENGTH('a) = 2 * 2 ^ (LENGTH('a) - 1)"
    using len_gt_0 [where 'a = 'a] by (cases "LENGTH('a)") auto
  have u: "uint (with_sign s mag :: 'a word) = (if s then 2 ^ (LENGTH('a) - 1) + mag else mag)"
  proof -
    have u: "uint (word_of_int k :: 'a word) = k" if "0 \<le> k" "k < 2 ^ LENGTH('a)" for k
      using that by (simp add: uint_word_of_int_eq take_bit_int_eq_self)
    show ?thesis
    proof (cases s)
      case True
      have "uint (word_of_int (2 ^ (LENGTH('a) - 1) + mag) :: 'a word) = 2 ^ (LENGTH('a) - 1) + mag"
        using assms l by (intro u) linarith+
      then show ?thesis using True by (simp only: with_sign_def if_True)
    next
      case False
      have "uint (word_of_int mag :: 'a word) = mag" using assms l by (intro u) linarith+
      then show ?thesis using False by (simp only: with_sign_def if_False)
    qed
  qed
  show "fl_mag (with_sign s mag :: 'a word) = mag" using assms by (simp add: fl_mag_def u)
  have "bit (with_sign s mag :: 'a word) (LENGTH('a) - 1) = odd (uint (with_sign s mag :: 'a word) div 2 ^ (LENGTH('a) - 1))"
    by (rule bit_top)
  also have "\<dots> = s" using assms unfolding u by (simp add: div_add_self1)
  finally show "bit (with_sign s mag :: 'a word) (LENGTH('a) - 1) = s" .
qed

lemma with_sign_id: "with_sign (bit x (LENGTH('a) - 1)) (fl_mag x) = (x :: 'a::len word)"
proof -
  define h where "h = (2 :: int) ^ (LENGTH('a) - 1)"
  have l: "(2 :: int) ^ LENGTH('a) = 2 * h"
    using len_gt_0 [where 'a = 'a] by (cases "LENGTH('a)") (auto simp: h_def)
  have h: "0 < h" by (simp add: h_def)
  have u: "0 \<le> uint x" "uint x < 2 * h" using uint_lt2p [of x] l by simp_all
  have "uint x div h = 0 \<or> uint x div h = 1"
  proof (cases "uint x < h")
    case False
    have "uint x div h = 1" by (rule int_div_pos_eq [of _ _ _ "uint x - h"]) (use u False in simp_all)
    then show ?thesis ..
  qed (use u in simp)
  moreover have "uint x = uint x div h * h + fl_mag x" by (simp only: fl_mag_def h_def div_mult_mod_eq)
  moreover have "bit x (LENGTH('a) - 1) = odd (uint x div h)"
    unfolding h_def by (rule bit_top)
  ultimately have "(if bit x (LENGTH('a) - 1) then h + fl_mag x else fl_mag x) = uint x" by auto
  moreover have "with_sign (bit x (LENGTH('a) - 1)) (fl_mag x) =
      (word_of_int (if bit x (LENGTH('a) - 1) then h + fl_mag x else fl_mag x) :: 'a word)"
    by (simp only: with_sign_def h_def if_distrib [of word_of_int])
  ultimately show ?thesis by (simp only: word_of_int_uint)
qed

lemma f32_through_f64:
  assumes "\<not> ieee_nan 0x7F800000 x"
  shows "f32_of_f64 (f64_of_f32 x) = x"
proof -
  define mag where "mag = fl_mag x"
  have mag: "0 \<le> mag" "mag \<le> f32_inf" "mag < 2 ^ 31"
  proof -
    have "uint (take_bit 31 x) = take_bit 31 (uint x)" by (rule unsigned_take_bit_eq)
    then have "uint (take_bit 31 x) = mag" by (simp only: mag_def fl_mag_def take_bit_eq_mod) simp
    moreover obtain n where n: "n = unat (take_bit 31 x)" by blast
    ultimately have "mag = int n" by (simp only: of_nat_unat)
    moreover have "\<not> 2139095040 < n" using assms by (simp add: ieee_nan_def n)
    ultimately show "0 \<le> mag" "mag \<le> f32_inf" by (simp_all add: f32_inf_def)
    show "mag < 2 ^ 31" by (simp add: mag_def fl_mag_def)
  qed
  define w where "w = (if mag < f32_inf then fl_encode 52 (-1074) f64_inf (fl_decode 23 (-149) mag) else f64_inf)"
  have w: "0 \<le> w" "w \<le> f64_inf" "mag < f32_inf \<longleftrightarrow> w < f64_inf"
    using narrow_widen(2,3) [of mag] mag by (auto simp: w_def f64_inf_def)
  have x: "f64_of_f32 x = with_sign (bit x 31) w"
    using mag by (auto simp: f64_of_f32_def Let_def w_def mag_def)
  have parts: "fl_mag (f64_of_f32 x) = w" "bit (f64_of_f32 x) 63 = bit x 31"
    unfolding x using with_sign_parts [where 'a = 64, of w "bit x 31"] w by (simp_all add: f64_inf_def)
  have "f32_of_f64 (f64_of_f32 x) = with_sign (bit x 31) mag"
  proof (cases "w < f64_inf")
    case True
    then have "fl_encode 23 (-149) f32_inf (fl_decode 52 (-1074) w) = mag"
      using narrow_widen(1) [of mag] mag w(3) unfolding w_def by simp
    then show ?thesis using True by (simp only: f32_of_f64_def Let_def parts if_True)
  next
    case False
    then have "w = f64_inf" "mag = f32_inf" using w mag(2) by simp_all
    then show ?thesis unfolding f32_of_f64_def Let_def parts by (simp only: less_irrefl if_False refl if_True simp_thms)
  qed
  then show ?thesis using with_sign_id [of x] by (simp add: mag_def)
qed

section \<open>Truncation is monotone\<close>

definition f64_scaled :: "float64 \<Rightarrow> nat" where
  "f64_scaled x = (if f64_exp x = 0 then f64_frac x else (2 ^ 52 + f64_frac x) * 2 ^ (f64_exp x - 1))"

lemma f64_trunc_scaled:
  "f64_trunc x = (if f64_exp x = 2047 then None
     else Some (if bit x 63 then - int (f64_scaled x div 2 ^ 1074) else int (f64_scaled x div 2 ^ 1074)))"
proof -
  have a: "(2 ^ 52 + f64_frac x) * 2 ^ (f64_exp x - 1) div 2 ^ 1074 = (2 ^ 52 + f64_frac x) * 2 ^ (f64_exp x - 1075)"
    if "1075 \<le> f64_exp x"
  proof -
    have "(2 :: nat) ^ (f64_exp x - 1) = 2 ^ (f64_exp x - 1075) * 2 ^ 1074" using that by (simp only: power_add [symmetric]) simp
    then show ?thesis by (simp only: mult.assoc [symmetric] nonzero_mult_div_cancel_right) simp
  qed
  have b: "(2 ^ 52 + f64_frac x) * 2 ^ (f64_exp x - 1) div 2 ^ 1074 = (2 ^ 52 + f64_frac x) div 2 ^ (1075 - f64_exp x)"
    if "f64_exp x \<noteq> 0" "\<not> 1075 \<le> f64_exp x"
  proof -
    have "(2 :: nat) ^ 1074 = 2 ^ (1075 - f64_exp x) * 2 ^ (f64_exp x - 1)" using that by (simp only: power_add [symmetric]) simp
    then show ?thesis by (simp only: div_mult_mult2 power_not_zero zero_neq_numeral not_False_eq_True)
  qed
  show ?thesis using a b unfolding f64_trunc_def f64_scaled_def Let_def by (cases "f64_exp x = 0") (auto simp del: power_numeral)
qed

definition f64_magnitude :: "float64 \<Rightarrow> nat" where
  "f64_magnitude x = f64_exp x * 2 ^ 52 + f64_frac x"

lemma f64_magnitude_key: "f64_magnitude x = unat (take_bit 63 x)"
proof -
  have "unat (take_bit 63 x) = take_bit 63 (unat x)" by (rule unsigned_take_bit_eq)
  also have "\<dots> = unat x mod 2 ^ 63" by (rule take_bit_eq_mod)
  also have "(2 :: nat) ^ 63 = 2 ^ 52 * 2 ^ 11" by simp
  also have "unat x mod (2 ^ 52 * 2 ^ 11) = 2 ^ 52 * (unat x div 2 ^ 52 mod 2 ^ 11) + unat x mod 2 ^ 52" by (rule mod_mult2_eq)
  finally show ?thesis by (simp only: f64_magnitude_def f64_exp_def f64_frac_def mult.commute)
qed

lemma f64_scaled_mono: "f64_magnitude x \<le> f64_magnitude y \<Longrightarrow> f64_scaled x \<le> f64_scaled y"
proof -
  assume le: "f64_magnitude x \<le> f64_magnitude y"
  have fx: "f64_frac x < 2 ^ 52" and fy: "f64_frac y < 2 ^ 52" by (simp_all add: f64_frac_def)
  have ex: "f64_exp x \<le> f64_exp y"
  proof (rule ccontr)
    assume "\<not> f64_exp x \<le> f64_exp y"
    then have "(f64_exp y + 1) * 2 ^ 52 \<le> f64_exp x * 2 ^ 52" by (intro mult_right_mono) auto
    then show False using le fy by (simp add: f64_magnitude_def)
  qed
  show ?thesis
  proof (cases "f64_exp x = f64_exp y")
    case True
    then have "f64_frac x \<le> f64_frac y" using le by (simp add: f64_magnitude_def)
    then show ?thesis using True by (simp add: f64_scaled_def)
  next
    case False
    then have lt: "f64_exp x \<le> f64_exp y - 1" "f64_exp y \<noteq> 0" using ex by auto
    have "f64_scaled x \<le> 2 ^ 53 * 2 ^ (f64_exp x - 1) \<and> f64_scaled x \<le> 2 ^ 52 * 2 ^ f64_exp x"
    proof (cases "f64_exp x = 0")
      case False
      have "2 ^ 52 + f64_frac x \<le> 2 ^ 53" using fx by simp
      then have "f64_scaled x \<le> 2 ^ 53 * 2 ^ (f64_exp x - 1)" using False
        unfolding f64_scaled_def by (simp only: if_False) (rule mult_right_mono, simp_all)
      moreover have "(2 :: nat) ^ 53 * 2 ^ (f64_exp x - 1) = 2 ^ 52 * 2 ^ f64_exp x"
        using False by (cases "f64_exp x") simp_all
      ultimately show ?thesis by simp
    qed (use fx in \<open>simp add: f64_scaled_def\<close>)
    then have "f64_scaled x \<le> 2 ^ 52 * 2 ^ f64_exp x" by blast
    also have "\<dots> \<le> 2 ^ 52 * 2 ^ (f64_exp y - 1)" using lt by (intro mult_left_mono power_increasing) auto
    also have "\<dots> \<le> f64_scaled y" using lt by (simp add: f64_scaled_def)
    finally show ?thesis .
  qed
qed

text \<open>A number between two non-negative bounds truncates between what they truncate to.\<close>

lemma f64_trunc_between:
  assumes "f64_trunc lo = Some a" "f64_trunc hi = Some b" "\<not> bit lo 63"
    "\<not> ieee_nan 0x7FF0000000000000 x" "\<not> f64_less x lo" "\<not> f64_less hi x" 
    "\<not> ieee_nan 0x7FF0000000000000 lo" "\<not> ieee_nan 0x7FF0000000000000 hi" "0 < ieee_key lo" "ieee_key lo \<le> ieee_key hi"
  shows "\<exists>n. f64_trunc x = Some n \<and> a \<le> n \<and> n \<le> b"
proof -
  have key: "ieee_key lo \<le> ieee_key x" "ieee_key x \<le> ieee_key hi" using assms(4-8) by (auto simp: f64_less_def)
  have k: "ieee_key y = (if bit y 63 then - int (f64_magnitude y) else int (f64_magnitude y))" for y :: float64
    by (simp add: ieee_key_def Let_def f64_magnitude_key)
  have pos: "\<not> bit y 63" if "0 < ieee_key y" for y :: float64 using that by (auto simp: k)
  have nb: "\<not> bit lo 63" "\<not> bit x 63" "\<not> bit hi 63" using pos [of lo] pos [of x] pos [of hi] key assms(9) by linarith+
  then have mag: "f64_magnitude lo \<le> f64_magnitude x" "f64_magnitude x \<le> f64_magnitude hi" using key by (simp_all add: k)
  have hi: "f64_exp hi < 2047"
  proof -
    have "f64_exp hi \<noteq> 2047" using assms(2) by (auto simp: f64_trunc_scaled)
    moreover have "f64_exp hi < 2 ^ 11" by (simp add: f64_exp_def)
    ultimately show ?thesis by simp
  qed
  have "f64_exp x \<noteq> 2047"
  proof
    assume "f64_exp x = 2047"
    then have "2047 * 2 ^ 52 \<le> f64_exp hi * 2 ^ 52 + f64_frac hi" using mag(2) by (simp add: f64_magnitude_def)
    moreover have "f64_exp hi * 2 ^ 52 \<le> 2046 * 2 ^ 52" using hi by (intro mult_right_mono) auto
    moreover have "f64_frac hi < 2 ^ 52" by (simp add: f64_frac_def)
    ultimately show False by linarith
  qed
  then have "f64_trunc x = Some (int (f64_scaled x div 2 ^ 1074))" using nb by (simp only: f64_trunc_scaled if_False)
  moreover have "a = int (f64_scaled lo div 2 ^ 1074)" "b = int (f64_scaled hi div 2 ^ 1074)"
    using assms(1,2) nb unfolding f64_trunc_scaled by (auto split: if_splits simp del: power_numeral)
  moreover have "f64_scaled lo div 2 ^ 1074 \<le> f64_scaled x div 2 ^ 1074" "f64_scaled x div 2 ^ 1074 \<le> f64_scaled hi div 2 ^ 1074"
    by (rule div_le_mono [OF f64_scaled_mono [OF mag(1)]], rule div_le_mono [OF f64_scaled_mono [OF mag(2)]])
  ultimately show ?thesis by (intro exI conjI) (assumption, simp_all only: of_nat_le_iff)
qed

section \<open>Integers as floating-point numbers\<close>

lemma fl_encode_int:
  assumes "0 < n" "L = nat (int_log2 n)" "L \<le> 900"
  shows "fl_encode 52 (-1074) f64_inf (n, 0) =
    (int L + 1022) * 2 ^ 52 + (if L \<le> 52 then n * 2 ^ (52 - L) else round_half_even n (L - 52))"
    and "2 ^ 52 \<le> (if L \<le> 52 then n * 2 ^ (52 - L) else round_half_even n (L - 52))"
    and "L \<le> 52 \<Longrightarrow> n * 2 ^ (52 - L) < 2 ^ 53"
proof -
  have L: "0 \<le> int_log2 n" "2 ^ L \<le> n" "n < 2 ^ Suc L" using int_log2_bounds [OF assms(1)] assms(2) by simp_all
  let ?m = "if L \<le> 52 then n * 2 ^ (52 - L) else round_half_even n (L - 52)"
  have m: "2 ^ 52 \<le> ?m \<and> ?m \<le> 2 ^ 53 \<and> (L \<le> 52 \<longrightarrow> ?m < 2 ^ 53)"
  proof (cases "L \<le> 52")
    case True
    have "2 ^ L * 2 ^ (52 - L) \<le> n * 2 ^ (52 - L)" "n * 2 ^ (52 - L) < 2 ^ Suc L * 2 ^ (52 - L)" using L by simp_all
    moreover have "(2 :: int) ^ L * 2 ^ (52 - L) = 2 ^ 52" "(2 :: int) ^ Suc L * 2 ^ (52 - L) = 2 ^ 53"
      using True by (simp_all only: power_add [symmetric]) simp_all
    ultimately have "2 ^ 52 \<le> n * 2 ^ (52 - L)" "n * 2 ^ (52 - L) < 2 ^ 53" by presburger+
    then show ?thesis using True by simp
  next
    case False
    let ?k = "L - 52"
    have p: "(2 :: int) ^ L = 2 ^ 52 * 2 ^ ?k" "(2 :: int) ^ Suc L = 2 ^ 53 * 2 ^ ?k"
      using False by (simp_all only: power_add [symmetric]) simp_all
    have "2 ^ 52 \<le> n div 2 ^ ?k" using zdiv_mono1 [OF L(2), of "2 ^ ?k"] unfolding p by simp
    moreover have "n div 2 ^ ?k < 2 ^ 53"
    proof (rule ccontr)
      assume "\<not> n div 2 ^ ?k < 2 ^ 53"
      then have "2 ^ 53 * 2 ^ ?k \<le> n div 2 ^ ?k * 2 ^ ?k" by (intro mult_right_mono) auto
      also have "\<dots> \<le> n" by (simp add: minus_mod_eq_div_mult [symmetric])
      finally show False using L(3) p by linarith
    qed
    ultimately have q: "2 ^ 52 \<le> n div 2 ^ ?k" "n div 2 ^ ?k < 2 ^ 53" .
    then have "2 ^ 52 \<le> round_half_even n ?k" "round_half_even n ?k \<le> 2 ^ 53" by (simp_all add: round_half_even_def Let_def)
    then show ?thesis using False by simp
  qed
  show "2 ^ 52 \<le> ?m" "L \<le> 52 \<Longrightarrow> n * 2 ^ (52 - L) < 2 ^ 53" using m by auto
  have e': "max (0 + int_log2 n - int 52) (-1074) = int L - 52" using L(1) assms(2,3) by simp
  have m': "(if int L - 52 \<le> 0 then n * 2 ^ nat (0 - (int L - 52)) else round_half_even n (nat (int L - 52 - 0))) = ?m"
    by (simp add: nat_diff_distrib')
  have "(int L - 52 - (-1074)) * 2 ^ 52 + ?m \<le> f64_inf"
  proof -
    have "(int L - 52 - (-1074)) * 2 ^ 52 \<le> 1922 * (2 :: int) ^ 52" using assms(3) by simp
    then show ?thesis using m by (simp add: f64_inf_def)
  qed
  then show "fl_encode 52 (-1074) f64_inf (n, 0) = (int L + 1022) * 2 ^ 52 + ?m"
    using assms(1) unfolding fl_encode_def prod.case e' Let_def m' by simp
qed

lemma f64_of_int_parts:
  assumes "0 < n" "n < 2 ^ 64"
  shows "\<exists>L m. 2 ^ L \<le> n \<and> n < 2 ^ Suc L \<and> L < 64 \<and>
    fl_mag (f64_of_int n) = (int L + 1022) * 2 ^ 52 + m \<and> \<not> bit (f64_of_int n) 63 \<and> 2 ^ 52 \<le> m \<and>
    (L \<le> 52 \<longrightarrow> m = n * 2 ^ (52 - L) \<and> m < 2 ^ 53) \<and> fl_mag (f64_of_int n) \<le> f64_inf"
proof -
  define L where "L = nat (int_log2 n)"
  have b: "2 ^ L \<le> n" "n < 2 ^ Suc L" using int_log2_bounds [OF assms(1)] by (simp_all add: L_def)
  have "(2 :: int) ^ L < 2 ^ 64" using b assms(2) by linarith
  then have L: "L < 64" by (simp only: power_strict_increasing_iff one_less_numeral_iff semiring_norm)
  define m where "m = (if L \<le> 52 then n * 2 ^ (52 - L) else round_half_even n (L - 52))"
  note en = fl_encode_int [OF assms(1) L_def, folded m_def]
  have en': "fl_encode 52 (-1074) f64_inf (n, 0) = (int L + 1022) * 2 ^ 52 + m" "2 ^ 52 \<le> m" using en L by simp_all
  have le_top: "(int L + 1022) * 2 ^ 52 + m \<le> f64_inf"
    using assms(1) unfolding en'(1) [symmetric] by (simp add: fl_encode_def Let_def)
  then have top: "(int L + 1022) * 2 ^ 52 + m < 2 ^ (LENGTH(64) - 1)" by (simp add: f64_inf_def)
  moreover have nn: "0 \<le> (int L + 1022) * 2 ^ 52 + m" using en'(2) by (intro add_nonneg_nonneg) auto
  moreover have f: "f64_of_int n = with_sign False ((int L + 1022) * 2 ^ 52 + m)" using assms(1) by (simp add: f64_of_int_def en')
  ultimately have "fl_mag (f64_of_int n) = (int L + 1022) * 2 ^ 52 + m" "bit (f64_of_int n) (LENGTH(64) - 1) = False"
    unfolding f by (simp_all only: with_sign_parts)
  moreover from this(2) have "\<not> bit (f64_of_int n) 63" by simp
  moreover have "fl_mag (f64_of_int n) \<le> f64_inf" using le_top calculation(1) by simp
  moreover have "L \<le> 52 \<longrightarrow> m = n * 2 ^ (52 - L) \<and> m < 2 ^ 53" using en(3) L by (simp add: m_def)
  ultimately show ?thesis using b L en'(2) by (intro exI [of _ L] exI [of _ m] conjI) assumption+
qed

lemma fl_mag_magnitude: "fl_mag x = int (f64_magnitude x)" for x :: float64
proof -
  have "uint (take_bit 63 x) = take_bit 63 (uint x)" by (rule unsigned_take_bit_eq)
  then have "uint (take_bit 63 x) = fl_mag x" by (simp only: fl_mag_def take_bit_eq_mod) simp
  then show ?thesis by (simp only: f64_magnitude_key of_nat_unat)
qed

lemma f64_key: "ieee_key y = (if bit y 63 then - int (f64_magnitude y) else int (f64_magnitude y))" for y :: float64
  by (simp add: ieee_key_def Let_def f64_magnitude_key)

lemma quotient_unique:
  "0 \<le> (b :: int) \<Longrightarrow> b < c \<Longrightarrow> 0 \<le> b' \<Longrightarrow> b' < c \<Longrightarrow> a * c + b = a' * c + b' \<Longrightarrow> a = a' \<and> b = b'"
proof -
  assume a: "0 \<le> b" "b < c" "0 \<le> b'" "b' < c" and e: "a * c + b = a' * c + b'"
  have "(a * c + b) div c = a" "(a' * c + b') div c = a'" using a by (simp_all add: div_pos_pos_trivial)
  then show ?thesis using e by auto
qed

lemma f64_trunc_of_int:
  assumes "0 < n" "n < 2 ^ 53"
  shows "f64_trunc (f64_of_int n) = Some n"
proof -
  obtain L m where p: "2 ^ L \<le> n" "n < 2 ^ Suc L" "L < 64" "fl_mag (f64_of_int n) = (int L + 1022) * 2 ^ 52 + m"
      "\<not> bit (f64_of_int n) 63" "2 ^ 52 \<le> m" "L \<le> 52 \<longrightarrow> m = n * 2 ^ (52 - L) \<and> m < 2 ^ 53"
    using f64_of_int_parts [of n] assms by auto
  have "(2 :: int) ^ L < 2 ^ 53" using p(1) assms(2) by linarith
  then have "L < 53" by (simp only: power_strict_increasing_iff one_less_numeral_iff semiring_norm)
  then have L: "L \<le> 52" by simp
  define x where "x = f64_of_int n"
  have m: "m = n * 2 ^ (52 - L)" "m < 2 ^ 53" using p(7) L by auto
  have "int (f64_exp x) * 2 ^ 52 + int (f64_frac x) = (int L + 1023) * 2 ^ 52 + (m - 2 ^ 52)"
    using p(4) fl_mag_magnitude [of x] by (simp add: f64_magnitude_def x_def)
  moreover have "int (f64_frac x) < 2 ^ 52" "0 \<le> m - 2 ^ 52" "m - 2 ^ 52 < 2 ^ 52"
    using p(6) m(2) by (simp_all add: f64_frac_def)
  ultimately have "int (f64_exp x) = int L + 1023 \<and> int (f64_frac x) = m - 2 ^ 52"
    by (intro quotient_unique [where c = "2 ^ 52"]) simp_all
  then have e: "f64_exp x = L + 1023" and fr: "int (2 ^ 52 + f64_frac x) = n * 2 ^ (52 - L)" using m by auto
  have "f64_scaled x div 2 ^ 1074 = nat n"
  proof -
    have "2 ^ 52 + f64_frac x = nat n * 2 ^ (52 - L)"
      using arg_cong [OF fr, of nat] assms(1) by (simp add: nat_mult_distrib nat_power_eq)
    then have "f64_scaled x = nat n * 2 ^ (52 - L) * 2 ^ (L + 1022)" using e by (simp add: f64_scaled_def)
    also have "\<dots> = nat n * (2 ^ (52 - L) * 2 ^ (L + 1022))" by (rule mult.assoc)
    also have "(2 :: nat) ^ (52 - L) * 2 ^ (L + 1022) = 2 ^ 1074" using L by (simp only: power_add [symmetric]) simp
    finally show ?thesis by (simp only: nonzero_mult_div_cancel_right power_not_zero zero_neq_numeral not_False_eq_True)
  qed
  then show ?thesis using p(5) e L assms(1) unfolding f64_trunc_scaled x_def [symmetric] by (simp add: x_def)
qed

lemma f64_of_int_large:
  assumes "2 ^ 53 \<le> n" "n < 2 ^ 64"
  shows "1075 * 2 ^ 52 \<le> ieee_key (f64_of_int n)"
proof -
  have pos: "0 < n" by (rule less_le_trans [OF _ assms(1)]) simp
  obtain L m where p: "n < 2 ^ Suc L" "fl_mag (f64_of_int n) = (int L + 1022) * 2 ^ 52 + m" "\<not> bit (f64_of_int n) 63" "2 ^ 52 \<le> m"
    using f64_of_int_parts [OF pos assms(2)] by blast
  have "(2 :: int) ^ 53 < 2 ^ Suc L" using p(1) assms(1) by linarith
  then have "53 < Suc L" by (simp only: power_strict_increasing_iff one_less_numeral_iff semiring_norm)
  then have "(1075 :: int) * 2 ^ 52 \<le> (int L + 1022) * 2 ^ 52" by (intro mult_right_mono) auto
  then show ?thesis using p(2-4) by (simp add: f64_key fl_mag_magnitude)
qed

lemma nan_magnitude: "ieee_nan 0x7FF0000000000000 x \<longleftrightarrow> 2047 * 2 ^ 52 < f64_magnitude x" for x :: float64
  by (simp add: ieee_nan_def f64_magnitude_key)

lemma f64_trunc_not_nan: "f64_trunc x = Some n \<Longrightarrow> \<not> ieee_nan 0x7FF0000000000000 x"
proof -
  assume n: "f64_trunc x = Some n"
  have "f64_exp x \<noteq> 2047" "f64_exp x < 2048" using n by (auto simp: f64_trunc_scaled f64_exp_def split: if_splits)
  then have "f64_exp x * 2 ^ 52 \<le> 2046 * 2 ^ 52" by (intro mult_right_mono) auto
  moreover have "f64_frac x < 2 ^ 52" by (simp add: f64_frac_def)
  ultimately show ?thesis by (simp add: nan_magnitude f64_magnitude_def)
qed

lemma f64_of_int_not_nan: "0 < n \<Longrightarrow> n < 2 ^ 64 \<Longrightarrow> \<not> ieee_nan 0x7FF0000000000000 (f64_of_int n)"
proof -
  assume "0 < n" "n < 2 ^ 64"
  then have "fl_mag (f64_of_int n) \<le> f64_inf" using f64_of_int_parts [of n] by blast
  then show ?thesis by (simp add: nan_magnitude fl_mag_magnitude f64_inf_def)
qed

section \<open>Arithmetic\<close>

text \<open>
  Arithmetic on finite numbers, exact and then rounded to nearest; the sign of a zero is not kept, which
  no conversion to an integer sees. Every quotient keeps 118 further bits and one for the rest.
\<close>

definition f64_dyadic :: "int \<times> int \<Rightarrow> float64" where
  "f64_dyadic = (\<lambda>(m, e). with_sign (m < 0) (fl_encode 52 (-1074) f64_inf (\<bar>m\<bar>, e)))"

definition f64_parts :: "float64 \<Rightarrow> int \<times> int" where
  "f64_parts x = (case fl_decode 52 (-1074) (fl_mag x) of (m, e) \<Rightarrow> (if bit x 63 then - m else m, e))"

definition f64_add :: "float64 \<Rightarrow> float64 \<Rightarrow> float64" where
  "f64_add x y =
     (case (f64_parts x, f64_parts y) of ((a, e), (b, f)) \<Rightarrow>
        f64_dyadic (a * 2 ^ nat (e - min e f) + b * 2 ^ nat (f - min e f), min e f))"

definition f64_mul :: "float64 \<Rightarrow> float64 \<Rightarrow> float64" where
  "f64_mul x y = (case (f64_parts x, f64_parts y) of ((a, e), (b, f)) \<Rightarrow> f64_dyadic (a * b, e + f))"

definition f64_quot :: "float64 \<Rightarrow> float64 \<Rightarrow> float64" where
  "f64_quot x y =
     (case (f64_parts x, f64_parts y) of ((a, e), (b, f)) \<Rightarrow>
        let n = \<bar>a\<bar> * 2 ^ 118; q = n div \<bar>b\<bar>; r = n mod \<bar>b\<bar> in
        f64_dyadic (sgn a * sgn b * (2 * q + (if r = 0 then 0 else 1)), e - f - 119))"

definition one_second :: int where
  "one_second = 1000000000"

text \<open>\<open>Duration.Seconds\<close>.\<close>

definition duration_seconds :: "int \<Rightarrow> float64" where
  "duration_seconds d =
     f64_add (f64_of_int (go_div d one_second)) (f64_quot (f64_of_int (go_mod d one_second)) (f64_of_int 1000000000))"

end
