(* ===== verification/Base64.thy ===== *)
theory Base64
  imports Prelude
begin

text \<open>
  The standard Base64 encoding of \<open>encoding/base64\<close> as the camera's parameter protocol uses it:
  padded encoding, and a decoder that skips line breaks, wants the padding and ignores the bits it
  does not need. Every byte string is recovered from its encoding.
\<close>

definition b64_alphabet :: string where
  "b64_alphabet = ''ABCDEFGHIJKLMNOPQRSTUVWXYZabcdefghijklmnopqrstuvwxyz0123456789+/''"

definition b64_char :: "nat \<Rightarrow> char" where
  "b64_char n = b64_alphabet ! n"

definition b64_value :: "char \<Rightarrow> nat option" where
  "b64_value c = map_of (zip b64_alphabet [0..<64]) c"

fun b64_encode :: "string \<Rightarrow> string" where
  "b64_encode [] = []"
| "b64_encode [a] =
     (let v = of_char a * 65536 :: nat in [b64_char (v div 262144), b64_char (v div 4096 mod 64), CHR ''='', CHR ''=''])"
| "b64_encode [a, b] =
     (let v = of_char a * 65536 + of_char b * 256 :: nat in
      [b64_char (v div 262144), b64_char (v div 4096 mod 64), b64_char (v div 64 mod 64), CHR ''=''])"
| "b64_encode (a # b # c # r) =
     (let v = of_char a * 65536 + of_char b * 256 + of_char c :: nat in
      [b64_char (v div 262144), b64_char (v div 4096 mod 64), b64_char (v div 64 mod 64), b64_char (v mod 64)] @
      b64_encode r)"

text \<open>The decoder on the characters that are not line breaks.\<close>

fun b64_quanta :: "string \<Rightarrow> string option" where
  "b64_quanta [] = Some []"
| "b64_quanta (a # b # c # d # r) =
     (case (b64_value a, b64_value b) of
        (Some x, Some y) \<Rightarrow>
          if c = CHR ''='' then
            (if d = CHR ''='' \<and> r = [] then Some [char_of ((x * 64 + y) div 16)] else None)
          else
            (case b64_value c of
               None \<Rightarrow> None
             | Some z \<Rightarrow>
                 if d = CHR ''='' then
                   (if r = [] then let v = (x * 64 + y) * 64 + z in Some [char_of (v div 1024), char_of (v div 4 mod 256)] else None)
                 else
                   (case b64_value d of
                      None \<Rightarrow> None
                    | Some w \<Rightarrow>
                        let v = ((x * 64 + y) * 64 + z) * 64 + w in
                        map_option (\<lambda>s. [char_of (v div 65536), char_of (v div 256 mod 256), char_of (v mod 256)] @ s)
                          (b64_quanta r)))
      | _ \<Rightarrow> None)"
| "b64_quanta _ = None"

definition b64_decode :: "string \<Rightarrow> string option" where
  "b64_decode s = b64_quanta (filter (\<lambda>c. c \<noteq> CHR 0x0A \<and> c \<noteq> CHR 0x0D) s)"

lemma b64_table:
  "list_all (\<lambda>n. b64_value (b64_char n) = Some n \<and> b64_char n \<notin> {CHR ''='', CHR '' '', CHR '':'', CHR 0x0A, CHR 0x0D}) [0..<64]"
  by code_simp

lemma b64_value_char [simp]: "n < 64 \<Longrightarrow> b64_value (b64_char n) = Some n"
  using b64_table by (simp add: list_all_iff)

lemma b64_char_not [simp]:
  "n < 64 \<Longrightarrow> b64_char n \<noteq> CHR ''=''" "n < 64 \<Longrightarrow> b64_char n \<noteq> CHR '' ''" "n < 64 \<Longrightarrow> b64_char n \<noteq> CHR '':''"
  "n < 64 \<Longrightarrow> b64_char n \<noteq> CHR 0x0A" "n < 64 \<Longrightarrow> b64_char n \<noteq> CHR 0x0D"
  using b64_table by (simp_all add: list_all_iff)

lemma sextets:
  "v div 262144 * 64 + v div 4096 mod 64 = v div (4096 :: nat)"
  "v div 4096 * 64 + v div 64 mod 64 = v div (64 :: nat)" "v div 64 * 64 + v mod 64 = (v :: nat)"
proof -
  have "v div 262144 = v div 4096 div 64" "v div 4096 = v div 64 div 64" by (simp_all flip: div_mult2_eq)
  then show "v div 262144 * 64 + v div 4096 mod 64 = v div 4096" "v div 4096 * 64 + v div 64 mod 64 = v div 64"
    "v div 64 * 64 + v mod 64 = v" by (simp_all only: div_mult_mod_eq)
qed

lemma quantum:
  assumes "x < 256" "y < 256" "z < (256 :: nat)" and v: "v = x * 65536 + y * 256 + z"
  shows "v div 262144 < 64" "v div 65536 = x" "v div 256 mod 256 = y" "v mod 256 = z"
proof -
  have t: "y * 256 + z < 65536" using assms by linarith
  have "v = x * 65536 + (y * 256 + z)" by (simp add: v)
  then show x: "v div 65536 = x" using t by (simp add: div_add1_eq [of "x * 65536"])
  have "v div 262144 = v div 65536 div 4" by (simp flip: div_mult2_eq)
  then show "v div 262144 < 64" using assms(1) by (simp add: x)
  have w: "v = (x * 256 + y) * 256 + z" by (simp add: v)
  have d: "v div 256 = x * 256 + y" using assms(3) unfolding w by simp
  then show "v div 256 mod 256 = y" using assms(2) by simp
  show "v mod 256 = z" using assms(3) unfolding w by (simp only: mod_mult_self3 mod_less)
qed

text \<open>The three-byte step, and the two padded ends, where the missing bytes count as zero.\<close>

lemma quanta_full:
  "b64_quanta (b64_encode (a # b # c # r)) = map_option (\<lambda>s. a # b # c # s) (b64_quanta (b64_encode r))"
proof -
  define v where "v = of_char a * 65536 + of_char b * 256 + (of_char c :: nat)"
  note q = quantum [OF nat_of_char_less_256 nat_of_char_less_256 nat_of_char_less_256 v_def]
  have "b64_encode (a # b # c # r) =
      b64_char (v div 262144) # b64_char (v div 4096 mod 64) # b64_char (v div 64 mod 64) # b64_char (v mod 64) # b64_encode r"
    by (simp only: b64_encode.simps Let_def v_def append.simps)
  moreover have "char_of (v div 256) = b" "char_of v = c"
    using q(3,4) char_of_mod_256 [of "v div 256"] char_of_mod_256 [of v] by simp_all
  moreover have "(@) [a, b, c] = (\<lambda>s. a # b # c # s)" by (rule ext) simp
  ultimately show ?thesis using q(1) by (simp add: Let_def sextets q del: b64_encode.simps append.simps)
qed

lemma quanta_two: "b64_quanta (b64_encode [a, b]) = Some [a, b]"
proof -
  define v where "v = of_char a * 65536 + of_char b * 256 + (0 :: nat)"
  note q = quantum [OF nat_of_char_less_256 nat_of_char_less_256 _ v_def, simplified]
  have "b64_encode [a, b] =
      [b64_char (v div 262144), b64_char (v div 4096 mod 64), b64_char (v div 64 mod 64), CHR ''='']"
    by (simp only: b64_encode.simps Let_def v_def add_0_right)
  moreover have "v div 64 div 1024 = of_char a" "v div 64 div 4 mod 256 = of_char b" using q by (simp_all flip: div_mult2_eq)
  moreover from this have "char_of (v div 64 div 4) = b" using char_of_mod_256 [of "v div 64 div 4"] by simp
  ultimately show ?thesis using q(1) by (simp add: Let_def sextets del: b64_encode.simps)
qed

lemma quanta_one: "b64_quanta (b64_encode [a]) = Some [a]"
proof -
  define v where "v = of_char a * 65536 + 0 * 256 + (0 :: nat)"
  note q = quantum [OF nat_of_char_less_256 _ _ v_def, simplified]
  have "b64_encode [a] = [b64_char (v div 262144), b64_char (v div 4096 mod 64), CHR ''='', CHR ''='']"
    by (simp only: b64_encode.simps Let_def v_def add_0_right mult_zero_left)
  moreover have "v div 4096 div 16 = of_char a" using q by (simp flip: div_mult2_eq)
  ultimately show ?thesis using q(1) by (simp add: Let_def sextets del: b64_encode.simps)
qed

lemma quanta_encode: "b64_quanta (b64_encode s) = Some s"
proof (induction s rule: b64_encode.induct)
  case (4 a b c r)
  then show ?case by (simp only: quanta_full) simp
qed (simp only: b64_encode.simps b64_quanta.simps, rule quanta_one, rule quanta_two)

lemma b64_encode_chars:
  "c \<in> set (b64_encode s) \<Longrightarrow> c \<noteq> CHR '' '' \<and> c \<noteq> CHR '':'' \<and> c \<noteq> CHR 0x0A \<and> c \<noteq> CHR 0x0D"
proof (induction s rule: b64_encode.induct)
  case (2 a)
  then show ?case using quantum(1) [of "of_char a" 0 0] by (auto simp: Let_def)
next
  case (3 a b)
  then show ?case using quantum(1) [of "of_char a" "of_char b" 0] by (auto simp: Let_def)
next
  case (4 a b d r)
  then show ?case using quantum(1) [of "of_char a" "of_char b" "of_char d"] by (auto simp: Let_def)
qed simp

lemma b64_decode_encode: "b64_decode (b64_encode s) = Some s"
proof -
  have "filter (\<lambda>c. c \<noteq> CHR 0x0A \<and> c \<noteq> CHR 0x0D) (b64_encode s) = b64_encode s"
    using b64_encode_chars [of _ s] by (intro filter_True) blast
  then show ?thesis by (simp add: b64_decode_def quanta_encode)
qed

end
