(* ===== verification/Json.thy ===== *)
theory Json
  imports Prelude "HOL-Library.AList" Ieee
begin

text \<open>
  Documents as the web interface handles them: the values \<open>encoding/json\<close> and \<open>yaml.v3\<close> decode into
  \<open>map[string]interface{}\<close>. A map is an association list; a decoded map has every key once. The merge of a
  partial document and the restoring of masked secrets are those of \<open>internal/web/handlers.go\<close>.
\<close>

section \<open>Documents\<close>

datatype json =
    JNull
  | JBool bool
  | JInt int
  | JNum float64
  | JStr string
  | JList "json list"
  | JObj "(string \<times> json) list"

type_synonym doc = "(string \<times> json) list"

definition section_of :: "doc \<Rightarrow> string \<Rightarrow> doc option" where
  "section_of d k = (case map_of d k of Some (JObj s) \<Rightarrow> Some s | _ \<Rightarrow> None)"

definition string_of :: "doc \<Rightarrow> string \<Rightarrow> string option" where
  "string_of d k = (case map_of d k of Some (JStr s) \<Rightarrow> Some s | _ \<Rightarrow> None)"

text \<open>The value at a path of keys.\<close>

fun doc_at :: "doc \<Rightarrow> string list \<Rightarrow> json option" where
  "doc_at d [] = Some (JObj d)"
| "doc_at d (k # ks) =
     (case map_of d k of
        None \<Rightarrow> None
      | Some v \<Rightarrow> (if ks = [] then Some v else case v of JObj s \<Rightarrow> doc_at s ks | _ \<Rightarrow> None))"

section \<open>Merging\<close>

text \<open>A map is stored in place of anything else, and maps are merged key by key.\<close>

fun deep_merge :: "doc \<Rightarrow> doc \<Rightarrow> doc" where
  "deep_merge dst [] = dst"
| "deep_merge dst ((k, v) # src) =
     deep_merge
       (AList.update k
          (case v of
             JObj sub \<Rightarrow> (case map_of dst k of Some (JObj dsub) \<Rightarrow> JObj (deep_merge dsub sub) | _ \<Rightarrow> v)
           | _ \<Rightarrow> v) dst) src"

definition masked_sections :: "string list" where
  "masked_sections = [''onvif'', ''web'', ''gb28181'', ''rtsp'']"

definition restore_section :: "doc \<Rightarrow> doc \<Rightarrow> string \<Rightarrow> doc" where
  "restore_section current update sec =
     (case section_of update sec of
        None \<Rightarrow> update
      | Some upd \<Rightarrow>
          if string_of upd ''password'' \<noteq> Some ''****'' then update
          else (case section_of current sec of
                  None \<Rightarrow> update
                | Some cur \<Rightarrow>
                    (case string_of cur ''password'' of
                       None \<Rightarrow> update
                     | Some stored \<Rightarrow> AList.update sec (JObj (AList.update ''password'' (JStr stored) upd)) update)))"

definition restore_masked_secrets :: "doc \<Rightarrow> doc \<Rightarrow> doc" where
  "restore_masked_secrets update current = foldl (restore_section current) update masked_sections"

definition mask_password :: "string \<Rightarrow> string" where
  "mask_password pw = (if pw = '''' then '''' else ''****'')"

section \<open>What a merge contains\<close>

definition merged :: "json option \<Rightarrow> json \<Rightarrow> json" where
  "merged old v =
     (case v of JObj sub \<Rightarrow> (case old of Some (JObj dsub) \<Rightarrow> JObj (deep_merge dsub sub) | _ \<Rightarrow> v) | _ \<Rightarrow> v)"

lemma map_of_update [simp]: "map_of (AList.update k v d) k' = (if k' = k then Some v else map_of d k')"
  by (simp add: update_conv')

lemma deep_merge_Cons: "deep_merge dst ((k, v) # src) = deep_merge (AList.update k (merged (map_of dst k) v) dst) src"
  by (simp add: merged_def)

declare deep_merge.simps(2) [simp del]

lemma map_of_merge:
  "distinct (map fst src) \<Longrightarrow>
   map_of (deep_merge dst src) k = (case map_of src k of None \<Rightarrow> map_of dst k | Some v \<Rightarrow> Some (merged (map_of dst k) v))"
proof (induction src arbitrary: dst)
  case (Cons e src)
  obtain k0 v0 where e: "e = (k0, v0)" by (cases e)
  have "k0 \<notin> fst ` set src" "distinct (map fst src)" using Cons.prems by (simp_all add: e)
  moreover have "map_of src k0 = None" using Cons.prems by (simp add: e map_of_eq_None_iff)
  ultimately show ?case using Cons.IH by (auto simp: e deep_merge_Cons split: option.splits)
qed simp

text \<open>A document with every key once, at every depth.\<close>

fun keys_once :: "json \<Rightarrow> bool" where
  "keys_once (JObj d) \<longleftrightarrow> distinct (map fst d) \<and> (\<forall>(k, v) \<in> set d. keys_once v)"
| "keys_once (JList vs) \<longleftrightarrow> (\<forall>v\<in>set vs. keys_once v)"
| "keys_once _ \<longleftrightarrow> True"

lemma keys_once_at: "keys_once (JObj d) \<Longrightarrow> map_of d k = Some v \<Longrightarrow> keys_once v"
  by (auto dest: map_of_SomeD)

text \<open>The deepest value of a document along a path: whether the path, or a part of it that ends in a value which
  is no map, is there.\<close>

fun covers :: "doc \<Rightarrow> string list \<Rightarrow> bool" where
  "covers d [] \<longleftrightarrow> True"
| "covers d (k # ks) \<longleftrightarrow>
     (case map_of d k of None \<Rightarrow> False | Some (JObj s) \<Rightarrow> covers s ks | Some v \<Rightarrow> True)"

lemma not_covered: "\<not> covers d path \<Longrightarrow> doc_at d path = None"
proof (induction path arbitrary: d)
  case (Cons k ks)
  then show ?case by (auto split: option.splits json.splits)
qed simp

lemma merge_keeps:
  assumes "keys_once (JObj src)" "\<not> covers src path"
  shows "doc_at (deep_merge dst src) path = doc_at dst path"
  using assms
proof (induction path arbitrary: dst src)
  case (Cons k ks)
  have d: "distinct (map fst src)" using Cons.prems(1) by simp
  show ?case
  proof (cases "map_of src k")
    case None
    then show ?thesis by (simp add: map_of_merge [OF d])
  next
    case (Some v)
    then obtain sub where v: "v = JObj sub" and c: "\<not> covers sub ks" using Cons.prems(2) by (auto split: json.splits)
    have ks: "ks \<noteq> []" using c by auto
    have once: "keys_once (JObj sub)" using keys_once_at [OF Cons.prems(1) Some] v by simp
    show ?thesis
    proof (cases "\<exists>dsub. map_of dst k = Some (JObj dsub)")
      case True
      then obtain dsub where "map_of dst k = Some (JObj dsub)" ..
      then show ?thesis using Cons.IH [OF once c, of dsub] Some v ks by (simp add: map_of_merge [OF d] merged_def)
    next
      case False
      then have "doc_at dst (k # ks) = None" using ks by (auto split: option.splits json.splits)
      moreover have "merged (map_of dst k) v = JObj sub" using False v by (auto simp: merged_def split: option.splits json.splits)
      ultimately show ?thesis using not_covered [OF c] Some ks by (simp add: map_of_merge [OF d])
    qed
  qed
qed simp

lemma merge_sets:
  assumes "keys_once (JObj src)" "doc_at src path = Some v" "\<nexists>s. v = JObj s" "path \<noteq> []"
  shows "doc_at (deep_merge dst src) path = Some v"
  using assms
proof (induction path arbitrary: dst src)
  case (Cons k ks)
  have d: "distinct (map fst src)" using Cons.prems(1) by simp
  obtain w where w: "map_of src k = Some w" using Cons.prems(2) by (auto split: option.splits)
  show ?case
  proof (cases "ks = []")
    case True
    then have "w = v" using Cons.prems(2) w by simp
    moreover have "merged (map_of dst k) v = v" using Cons.prems(3) by (auto simp: merged_def split: json.splits)
    ultimately show ?thesis using True w by (simp add: map_of_merge [OF d])
  next
    case ks: False
    then obtain sub where sub: "w = JObj sub" "doc_at sub ks = Some v" using Cons.prems(2) w by (auto split: json.splits)
    have once: "keys_once (JObj sub)" using keys_once_at [OF Cons.prems(1) w] sub by simp
    show ?thesis
      using Cons.IH [OF once sub(2) Cons.prems(3) ks] w sub ks
      by (cases "\<exists>dsub. map_of dst k = Some (JObj dsub)")
        (auto simp: map_of_merge [OF d] merged_def split: option.splits json.splits)
  qed
qed simp

section \<open>Restored secrets\<close>

lemma restore_other: "k \<noteq> sec \<Longrightarrow> map_of (restore_section current update sec) k = map_of update k"
  by (auto simp: restore_section_def split: option.splits)

lemma restore_depends:
  "map_of u k = map_of u' k \<Longrightarrow> map_of (restore_section current u k) k = map_of (restore_section current u' k) k"
  by (auto simp: restore_section_def section_of_def split: option.splits json.splits)

lemma restore_fold:
  "distinct secs \<Longrightarrow> map_of (foldl (restore_section current) update secs) k =
     (if k \<in> set secs then map_of (restore_section current update k) k else map_of update k)"
proof (induction secs arbitrary: update)
  case (Cons sec secs)
  show ?case
  proof (cases "k = sec")
    case True
    then show ?thesis using Cons by simp
  next
    case False
    then show ?thesis using Cons restore_other [OF False, of current update]
      by (auto intro: restore_depends)
  qed
qed simp

lemma restored_at:
  "map_of (restore_masked_secrets update current) k =
     (if k \<in> set masked_sections then map_of (restore_section current update k) k else map_of update k)"
  unfolding restore_masked_secrets_def by (rule restore_fold) (simp add: masked_sections_def)

lemma update_keys_once:
  "keys_once (JObj d) \<Longrightarrow> keys_once v \<Longrightarrow> keys_once (JObj (AList.update k v d))"
proof (induction d)
  case (Cons e d)
  obtain k0 v0 where e: "e = (k0, v0)" by (cases e)
  have s: "set (AList.update k v d) \<subseteq> insert (k, v) (set d)" for d :: doc by (induction d) auto
  have "fst ` set (AList.update k v d) = insert k (fst ` set d)" by (simp add: dom_update)
  then show ?case using Cons e s [of d] by (auto simp: distinct_update)
qed simp

lemma restore_keys_once: "keys_once (JObj update) \<Longrightarrow> keys_once (JObj (restore_masked_secrets update current))"
proof -
  have step: "keys_once (JObj (restore_section current u sec))" if "keys_once (JObj u)" for u sec
  proof (cases "section_of u sec")
    case None
    then show ?thesis using that by (simp add: restore_section_def)
  next
    case (Some upd)
    then have "map_of u sec = Some (JObj upd)" by (auto simp: section_of_def split: option.splits json.splits)
    then have "keys_once (JObj upd)" using that keys_once_at by blast
    then show ?thesis using that Some
      by (auto simp: restore_section_def simp del: keys_once.simps(1) intro!: update_keys_once split: option.splits)
  qed
  have "keys_once (JObj u) \<Longrightarrow> keys_once (JObj (foldl (restore_section current) u secs))" for u secs
    by (induction secs arbitrary: u) (auto simp del: keys_once.simps intro: step)
  then show "keys_once (JObj update) \<Longrightarrow> ?thesis" by (simp only: restore_masked_secrets_def)
qed

lemma section_of_iff: "section_of d k = Some s \<longleftrightarrow> map_of d k = Some (JObj s)"
  by (auto simp: section_of_def split: option.splits json.splits)

lemma string_of_iff: "string_of d k = Some s \<longleftrightarrow> map_of d k = Some (JStr s)"
  by (auto simp: string_of_def split: option.splits json.splits)

lemma doc_at_two: "doc_at d [sec, k] = Some v \<longleftrightarrow> (\<exists>s. map_of d sec = Some (JObj s) \<and> map_of s k = Some v)"
  by (simp split: option.split json.split)

lemma restored_password:
  assumes "sec \<in> set masked_sections" "doc_at update [sec, ''password''] = Some (JStr ''****'')"
    "doc_at current [sec, ''password''] = Some (JStr stored)"
  shows "doc_at (restore_masked_secrets update current) [sec, ''password''] = Some (JStr stored)"
proof -
  obtain u where u: "section_of update sec = Some u" "string_of u ''password'' = Some ''****''"
    using assms(2) unfolding doc_at_two section_of_iff string_of_iff by blast
  obtain c where c: "section_of current sec = Some c" "string_of c ''password'' = Some stored"
    using assms(3) unfolding doc_at_two section_of_iff string_of_iff by blast
  have "restore_section current update sec = AList.update sec (JObj (AList.update ''password'' (JStr stored) u)) update"
    using u c by (simp add: restore_section_def)
  then show ?thesis unfolding doc_at_two restored_at using assms(1) by simp
qed

lemma restore_section_cases:
  "map_of (restore_section current update sec) sec = map_of update sec \<or>
   (\<exists>u s. map_of update sec = Some (JObj u) \<and>
      map_of (restore_section current update sec) sec = Some (JObj (AList.update ''password'' (JStr s) u)))"
  by (auto simp: restore_section_def section_of_iff split: option.split)

lemma unrestored:
  assumes "k \<noteq> ''password''"
  shows "doc_at (restore_masked_secrets update current) (sec # k # ks) = doc_at update (sec # k # ks)"
proof -
  have "map_of (restore_masked_secrets update current) sec = map_of update sec \<or>
     (\<exists>u s. map_of update sec = Some (JObj u) \<and>
        map_of (restore_masked_secrets update current) sec = Some (JObj (AList.update ''password'' (JStr s) u)))"
    using restore_section_cases [of current update sec] by (simp add: restored_at)
  then show ?thesis using assms by (elim disjE exE conjE) simp_all
qed

end
