(* ===== verification/H264.thy ===== *)
theory H264
  imports Prelude
begin

text \<open>
  The Annex-B parser of \<open>internal/h264/parser.go\<close>: \<open>FindStartCodes\<close> scans for start
  codes, \<open>Parse\<close> cuts the data between them into NAL units, \<open>ExtractSPSandPPS\<close> picks the
  first parameter sets. The lemmas show that no slice expression of the parser can panic,
  that every unit it returns is non-empty and free of start codes, and that it recovers
  exactly the units that were framed with four-byte start codes.
\<close>

section \<open>NAL units\<close>

record nalu =
  nal_type :: byte
  nal_data :: bytes
  is_idr :: bool
  is_sps :: bool
  is_pps :: bool

definition mk_nalu :: "byte \<Rightarrow> bytes \<Rightarrow> nalu" where
  "mk_nalu t d = \<lparr>nal_type = t, nal_data = d, is_idr = (t = 5), is_sps = (t = 7), is_pps = (t = 8)\<rparr>"

text \<open>What \<open>Parse\<close> builds from one non-empty piece of data.\<close>

definition nalu_of :: "bytes \<Rightarrow> nalu" where
  "nalu_of d = mk_nalu (hd d AND 0x1F) d"

section \<open>FindStartCodes\<close>

function fsc_loop :: "bytes \<Rightarrow> nat \<Rightarrow> nat list" where
  "fsc_loop d i =
     (if i < length d - 2
      then if d ! i = 0 \<and> d ! (i + 1) = 0 \<and> d ! (i + 2) = 1
           then (if 0 < i \<and> d ! (i - 1) = 0 then i - 1 else i) # fsc_loop d (i + 3)
           else fsc_loop d (i + 1)
      else [])"
  by pat_completeness auto
termination
  by (relation "measure (\<lambda>(d, i). length d - i)") auto

declare fsc_loop.simps [simp del]

definition find_start_codes :: "bytes \<Rightarrow> nat list" where
  "find_start_codes d = (if length d < 3 then [] else fsc_loop d 0)"

section \<open>Parse\<close>

definition nalu_start :: "bytes \<Rightarrow> nat \<Rightarrow> nat" where
  "nalu_start d pos =
     (if pos + 4 \<le> length d \<and> d ! pos = 0 \<and> d ! (pos + 1) = 0 \<and> d ! (pos + 2) = 0 \<and> d ! (pos + 3) = 1
      then pos + 4 else pos + 3)"

text \<open>\<open>None\<close> is a panic of the slice expression \<open>data[naluStart:naluEnd]\<close>.\<close>

fun parse_loop :: "bytes \<Rightarrow> nat list \<Rightarrow> nalu list option" where
  "parse_loop d [] = Some []"
| "parse_loop d (pos # ps) =
     (let st = nalu_start d pos in
      if length d \<le> st then Some []
      else let en = (case ps of q # _ \<Rightarrow> q | [] \<Rightarrow> length d) in
        (case slice d st en of
           None \<Rightarrow> None
         | Some nd \<Rightarrow> if nd = [] then parse_loop d ps
                      else map_option (Cons (mk_nalu (nd ! 0 AND 0x1F) nd)) (parse_loop d ps)))"

definition parse :: "bytes \<Rightarrow> nalu list option" where
  "parse d = (if d = [] then Some [] else parse_loop d (find_start_codes d))"

section \<open>ExtractSPSandPPS\<close>

text \<open>A nil slice is \<open>None\<close>.\<close>

fun extract_loop :: "nalu list \<Rightarrow> bytes option \<Rightarrow> bytes option \<Rightarrow> bytes option \<times> bytes option" where
  "extract_loop [] sps pps = (sps, pps)"
| "extract_loop (n # ns) sps pps =
     extract_loop ns (if is_sps n \<and> sps = None then Some (nal_data n) else sps)
                     (if is_pps n \<and> pps = None then Some (nal_data n) else pps)"

definition extract_sps_pps :: "nalu list \<Rightarrow> bytes option \<times> bytes option \<times> bool" where
  "extract_sps_pps ns = (let (s, p) = extract_loop ns None None in (s, p, s \<noteq> None \<and> p \<noteq> None))"

section \<open>Start codes in a byte string\<close>

definition sc_at :: "bytes \<Rightarrow> nat \<Rightarrow> bool" where
  "sc_at d i \<longleftrightarrow> i + 2 < length d \<and> d ! i = 0 \<and> d ! (i + 1) = 0 \<and> d ! (i + 2) = 1"

text \<open>What the emulation prevention of an H.264 encoder guarantees for a unit's bytes.\<close>

definition no_start_code :: "bytes \<Rightarrow> bool" where
  "no_start_code d \<longleftrightarrow> (\<forall>i < length d. \<not> sc_at d i)"

lemma no_start_codeD: "no_start_code d \<Longrightarrow> \<not> sc_at d i"
  by (auto simp: no_start_code_def sc_at_def)

lemma no_start_codeI: "(\<And>i. \<not> sc_at d i) \<Longrightarrow> no_start_code d"
  by (simp add: no_start_code_def)

lemma fsc_hit:
  "sc_at d i \<Longrightarrow> fsc_loop d i = (if 0 < i \<and> d ! (i - 1) = 0 then i - 1 else i) # fsc_loop d (i + 3)"
  by (subst fsc_loop.simps) (auto simp: sc_at_def)

lemma fsc_miss: "\<not> sc_at d i \<Longrightarrow> i < length d - 2 \<Longrightarrow> fsc_loop d i = fsc_loop d (i + 1)"
  by (subst fsc_loop.simps) (auto simp: sc_at_def)

lemma fsc_end: "length d \<le> i + 2 \<Longrightarrow> fsc_loop d i = []"
  by (subst fsc_loop.simps) auto

lemma fsc_skip:
  "i \<le> j \<Longrightarrow> \<forall>k. i \<le> k \<and> k < j \<longrightarrow> \<not> sc_at d k \<Longrightarrow> fsc_loop d i = fsc_loop d j"
proof (induction "j - i" arbitrary: i)
  case 0
  then show ?case by simp
next
  case (Suc n)
  then have ij: "i < j" by simp
  then have miss: "\<not> sc_at d i" using Suc.prems by blast
  have "fsc_loop d (i + 1) = fsc_loop d j"
    using Suc.hyps Suc.prems ij by (intro Suc.hyps(1)) auto
  moreover have "fsc_loop d i = fsc_loop d (i + 1)"
  proof (cases "i < length d - 2")
    case True
    then show ?thesis using miss by (simp add: fsc_miss)
  next
    case False
    then show ?thesis by (simp add: fsc_end)
  qed
  ultimately show ?case by simp
qed

section \<open>Where the reported positions lie\<close>

lemma fsc_induct [case_names hit miss stop]:
  assumes hit: "\<And>i. sc_at d i \<Longrightarrow> P (i + 3) \<Longrightarrow> P i"
    and miss: "\<And>i. \<not> sc_at d i \<Longrightarrow> i < length d - 2 \<Longrightarrow> P (i + 1) \<Longrightarrow> P i"
    and stop: "\<And>i. length d \<le> i + 2 \<Longrightarrow> P i"
  shows "P i"
proof (induction "length d - i" arbitrary: i rule: less_induct)
  case less
  consider "sc_at d i" | "\<not> sc_at d i" "i < length d - 2" | "length d \<le> i + 2" by linarith
  then show ?case
  proof cases
    case 1
    then have "i + 2 < length d" by (simp add: sc_at_def)
    then have "P (i + 3)" by (intro less) simp
    with 1 show ?thesis by (rule hit)
  next
    case 2
    then have "P (i + 1)" by (intro less) simp
    with 2 show ?thesis by (rule miss)
  qed (rule stop)
qed

lemma fsc_lower: "p \<in> set (fsc_loop d i) \<Longrightarrow> i \<le> Suc p"
proof (induction i rule: fsc_induct [where d = d])
  case (hit i)
  then show ?case by (auto simp: fsc_hit split: if_splits)
qed (auto simp: fsc_miss fsc_end)

lemma fsc_lower_nz:
  "p \<in> set (fsc_loop d i) \<Longrightarrow> 0 < i \<Longrightarrow> d ! (i - 1) \<noteq> 0 \<Longrightarrow> i \<le> p"
proof (cases "sc_at d i")
  case True
  assume p: "p \<in> set (fsc_loop d i)" and "0 < i" "d ! (i - 1) \<noteq> 0"
  then have "p = i \<or> p \<in> set (fsc_loop d (i + 3))" using True by (simp add: fsc_hit)
  then show ?thesis using fsc_lower [of p d "i + 3"] by auto
next
  case False
  assume p: "p \<in> set (fsc_loop d i)"
  show ?thesis
  proof (cases "i < length d - 2")
    case True
    then have "p \<in> set (fsc_loop d (i + 1))" using False p by (simp add: fsc_miss)
    then show ?thesis using fsc_lower [of p d "i + 1"] by simp
  next
    case False
    then show ?thesis using p by (simp add: fsc_end)
  qed
qed

lemma fsc_upper: "p \<in> set (fsc_loop d i) \<Longrightarrow> p + 2 < length d"
proof (induction i rule: fsc_induct [where d = d])
  case (hit i)
  then show ?case by (auto simp: fsc_hit sc_at_def split: if_splits)
qed (auto simp: fsc_miss fsc_end)

lemma nalu_start_hit:
  "sc_at d i \<Longrightarrow> nalu_start d (if 0 < i \<and> d ! (i - 1) = 0 then i - 1 else i) = i + 3"
  by (auto simp: nalu_start_def sc_at_def)

section \<open>Every unit returned by Parse\<close>

definition unit_ok :: "nalu \<Rightarrow> bool" where
  "unit_ok n \<longleftrightarrow> nal_data n \<noteq> [] \<and> no_start_code (nal_data n) \<and> n = nalu_of (nal_data n)"

definition next_pos :: "bytes \<Rightarrow> nat list \<Rightarrow> nat" where
  "next_pos d ps = (case ps of q # _ \<Rightarrow> q | [] \<Rightarrow> length d)"

lemma next_pos_clean: "i \<le> k \<Longrightarrow> k + 2 < next_pos d (fsc_loop d i) \<Longrightarrow> \<not> sc_at d k"
proof (induction i rule: fsc_induct [where d = d])
  case (hit i)
  have "next_pos d (fsc_loop d i) \<le> i" by (simp add: fsc_hit [OF hit.hyps] next_pos_def)
  then show ?case using hit.prems by linarith
next
  case (miss i)
  then show ?case by (cases "k = i") (auto simp: fsc_miss)
next
  case (stop i)
  then show ?case by (auto simp: sc_at_def)
qed

lemma next_pos_range:
  assumes "sc_at d i"
  shows "i + 3 \<le> next_pos d (fsc_loop d (i + 3))" "next_pos d (fsc_loop d (i + 3)) \<le> length d"
proof -
  have nz: "d ! (i + 3 - 1) \<noteq> 0" and len: "i + 3 \<le> length d"
    using assms by (simp_all add: sc_at_def numeral_3_eq_3)
  show "i + 3 \<le> next_pos d (fsc_loop d (i + 3))"
  proof (cases "fsc_loop d (i + 3)")
    case (Cons q qs)
    then have "i + 3 \<le> q" using nz by (intro fsc_lower_nz) auto
    then show ?thesis by (simp add: next_pos_def Cons)
  qed (simp add: next_pos_def len)
  show "next_pos d (fsc_loop d (i + 3)) \<le> length d"
  proof (cases "fsc_loop d (i + 3)")
    case (Cons q qs)
    then have "q \<in> set (fsc_loop d (i + 3))" by simp
    then have "q + 2 < length d" by (rule fsc_upper)
    then show ?thesis by (simp add: next_pos_def Cons)
  qed (simp add: next_pos_def)
qed

lemma unit_ok_slice:
  assumes sc: "sc_at d i" and nd: "nd = take (e - (i + 3)) (drop (i + 3) d)" and ne: "nd \<noteq> []"
    and e: "e = next_pos d (fsc_loop d (i + 3))"
  shows "unit_ok (mk_nalu (nd ! 0 AND 0x1F) nd)"
proof -
  have "\<not> sc_at nd k" for k
  proof
    assume "sc_at nd k"
    then have "sc_at d (i + 3 + k)" and "i + 3 + k + 2 < e"
      by (auto simp: sc_at_def nd add.assoc)
    then show False using next_pos_clean [of "i + 3" "i + 3 + k" d] e by simp
  qed
  then show ?thesis
    using ne by (auto simp: unit_ok_def nalu_of_def mk_nalu_def hd_conv_nth intro: no_start_codeI)
qed

lemma parse_loop_sound: "\<exists>ns. parse_loop d (fsc_loop d i) = Some ns \<and> list_all unit_ok ns"
proof (induction i rule: fsc_induct [where d = d])
  case (hit i)
  define e where "e = next_pos d (fsc_loop d (i + 3))"
  define nd where "nd = take (e - (i + 3)) (drop (i + 3) d)"
  have sl: "slice d (i + 3) e = Some nd"
    using next_pos_range [OF hit.hyps] by (simp add: e_def nd_def)
  obtain ns where ns: "parse_loop d (fsc_loop d (i + 3)) = Some ns" "list_all unit_ok ns"
    using hit.IH by blast
  have ok: "nd \<noteq> [] \<Longrightarrow> unit_ok (mk_nalu (nd ! 0 AND 0x1F) nd)"
    using unit_ok_slice [OF hit.hyps nd_def _ e_def] .
  have "parse_loop d (fsc_loop d i) =
      (if length d \<le> i + 3 then Some [] else if nd = [] then Some ns
       else Some (mk_nalu (nd ! 0 AND 0x1F) nd # ns))"
    using sl ns nalu_start_hit [OF hit.hyps]
    by (simp add: fsc_hit [OF hit.hyps] Let_def e_def next_pos_def cong: if_cong)
  then show ?case using ns ok by (cases "length d \<le> i + 3"; cases "nd = []") auto
qed (auto simp: fsc_miss fsc_end)

section \<open>Framing with start codes and parsing back\<close>

text \<open>
  The byte stream that the recorder, the substream and the segmenter write: a four-byte start
  code before each unit.
\<close>

definition annexb :: "bytes list \<Rightarrow> bytes" where
  "annexb ns = concat (map (\<lambda>n. [0, 0, 0, 1] @ n) ns)"

lemma annexb_simps [simp]:
  "annexb [] = []" "annexb (n # ns) = [0, 0, 0, 1] @ n @ annexb ns"
  "annexb (ms @ ns) = annexb ms @ annexb ns"
  by (simp_all add: annexb_def)

fun starts :: "nat \<Rightarrow> bytes list \<Rightarrow> nat list" where
  "starts off [] = []"
| "starts off (n # ns) = off # starts (off + 4 + length n) ns"

lemma sc_at_append: "sc_at (pre @ d) (length pre + k) = sc_at d k"
  by (auto simp: sc_at_def nth_append)

lemma clean_in_stream: "no_start_code n \<Longrightarrow> k < length n \<Longrightarrow> \<not> sc_at (n @ annexb ns) k"
proof
  assume clean: "no_start_code n" and k: "k < length n" and sc: "sc_at (n @ annexb ns) k"
  show False
  proof (cases "k + 2 < length n")
    case True
    then have "sc_at n k" using sc by (simp add: sc_at_def nth_append)
    then show False using clean by (simp add: no_start_codeD)
  next
    case False
    have at: "(n @ annexb ns) ! (k + 2) = 1" "k + 2 < length (n @ annexb ns)"
      using sc by (simp_all add: sc_at_def)
    then have "annexb ns ! (k + 2 - length n) = 1" "annexb ns \<noteq> []"
      using False by (auto simp: nth_append)
    moreover have "k + 2 - length n = 0 \<or> k + 2 - length n = 1" using k by auto
    ultimately show False by (cases ns) auto
  qed
qed

lemma fsc_annexb:
  "\<forall>n\<in>set ns. no_start_code n \<Longrightarrow> fsc_loop (pre @ annexb ns) (length pre) = starts (length pre) ns"
proof (induction ns arbitrary: pre)
  case Nil
  then show ?case by (simp add: fsc_end)
next
  case (Cons n ns)
  let ?d = "pre @ annexb (n # ns)"
  let ?pre = "pre @ [0, 0, 0, 1] @ n"
  have d: "?d = ?pre @ annexb ns" by simp
  have "\<not> sc_at ?d (length pre)" by (auto simp: sc_at_def nth_append)
  then have "fsc_loop ?d (length pre) = fsc_loop ?d (length pre + 1)"
    by (intro fsc_miss) auto
  also have "\<dots> = length pre # fsc_loop ?d (length pre + 4)"
  proof -
    have "sc_at ?d (length pre + 1)" by (auto simp: sc_at_def nth_append)
    from fsc_hit [OF this] show ?thesis by (simp add: nth_append add.commute)
  qed
  also have "fsc_loop ?d (length pre + 4) = fsc_loop ?d (length ?pre)"
  proof (rule fsc_skip)
    show "\<forall>k. length pre + 4 \<le> k \<and> k < length ?pre \<longrightarrow> \<not> sc_at ?d k"
    proof (intro allI impI)
      fix k assume k: "length pre + 4 \<le> k \<and> k < length ?pre"
      define j where "j = k - (length pre + 4)"
      have "\<not> sc_at (n @ annexb ns) j"
        using Cons.prems k by (intro clean_in_stream) (auto simp: j_def)
      moreover have "sc_at ((pre @ [0, 0, 0, 1]) @ (n @ annexb ns)) (length (pre @ [0, 0, 0, 1]) + j)
          = sc_at (n @ annexb ns) j" by (rule sc_at_append)
      moreover have "length (pre @ [0, 0, 0, 1]) + j = k" using k unfolding j_def by simp linarith
      ultimately show "\<not> sc_at ?d k" by simp
    qed
  qed simp
  also have "fsc_loop ?d (length ?pre) = starts (length ?pre) ns"
    unfolding d using Cons.prems by (intro Cons.IH) auto
  also have "length ?pre = length pre + 4 + length n" by simp
  finally show ?case by (simp only: starts.simps)
qed

lemma parse_loop_annexb:
  "\<forall>n\<in>set ns. n \<noteq> [] \<Longrightarrow>
   parse_loop (pre @ annexb ns) (starts (length pre) ns) = Some (map nalu_of ns)"
proof (induction ns arbitrary: pre)
  case Nil
  then show ?case by simp
next
  case (Cons n ns)
  let ?d = "pre @ annexb (n # ns)"
  let ?e = "length pre + 4 + length n"
  have n: "n \<noteq> []" using Cons.prems by simp
  have st: "nalu_start ?d (length pre) = length pre + 4" by (simp add: nalu_start_def nth_append)
  have en: "(case starts ?e ns of q # _ \<Rightarrow> q | [] \<Rightarrow> length ?d) = ?e" by (cases ns) auto
  have sl: "slice ?d (length pre + 4) ?e = Some n" by (simp add: slice_def)
  have e: "length (pre @ [0, 0, 0, 1] @ n) = ?e" by simp
  have rest: "parse_loop ?d (starts ?e ns) = Some (map nalu_of ns)"
    using Cons.IH [of "pre @ [0, 0, 0, 1] @ n"] Cons.prems unfolding e by simp
  have len: "\<not> length ?d \<le> length pre + 4" using n by simp
  show ?case
    using n by (simp only: starts.simps parse_loop.simps st en Let_def sl len rest if_False option.case)
      (simp add: nalu_of_def hd_conv_nth)
qed

lemma parse_annexb:
  "\<forall>n\<in>set ns. n \<noteq> [] \<and> no_start_code n \<Longrightarrow> parse (annexb ns) = Some (map nalu_of ns)"
proof (cases ns)
  case (Cons m ms)
  assume ok: "\<forall>n\<in>set ns. n \<noteq> [] \<and> no_start_code n"
  have "find_start_codes (annexb ns) = starts 0 ns"
    using fsc_annexb [of ns "[]"] ok Cons by (simp add: find_start_codes_def)
  moreover have "parse_loop (annexb ns) (starts 0 ns) = Some (map nalu_of ns)"
    using parse_loop_annexb [of ns "[]"] ok by simp
  ultimately show ?thesis using Cons by (simp add: parse_def)
qed (simp add: parse_def)

lemma parse_sound: "\<exists>ns. parse d = Some ns \<and> list_all unit_ok ns"
  using parse_loop_sound [of d 0] by (auto simp: parse_def find_start_codes_def)

lemma extract_loop_find:
  "extract_loop ns s p =
     (case s of Some x \<Rightarrow> Some x | None \<Rightarrow> map_option nal_data (find is_sps ns),
      case p of Some x \<Rightarrow> Some x | None \<Rightarrow> map_option nal_data (find is_pps ns))"
  by (induction ns arbitrary: s p) (auto split: option.splits)

section \<open>Properties\<close>

text \<open>C8: \<open>Parse\<close> never panics, whatever the bytes: it returns units that are non-empty, contain no
  start code, and carry the type and flags of their first byte.\<close>

theorem parse_never_panics:
  "\<exists>ns. parse d = Some ns \<and>
     list_all (\<lambda>n. nal_data n \<noteq> [] \<and> no_start_code (nal_data n) \<and> n = nalu_of (nal_data n)) ns"
  using parse_sound [of d] by (simp add: unit_ok_def [abs_def])

text \<open>C9: Units framed with four-byte start codes are recovered exactly and in order, provided each
  is non-empty and free of start codes, as emulation prevention guarantees.\<close>

theorem parse_recovers_framed_units:
  "\<forall>n\<in>set ns. n \<noteq> [] \<and> no_start_code n \<Longrightarrow> parse (annexb ns) = Some (map nalu_of ns)"
  by (rule parse_annexb)

theorem parse_recovers_framed_units_witness:
  "parse (annexb [[0x67, 0x42, 0, 0x1E], [0x68, 0xCE], [0x65, 0x88, 0, 0, 3, 0]]) =
     Some (map nalu_of [[0x67, 0x42, 0, 0x1E], [0x68, 0xCE], [0x65, 0x88, 0, 0, 3, 0]])"
  by (rule parse_recovers_framed_units) (simp add: no_start_code_def sc_at_def All_less_Suc nth_Cons')

text \<open>\<open>ExtractSPSandPPS\<close> returns the first SPS and the first PPS of the units, nil where there
  is none, and its flag says whether both are there.\<close>

theorem extract_takes_first_parameter_sets:
  "extract_sps_pps ns =
     (map_option nal_data (find is_sps ns), map_option nal_data (find is_pps ns),
      find is_sps ns \<noteq> None \<and> find is_pps ns \<noteq> None)"
  by (simp add: extract_sps_pps_def extract_loop_find)

end
