(* ===== verification/Chan.thy ===== *)
theory Chan
  imports Prelude "HOL-Library.Sublist"
begin

text \<open>
  A buffered Go channel used with a non-blocking send
  (\<open>select { case ch <- x: default: dropped++ }\<close>), as in \<open>AUHub.Write\<close>,
  \<open>SubstreamPipeline.Tap\<close> and \<open>emit\<close>. The interface \<open>drop_channel\<close> says
  what a consumer of such a channel can rely on: what it receives, together with what is still
  queued, is the offered sequence with some elements left out, and exactly as many as were counted.
\<close>

record 'a chan =
  items :: "'a list"
  capacity :: nat
  dropped :: "64 word"

definition new_chan :: "nat \<Rightarrow> 'a chan" where
  "new_chan n = \<lparr>items = [], capacity = n, dropped = 0\<rparr>"

definition offer :: "'a \<Rightarrow> 'a chan \<Rightarrow> 'a chan" where
  "offer x c = (if length (items c) < capacity c then c\<lparr>items := items c @ [x]\<rparr>
                else c\<lparr>dropped := dropped c + 1\<rparr>)"

definition recv :: "'a chan \<Rightarrow> 'a option \<times> 'a chan" where
  "recv c = (case items c of [] \<Rightarrow> (None, c) | x # xs \<Rightarrow> (Some x, c\<lparr>items := xs\<rparr>))"

datatype 'a chan_event = Offer 'a | Recv

text \<open>A run of sends and receives: what has been received so far, and the channel.\<close>

fun consume :: "('a \<Rightarrow> 'c \<Rightarrow> 'c) \<Rightarrow> ('c \<Rightarrow> 'a option \<times> 'c) \<Rightarrow> 'a list \<times> 'c \<Rightarrow> 'a chan_event list \<Rightarrow> 'a list \<times> 'c"
where
  "consume put take1 s [] = s"
| "consume put take1 (got, c) (Offer x # es) = consume put take1 (got, put x c) es"
| "consume put take1 (got, c) (Recv # es) =
     (case take1 c of
        (None, c') \<Rightarrow> consume put take1 (got, c') es
      | (Some x, c') \<Rightarrow> consume put take1 (got @ [x], c') es)"

fun offered :: "'a chan_event list \<Rightarrow> 'a list" where
  "offered [] = []"
| "offered (Offer x # es) = x # offered es"
| "offered (Recv # es) = offered es"

section \<open>The consumer's view\<close>

text \<open>
  The drop counter is a 64-bit word, so the account is an equation of words: no assumption
  that it never wraps is needed.
\<close>

locale drop_channel =
  fixes put :: "'a \<Rightarrow> 'c \<Rightarrow> 'c"
    and take1 :: "'c \<Rightarrow> 'a option \<times> 'c"
    and queued :: "'c \<Rightarrow> 'a list"
    and lost :: "'c \<Rightarrow> 64 word"
    and room :: "'c \<Rightarrow> bool"
  assumes put_room: "room c \<Longrightarrow> queued (put x c) = queued c @ [x] \<and> lost (put x c) = lost c"
    and put_full: "\<not> room c \<Longrightarrow> queued (put x c) = queued c \<and> lost (put x c) = lost c + 1"
    and take_some: "queued c = y # ys \<Longrightarrow> \<exists>c'. take1 c = (Some y, c') \<and> queued c' = ys \<and> lost c' = lost c"
    and take_none: "queued c = [] \<Longrightarrow> take1 c = (None, c)"
begin

lemma consume_accounts:
  "consume put take1 (got, c) es = (got', c') \<Longrightarrow>
   \<exists>zs. got' @ queued c' = got @ queued c @ zs \<and> subseq zs (offered es) \<and>
        of_nat (length (offered es)) + lost c = of_nat (length zs) + lost c'"
proof (induction es arbitrary: got c)
  case Nil
  then show ?case by auto
next
  case (Cons e es)
  show ?case
  proof (cases e)
    case (Offer x)
    with Cons.prems have r: "consume put take1 (got, put x c) es = (got', c')" by simp
    from Cons.IH [OF r] obtain zs where zs: "got' @ queued c' = got @ queued (put x c) @ zs"
      "subseq zs (offered es)"
      "of_nat (length (offered es)) + lost (put x c) = of_nat (length zs) + lost c'" by blast
    show ?thesis
    proof (cases "room c")
      case True
      then have "queued (put x c) = queued c @ [x]" "lost (put x c) = lost c"
        using put_room by auto
      then show ?thesis
        by (intro exI [of _ "x # zs"]) (use zs Offer in \<open>auto simp: algebra_simps\<close>)
    next
      case False
      then have "queued (put x c) = queued c" "lost (put x c) = lost c + 1"
        using put_full by auto
      then show ?thesis
        by (intro exI [of _ zs]) (use zs Offer in \<open>auto simp: algebra_simps intro: list_emb_Cons\<close>)
    qed
  next
    case Recv
    show ?thesis
    proof (cases "queued c")
      case Nil
      then have "consume put take1 (got, c) es = (got', c')" using Cons.prems Recv
        by (simp add: take_none)
      from Cons.IH [OF this] show ?thesis using Recv by simp
    next
      case (Cons y ys)
      from take_some [OF Cons] obtain d
        where t: "take1 c = (Some y, d)" "queued d = ys" "lost d = lost c" by blast
      then show ?thesis using Cons.IH [of "got @ [y]" d] Cons.prems Recv Cons by simp
    qed
  qed
qed

end

interpretation go_chan: drop_channel offer recv items dropped "\<lambda>c. length (items c) < capacity c"
  by unfold_locales (auto simp: offer_def recv_def)

lemma offer_items: "items (offer x c) = (if length (items c) < capacity c then items c @ [x] else items c)"
  by (simp add: offer_def)

lemma offer_capacity [simp]: "capacity (offer x c) = capacity c"
  by (simp add: offer_def)

lemma offer_bounded [bounds]:
  "length (items c) \<le> capacity c \<Longrightarrow> length (items (offer x c)) \<le> capacity c"
  by (simp add: offer_def)

lemma new_chan_simps [simp]:
  "items (new_chan n) = []" "capacity (new_chan n) = n" "dropped (new_chan n) = 0"
  by (simp_all add: new_chan_def)

lemma recv_capacity: "recv c = (x, c') \<Longrightarrow> capacity c' = capacity c"
  by (auto simp: recv_def split: list.splits)

lemma recv_shorter: "recv c = (x, c') \<Longrightarrow> length (items c') \<le> length (items c)"
  by (auto simp: recv_def split: list.splits)

end
