(* ===== verification/AuHub.thy ===== *)
theory AuHub
  imports H264 Chan "HOL-Library.AList"
begin

text \<open>
  The access-unit hub of \<open>internal/h264/hub.go\<close>. Subscriber objects live in a heap (a list
  indexed by allocation order) because a consumer keeps its pointer after the hub's map has
  forgotten the subscriber; the map from identifiers to objects is an association list.
\<close>

record access_unit =
  au_nalus :: "nalu list"
  au_time :: int
  au_key :: bool

record subscriber =
  sub_id :: nat
  sub_chan :: "access_unit chan"
  sub_closed :: bool
  sub_cancelled :: bool

record auhub =
  hub_subs :: "(nat \<times> nat) list"
  hub_heap :: "subscriber list"
  hub_next :: int
  hub_dropped :: "64 word"
  hub_size :: nat

definition new_hub_with_size :: "nat \<Rightarrow> auhub" where
  "new_hub_with_size n =
     \<lparr>hub_subs = [], hub_heap = [], hub_next = 0, hub_dropped = 0, hub_size = n\<rparr>"

definition new_hub :: auhub where
  "new_hub = new_hub_with_size 64"

text \<open>
  \<open>string(rune(n))\<close>: the conversion to a 32-bit rune wraps, and a rune that is no valid code
  point becomes U+FFFD. The resulting one-character string is represented by its code point.
\<close>

definition rune_string :: "int \<Rightarrow> nat" where
  "rune_string n =
     (let r = (n + 2 ^ 31) mod 2 ^ 32 - 2 ^ 31 in
      if 0 \<le> r \<and> r < 0xD800 \<or> 0xE000 \<le> r \<and> r \<le> 0x10FFFF then nat r else 0xFFFD)"

definition hub_subscribe :: "auhub \<Rightarrow> nat \<times> auhub" where
  "hub_subscribe h =
     (let n = hub_next h + 1; i = rune_string n; ref = length (hub_heap h);
          sub = \<lparr>sub_id = i, sub_chan = new_chan (hub_size h), sub_closed = False, sub_cancelled = False\<rparr>
      in (ref, h\<lparr>hub_next := n, hub_heap := hub_heap h @ [sub],
                 hub_subs := (i, ref) # AList.delete i (hub_subs h)\<rparr>))"

definition chan_full :: "'a chan \<Rightarrow> bool" where
  "chan_full c \<longleftrightarrow> capacity c \<le> length (items c)"

definition hub_deliver :: "access_unit \<Rightarrow> auhub \<Rightarrow> nat \<Rightarrow> auhub" where
  "hub_deliver au h ref =
     (let s = hub_heap h ! ref in
      h\<lparr>hub_heap := (hub_heap h)[ref := s\<lparr>sub_chan := offer au (sub_chan s)\<rparr>],
        hub_dropped := (if chan_full (sub_chan s) then hub_dropped h + 1 else hub_dropped h)\<rparr>)"

definition hub_write :: "access_unit \<Rightarrow> auhub \<Rightarrow> auhub" where
  "hub_write au h = foldl (hub_deliver au) h (map snd (hub_subs h))"

definition hub_unsubscribe :: "nat \<Rightarrow> auhub \<Rightarrow> auhub" where
  "hub_unsubscribe i h =
     (case map_of (hub_subs h) i of
        None \<Rightarrow> h
      | Some ref \<Rightarrow>
          let s = hub_heap h ! ref in
          h\<lparr>hub_subs := AList.delete i (hub_subs h),
            hub_heap := (hub_heap h)[ref := s\<lparr>sub_closed := True, sub_cancelled := True\<rparr>]\<rparr>)"

definition hub_subscriber_count :: "auhub \<Rightarrow> nat" where
  "hub_subscriber_count h = length (hub_subs h)"

text \<open>A consumer's receive on the channel of the object it holds.\<close>

definition hub_recv :: "nat \<Rightarrow> auhub \<Rightarrow> access_unit option \<times> auhub" where
  "hub_recv ref h =
     (let s = hub_heap h ! ref; (x, c) = recv (sub_chan s) in
      (x, h\<lparr>hub_heap := (hub_heap h)[ref := s\<lparr>sub_chan := c\<rparr>]\<rparr>))"

text \<open>One tick of \<open>StartDropLogger\<close>: the count to report, if any, and the new \<open>last\<close>.\<close>

definition drop_log_tick :: "auhub \<Rightarrow> 64 word \<Rightarrow> 64 word option \<times> 64 word" where
  "drop_log_tick h seen =
     (let cur = hub_dropped h in if seen < cur then (Some (cur - seen), cur) else (None, seen))"

section \<open>Hub events and the well-formedness invariant\<close>

datatype hub_event = Subscribe | Write access_unit | Unsubscribe nat | Receive nat

fun hub_step :: "auhub \<Rightarrow> hub_event \<Rightarrow> auhub" where
  "hub_step h Subscribe = snd (hub_subscribe h)"
| "hub_step h (Write au) = hub_write au h"
| "hub_step h (Unsubscribe i) = hub_unsubscribe i h"
| "hub_step h (Receive ref) = (if ref < length (hub_heap h) then snd (hub_recv ref h) else h)"

text \<open>
  Registered identifiers are distinct and point at allocated, open objects, different
  identifiers at different objects; no queue is longer than the buffer size.
\<close>

definition hub_wf :: "auhub \<Rightarrow> bool" where
  "hub_wf h \<longleftrightarrow>
     distinct (map fst (hub_subs h)) \<and> distinct (map snd (hub_subs h)) \<and>
     (\<forall>(i, r) \<in> set (hub_subs h). r < length (hub_heap h) \<and> \<not> sub_closed (hub_heap h ! r) \<and> sub_id (hub_heap h ! r) = i) \<and>
     (\<forall>s \<in> set (hub_heap h). capacity (sub_chan s) = hub_size h \<and> length (items (sub_chan s)) \<le> hub_size h)"

lemma set_delete: "set (AList.delete k al) = {(i, r) \<in> set al. i \<noteq> k}"
  by (auto simp: AList.delete_eq)

lemma distinct_delete:
  "distinct (map fst al) \<Longrightarrow> distinct (map fst (AList.delete k al))"
  "distinct (map snd al) \<Longrightarrow> distinct (map snd (AList.delete k al))"
  by (simp_all add: AList.delete_eq distinct_map_filter)

lemma hub_wf_new: "hub_wf (new_hub_with_size n)"
  by (simp add: hub_wf_def new_hub_with_size_def)

section \<open>One broadcast\<close>

lemma deliver_frame [simp]:
  "hub_subs (hub_deliver au h r) = hub_subs h" "hub_size (hub_deliver au h r) = hub_size h"
  "hub_next (hub_deliver au h r) = hub_next h"
  "length (hub_heap (hub_deliver au h r)) = length (hub_heap h)"
  by (simp_all add: hub_deliver_def Let_def)

lemma deliver_all_frame [simp]:
  "hub_subs (foldl (hub_deliver au) h rs) = hub_subs h"
  "hub_size (foldl (hub_deliver au) h rs) = hub_size h"
  "hub_next (foldl (hub_deliver au) h rs) = hub_next h"
  "length (hub_heap (foldl (hub_deliver au) h rs)) = length (hub_heap h)"
  by (induction rs arbitrary: h) simp_all

definition offered_sub :: "access_unit \<Rightarrow> subscriber \<Rightarrow> subscriber" where
  "offered_sub au s = s\<lparr>sub_chan := offer au (sub_chan s)\<rparr>"

lemma deliver_nth:
  "r < length (hub_heap h) \<Longrightarrow> hub_heap (hub_deliver au h r) ! k =
     (if k = r then offered_sub au (hub_heap h ! k) else hub_heap h ! k)"
  by (simp add: hub_deliver_def Let_def offered_sub_def nth_list_update)

lemma deliver_dropped:
  "hub_dropped (hub_deliver au h r) =
     (if chan_full (sub_chan (hub_heap h ! r)) then hub_dropped h + 1 else hub_dropped h)"
  by (simp add: hub_deliver_def Let_def)

lemma deliver_all:
  "distinct rs \<Longrightarrow> \<forall>r\<in>set rs. r < length (hub_heap h) \<Longrightarrow>
   hub_heap (foldl (hub_deliver au) h rs) ! k =
     (if k \<in> set rs then offered_sub au (hub_heap h ! k) else hub_heap h ! k)"
  by (induction rs arbitrary: h) (auto simp: deliver_nth)

lemma deliver_all_dropped:
  "distinct rs \<Longrightarrow> \<forall>r\<in>set rs. r < length (hub_heap h) \<Longrightarrow>
   hub_dropped (foldl (hub_deliver au) h rs) =
     hub_dropped h + of_nat (length (filter (\<lambda>r. chan_full (sub_chan (hub_heap h ! r))) rs))"
proof (induction rs arbitrary: h)
  case (Cons r rs)
  have same: "filter (\<lambda>r'. chan_full (sub_chan (hub_heap (hub_deliver au h r) ! r'))) rs =
      filter (\<lambda>r'. chan_full (sub_chan (hub_heap h ! r'))) rs"
    using Cons.prems by (intro filter_cong refl) (auto simp: deliver_nth)
  have "hub_dropped (foldl (hub_deliver au) (hub_deliver au h r) rs) =
      hub_dropped (hub_deliver au h r) +
      of_nat (length (filter (\<lambda>r'. chan_full (sub_chan (hub_heap (hub_deliver au h r) ! r'))) rs))"
    using Cons.prems by (intro Cons.IH) auto
  then show ?case unfolding same by (simp add: deliver_dropped algebra_simps)
qed simp

lemma hub_write_refs:
  "hub_wf h \<Longrightarrow> distinct (map snd (hub_subs h)) \<and> (\<forall>r\<in>set (map snd (hub_subs h)). r < length (hub_heap h))"
  by (fastforce simp: hub_wf_def)

lemma hub_write_nth:
  "hub_wf h \<Longrightarrow> hub_heap (hub_write au h) ! k =
     (if k \<in> snd ` set (hub_subs h) then offered_sub au (hub_heap h ! k) else hub_heap h ! k)"
  using hub_write_refs [of h] by (simp add: hub_write_def deliver_all)

lemma hub_write_dropped:
  "hub_wf h \<Longrightarrow> hub_dropped (hub_write au h) = hub_dropped h +
     of_nat (length (filter (\<lambda>r. chan_full (sub_chan (hub_heap h ! r))) (map snd (hub_subs h))))"
  using hub_write_refs [of h] by (simp add: hub_write_def deliver_all_dropped)

lemma hub_write_frame [simp]:
  "hub_subs (hub_write au h) = hub_subs h" "hub_size (hub_write au h) = hub_size h"
  "hub_next (hub_write au h) = hub_next h" "length (hub_heap (hub_write au h)) = length (hub_heap h)"
  by (simp_all add: hub_write_def)

section \<open>Every hub operation keeps the invariant\<close>

definition sub_ok :: "nat \<Rightarrow> subscriber \<Rightarrow> bool" where
  "sub_ok n s \<longleftrightarrow> capacity (sub_chan s) = n \<and> length (items (sub_chan s)) \<le> n"

lemma hub_wf_alt:
  "hub_wf h \<longleftrightarrow>
     distinct (map fst (hub_subs h)) \<and> distinct (map snd (hub_subs h)) \<and>
     (\<forall>i r. (i, r) \<in> set (hub_subs h) \<longrightarrow> r < length (hub_heap h) \<and> \<not> sub_closed (hub_heap h ! r) \<and> sub_id (hub_heap h ! r) = i) \<and>
     (\<forall>k < length (hub_heap h). sub_ok (hub_size h) (hub_heap h ! k))"
  unfolding hub_wf_def sub_ok_def all_set_conv_all_nth [of "hub_heap h"] by auto

lemma offered_sub_simps [simp]:
  "sub_id (offered_sub au s) = sub_id s" "sub_closed (offered_sub au s) = sub_closed s"
  "sub_ok n s \<Longrightarrow> sub_ok n (offered_sub au s)"
  using offer_bounded [of "sub_chan s" au] by (auto simp: offered_sub_def sub_ok_def)

lemma wf_subscribe: "hub_wf h \<Longrightarrow> hub_wf (snd (hub_subscribe h))"
  by (auto simp: hub_wf_def hub_subscribe_def Let_def set_delete distinct_delete nth_append)

lemma wf_write: "hub_wf h \<Longrightarrow> hub_wf (hub_write au h)"
  unfolding hub_wf_alt [of "hub_write au h"] by (simp add: hub_write_nth) (simp add: hub_wf_alt)

lemma wf_other_ref:
  "hub_wf h \<Longrightarrow> (i, ref) \<in> set (hub_subs h) \<Longrightarrow> (j, r) \<in> set (hub_subs h) \<Longrightarrow> j \<noteq> i \<Longrightarrow> r \<noteq> ref"
  by (metis hub_wf_alt)

lemma wf_unsubscribe: "hub_wf h \<Longrightarrow> hub_wf (hub_unsubscribe i h)"
proof (cases "map_of (hub_subs h) i")
  case (Some ref)
  assume wf: "hub_wf h"
  have mem: "(i, ref) \<in> set (hub_subs h)" using Some by (rule map_of_SomeD)
  then have ref: "ref < length (hub_heap h)" and ok: "sub_ok (hub_size h) (hub_heap h ! ref)"
    using wf by (auto simp: hub_wf_alt)
  have ok': "sub_ok (hub_size h) ((hub_heap h ! ref)\<lparr>sub_closed := True, sub_cancelled := True\<rparr>)"
    using ok by (simp add: sub_ok_def)
  show ?thesis
    using wf Some ref ok' wf_other_ref [OF wf mem]
    unfolding hub_wf_alt
    by (auto simp: hub_unsubscribe_def Let_def set_delete distinct_delete nth_list_update)
qed (simp add: hub_unsubscribe_def)

lemma wf_receive: "hub_wf h \<Longrightarrow> ref < length (hub_heap h) \<Longrightarrow> hub_wf (snd (hub_recv ref h))"
  unfolding hub_wf_alt
  by (auto simp: hub_recv_def Let_def sub_ok_def recv_def nth_list_update split: list.splits)

interpretation hub_run: event_machine hub_step hub_wf "\<lambda>_. True"
proof
  fix h e assume "hub_wf h"
  then show "hub_wf (hub_step h e)"
    by (cases e) (auto simp: wf_subscribe wf_write wf_unsubscribe wf_receive)
qed

lemma hub_reachable_wf: "hub_wf (foldl hub_step (new_hub_with_size n) es)"
  by (rule hub_run.run_inv) (simp_all add: hub_wf_new list_all_iff)

section \<open>Identifiers\<close>

lemma rune_string_id: "0 \<le> n \<Longrightarrow> n < 0xD800 \<Longrightarrow> rune_string n = nat n"
  by (simp add: rune_string_def Let_def)

lemma rune_string_inj:
  "0 \<le> m \<Longrightarrow> m < 0xD800 \<Longrightarrow> 0 \<le> n \<Longrightarrow> n < 0xD800 \<Longrightarrow> rune_string m = rune_string n \<Longrightarrow> m = n"
  by (simp add: rune_string_id)

lemma rune_string_surrogate: "0xD800 \<le> n \<Longrightarrow> n < 0xE000 \<Longrightarrow> rune_string n = 0xFFFD"
  by (simp add: rune_string_def Let_def)

text \<open>What the holder of one subscriber object receives in a run, and the run as its channel sees it.\<close>

fun hub_received :: "nat \<Rightarrow> auhub \<Rightarrow> hub_event list \<Rightarrow> access_unit list" where
  "hub_received ref h [] = []"
| "hub_received ref h (e # es) =
     (if e = Receive ref \<and> ref < length (hub_heap h)
      then (case fst (hub_recv ref h) of None \<Rightarrow> [] | Some au \<Rightarrow> [au]) else []) @
     hub_received ref (hub_step h e) es"

fun seen_by :: "nat \<Rightarrow> hub_event list \<Rightarrow> access_unit chan_event list" where
  "seen_by ref [] = []"
| "seen_by ref (Write au # es) = Offer au # seen_by ref es"
| "seen_by ref (Receive r # es) = (if r = ref then Recv # seen_by ref es else seen_by ref es)"
| "seen_by ref (e # es) = seen_by ref es"

definition written :: "hub_event list \<Rightarrow> access_unit list" where
  "written es = concat (map (\<lambda>e. case e of Write au \<Rightarrow> [au] | _ \<Rightarrow> []) es)"

lemma offered_seen_by: "offered (seen_by ref es) = written es"
  by (induction ref es rule: seen_by.induct) (simp_all add: written_def)

lemma consume_got: "consume put take1 (a @ got, c) es =
   (let (g, c') = consume put take1 (got, c) es in (a @ g, c'))"
proof (induction es arbitrary: got c)
  case (Cons e es)
  have "consume put take1 (a @ got @ [x], c') es =
      (let (g, c'') = consume put take1 (got @ [x], c') es in (a @ g, c''))" for x c'
    using Cons [of "got @ [x]" c'] by simp
  then show ?case by (cases e) (auto split: option.splits prod.splits simp: Let_def Cons)
qed simp

lemma nth_update_if: "xs[i := y] ! j = (if i = j \<and> j < length xs then y else xs ! j)"
  by (cases "i < length xs") (auto simp: nth_list_update list_update_beyond)

lemma other_heap:
  "hub_wf h \<Longrightarrow> ref < length (hub_heap h) \<Longrightarrow> ref \<in> snd ` set (hub_subs h) \<Longrightarrow>
   sub_chan (hub_heap (hub_step h e) ! ref) =
     (case e of Write au \<Rightarrow> offer au (sub_chan (hub_heap h ! ref))
      | Receive r \<Rightarrow> if r = ref then snd (recv (sub_chan (hub_heap h ! ref))) else sub_chan (hub_heap h ! ref)
      | _ \<Rightarrow> sub_chan (hub_heap h ! ref))"
  by (cases e) (auto simp: hub_subscribe_def hub_unsubscribe_def hub_recv_def Let_def nth_append hub_write_nth
      offered_sub_def nth_update_if split: option.splits prod.splits)

lemma hub_consume:
  "hub_wf h \<Longrightarrow> \<forall>i\<le>length es. ref \<in> snd ` set (hub_subs (foldl hub_step h (take i es))) \<Longrightarrow>
   consume offer recv ([], sub_chan (hub_heap h ! ref)) (seen_by ref es) =
     (hub_received ref h es, sub_chan (hub_heap (foldl hub_step h es) ! ref))"
proof (induction es arbitrary: h)
  case (Cons e es)
  have reg: "ref \<in> snd ` set (hub_subs h)" using Cons.prems(2) by (force dest: spec [of _ 0])
  then have len: "ref < length (hub_heap h)" using hub_write_refs [OF Cons.prems(1)] by auto
  have "\<forall>i\<le>length es. ref \<in> snd ` set (hub_subs (foldl hub_step (hub_step h e) (take i es)))"
    using Cons.prems(2) by (metis Suc_le_mono foldl_Cons length_Cons take_Suc_Cons)
  then have IH: "consume offer recv ([], sub_chan (hub_heap (hub_step h e) ! ref)) (seen_by ref es) =
     (hub_received ref (hub_step h e) es, sub_chan (hub_heap (foldl hub_step h (e # es)) ! ref))"
    using Cons.IH hub_run.step_inv [OF Cons.prems(1)] by simp
  show ?case
  proof (cases "e = Receive ref")
    case True
    then show ?thesis
      using IH len consume_got [of offer recv "[x :: access_unit]" "[]" for x] other_heap [OF Cons.prems(1) len reg, of e]
      by (cases "recv (sub_chan (hub_heap h ! ref))")
        (auto simp: hub_recv_def Let_def split: option.splits prod.splits)
  next
    case False
    then show ?thesis using IH other_heap [OF Cons.prems(1) len reg, of e] by (cases e) auto
  qed
qed simp

definition demo_au :: "int \<Rightarrow> access_unit" where
  "demo_au t = \<lparr>au_nalus = [], au_time = t, au_key = False\<rparr>"

lemma registered_account:
  assumes "h0 = foldl hub_step (new_hub_with_size n) before" "(ref, h) = hub_subscribe h0"
    and "\<forall>i\<le>length es. ref \<in> snd ` set (hub_subs (foldl hub_step h (take i es)))"
  shows "\<exists>zs. hub_received ref h es @ items (sub_chan (hub_heap (foldl hub_step h es) ! ref)) = zs \<and>
     subseq zs (written es) \<and>
     of_nat (length (written es)) = of_nat (length zs) + dropped (sub_chan (hub_heap (foldl hub_step h es) ! ref))"
proof -
  have wf: "hub_wf h" using wf_subscribe [OF hub_reachable_wf] assms(1,2) by (metis snd_conv)
  have new: "items (sub_chan (hub_heap h ! ref)) = []" "dropped (sub_chan (hub_heap h ! ref)) = 0"
    using assms(2) by (auto simp: hub_subscribe_def Let_def)
  show ?thesis
    using go_chan.consume_accounts [OF hub_consume [OF wf assms(3)]] new
    by (auto simp: offered_seen_by)
qed

section \<open>Properties\<close>

text \<open>C5: A subscriber that stays registered receives, in the order of the writes, the access units written
  since it subscribed with some left out, and exactly as many are left out as its channel refused; what it
  has not received yet is still queued for it.\<close>

theorem subscriber_stream:
  assumes "h0 = foldl hub_step (new_hub_with_size n) before" "(ref, h) = hub_subscribe h0"
    and "\<forall>i\<le>length es. ref \<in> snd ` set (hub_subs (foldl hub_step h (take i es)))"
  shows "\<exists>zs. hub_received ref h es @ items (sub_chan (hub_heap (foldl hub_step h es) ! ref)) = zs \<and>
     subseq zs (written es) \<and>
     of_nat (length (written es)) = of_nat (length zs) + dropped (sub_chan (hub_heap (foldl hub_step h es) ! ref))"
  using assms by (rule registered_account)

theorem subscriber_stream_witness:
  "\<exists>zs. hub_received 0 (snd (hub_subscribe (new_hub_with_size 1))) [Write (demo_au 1), Write (demo_au 2), Receive 0] @
     items (sub_chan (hub_heap (foldl hub_step (snd (hub_subscribe (new_hub_with_size 1))) [Write (demo_au 1), Write (demo_au 2), Receive 0]) ! 0)) = zs \<and>
   subseq zs [demo_au 1, demo_au 2]"
proof -
  let ?es = "[Write (demo_au 1), Write (demo_au 2), Receive 0]"
  have reg: "\<forall>i\<le>length ?es. 0 \<in> snd ` set (hub_subs (foldl hub_step (snd (hub_subscribe (new_hub_with_size 1))) (take i ?es)))"
    by (auto simp: hub_subscribe_def new_hub_with_size_def hub_recv_def Let_def le_Suc_eq numeral_eq_Suc split: prod.splits)
  show ?thesis
    using subscriber_stream [of "new_hub_with_size 1" 1 "[]" 0 "snd (hub_subscribe (new_hub_with_size 1))" ?es] reg
    by (auto simp: written_def hub_subscribe_def new_hub_with_size_def Let_def)
qed

lemma hub_next_run:
  "hub_next (foldl hub_step h es) = hub_next h + int (length (filter ((=) Subscribe) es))"
proof (induction es arbitrary: h)
  case (Cons e es)
  have "hub_next (hub_step h e) = hub_next h + (if e = Subscribe then 1 else 0)"
    by (cases e) (auto simp: hub_subscribe_def hub_unsubscribe_def hub_recv_def Let_def split: option.splits prod.splits)
  then show ?case using Cons [of "hub_step h e"] by auto
qed simp

text \<open>After 55295 subscriptions the next two get the same identifier: the second takes the place of the
  first, which is no longer written to, and removing the first by its identifier closes the second.\<close>

theorem subscriber_ids_collide:
  assumes "length (filter ((=) Subscribe) es) = 55295" "h = foldl hub_step (new_hub_with_size n) es"
    and "(a, h1) = hub_subscribe h" "(b, h2) = hub_subscribe h1"
  shows "sub_id (hub_heap h2 ! a) = sub_id (hub_heap h2 ! b) \<and> a \<noteq> b \<and>
    a \<notin> snd ` set (hub_subs h2) \<and> \<not> sub_closed (hub_heap h2 ! a) \<and>
    (let h3 = hub_unsubscribe (sub_id (hub_heap h2 ! a)) h2
     in sub_closed (hub_heap h3 ! b) \<and> \<not> sub_closed (hub_heap h3 ! a))"
proof -
  have n: "hub_next h = 55295" using assms(1,2) hub_next_run [of "new_hub_with_size n" es] by (simp add: new_hub_with_size_def)
  have id: "rune_string 55296 = rune_string 55297" by (simp add: rune_string_surrogate)
  have wf: "hub_wf h" using hub_reachable_wf assms(2) by simp
  have h1: "a = length (hub_heap h)" "length (hub_heap h1) = Suc a" "hub_next h1 = 55296" "hub_size h1 = hub_size h"
     "hub_subs h1 = (rune_string 55296, a) # AList.delete (rune_string 55296) (hub_subs h)"
     "hub_heap h1 = hub_heap h @ [\<lparr>sub_id = rune_string 55296, sub_chan = new_chan (hub_size h), sub_closed = False, sub_cancelled = False\<rparr>]"
    using assms(3) n by (auto simp: hub_subscribe_def Let_def)
  have h2: "b = Suc a" "hub_subs h2 = (rune_string 55296, b) # AList.delete (rune_string 55296) (hub_subs h)"
     "hub_heap h2 = hub_heap h1 @ [\<lparr>sub_id = rune_string 55296, sub_chan = new_chan (hub_size h), sub_closed = False, sub_cancelled = False\<rparr>]"
    using assms(4) h1(2-5) id by (auto simp: hub_subscribe_def Let_def AList.delete_idem)
  have "a \<notin> snd ` set (hub_subs h)" using hub_write_refs [OF wf] h1(1) by auto
  then show ?thesis using h1(1,2) h2
    by (auto simp: h1(6) set_delete nth_append hub_unsubscribe_def Let_def nth_list_update)
qed

theorem subscriber_ids_collide_witness:
  "\<exists>(h2 :: auhub) a b. a \<noteq> b \<and> sub_id (hub_heap h2 ! a) = sub_id (hub_heap h2 ! b)"
proof -
  define es where "es = replicate 55295 Subscribe"
  have n: "length (filter ((=) Subscribe) es) = 55295" unfolding es_def by (simp only: filter_replicate if_True simp_thms length_replicate)
  obtain a h1 where 1: "(a, h1) = hub_subscribe (foldl hub_step (new_hub_with_size 64) es)" by (metis surj_pair)
  obtain b h2 where 2: "(b, h2) = hub_subscribe h1" by (metis surj_pair)
  show ?thesis using subscriber_ids_collide [OF n refl 1 2] by blast
qed

end
