(* ===== verification/Yuv.thy ===== *)
theory Yuv
  imports Prelude
begin

text \<open>
  The pixel transforms on planar 4:2:0 frames: the nearest-neighbour downscaler of
  \<open>internal/camera/downscale.go\<close> and the rotation and flips of
  \<open>internal/camera/yuv_transform.go\<close>. A store out of range is a panic (\<open>None\<close>). The lemmas
  reduce each optimised loop (index tables, 64 by 64 tiles, in-place row swaps) to a
  pixel-by-pixel reference.
\<close>

section \<open>Stores\<close>

text \<open>\<open>out[i] = src[j]\<close> for the pairs in order; \<open>None\<close> when an index is out of range.\<close>

fun store_all :: "bytes \<Rightarrow> (nat \<times> nat) list \<Rightarrow> bytes \<Rightarrow> bytes option" where
  "store_all src [] out = Some out"
| "store_all src ((i, j) # ps) out =
     (if i < length out \<and> j < length src then store_all src ps (out[i := src ! j]) else None)"

lemma store_all_append:
  "store_all src (ps @ qs) out = Option.bind (store_all src ps out) (store_all src qs)"
  by (induction src ps out rule: store_all.induct) auto

text \<open>Pairs that follow one function give the pointwise result, whatever their order.\<close>

lemma store_all_fun:
  "\<forall>(i, j)\<in>set ps. i < length out \<and> j < length src \<and> j = g i \<Longrightarrow>
   store_all src ps out = Some (map (\<lambda>k. if k \<in> fst ` set ps then src ! g k else out ! k) [0..<length out])"
proof (induction src ps out rule: store_all.induct)
  case (1 src out)
  then show ?case by (simp add: map_nth)
next
  case (2 src i j ps out)
  then have "store_all src ps (out[i := src ! j]) =
      Some (map (\<lambda>k. if k \<in> fst ` set ps then src ! g k else out[i := src ! j] ! k) [0..<length out])"
    by auto
  then show ?case using 2 by (auto simp: nth_list_update)
qed

lemma store_all_total:
  assumes "\<forall>(i, j)\<in>set ps. i < length out \<and> j < length src \<and> j = g i" "fst ` set ps = {..<length out}"
  shows "store_all src ps out = Some (map (\<lambda>k. src ! g k) [0..<length out])"
  using store_all_fun [OF assms(1)] unfolding assms(2) by (simp cong: map_cong)

section \<open>The downscaler\<close>

definition map_axis :: "32 word \<Rightarrow> 32 word \<Rightarrow> nat list" where
  "map_axis dst src = map (\<lambda>i. i * unat src div unat dst) [0..<unat dst]"

definition luma_pairs :: "32 word \<Rightarrow> 32 word \<Rightarrow> 32 word \<Rightarrow> 32 word \<Rightarrow> (nat \<times> nat) list" where
  "luma_pairs src_w src_h dst_w dst_h =
     (let xmap = map_axis dst_w src_w; ymap = map_axis dst_h src_h in
      concat (map (\<lambda>dy. map (\<lambda>dx. (dy * unat dst_w + dx, ymap ! dy * unat src_w + xmap ! dx))
        [0..<length xmap]) [0..<length ymap]))"

definition chroma_pairs ::
  "32 word \<Rightarrow> 32 word \<Rightarrow> 32 word \<Rightarrow> 32 word \<Rightarrow> nat \<Rightarrow> nat \<Rightarrow> (nat \<times> nat) list" where
  "chroma_pairs src_w src_h dst_w dst_h dst_ch dst_cw =
     (let xmap = map_axis dst_w src_w; ymap = map_axis dst_h src_h;
          src_cw = unat (src_w div 2); src_y = unat (src_w * src_h);
          src_c = unat (src_w div 2 * (src_h div 2));
          dst_yu = unat (dst_w * dst_h); dst_c = dst_ch * dst_cw in
      concat (map (\<lambda>dcy.
        let row_u = src_y + ymap ! min (dcy * 2) (length ymap - 1) div 2 * src_cw; row_v = row_u + src_c in
        concat (map (\<lambda>dcx.
          let col = xmap ! min (dcx * 2) (length xmap - 1) div 2 in
          [(dst_yu + dcy * dst_cw + dcx, row_u + col), (dst_yu + dst_c + dcy * dst_cw + dcx, row_v + col)])
          [0..<dst_cw])) [0..<dst_ch]))"

text \<open>
  \<open>old\<close> is the backing array of the caller's slice (a pooled buffer), read when it has room; the
  three products are taken in 32 bits.
\<close>

definition downscale_into :: "bytes \<Rightarrow> bytes \<Rightarrow> 32 word \<Rightarrow> 32 word \<Rightarrow> 32 word \<Rightarrow> 32 word \<Rightarrow> bytes option" where
  "downscale_into old src src_w src_h dst_w dst_h =
     (let src_y = src_w * src_h; src_c = src_w div 2 * (src_h div 2) in
      if src_w = 0 \<or> src_h = 0 \<or> dst_w = 0 \<or> dst_h = 0 \<or> src_w < dst_w \<or> src_h < dst_h \<or>
         length src < unat src_y + 2 * unat src_c then Some src
      else if dst_w = src_w \<and> dst_h = src_h then Some src
      else
        let dst_yu = unat (dst_w * dst_h); dst_ch = unat (max (dst_h div 2) 1);
            dst_cw = unat (max (dst_w div 2) 1); out_len = dst_yu + 2 * (dst_ch * dst_cw);
            out = (if length old < out_len then replicate out_len 0 else take out_len old)
        in Option.bind (store_all src (luma_pairs src_w src_h dst_w dst_h) out)
             (store_all src (chroma_pairs src_w src_h dst_w dst_h dst_ch dst_cw)))"

definition downscale_yu12 :: "bytes \<Rightarrow> 32 word \<Rightarrow> 32 word \<Rightarrow> 32 word \<Rightarrow> 32 word \<Rightarrow> bytes option" where
  "downscale_yu12 src src_w src_h dst_w dst_h = downscale_into [] src src_w src_h dst_w dst_h"

text \<open>The reference: which source byte each byte of the small frame shows.\<close>

definition downscale_source :: "nat \<Rightarrow> nat \<Rightarrow> nat \<Rightarrow> nat \<Rightarrow> nat \<Rightarrow> nat" where
  "downscale_source w h dw dh k =
     (let cw = max (dw div 2) 1; c = max (dh div 2) 1 * cw in
      if k < dw * dh then (k div dw) * h div dh * w + (k mod dw) * w div dw
      else
        let m = (k - dw * dh) mod c; plane = (k - dw * dh) div c in
        w * h + plane * (w div 2 * (h div 2)) +
        (min (m div cw * 2) (dh - 1) * h div dh) div 2 * (w div 2) +
        (min (m mod cw * 2) (dw - 1) * w div dw) div 2)"

section \<open>The downscaler is its reference\<close>

lemma scaled_index: "i < n \<Longrightarrow> i * m div n < m" if "0 < m" for i n m :: nat
  using that by (metis mult.commute mult_less_cancel1 div_less_iff_less_mult less_nat_zero_code neq0_conv)

lemma map_axis_simps [simp]:
  "length (map_axis d s) = unat d"
  "i < unat d \<Longrightarrow> map_axis d s ! i = i * unat s div unat d"
  by (simp_all add: map_axis_def)

lemma pixel_index: "y < h \<Longrightarrow> x < w \<Longrightarrow> y * w + x < h * (w :: nat)"
proof -
  assume "y < h" "x < w"
  then have "y * w + x < Suc y * w" by simp
  also have "\<dots> \<le> h * w" using \<open>y < h\<close> by (intro mult_le_mono1) simp
  finally show ?thesis .
qed

lemma pixel_divmod: "x < w \<Longrightarrow> (y * w + x) div w = y \<and> (y * w + x) mod w = (x :: nat)"
  by simp

lemma pixels: "(\<lambda>(y, x). y * w + x) ` ({..<h} \<times> {..<w}) = {..<h * (w :: nat)}"
proof
  show "{..<h * w} \<subseteq> (\<lambda>(y, x). y * w + x) ` ({..<h} \<times> {..<w})"
  proof
    fix k assume "k \<in> {..<h * w}"
    then have "k div w < h" "k mod w < w" "k = k div w * w + k mod w"
      by (auto simp: less_mult_imp_div_less) (metis less_nat_zero_code mod_less_divisor mult_zero_right neq0_conv)
    then show "k \<in> (\<lambda>(y, x). y * w + x) ` ({..<h} \<times> {..<w})"
      by (intro image_eqI [of _ _ "(k div w, k mod w)"]) auto
  qed
qed (auto intro: pixel_index)

lemma scaled_row:
  assumes "cy < max (d div 2) 1" "2 \<le> h" "0 < d" "d \<le> (h :: nat)"
  shows "(min (cy * 2) (d - 1) * h div d) div 2 < h div 2"
proof (cases "d = 1")
  case False
  then have "2 \<le> d" using assms(3) by simp
  then have "max (d div 2) 1 = d div 2" by simp
  then have cy: "cy * 2 + 2 \<le> d" using assms(1) by simp
  then have "cy * 2 * h + 2 * d \<le> cy * 2 * h + 2 * h" "cy * 2 * h + 2 * h \<le> d * h"
    using assms(4) mult_le_mono1 [OF cy, of h] by (simp_all add: algebra_simps)
  then have "cy * 2 * h div d + 2 \<le> h"
    using assms(3) div_le_mono [of "cy * 2 * h + 2 * d" "d * h" d] by simp
  from div_le_mono [OF this, of 2] have "cy * 2 * h div d div 2 < h div 2" by simp
  moreover have "min (cy * 2) (d - 1) = cy * 2" using cy by simp
  ultimately show ?thesis by simp
qed (use assms in auto)

definition downscale_ok :: "32 word \<Rightarrow> 32 word \<Rightarrow> 32 word \<Rightarrow> 32 word \<Rightarrow> bool" where
  "downscale_ok src_w src_h dst_w dst_h \<longleftrightarrow>
     2 \<le> unat src_w \<and> 2 \<le> unat src_h \<and> 0 < unat dst_w \<and> 0 < unat dst_h \<and>
     unat dst_w \<le> unat src_w \<and> unat dst_h \<le> unat src_h \<and> unat src_w * unat src_h < 2 ^ 32"

definition plane_len :: "nat \<Rightarrow> nat \<Rightarrow> nat" where
  "plane_len dw dh = dw * dh + 2 * (max (dh div 2) 1 * max (dw div 2) 1)"

lemma unat_max_1: "unat (max (x div 2) 1 :: 32 word) = max (unat x div 2) 1"
  by (simp add: max_def word_le_nat_alt unat_div)

lemma unat_half: "unat (x div 2 :: 32 word) = unat x div 2"
  by (simp add: unat_div)

lemma unat_times: "unat x * unat y < 2 ^ 32 \<Longrightarrow> unat (x * y :: 32 word) = unat x * unat y"
  using unat_mult_lem [of x y] by simp

lemma downscale_words:
  assumes "downscale_ok src_w src_h dst_w dst_h"
  shows "unat (src_w * src_h) = unat src_w * unat src_h"
    "unat (dst_w * dst_h) = unat dst_w * unat dst_h"
    "unat (src_w div 2 * (src_h div 2)) = unat src_w div 2 * (unat src_h div 2)"
proof -
  have "unat dst_w * unat dst_h \<le> unat src_w * unat src_h"
    using assms by (intro mult_le_mono) (auto simp: downscale_ok_def)
  moreover have "unat src_w div 2 * (unat src_h div 2) \<le> unat src_w * unat src_h"
    by (intro mult_le_mono) auto
  moreover have "unat src_w * unat src_h < 2 ^ 32" using assms by (simp add: downscale_ok_def)
  ultimately show "unat (src_w * src_h) = unat src_w * unat src_h"
    "unat (dst_w * dst_h) = unat dst_w * unat dst_h"
    "unat (src_w div 2 * (src_h div 2)) = unat src_w div 2 * (unat src_h div 2)"
    using unat_times [of src_w src_h] unat_times [of dst_w dst_h] unat_times [of "src_w div 2" "src_h div 2"]
    unfolding unat_half by linarith+
qed

lemma luma_source:
  assumes ok: "downscale_ok src_w src_h dst_w dst_h"
  shows "\<forall>(i, j)\<in>set (luma_pairs src_w src_h dst_w dst_h).
     i < unat dst_w * unat dst_h \<and> j < unat src_w * unat src_h \<and>
     j = downscale_source (unat src_w) (unat src_h) (unat dst_w) (unat dst_h) i"
    "fst ` set (luma_pairs src_w src_h dst_w dst_h) = {..<unat dst_w * unat dst_h}"
proof -
  have "dy * unat dst_w + dx < unat dst_w * unat dst_h" if "dy < unat dst_h" "dx < unat dst_w" for dx dy
    using pixel_index [OF that] by (simp add: mult.commute)
  moreover have "dy * unat src_h div unat dst_h * unat src_w + dx * unat src_w div unat dst_w < unat src_w * unat src_h"
    if "dy < unat dst_h" "dx < unat dst_w" for dx dy
  proof -
    have "0 < unat src_h" "0 < unat src_w" using ok by (auto simp: downscale_ok_def)
    then show ?thesis
      using pixel_index [OF scaled_index [OF _ that(1)] scaled_index [OF _ that(2)], of "unat src_h" "unat src_w"]
      by (simp only: mult.commute [of "unat src_w" "unat src_h"])
  qed
  ultimately show "\<forall>(i, j)\<in>set (luma_pairs src_w src_h dst_w dst_h).
     i < unat dst_w * unat dst_h \<and> j < unat src_w * unat src_h \<and>
     j = downscale_source (unat src_w) (unat src_h) (unat dst_w) (unat dst_h) i"
    by (auto simp: luma_pairs_def Let_def downscale_source_def)
  have "set (luma_pairs src_w src_h dst_w dst_h) =
      (\<lambda>(dy, dx). (dy * unat dst_w + dx, map_axis dst_h src_h ! dy * unat src_w + map_axis dst_w src_w ! dx)) `
        ({..<unat dst_h} \<times> {..<unat dst_w})"
    by (force simp: luma_pairs_def Let_def)
  then have "fst ` set (luma_pairs src_w src_h dst_w dst_h) =
      (\<lambda>(y, x). y * unat dst_w + x) ` ({..<unat dst_h} \<times> {..<unat dst_w})"
    by (simp add: image_image case_prod_beta)
  then show "fst ` set (luma_pairs src_w src_h dst_w dst_h) = {..<unat dst_w * unat dst_h}"
    unfolding pixels by (simp add: mult.commute)
qed

lemma chroma_source:
  assumes ok: "downscale_ok src_w src_h dst_w dst_h"
    and cw: "cw = max (unat dst_w div 2) 1" and ch: "ch = max (unat dst_h div 2) 1"
  shows "\<forall>(i, j)\<in>set (chroma_pairs src_w src_h dst_w dst_h ch cw).
     i < plane_len (unat dst_w) (unat dst_h) \<and>
     j < unat src_w * unat src_h + 2 * (unat src_w div 2 * (unat src_h div 2)) \<and>
     j = downscale_source (unat src_w) (unat src_h) (unat dst_w) (unat dst_h) i"
    "fst ` set (chroma_pairs src_w src_h dst_w dst_h ch cw) =
       {unat dst_w * unat dst_h..<plane_len (unat dst_w) (unat dst_h)}"
proof -
  let ?w = "unat src_w" and ?h = "unat src_h" and ?dw = "unat dst_w" and ?dh = "unat dst_h"
  let ?row = "\<lambda>cy. (min (cy * 2) (?dh - 1) * ?h div ?dh) div 2"
  let ?col = "\<lambda>cx. (min (cx * 2) (?dw - 1) * ?w div ?dw) div 2"
  let ?sc = "?w div 2 * (?h div 2)"
  have d: "0 < ?dw" "0 < ?dh" "2 \<le> ?w" "2 \<le> ?h" using ok by (auto simp: downscale_ok_def)
  have src: "?row cy * (?w div 2) + ?col cx < ?sc" if "cy < ch" "cx < cw" for cx cy
  proof -
    have "?row cy < ?h div 2" "?col cx < ?w div 2"
      using scaled_row ok that cw ch by (auto simp: downscale_ok_def)
    from pixel_index [OF this] show ?thesis by (simp add: mult.commute)
  qed
  have pair: "i < plane_len ?dw ?dh \<and> j < ?w * ?h + 2 * ?sc \<and> j = downscale_source ?w ?h ?dw ?dh i"
    if "cy < ch" "cx < cw" "p < 2" "i = ?dw * ?dh + p * (ch * cw) + (cy * cw + cx)"
       "j = ?w * ?h + p * ?sc + (?row cy * (?w div 2) + ?col cx)" for cx cy p i j
  proof -
    have m: "cy * cw + cx < ch * cw" using pixel_index [OF that(1,2)] .
    have "p = 0 \<or> p = 1" using that(3) by auto
    then have "i < plane_len ?dw ?dh" using m that(4) by (auto simp: plane_len_def cw ch)
    moreover have "p * ?sc \<le> 1 * ?sc" using that(3) by (intro mult_le_mono1) simp
    then have "j < ?w * ?h + 2 * ?sc" using src [OF that(1,2)] unfolding that(5) by linarith
    moreover have "(i - ?dw * ?dh) div (ch * cw) = p" "(i - ?dw * ?dh) mod (ch * cw) = cy * cw + cx"
      unfolding that(4) add.assoc diff_add_inverse using pixel_divmod [OF m] by blast+
    note at = this
    have hi: "\<not> i < ?dw * ?dh" using that(4) by simp
    have "downscale_source ?w ?h ?dw ?dh i = j"
      unfolding downscale_source_def Let_def cw [symmetric] ch [symmetric] if_not_P [OF hi] at
        conjunct1 [OF pixel_divmod [OF that(2)]] conjunct2 [OF pixel_divmod [OF that(2)]] that(5) add.assoc ..
    ultimately show ?thesis by (intro conjI) (assumption | rule sym)+
  qed
  have ax: "min (cy * 2) (?dh - 1) < ?dh" "min (cx * 2) (?dw - 1) < ?dw" for cx cy using d by auto
  define F where "F p cy cx = (?dw * ?dh + p * (ch * cw) + (cy * cw + cx),
      ?w * ?h + p * ?sc + (?row cy * (?w div 2) + ?col cx))" for p cy cx
  have "chroma_pairs src_w src_h dst_w dst_h ch cw =
      concat (map (\<lambda>cy. concat (map (\<lambda>cx. [F 0 cy cx, F 1 cy cx]) [0..<cw])) [0..<ch])"
    unfolding chroma_pairs_def Let_def downscale_words [OF ok] unat_half
    using ax by (simp add: F_def add_ac del: min_less_iff_disj One_nat_def)
  then have mem: "x \<in> set (chroma_pairs src_w src_h dst_w dst_h ch cw) \<longleftrightarrow>
      (\<exists>p<2. \<exists>cy<ch. \<exists>cx<cw. x = F p cy cx)" for x
    unfolding set_concat set_map by (force simp: less_2_cases_iff)
  have F: "case F p cy cx of (i, j) \<Rightarrow> i < plane_len ?dw ?dh \<and> j < ?w * ?h + 2 * ?sc \<and> j = downscale_source ?w ?h ?dw ?dh i"
    if "p < 2" "cy < ch" "cx < cw" for p cy cx
    unfolding F_def prod.case using pair [OF that(2,3,1) refl refl] .
  show "\<forall>(i, j)\<in>set (chroma_pairs src_w src_h dst_w dst_h ch cw).
     i < plane_len ?dw ?dh \<and> j < ?w * ?h + 2 * ?sc \<and> j = downscale_source ?w ?h ?dw ?dh i"
  proof
    fix x assume "x \<in> set (chroma_pairs src_w src_h dst_w dst_h ch cw)"
    then obtain p cy cx where "p < 2" "cy < ch" "cx < cw" "x = F p cy cx" unfolding mem by blast
    then show "case x of (i, j) \<Rightarrow> i < plane_len ?dw ?dh \<and> j < ?w * ?h + 2 * ?sc \<and> j = downscale_source ?w ?h ?dw ?dh i"
      using F by simp
  qed
  show "fst ` set (chroma_pairs src_w src_h dst_w dst_h ch cw) = {?dw * ?dh..<plane_len ?dw ?dh}"
  proof
    show "fst ` set (chroma_pairs src_w src_h dst_w dst_h ch cw) \<subseteq> {?dw * ?dh..<plane_len ?dw ?dh}"
    proof
      fix i assume "i \<in> fst ` set (chroma_pairs src_w src_h dst_w dst_h ch cw)"
      then obtain x where "x \<in> set (chroma_pairs src_w src_h dst_w dst_h ch cw)" "i = fst x" by blast
      then obtain p cy cx where "p < 2" "cy < ch" "cx < cw" "i = fst (F p cy cx)" unfolding mem by blast
      then show "i \<in> {?dw * ?dh..<plane_len ?dw ?dh}" using F [of p cy cx] by (auto simp: F_def)
    qed
    show "{?dw * ?dh..<plane_len ?dw ?dh} \<subseteq> fst ` set (chroma_pairs src_w src_h dst_w dst_h ch cw)"
    proof
      fix i assume i: "i \<in> {?dw * ?dh..<plane_len ?dw ?dh}"
      define r where "r = i - ?dw * ?dh"
      have c: "0 < ch * cw" by (simp add: cw ch less_max_iff_disj)
      have "r < 2 * (ch * cw)" using i by (auto simp: r_def plane_len_def cw ch)
      then have p: "r div (ch * cw) < 2" "r mod (ch * cw) < ch * cw" using c by (simp_all add: less_mult_imp_div_less)
      then have q: "r mod (ch * cw) div cw < ch" "r mod (ch * cw) mod cw < cw"
        using c by (simp_all add: less_mult_imp_div_less)
      have "i = ?dw * ?dh + r" using i by (simp add: r_def)
      then have "i = ?dw * ?dh + (r div (ch * cw) * (ch * cw) + r mod (ch * cw))" unfolding div_mult_mod_eq .
      then have "i = fst (F (r div (ch * cw)) (r mod (ch * cw) div cw) (r mod (ch * cw) mod cw))"
        by (simp only: F_def fst_conv div_mult_mod_eq add.assoc)
      moreover have "F (r div (ch * cw)) (r mod (ch * cw) div cw) (r mod (ch * cw) mod cw)
          \<in> set (chroma_pairs src_w src_h dst_w dst_h ch cw)"
        unfolding mem using p(1) q by blast
      ultimately show "i \<in> fst ` set (chroma_pairs src_w src_h dst_w dst_h ch cw)"
        by (rule image_eqI)
    qed
  qed
qed

lemma downscale_into_source:
  assumes ok: "downscale_ok src_w src_h dst_w dst_h" and ne: "\<not> (dst_w = src_w \<and> dst_h = src_h)"
    and len: "unat src_w * unat src_h + 2 * (unat src_w div 2 * (unat src_h div 2)) \<le> length src"
  shows "downscale_into old src src_w src_h dst_w dst_h =
     Some (map (\<lambda>k. src ! downscale_source (unat src_w) (unat src_h) (unat dst_w) (unat dst_h) k)
       [0..<plane_len (unat dst_w) (unat dst_h)])"
proof -
  let ?g = "downscale_source (unat src_w) (unat src_h) (unat dst_w) (unat dst_h)"
  let ?n = "plane_len (unat dst_w) (unat dst_h)"
  let ?ch = "max (unat dst_h div 2) 1" and ?cw = "max (unat dst_w div 2) 1"
  let ?ps = "luma_pairs src_w src_h dst_w dst_h @ chroma_pairs src_w src_h dst_w dst_h ?ch ?cw"
  define out where "out = (if length old < ?n then replicate ?n 0 else take ?n old)"
  have out: "length out = ?n" by (simp add: out_def)
  have pairs: "\<forall>(i, j)\<in>set ?ps. i < length out \<and> j < length src \<and> j = ?g i"
    using luma_source(1) [OF ok] chroma_source(1) [OF ok refl refl] len unfolding out
    by (force simp: plane_len_def)
  have "fst ` set ?ps = {..<length out}"
    unfolding set_append image_Un luma_source(2) [OF ok] chroma_source(2) [OF ok refl refl] out
    by (auto simp: plane_len_def)
  from store_all_total [OF pairs this] have s: "store_all src ?ps out = Some (map (\<lambda>k. src ! ?g k) [0..<?n])"
    by (simp add: out)
  have go: "\<not> (src_w = 0 \<or> src_h = 0 \<or> dst_w = 0 \<or> dst_h = 0 \<or> src_w < dst_w \<or> src_h < dst_h \<or>
       length src < unat (src_w * src_h) + 2 * unat (src_w div 2 * (src_h div 2)))"
    using ok len unfolding downscale_words [OF ok] by (auto simp: downscale_ok_def word_less_nat_alt)
  have n: "unat (dst_w * dst_h) + 2 * (?ch * ?cw) = ?n"
    unfolding downscale_words [OF ok] by (simp add: plane_len_def)
  show ?thesis
    using s unfolding downscale_into_def Let_def if_not_P [OF go] if_not_P [OF ne] unat_max_1 n store_all_append
      out_def [symmetric] .
qed

section \<open>Quarter turns\<close>

definition rotated_dims :: "nat \<Rightarrow> nat \<Rightarrow> int \<Rightarrow> nat \<times> nat" where
  "rotated_dims width height rotation =
     (if rotation = 90 \<or> rotation = 270 then (height, width) else (width, height))"

definition compose_rotation_flips :: "int \<Rightarrow> bool \<Rightarrow> bool \<Rightarrow> int \<times> bool \<times> bool" where
  "compose_rotation_flips rotation hflip vflip =
     (if rotation = 180 then (0, \<not> hflip, \<not> vflip)
      else if rotation = 90 \<or> rotation = 270 then (rotation, hflip, vflip)
      else (0, hflip, vflip))"

definition normalize_rotation :: "int \<Rightarrow> int" where
  "normalize_rotation degrees =
     (if degrees = 90 \<or> degrees = 180 \<or> degrees = 270 then degrees else 0)"

definition transpose_tile :: nat where
  "transpose_tile = 64"

text \<open>One tile: gather the source runs into the tile, then scatter its columns.\<close>

definition gather_pairs :: "nat \<Rightarrow> nat \<Rightarrow> nat \<Rightarrow> nat \<Rightarrow> nat \<Rightarrow> (nat \<times> nat) list" where
  "gather_pairs pw sy0 sx0 sy_n sx_n =
     concat (map (\<lambda>i. map (\<lambda>c. (i * transpose_tile + c, (sy0 + i) * pw + sx0 + c)) [0..<sx_n]) [0..<sy_n])"

definition scatter_pairs :: "nat \<Rightarrow> nat \<Rightarrow> bool \<Rightarrow> nat \<Rightarrow> nat \<Rightarrow> nat \<Rightarrow> nat \<Rightarrow> (nat \<times> nat) list" where
  "scatter_pairs pw ph clockwise sy0 sx0 sy_n sx_n =
     (if clockwise
      then concat (map (\<lambda>j. map (\<lambda>k.
        ((sx0 + j) * ph + ph - sy0 - sy_n + k, (sy_n - 1 - k) * transpose_tile + j)) [0..<sy_n]) [0..<sx_n])
      else concat (map (\<lambda>j. map (\<lambda>k.
        ((pw - 1 - sx0 - j) * ph + sy0 + k, k * transpose_tile + j)) [0..<sy_n]) [0..<sx_n]))"

definition transpose_block ::
  "bytes \<Rightarrow> nat \<Rightarrow> nat \<Rightarrow> bool \<Rightarrow> nat \<Rightarrow> nat \<Rightarrow> bytes \<times> bytes \<Rightarrow> (bytes \<times> bytes) option" where
  "transpose_block src pw ph clockwise sy0 sx0 = (\<lambda>(tile, dst).
     let sy_n = min transpose_tile (ph - sy0); sx_n = min transpose_tile (pw - sx0) in
     Option.bind (store_all src (gather_pairs pw sy0 sx0 sy_n sx_n) tile) (\<lambda>tile'.
       map_option (Pair tile') (store_all tile' (scatter_pairs pw ph clockwise sy0 sx0 sy_n sx_n) dst)))"

text \<open>The loop \<open>for x := 0; x < n; x += transposeTile\<close>.\<close>

definition tile_starts :: "nat \<Rightarrow> nat list" where
  "tile_starts n = map (\<lambda>t. t * transpose_tile) [0..<(n + transpose_tile - 1) div transpose_tile]"

definition tiles :: "nat \<Rightarrow> nat \<Rightarrow> (nat \<times> nat) list" where
  "tiles pw ph = concat (map (\<lambda>sy0. map (Pair sy0) (tile_starts pw)) (tile_starts ph))"

fun bind_all :: "('a \<Rightarrow> 's \<Rightarrow> 's option) \<Rightarrow> 'a list \<Rightarrow> 's \<Rightarrow> 's option" where
  "bind_all f [] s = Some s"
| "bind_all f (x # xs) s = Option.bind (f x s) (bind_all f xs)"

definition transpose_plane :: "bytes \<Rightarrow> bytes \<Rightarrow> nat \<Rightarrow> nat \<Rightarrow> bool \<Rightarrow> bytes option" where
  "transpose_plane src dst pw ph clockwise =
     map_option snd (bind_all (\<lambda>(sy0, sx0). transpose_block src pw ph clockwise sy0 sx0) (tiles pw ph)
       (replicate (transpose_tile * transpose_tile) 0, dst))"

text \<open>
  \<open>scratch\<close> is the backing array of the second buffer; the result is the dimensions, the new
  \<open>*buf\<close> and the new \<open>*scratch\<close>.
\<close>

definition rotate_yu12 ::
  "bytes \<Rightarrow> bytes \<Rightarrow> nat \<Rightarrow> nat \<Rightarrow> int \<Rightarrow> ((nat \<times> nat) \<times> bytes \<times> bytes) option" where
  "rotate_yu12 buf scratch width height rotation =
     (if rotation \<noteq> 90 \<and> rotation \<noteq> 270 then Some ((width, height), buf, scratch)
      else
        let clockwise = (rotation = 90); y_size = width * height; cw = (width + 1) div 2;
            ch = (height + 1) div 2; c_size = cw * ch in
        if width = 0 \<or> height = 0 \<or> length buf < y_size + 2 * cw * ch then Some ((height, width), buf, scratch)
        else
          let scratch = (if length scratch < length buf then replicate (length buf) 0 else scratch);
              out = take (length buf) scratch in
          Option.bind (transpose_plane (take y_size buf) (take y_size out) width height clockwise) (\<lambda>y.
          Option.bind (transpose_plane (take c_size (drop y_size buf)) (take c_size (drop y_size out)) cw ch clockwise) (\<lambda>u.
          map_option (\<lambda>v. ((height, width), y @ u @ v, buf))
            (transpose_plane (drop (y_size + c_size) buf) (drop (y_size + c_size) out) cw ch clockwise))))"

text \<open>The naive transposition: which source byte a byte of the turned plane shows.\<close>

definition transpose_source :: "nat \<Rightarrow> nat \<Rightarrow> bool \<Rightarrow> nat \<Rightarrow> nat" where
  "transpose_source pw ph clockwise k =
     (if clockwise then (ph - 1 - k mod ph) * pw + k div ph else k mod ph * pw + (pw - 1 - k div ph))"

definition transposed :: "bytes \<Rightarrow> nat \<Rightarrow> nat \<Rightarrow> bool \<Rightarrow> bytes" where
  "transposed p pw ph clockwise = map (\<lambda>k. p ! transpose_source pw ph clockwise k) [0..<pw * ph]"

section \<open>The tiled transposition is the naive one\<close>

lemma length_store_all: "store_all src ps out = Some r \<Longrightarrow> length r = length out"
  by (induction src ps out rule: store_all.induct) (auto split: if_splits)

text \<open>Gathering through a tile is storing straight from the source.\<close>

lemma store_all_through:
  "\<forall>(d, t)\<in>set qs. t < length tile \<and> f t < length src \<and> tile ! t = src ! f t \<Longrightarrow>
   store_all tile qs dst = store_all src (map (\<lambda>(d, t). (d, f t)) qs) dst"
  by (induction tile qs dst rule: store_all.induct) auto

definition block_pairs :: "nat \<Rightarrow> nat \<Rightarrow> bool \<Rightarrow> nat \<times> nat \<Rightarrow> (nat \<times> nat) list" where
  "block_pairs pw ph clockwise = (\<lambda>(sy0, sx0).
     let sy_n = min transpose_tile (ph - sy0); sx_n = min transpose_tile (pw - sx0) in
     map (\<lambda>(d, t). (d, (sy0 + t div transpose_tile) * pw + sx0 + t mod transpose_tile))
       (scatter_pairs pw ph clockwise sy0 sx0 sy_n sx_n))"

lemma set_gather:
  "set (gather_pairs pw sy0 sx0 m n) =
     {(i * transpose_tile + c, (sy0 + i) * pw + sx0 + c) | i c. i < m \<and> c < n}"
  by (force simp: gather_pairs_def)

lemma set_scatter_cw:
  "set (scatter_pairs pw ph True sy0 sx0 m n) =
     {((sx0 + j) * ph + ph - sy0 - m + k, (m - 1 - k) * transpose_tile + j) | j k. j < n \<and> k < m}"
  by (force simp: scatter_pairs_def)

lemma set_scatter_ccw:
  "set (scatter_pairs pw ph False sy0 sx0 m n) =
     {((pw - 1 - sx0 - j) * ph + sy0 + k, k * transpose_tile + j) | j k. j < n \<and> k < m}"
  by (force simp: scatter_pairs_def)

text \<open>The tile offsets a scatter reads are those of its rows and columns.\<close>

lemma scatter_reads:
  assumes "(d, t) \<in> set (scatter_pairs pw ph clockwise sy0 sx0 m n)" "n \<le> transpose_tile"
  shows "\<exists>i<m. \<exists>c<n. t = i * transpose_tile + c \<and> t div transpose_tile = i \<and> t mod transpose_tile = c"
proof (cases clockwise)
  case True
  then obtain j k where "j < n" "k < m" "t = (m - 1 - k) * transpose_tile + j"
    using assms(1) by (auto simp: set_scatter_cw)
  then show ?thesis
    using assms(2) by (intro exI [of _ "m - 1 - k"] conjI exI [of _ j]) auto
next
  case False
  then obtain j k where "j < n" "k < m" "t = k * transpose_tile + j"
    using assms(1) by (auto simp: set_scatter_ccw)
  then show ?thesis
    using assms(2) by (intro exI [of _ k] conjI exI [of _ j]) auto
qed

lemma block_stores:
  assumes src: "pw * ph \<le> length src" and tile: "length tile = transpose_tile * transpose_tile"
    and s: "sy0 < ph" "sx0 < pw"
  shows "\<exists>tile'. length tile' = length tile \<and>
     transpose_block src pw ph clockwise sy0 sx0 (tile, dst) =
       map_option (Pair tile') (store_all src (block_pairs pw ph clockwise (sy0, sx0)) dst)"
proof -
  define m n where "m = min transpose_tile (ph - sy0)" and "n = min transpose_tile (pw - sx0)"
  define g where "g t = (sy0 + t div transpose_tile) * pw + sx0 + t mod transpose_tile" for t
  have mn: "m \<le> transpose_tile" "n \<le> transpose_tile" "sy0 + m \<le> ph" "sx0 + n \<le> pw"
    using s by (auto simp: m_def n_def)
  have rd: "i * transpose_tile + c < length tile \<and> (sy0 + i) * pw + sx0 + c < length src \<and>
      g (i * transpose_tile + c) = (sy0 + i) * pw + sx0 + c" if "i < m" "c < n" for i c
  proof -
    have t: "i < transpose_tile" "c < transpose_tile" "sy0 + i < ph" "sx0 + c < pw" using that mn by auto
    have "(sy0 + i) * pw + (sx0 + c) < ph * pw" using pixel_index [OF t(3,4)] .
    moreover have "g (i * transpose_tile + c) = (sy0 + i) * pw + sx0 + c"
      using pixel_divmod [OF t(2)] by (simp add: g_def)
    ultimately show ?thesis using pixel_index [OF t(1,2)] src tile by (simp add: mult.commute add.assoc)
  qed
  let ?P = "gather_pairs pw sy0 sx0 m n"
  have g: "\<forall>(i, j)\<in>set ?P. i < length tile \<and> j < length src \<and> j = g i"
    using rd by (auto simp: set_gather)
  define tile' where "tile' = map (\<lambda>k. if k \<in> fst ` set ?P then src ! g k else tile ! k) [0..<length tile]"
  have st: "store_all src ?P tile = Some tile'" unfolding tile'_def by (rule store_all_fun [OF g])
  have "t < length tile' \<and> g t < length src \<and> tile' ! t = src ! g t"
    if "(d, t) \<in> set (scatter_pairs pw ph clockwise sy0 sx0 m n)" for d t
  proof -
    from scatter_reads [OF that mn(2)]
    obtain i c where ic: "i < m" "c < n" "t = i * transpose_tile + c" by blast
    then have "t \<in> fst ` set ?P" by (force simp: set_gather)
    then show ?thesis using rd [OF ic(1,2)] ic(3) by (simp add: tile'_def)
  qed
  then have "\<forall>(d, t)\<in>set (scatter_pairs pw ph clockwise sy0 sx0 m n).
      t < length tile' \<and> g t < length src \<and> tile' ! t = src ! g t" by blast
  from store_all_through [OF this]
  have "transpose_block src pw ph clockwise sy0 sx0 (tile, dst) =
      map_option (Pair tile') (store_all src (block_pairs pw ph clockwise (sy0, sx0)) dst)"
    unfolding transpose_block_def block_pairs_def Let_def prod.case m_def [symmetric] n_def [symmetric]
      st g_def by simp
  then show ?thesis using length_store_all [OF st] by blast
qed

lemma bind_all_blocks:
  assumes src: "pw * ph \<le> length src"
  shows "\<forall>(sy0, sx0)\<in>set ts. sy0 < ph \<and> sx0 < pw \<Longrightarrow> length tile = transpose_tile * transpose_tile \<Longrightarrow>
   map_option snd (bind_all (\<lambda>(sy0, sx0). transpose_block src pw ph clockwise sy0 sx0) ts (tile, dst)) =
     store_all src (concat (map (block_pairs pw ph clockwise) ts)) dst"
proof (induction ts arbitrary: tile dst)
  case (Cons t ts)
  obtain sy0 sx0 where t: "t = (sy0, sx0)" by fastforce
  obtain tile' where "length tile' = length tile" "transpose_block src pw ph clockwise sy0 sx0 (tile, dst) =
       map_option (Pair tile') (store_all src (block_pairs pw ph clockwise (sy0, sx0)) dst)"
    using block_stores [OF src] Cons.prems t by fastforce
  then show ?case
    using Cons by (cases "store_all src (block_pairs pw ph clockwise (sy0, sx0)) dst")
      (auto simp: t store_all_append)
qed simp


definition turn_dest :: "nat \<Rightarrow> nat \<Rightarrow> bool \<Rightarrow> nat \<Rightarrow> nat \<Rightarrow> nat" where
  "turn_dest pw ph clockwise y x = (if clockwise then x * ph + (ph - 1 - y) else (pw - 1 - x) * ph + y)"

lemma turn_dest_source:
  assumes "y < ph" "x < pw"
  shows "turn_dest pw ph clockwise y x < pw * ph"
    "transpose_source pw ph clockwise (turn_dest pw ph clockwise y x) = y * pw + x"
proof -
  have "ph - 1 - y < ph" "pw - 1 - x < pw" using assms by auto
  then show "turn_dest pw ph clockwise y x < pw * ph"
    using pixel_index [of x pw "ph - 1 - y" ph] pixel_index [of "pw - 1 - x" pw y ph] assms by (simp add: turn_dest_def)
  show "transpose_source pw ph clockwise (turn_dest pw ph clockwise y x) = y * pw + x"
    using pixel_divmod [of "ph - 1 - y" ph x] pixel_divmod [of y ph "pw - 1 - x"] assms
    by (simp add: turn_dest_def transpose_source_def)
qed

lemma block_pairs_mem:
  assumes "sy0 < ph" "sx0 < pw"
  shows "p \<in> set (block_pairs pw ph clockwise (sy0, sx0)) \<longleftrightarrow>
     (\<exists>i<min transpose_tile (ph - sy0). \<exists>j<min transpose_tile (pw - sx0).
        p = (turn_dest pw ph clockwise (sy0 + i) (sx0 + j), (sy0 + i) * pw + (sx0 + j)))"
proof -
  define m n where "m = min transpose_tile (ph - sy0)" and "n = min transpose_tile (pw - sx0)"
  have mn: "m \<le> transpose_tile" "n \<le> transpose_tile" "sy0 + m \<le> ph" "sx0 + n \<le> pw"
    using assms by (auto simp: m_def n_def)
  define F where "F i j = (turn_dest pw ph clockwise (sy0 + i) (sx0 + j), (sy0 + i) * pw + (sx0 + j))" for i j
  define H where "H = (\<lambda>(d :: nat, t). (d, (sy0 + t div transpose_tile) * pw + sx0 + t mod transpose_tile))"
  have b: "set (block_pairs pw ph clockwise (sy0, sx0)) = H ` set (scatter_pairs pw ph clockwise sy0 sx0 m n)"
    by (simp add: block_pairs_def Let_def m_def n_def H_def)
  have cw: "H ((sx0 + j) * ph + ph - sy0 - m + k, (m - 1 - k) * transpose_tile + j) = F (m - 1 - k) j"
    if "j < n" "k < m" clockwise for j k
  proof -
    have "j < transpose_tile" using that mn by simp
    moreover have "(sx0 + j) * ph + ph - sy0 - m + k = (sx0 + j) * ph + (ph - 1 - (sy0 + (m - 1 - k)))"
      using that mn(3) by linarith
    ultimately show ?thesis using that pixel_divmod [of j transpose_tile] by (simp add: H_def F_def turn_dest_def)
  qed
  have ccw: "H ((pw - 1 - sx0 - j) * ph + sy0 + k, k * transpose_tile + j) = F k j"
    if "j < n" "k < m" "\<not> clockwise" for j k
  proof -
    have "j < transpose_tile" using that mn by simp
    then show ?thesis using that pixel_divmod [of j transpose_tile] by (simp add: H_def F_def turn_dest_def)
  qed
  have "p \<in> H ` set (scatter_pairs pw ph clockwise sy0 sx0 m n) \<longleftrightarrow> (\<exists>i<m. \<exists>j<n. p = F i j)"
  proof (cases clockwise)
    case True
    have "(\<exists>j<n. \<exists>k<m. p = F (m - 1 - k) j) \<longleftrightarrow> (\<exists>i<m. \<exists>j<n. p = F i j)"
    proof
      assume "\<exists>i<m. \<exists>j<n. p = F i j"
      then obtain i j where "i < m" "j < n" "p = F i j" by blast
      then have "p = F (m - 1 - (m - 1 - i)) j" "m - 1 - i < m" by auto
      then show "\<exists>j<n. \<exists>k<m. p = F (m - 1 - k) j" using \<open>j < n\<close> by blast
    next
      assume "\<exists>j<n. \<exists>k<m. p = F (m - 1 - k) j"
      then obtain k j where "k < m" "j < n" "p = F (m - 1 - k) j" by blast
      moreover have "m - 1 - k < m" using \<open>k < m\<close> by simp
      ultimately show "\<exists>i<m. \<exists>j<n. p = F i j" by blast
    qed
    moreover have "p \<in> H ` set (scatter_pairs pw ph clockwise sy0 sx0 m n) \<longleftrightarrow>
        (\<exists>j<n. \<exists>k<m. p = H ((sx0 + j) * ph + ph - sy0 - m + k, (m - 1 - k) * transpose_tile + j))"
      using True by (auto simp: set_scatter_cw image_iff)
    moreover have "(\<exists>j<n. \<exists>k<m. p = H ((sx0 + j) * ph + ph - sy0 - m + k, (m - 1 - k) * transpose_tile + j)) \<longleftrightarrow>
        (\<exists>j<n. \<exists>k<m. p = F (m - 1 - k) j)"
      by (intro ex_cong1 conj_cong refl) (simp only: cw True)
    ultimately show ?thesis by simp
  next
    case False
    have "p \<in> H ` set (scatter_pairs pw ph clockwise sy0 sx0 m n) \<longleftrightarrow>
        (\<exists>j<n. \<exists>k<m. p = H ((pw - 1 - sx0 - j) * ph + sy0 + k, k * transpose_tile + j))"
      using False by (auto simp: set_scatter_ccw image_iff)
    moreover have "(\<exists>j<n. \<exists>k<m. p = H ((pw - 1 - sx0 - j) * ph + sy0 + k, k * transpose_tile + j)) \<longleftrightarrow>
        (\<exists>j<n. \<exists>k<m. p = F k j)"
      by (intro ex_cong1 conj_cong refl) (simp only: ccw False not_False_eq_True)
    ultimately show ?thesis by blast
  qed
  then show ?thesis unfolding b F_def m_def n_def .
qed

lemma tile_starts_mem: "s \<in> set (tile_starts n) \<longleftrightarrow> s < n \<and> transpose_tile dvd s"
proof -
  have t: "t < (n + transpose_tile - 1) div transpose_tile \<longleftrightarrow> transpose_tile * t < n" for t
    unfolding less_eq_Suc_le transpose_tile_def by (subst less_eq_div_iff_mult_less_eq) auto
  have "s \<in> set (tile_starts n) \<longleftrightarrow> (\<exists>t. t < (n + transpose_tile - 1) div transpose_tile \<and> s = transpose_tile * t)"
    unfolding tile_starts_def
    by (simp only: set_map set_upt image_iff Bex_def atLeastLessThan_iff le0 simp_thms mult.commute [of _ transpose_tile])
  also have "\<dots> \<longleftrightarrow> s < n \<and> transpose_tile dvd s" unfolding t dvd_def by blast
  finally show ?thesis .
qed

lemma tiles_mem: "(sy0, sx0) \<in> set (tiles pw ph) \<longleftrightarrow> sy0 \<in> set (tile_starts ph) \<and> sx0 \<in> set (tile_starts pw)"
  by (auto simp: tiles_def)

lemma tile_of: "\<exists>s\<in>set (tile_starts n). \<exists>i<min transpose_tile (n - s). x = s + i" if "x < n"
proof (intro bexI exI conjI)
  show "x div transpose_tile * transpose_tile \<in> set (tile_starts n)"
    using that using le_less_trans [OF div_times_less_eq_dividend that] by (simp add: tile_starts_mem)
  show "x mod transpose_tile < min transpose_tile (n - x div transpose_tile * transpose_tile)"
    using that div_mult_mod_eq [of x transpose_tile] unfolding min_less_iff_conj less_diff_conv
    by (simp add: transpose_tile_def add.commute del: div_mult_mod_eq)
qed (simp only: div_mult_mod_eq)

lemma map_prefix:
  "n \<le> length dst \<Longrightarrow>
   map (\<lambda>k. if k \<in> {..<n} then f k else dst ! k) [0..<length dst] = map f [0..<n] @ drop n dst"
  by (rule nth_equalityI) (auto simp: nth_append)

lemma transpose_plane_naive:
  assumes "pw * ph \<le> length src" "pw * ph \<le> length dst"
  shows "transpose_plane src dst pw ph clockwise =
    Some (transposed src pw ph clockwise @ drop (pw * ph) dst)"
proof -
  let ?ps = "concat (map (block_pairs pw ph clockwise) (tiles pw ph))"
  have ts: "\<forall>(sy0, sx0)\<in>set (tiles pw ph). sy0 < ph \<and> sx0 < pw"
    by (auto simp: tiles_mem tile_starts_mem)
  have P: "\<forall>(i, j)\<in>set ?ps. i < pw * ph \<and> j < length src \<and> j = transpose_source pw ph clockwise i"
  proof (intro ballI)
    fix p assume "p \<in> set ?ps"
    then obtain sy0 sx0 where t: "(sy0, sx0) \<in> set (tiles pw ph)" "p \<in> set (block_pairs pw ph clockwise (sy0, sx0))"
      by auto
    then have s: "sy0 < ph" "sx0 < pw" using ts by auto
    then obtain i j where ij: "i < ph - sy0" "j < pw - sx0"
        "p = (turn_dest pw ph clockwise (sy0 + i) (sx0 + j), (sy0 + i) * pw + (sx0 + j))"
      using t(2) by (auto simp: block_pairs_mem)
    then have yx: "sy0 + i < ph" "sx0 + j < pw" by auto
    have "(sy0 + i) * pw + (sx0 + j) < pw * ph" using pixel_index [OF yx] by (simp add: mult.commute)
    then show "case p of (i, j) \<Rightarrow> i < pw * ph \<and> j < length src \<and> j = transpose_source pw ph clockwise i"
      using turn_dest_source [OF yx] assms ij(3) by simp
  qed
  have S: "fst ` set ?ps = {..<pw * ph}"
  proof
    show "fst ` set ?ps \<subseteq> {..<pw * ph}"
    proof
      fix i assume "i \<in> fst ` set ?ps"
      then obtain p where "p \<in> set ?ps" "i = fst p" by blast
      then show "i \<in> {..<pw * ph}" using bspec [OF P \<open>p \<in> set ?ps\<close>] by (simp add: case_prod_beta)
    qed
    show "{..<pw * ph} \<subseteq> fst ` set ?ps"
    proof
      fix k assume k: "k \<in> {..<pw * ph}"
      then have kd: "k div ph < pw" "k mod ph < ph" "0 < ph"
        using assms(2) by (auto simp: less_mult_imp_div_less) (cases ph; simp)+
      obtain y x where yx: "y < ph" "x < pw" "k = turn_dest pw ph clockwise y x"
      proof (cases clockwise)
        case True
        then show ?thesis using that [of "ph - 1 - k mod ph" "k div ph"] kd by (simp add: turn_dest_def)
      next
        case False
        then show ?thesis using that [of "k mod ph" "pw - 1 - k div ph"] kd by (simp add: turn_dest_def)
      qed
      obtain sy0 i where y: "sy0 \<in> set (tile_starts ph)" "i < min transpose_tile (ph - sy0)" "y = sy0 + i"
        using tile_of [OF yx(1)] by blast
      obtain sx0 j where x: "sx0 \<in> set (tile_starts pw)" "j < min transpose_tile (pw - sx0)" "x = sx0 + j"
        using tile_of [OF yx(2)] by blast
      have "sy0 < ph" "sx0 < pw" using x(1) y(1) by (auto simp: tile_starts_mem)
      then have "(k, y * pw + x) \<in> set (block_pairs pw ph clockwise (sy0, sx0))"
        unfolding block_pairs_mem [OF \<open>sy0 < ph\<close> \<open>sx0 < pw\<close>] using x(2,3) y(2,3) yx(3) by blast
      moreover have "(sy0, sx0) \<in> set (tiles pw ph)" using x(1) y(1) by (simp add: tiles_mem)
      ultimately show "k \<in> fst ` set ?ps" by (force simp: image_iff)
    qed
  qed
  have "\<forall>(i, j)\<in>set ?ps. i < length dst \<and> j < length src \<and> j = transpose_source pw ph clockwise i"
  proof
    fix p assume "p \<in> set ?ps"
    from bspec [OF P this] show "case p of (i, j) \<Rightarrow>
        i < length dst \<and> j < length src \<and> j = transpose_source pw ph clockwise i"
      using assms(2) by (simp add: case_prod_beta)
  qed
  from store_all_fun [OF this] have
    "store_all src ?ps dst = Some (transposed src pw ph clockwise @ drop (pw * ph) dst)"
    unfolding S transposed_def map_prefix [OF assms(2)] .
  then show ?thesis
    unfolding transpose_plane_def using bind_all_blocks [OF assms(1) ts] by simp
qed

section \<open>A frame turned is its planes turned\<close>

definition chroma_dim :: "nat \<Rightarrow> nat" where
  "chroma_dim n = (n + 1) div 2"

definition frame_len :: "nat \<Rightarrow> nat \<Rightarrow> nat" where
  "frame_len width height = width * height + 2 * (chroma_dim width * chroma_dim height)"

definition turned_frame :: "bytes \<Rightarrow> nat \<Rightarrow> nat \<Rightarrow> bool \<Rightarrow> bytes" where
  "turned_frame buf width height clockwise =
     (let cw = chroma_dim width; ch = chroma_dim height; y = width * height in
      transposed buf width height clockwise @ transposed (drop y buf) cw ch clockwise @
      transposed (drop (y + cw * ch) buf) cw ch clockwise)"

lemma length_transposed [simp]: "length (transposed p pw ph c) = pw * ph"
  by (simp add: transposed_def)

lemma transpose_source_less: "k < pw * ph \<Longrightarrow> transpose_source pw ph c k < pw * ph"
proof -
  assume "k < pw * ph"
  then have k: "k div ph < pw" "k mod ph < ph" "0 < ph"
    by (auto simp: less_mult_imp_div_less) (cases ph; simp)+
  then have "(ph - 1 - k mod ph) * pw + k div ph < ph * pw" "k mod ph * pw + (pw - 1 - k div ph) < ph * pw"
    using pixel_index [of "ph - 1 - k mod ph" ph "k div ph" pw] pixel_index [of "k mod ph" ph "pw - 1 - k div ph" pw]
    by simp_all
  then show ?thesis by (simp add: transpose_source_def mult.commute)
qed

lemma transposed_take: "pw * ph \<le> n \<Longrightarrow> transposed (take n p) pw ph c = transposed p pw ph c"
  unfolding transposed_def
  by (intro map_cong refl nth_take) (metis add_0 atLeastLessThan_iff less_le_trans set_upt transpose_source_less)

lemma rotate_frame:
  assumes "rotation = 90 \<or> rotation = 270" "0 < width" "0 < height" "length buf = frame_len width height"
  shows "rotate_yu12 buf scratch width height rotation =
    Some ((height, width), turned_frame buf width height (rotation = 90), buf)"
proof -
  define cw ch y where "cw = (width + 1) div 2" and "ch = (height + 1) div 2" and "y = width * height"
  have len: "length buf = y + 2 * (cw * ch)"
    using assms(4) by (simp add: frame_len_def chroma_dim_def cw_def ch_def y_def)
  define out where "out = take (length buf) (if length scratch < length buf then replicate (length buf) 0 else scratch)"
  have out: "length out = length buf" by (simp add: out_def)
  have 1: "transpose_plane (take y buf) (take y out) width height c = Some (transposed buf width height c)" for c
    using transpose_plane_naive [of width height "take y buf" "take y out" c] len out
    by (simp add: y_def transposed_take)
  have 2: "transpose_plane (take (cw * ch) (drop y buf)) (take (cw * ch) (drop y out)) cw ch c =
      Some (transposed (drop y buf) cw ch c)" for c
    using transpose_plane_naive [of cw ch "take (cw * ch) (drop y buf)" "take (cw * ch) (drop y out)" c] len out
    by (simp add: transposed_take)
  have 3: "transpose_plane (drop (y + cw * ch) buf) (drop (y + cw * ch) out) cw ch c =
      Some (transposed (drop (y + cw * ch) buf) cw ch c)" for c
    using transpose_plane_naive [of cw ch "drop (y + cw * ch) buf" "drop (y + cw * ch) out" c] len out by simp
  have r: "\<not> (rotation \<noteq> 90 \<and> rotation \<noteq> 270)"
    and g: "\<not> (width = 0 \<or> height = 0 \<or> length buf < y + 2 * cw * ch)" using assms len by auto
  show ?thesis
    unfolding rotate_yu12_def Let_def if_not_P [OF r] cw_def [symmetric] ch_def [symmetric] y_def [symmetric]
      if_not_P [OF g] out_def [symmetric] 1 2 3
    by (simp add: turned_frame_def chroma_dim_def Let_def cw_def ch_def y_def)
qed

text \<open>Turning back reads where the first turn wrote.\<close>

lemma transpose_source_back:
  "transpose_source ph pw (\<not> c) k = turn_dest pw ph c (k div pw) (k mod pw)"
  by (simp add: transpose_source_def turn_dest_def)

lemma transposed_back:
  "pw * ph \<le> length p \<Longrightarrow> transposed (transposed p pw ph c) ph pw (\<not> c) = take (pw * ph) p"
proof -
  assume len: "pw * ph \<le> length p"
  have "transposed (transposed p pw ph c) ph pw (\<not> c) ! k = p ! k" if k: "k < pw * ph" for k
  proof -
    have yx: "k div pw < ph" "k mod pw < pw"
      using k by (auto simp: less_mult_imp_div_less mult.commute) (cases pw; simp)
    have "transposed (transposed p pw ph c) ph pw (\<not> c) ! k = transposed p pw ph c ! turn_dest pw ph c (k div pw) (k mod pw)"
      using k unfolding transposed_def [of "transposed p pw ph c"] transpose_source_back by (simp add: mult.commute)
    also have "\<dots> = p ! (k div pw * pw + k mod pw)"
      using turn_dest_source [OF yx] by (simp only: transposed_def length_map length_upt nth_map_upt diff_zero add_0)
    finally show ?thesis by simp
  qed
  then show ?thesis using len by (auto simp: list_eq_iff_nth_eq mult.commute)
qed

lemma turned_frame_back:
  assumes "length buf = frame_len width height"
  shows "turned_frame (turned_frame buf width height c) height width (\<not> c) = buf"
proof -
  define cw ch y where "cw = chroma_dim width" and "ch = chroma_dim height" and "y = width * height"
  have len: "length buf = y + cw * ch + cw * ch" using assms by (simp add: frame_len_def cw_def ch_def y_def)
  let ?Y = "transposed buf width height c" and ?U = "transposed (drop y buf) cw ch c"
    and ?V = "transposed (drop (y + cw * ch) buf) cw ch c"
  have f: "turned_frame buf width height c = ?Y @ ?U @ ?V"
    by (simp add: turned_frame_def Let_def cw_def ch_def y_def)
  have d: "drop (height * width) (?Y @ ?U @ ?V) = ?U @ ?V" "drop (height * width + ch * cw) (?Y @ ?U @ ?V) = ?V"
    by (simp_all add: mult.commute)
  have t: "transposed (?Y @ ?U @ ?V) height width (\<not> c) = transposed ?Y height width (\<not> c)"
      "transposed (?U @ ?V) ch cw (\<not> c) = transposed ?U ch cw (\<not> c)"
    using transposed_take [of height width "width * height" "?Y @ ?U @ ?V" "\<not> c"]
      transposed_take [of ch cw "cw * ch" "?U @ ?V" "\<not> c"] by (simp_all add: mult.commute)
  have "turned_frame (turned_frame buf width height c) height width (\<not> c) =
      take y buf @ take (cw * ch) (drop y buf) @ take (cw * ch) (drop (y + cw * ch) buf)"
    unfolding f unfolding turned_frame_def Let_def ch_def [symmetric] cw_def [symmetric] d t
    using len by (simp add: transposed_back y_def)
  also have "take (cw * ch) (drop (y + cw * ch) buf) = drop (cw * ch) (drop y buf)"
    using len by (simp add: add.commute)
  also have "take y buf @ take (cw * ch) (drop y buf) @ drop (cw * ch) (drop y buf) = buf"
    by (simp only: append_take_drop_id)
  finally show ?thesis .
qed

section \<open>Flips in place\<close>

function mirror_swap :: "nat \<Rightarrow> nat \<Rightarrow> bytes \<Rightarrow> bytes" where
  "mirror_swap i j r = (if i < j then mirror_swap (i + 1) (j - 1) (r[i := r ! j, j := r ! i]) else r)"
  by pat_completeness auto
termination by (relation "measure (\<lambda>(i, j, r). j - i)") auto

declare mirror_swap.simps [simp del]

definition mirror_row :: "bytes \<Rightarrow> bytes" where
  "mirror_row r = mirror_swap 0 (length r - 1) r"

definition mirror_copy :: "bytes \<Rightarrow> bool \<Rightarrow> bytes" where
  "mirror_copy src mirror = (if mirror then map (\<lambda>i. src ! (length src - 1 - i)) [0..<length src] else src)"

definition row_at :: "bytes \<Rightarrow> nat \<Rightarrow> nat \<Rightarrow> bytes" where
  "row_at p off w = take w (drop off p)"

definition put_row :: "bytes \<Rightarrow> nat \<Rightarrow> bytes \<Rightarrow> bytes" where
  "put_row p off r = take off p @ r @ drop (off + length r) p"

text \<open>
  The row-swapping loop from offsets \<open>up\<close> and \<open>down\<close>; at width 0 both are 0, so the loop body
  never runs.
\<close>

function flip_rows :: "nat \<Rightarrow> bool \<Rightarrow> nat \<Rightarrow> nat \<Rightarrow> bytes \<Rightarrow> nat \<times> nat \<times> bytes" where
  "flip_rows w hflip up down p =
     (if 0 < w \<and> up < down then
        let row = row_at p up w; p1 = put_row p up (mirror_copy (row_at p down w) hflip);
            p2 = put_row p1 down (mirror_copy row hflip)
        in flip_rows w hflip (up + w) (down - w) p2
      else (up, down, p))"
  by pat_completeness auto
termination by (relation "measure (\<lambda>(w, hf, up, down, p). down - up)") auto

declare flip_rows.simps [simp del]

text \<open>The mirroring loop runs to the end of the slice it is given; a last short row is a panic.\<close>

function mirror_rows :: "nat \<Rightarrow> nat \<Rightarrow> bytes \<Rightarrow> bytes option" where
  "mirror_rows w off p =
     (if off < length p \<and> 0 < w then
        if off + w \<le> length p then mirror_rows w (off + w) (put_row p off (mirror_row (row_at p off w))) else None
      else Some p)"
  by pat_completeness auto

lemma mirror_swap_length [simp]: "length (mirror_swap i j r) = length r"
  by (induction i j r rule: mirror_swap.induct) (subst mirror_swap.simps, simp add: Let_def)

lemma mirror_row_length [simp]: "length (mirror_row r) = length r"
  by (simp add: mirror_row_def)

lemma put_row_length [simp]: "off + length r \<le> length p \<Longrightarrow> length (put_row p off r) = length p"
  by (simp add: put_row_def)

lemma row_at_length [simp]: "off + w \<le> length p \<Longrightarrow> length (row_at p off w) = w"
  by (simp add: row_at_def)

termination mirror_rows
  by (relation "measure (\<lambda>(w, off, p). length p - off)") auto

declare mirror_rows.simps [simp del]

definition flip_plane :: "bytes \<Rightarrow> nat \<Rightarrow> nat \<Rightarrow> bool \<Rightarrow> bool \<Rightarrow> bytes option" where
  "flip_plane p w h hflip vflip =
     (if vflip then
        let (up, down, p') = flip_rows w hflip 0 ((h - 1) * w) p in
        Some (if up = down \<and> hflip then put_row p' up (mirror_row (row_at p' up w)) else p')
      else if hflip then mirror_rows w 0 p
      else Some p)"

definition flip_yu12 :: "bytes \<Rightarrow> nat \<Rightarrow> nat \<Rightarrow> bool \<Rightarrow> bool \<Rightarrow> bytes option" where
  "flip_yu12 buf width height hflip vflip =
     (if \<not> hflip \<and> \<not> vflip then Some buf
      else
        let y_size = width * height; cw = (width + 1) div 2; ch = (height + 1) div 2 in
        if width = 0 \<or> height = 0 \<or> length buf < y_size + 2 * cw * ch then Some buf
        else
          Option.bind (flip_plane (take y_size buf) width height hflip vflip) (\<lambda>y.
          Option.bind (flip_plane (take (cw * ch) (drop y_size buf)) cw ch hflip vflip) (\<lambda>u.
          map_option (\<lambda>v. y @ u @ v) (flip_plane (drop (y_size + cw * ch) buf) cw ch hflip vflip))))"

text \<open>The mirror image, pixel by pixel.\<close>

definition flip_source :: "nat \<Rightarrow> nat \<Rightarrow> bool \<Rightarrow> bool \<Rightarrow> nat \<Rightarrow> nat" where
  "flip_source w h hflip vflip k =
     (if vflip then h - 1 - k div w else k div w) * w + (if hflip then w - 1 - k mod w else k mod w)"

definition flipped :: "bytes \<Rightarrow> nat \<Rightarrow> nat \<Rightarrow> bool \<Rightarrow> bool \<Rightarrow> bytes" where
  "flipped p w h hflip vflip = map (\<lambda>k. p ! flip_source w h hflip vflip k) [0..<w * h]"

lemma mirror_swap_nth:
  "i + j = length r - 1 \<Longrightarrow> j < length r \<Longrightarrow> k < length r \<Longrightarrow>
   mirror_swap i j r ! k = (if i \<le> k \<and> k \<le> j then r ! (length r - 1 - k) else r ! k)"
proof (induction i j r rule: mirror_swap.induct)
  case (1 i j r)
  show ?case
  proof (cases "i < j")
    case True
    let ?r = "r[i := r ! j, j := r ! i]"
    have "mirror_swap (i + 1) (j - 1) ?r ! k =
        (if i + 1 \<le> k \<and> k \<le> j - 1 then ?r ! (length r - 1 - k) else ?r ! k)"
      using 1 True by simp
    moreover have "k = i \<or> k = j \<or> (i < k \<and> k < j) \<or> k < i \<or> j < k" by linarith
    moreover have "length r - Suc i = j" "length r - Suc j = i" using 1(2,3) by linarith+
    ultimately show ?thesis
      using 1 True by (subst mirror_swap.simps) (elim disjE; auto simp: nth_list_update)
  next
    case False
    then show ?thesis using 1 by (subst mirror_swap.simps) (auto simp: le_antisym intro: arg_cong [of _ _ "(!) r"])
  qed
qed

lemma mirror_row_nth: "k < length r \<Longrightarrow> mirror_row r ! k = r ! (length r - 1 - k)"
  unfolding mirror_row_def by (subst mirror_swap_nth) auto

lemma mirror_row_rev: "mirror_row r = rev r"
  by (rule nth_equalityI) (simp_all add: mirror_row_nth rev_nth)

lemma mirror_copy_rev: "mirror_copy src m = (if m then rev src else src)"
  by (auto simp: mirror_copy_def rev_nth intro!: nth_equalityI)

lemma row_at_nth: "off + w \<le> length p \<Longrightarrow> x < w \<Longrightarrow> row_at p off w ! x = p ! (off + x)"
  by (simp add: row_at_def)

lemma put_row_nth:
  "off + length r \<le> length p \<Longrightarrow> k < length p \<Longrightarrow>
   put_row p off r ! k = (if off \<le> k \<and> k < off + length r then r ! (k - off) else p ! k)"
  by (auto simp: put_row_def nth_append)

text \<open>In pixels: row \<open>y\<close> replaced by row \<open>y'\<close>, mirrored or not.\<close>

lemma put_row_pixel:
  assumes "length p = w * h" "y < h" "k < w * h" "length r = w"
  shows "put_row p (y * w) r ! k = (if k div w = y then r ! (k mod w) else p ! k)"
proof -
  have w: "0 < w" using assms(3) by (cases w) auto
  have "y * w + w \<le> w * h" using assms(2) mult_le_mono1 [of "Suc y" h w] by (simp add: mult.commute)
  then have "put_row p (y * w) r ! k = (if y * w \<le> k \<and> k < y * w + w then r ! (k - y * w) else p ! k)"
    using put_row_nth assms by simp
  moreover have "y * w \<le> k \<and> k < y * w + w \<longleftrightarrow> k div w = y"
  proof
    assume a: "y * w \<le> k \<and> k < y * w + w"
    then obtain x where "k = y * w + x" by (auto simp: le_iff_add)
    then show "k div w = y" using a by simp
  next
    assume "k div w = y"
    then show "y * w \<le> k \<and> k < y * w + w"
      using w by (metis div_mult_mod_eq le_add1 mod_less_divisor nat_add_left_cancel_less)
  qed
  moreover have "k div w = y \<Longrightarrow> k - y * w = k mod w" by (simp add: modulo_nat_def mult.commute)
  ultimately show ?thesis by simp
qed

lemma row_at_pixel:
  assumes "length p = w * h" "y < h" "x < w"
  shows "row_at p (y * w) w ! x = p ! (y * w + x)" "length (row_at p (y * w) w) = w"
proof -
  have "y * w + w \<le> w * h" using assms(2) mult_le_mono1 [of "Suc y" h w] by (simp add: mult.commute)
  then show "row_at p (y * w) w ! x = p ! (y * w + x)" "length (row_at p (y * w) w) = w"
    using assms row_at_nth by simp_all
qed


lemma row_less: "k < w * h \<Longrightarrow> k div w < (h :: nat)"
  by (simp add: less_mult_imp_div_less mult.commute)

lemma flip_rows_pixels:
  assumes "0 < w"
  shows "length p = w * h \<Longrightarrow> n = h - 1 - 2 * t \<Longrightarrow> 2 * t \<le> h \<Longrightarrow>
   \<exists>p'. flip_rows w hflip (t * w) ((h - 1 - t) * w) p = (h div 2 * w, (h - 1 - h div 2) * w, p') \<and>
     length p' = length p \<and>
     (\<forall>k<w * h. p' ! k = (if t \<le> k div w \<and> k div w \<le> h - 1 - t \<and> 2 * (k div w) \<noteq> h - 1
        then p ! flip_source w h hflip True k else p ! k))"
proof (induction n arbitrary: t p rule: less_induct)
  case (less n)
  show ?case
  proof (cases "t < h - 1 - t")
    case True
    let ?up = "row_at p (t * w) w" and ?down = "row_at p ((h - 1 - t) * w) w"
    define p1 where "p1 = put_row p (t * w) (mirror_copy ?down hflip)"
    define p2 where "p2 = put_row p1 ((h - 1 - t) * w) (mirror_copy ?up hflip)"
    have rows: "t < h" "h - 1 - t < h" using True by auto
    have lens: "length (mirror_copy ?down hflip) = w" "length (mirror_copy ?up hflip) = w"
      using row_at_pixel(2) [OF less(2) rows(1) assms] row_at_pixel(2) [OF less(2) rows(2) assms]
      by (simp_all add: mirror_copy_rev)
    have fit: "y * w + w \<le> length p" if "y < h" for y
      using mult_le_mono1 [of "Suc y" h w] that less(2) by (simp add: mult.commute)
    have l1: "length p1 = w * h" using fit [OF rows(1)] lens(1) less(2) by (simp add: p1_def)
    have l2: "length p2 = w * h" using fit [OF rows(2)] lens(2) less(2) l1 by (simp add: p2_def)
    have cell: "mirror_copy (row_at p (y * w) w) hflip ! x = p ! (y * w + (if hflip then w - 1 - x else x))"
      if "y < h" "x < w" for x y
      using row_at_pixel [OF less(2) that(1), of "if hflip then w - 1 - x else x"] row_at_pixel(2) [OF less(2) that] that
      by (auto simp: mirror_copy_rev rev_nth)
    have p2: "p2 ! k = (if k div w = t \<or> k div w = h - 1 - t then p ! flip_source w h hflip True k else p ! k)"
      if k: "k < w * h" for k
    proof -
      have x: "k mod w < w" using assms by simp
      have "p2 ! k = (if k div w = h - 1 - t then mirror_copy ?up hflip ! (k mod w)
          else if k div w = t then mirror_copy ?down hflip ! (k mod w) else p ! k)"
        unfolding p2_def put_row_pixel [OF l1 rows(2) k lens(2)] unfolding p1_def put_row_pixel [OF less(2) rows(1) k lens(1)] ..
      moreover have "h - 1 - (h - 1 - t) = t" using rows by simp
      ultimately show ?thesis using cell [OF rows(1) x] cell [OF rows(2) x] by (auto simp: flip_source_def)
    qed
    have down: "(h - 1 - t) * w - w = (h - 1 - Suc t) * w" by (simp add: diff_mult_distrib)
    have lt: "t * w < (h - 1 - t) * w" using True assms by simp
    have "flip_rows w hflip (t * w) ((h - 1 - t) * w) p = flip_rows w hflip (Suc t * w) ((h - 1 - Suc t) * w) p2"
      using lt assms by (subst flip_rows.simps) (simp only: Let_def p1_def p2_def down mult_Suc add.commute [of "t * w"] if_True simp_thms)
    moreover have ih: "h - 1 - 2 * Suc t < n" "2 * Suc t \<le> h" using True less(3) by auto
    moreover obtain p' where p': "flip_rows w hflip (Suc t * w) ((h - 1 - Suc t) * w) p2 = (h div 2 * w, (h - 1 - h div 2) * w, p')"
      "length p' = length p2"
      "\<And>k. k < w * h \<Longrightarrow> p' ! k = (if Suc t \<le> k div w \<and> k div w \<le> h - 1 - Suc t \<and> 2 * (k div w) \<noteq> h - 1
        then p2 ! flip_source w h hflip True k else p2 ! k)"
      using less(1) [OF ih(1) l2 refl ih(2)] by blast
    moreover have "p' ! k = (if t \<le> k div w \<and> k div w \<le> h - 1 - t \<and> 2 * (k div w) \<noteq> h - 1
        then p ! flip_source w h hflip True k else p ! k)" if k: "k < w * h" for k
    proof -
      have y: "k div w < h" using k by (simp add: less_mult_imp_div_less mult.commute)
      have x: "(if hflip then w - 1 - k mod w else k mod w) < w" using assms by auto
      have s: "flip_source w h hflip True k div w = h - 1 - k div w"
        using pixel_divmod [OF x] by (simp only: flip_source_def if_True)
      have "flip_source w h hflip True k < w * h"
        using pixel_index [of "h - 1 - k div w" h, OF _ x] y by (simp add: flip_source_def mult.commute)
      then have "p2 ! flip_source w h hflip True k = p ! flip_source w h hflip True k"
        if "Suc t \<le> k div w" "k div w \<le> h - 1 - Suc t"
      proof -
        have "h - 1 - k div w \<noteq> t" "h - 1 - k div w \<noteq> h - 1 - t" using that y by linarith+
        then show ?thesis using p2 [OF \<open>flip_source w h hflip True k < w * h\<close>] s by simp
      qed
      then show ?thesis using p'(3) [OF k] p2 [OF k] True by auto
    qed
    ultimately show ?thesis using l2 less(2) by auto
  next
    case False
    then have t: "t = h div 2" using less(4) by presburger
    have "\<not> t * w < (h - 1 - t) * w" using False by (simp add: mult_le_mono1 not_less)
    moreover have "\<not> (t \<le> y \<and> y \<le> h - 1 - t \<and> 2 * y \<noteq> h - 1)" for y
    proof -
      have "h = 2 * t \<or> h = 2 * t + 1" using t by presburger
      then show ?thesis by auto
    qed
    ultimately show ?thesis using t by (subst flip_rows.simps) auto
  qed
qed


lemma mirror_rows_pixels:
  assumes "0 < w"
  shows "length p = w * h \<Longrightarrow> t \<le> h \<Longrightarrow> \<exists>p'. mirror_rows w (t * w) p = Some p' \<and> length p' = length p \<and>
     (\<forall>k<w * h. p' ! k = (if t \<le> k div w then p ! flip_source w h True False k else p ! k))"
proof (induction "h - t" arbitrary: t p)
  case 0
  then have "t = h" by simp
  moreover have "\<not> h \<le> k div w" if "k < w * h" for k using row_less [OF that] by simp
  ultimately show ?case using 0 by (subst mirror_rows.simps) (auto simp: mult.commute dest!: leD)
next
  case (Suc n)
  then have t: "t < h" by simp
  have fit: "t * w + w \<le> length p"
    using mult_le_mono1 [of "Suc t" h w] t Suc(3) by (simp add: mult.commute)
  define p1 where "p1 = put_row p (t * w) (mirror_row (row_at p (t * w) w))"
  have lr: "length (mirror_row (row_at p (t * w) w)) = w" using fit by simp
  have l1: "length p1 = w * h" using fit Suc(3) by (simp add: p1_def)
  have p1: "p1 ! k = (if k div w = t then p ! flip_source w h True False k else p ! k)" if k: "k < w * h" for k
  proof -
    have x: "k mod w < w" "w - 1 - k mod w < w" using assms by simp_all
    have "mirror_row (row_at p (t * w) w) ! (k mod w) = p ! (t * w + (w - 1 - k mod w))"
      using mirror_row_nth [of "k mod w" "row_at p (t * w) w"] row_at_pixel(1) [OF Suc(3) t x(2)] x(1) fit by simp
    then show ?thesis unfolding p1_def put_row_pixel [OF Suc(3) t k lr] by (auto simp: flip_source_def)
  qed
  have "n = h - Suc t" "Suc t \<le> h" using Suc(2) t by auto
  from Suc(1) [OF this(1) l1 this(2)] obtain p' where p': "mirror_rows w (Suc t * w) p1 = Some p'" "length p' = length p1"
    "\<And>k. k < w * h \<Longrightarrow> p' ! k = (if Suc t \<le> k div w then p1 ! flip_source w h True False k else p1 ! k)" by blast
  have "mirror_rows w (t * w) p = mirror_rows w (Suc t * w) p1"
    using fit assms by (subst mirror_rows.simps) (simp add: p1_def add.commute)
  moreover have "p' ! k = (if t \<le> k div w then p ! flip_source w h True False k else p ! k)" if k: "k < w * h" for k
  proof -
    have y: "k div w < h" using k by (simp add: less_mult_imp_div_less mult.commute)
    have x: "w - 1 - k mod w < w" using assms by simp
    have "flip_source w h True False k div w = k div w"
      using pixel_divmod [OF x] by (simp only: flip_source_def if_True if_False)
    moreover have "flip_source w h True False k < w * h"
      using pixel_index [OF y x] by (simp add: flip_source_def mult.commute)
    ultimately show ?thesis using p'(3) [OF k] p1 k by auto
  qed
  ultimately show ?case using p'(1,2) l1 Suc(3) by auto
qed

text \<open>Every combination of flips is the mirror image.\<close>

lemma flip_plane_mirror:
  assumes "0 < w" "0 < h" "length p = w * h"
  shows "flip_plane p w h hflip vflip = Some (flipped p w h hflip vflip)"
proof (cases vflip)
  case True
  obtain p' where p': "flip_rows w hflip 0 ((h - 1) * w) p = (h div 2 * w, (h - 1 - h div 2) * w, p')"
    "length p' = w * h" "\<And>k. k < w * h \<Longrightarrow> p' ! k =
      (if k div w \<le> h - 1 \<and> 2 * (k div w) \<noteq> h - 1 then p ! flip_source w h hflip True k else p ! k)"
    using flip_rows_pixels [OF assms(1,3) refl, of 0 hflip] assms(3) by auto
  have y: "k div w < h" if "k < w * h" for k using that by (simp add: less_mult_imp_div_less mult.commute)
  let ?mid = "h div 2 * w = (h - 1 - h div 2) * w \<and> hflip"
  let ?q = "if ?mid then put_row p' (h div 2 * w) (mirror_row (row_at p' (h div 2 * w) w)) else p'"
  have odd: "h div 2 * w = (h - 1 - h div 2) * w \<longleftrightarrow> 2 * (h div 2) = h - 1"
  proof -
    have "h div 2 * w = (h - 1 - h div 2) * w \<longleftrightarrow> h div 2 = h - 1 - h div 2" using assms(1) by simp
    moreover have "m \<le> h - 1 \<Longrightarrow> m = h - 1 - m \<longleftrightarrow> 2 * m = h - 1" for m by arith
    moreover have "h div 2 \<le> h - 1" using assms(2) by linarith
    ultimately show ?thesis by blast
  qed
  have hd: "h div 2 < h" using assms(2) by simp
  have fit: "h div 2 * w + w \<le> length p'"
    using mult_le_mono1 [of "Suc (h div 2)" h w] hd p'(2) by (simp add: mult.commute)
  have lr: "length (mirror_row (row_at p' (h div 2 * w) w)) = w" using fit by simp
  have q: "?q ! k = p ! flip_source w h hflip True k" if k: "k < w * h" for k
  proof (cases "2 * (k div w) = h - 1")
    case False
    then have "p' ! k = p ! flip_source w h hflip True k" using p'(3) [OF k] y [OF k] by auto
    moreover have "?mid \<Longrightarrow> k div w \<noteq> h div 2" using False unfolding odd by auto
    ultimately show ?thesis using put_row_pixel [OF p'(2) hd k lr] by auto
  next
    case True
    then obtain y where "k div w = y" "h = 2 * y + 1" using assms(2) by simp
    then have m: "k div w = h div 2" "2 * (h div 2) = h - 1" "h - 1 - k div w = k div w" by simp_all
    have x: "w - 1 - k mod w < w" "k mod w < w" using assms(1) by simp_all
    have kk: "k div w * w + (w - 1 - k mod w) < w * h"
      using pixel_index [OF y [OF k] x(1)] by (simp add: mult.commute)
    have "(k div w * w + (w - 1 - k mod w)) div w = k div w" using pixel_divmod [OF x(1)] by blast
    then have same: "p' ! (k div w * w + (w - 1 - k mod w)) = p ! (k div w * w + (w - 1 - k mod w))" "p' ! k = p ! k"
      using p'(3) [OF kk] p'(3) [OF k] True by auto
    show ?thesis
    proof (cases hflip)
      case True
      then have "?q ! k = mirror_row (row_at p' (h div 2 * w) w) ! (k mod w)"
        using put_row_pixel [OF p'(2) hd k lr] m odd by simp
      also have "\<dots> = p' ! (h div 2 * w + (w - 1 - k mod w))"
        using mirror_row_nth [of "k mod w" "row_at p' (h div 2 * w) w"] row_at_pixel(1) [OF p'(2) hd x(1)] x(2) fit by simp
      finally show ?thesis using same(1) m True by (simp add: flip_source_def)
    next
      case False
      then show ?thesis using same(2) m(3) by (simp add: flip_source_def)
    qed
  qed
  have "length ?q = w * h" using fit lr p'(2) by simp
  then have "?q = flipped p w h hflip True"
    using q by (intro nth_equalityI) (simp_all add: flipped_def)
  then show ?thesis using True p'(1) by (simp add: flip_plane_def)
next
  case False
  show ?thesis
  proof (cases hflip)
    case True
    obtain p' where p': "mirror_rows w 0 p = Some p'" "length p' = w * h"
      "\<And>k. k < w * h \<Longrightarrow> p' ! k = p ! flip_source w h True False k"
      using mirror_rows_pixels [OF assms(1,3), of 0] assms(3) by auto
    then have "p' = flipped p w h True False"
      by (intro nth_equalityI) (simp_all add: flipped_def)
    then show ?thesis using True False p'(1) by (simp add: flip_plane_def)
  next
    case hf: False
    have "p = flipped p w h False False"
      using assms(3) by (intro nth_equalityI) (simp_all add: flipped_def flip_source_def)
    then show ?thesis using False hf by (simp add: flip_plane_def)
  qed
qed

lemma flipped_twice: "flipped (flipped p w h hf vf) w h hf vf = take (w * h) p" if "w * h \<le> length p"
proof (rule nth_equalityI)
  fix k assume "k < length (flipped (flipped p w h hf vf) w h hf vf)"
  then have k: "k < w * h" by (simp add: flipped_def)
  then have w: "0 < w" and y: "k div w < h"
    using row_less [OF k] by (cases w; simp)+
  let ?y = "if vf then h - 1 - k div w else k div w" and ?x = "if hf then w - 1 - k mod w else k mod w"
  have "?y < h" "?x < w" using y w by auto
  then have s: "flip_source w h hf vf k div w = ?y" "flip_source w h hf vf k mod w = ?x" "flip_source w h hf vf k < w * h"
    using pixel_index [of ?y h ?x w] pixel_divmod [of ?x w ?y] by (simp_all only: flip_source_def mult.commute)
  have "w - 1 - (w - 1 - k mod w) = k mod w" "h - 1 - (h - 1 - k div w) = k div w"
    using y mod_less_divisor [OF w, of k] by linarith+
  then have "flip_source w h hf vf (flip_source w h hf vf k) = k"
    unfolding flip_source_def [of w h hf vf "flip_source w h hf vf k"] s by (simp split: if_splits)
  then show "flipped (flipped p w h hf vf) w h hf vf ! k = take (w * h) p ! k"
    using k s(3) by (simp add: flipped_def)
qed (use that in \<open>simp add: flipped_def\<close>)

section \<open>Properties\<close>

lemma flip_frame:
  assumes "0 < width" "0 < height" "length buf = frame_len width height"
  shows "flip_yu12 buf width height hflip vflip =
    Some (let cw = chroma_dim width; ch = chroma_dim height; y = width * height in
      flipped buf width height hflip vflip @ flipped (drop y buf) cw ch hflip vflip @
      flipped (drop (y + cw * ch) buf) cw ch hflip vflip)"
proof -
  define cw ch y where "cw = (width + 1) div 2" and "ch = (height + 1) div 2" and "y = width * height"
  have len: "length buf = y + 2 * (cw * ch)" "0 < cw" "0 < ch"
    using assms by (simp_all add: frame_len_def chroma_dim_def cw_def ch_def y_def)
  have pos: "0 < n" if "k < n * m" for k n m :: nat using that by (cases n) auto
  have src: "flip_source w h hf vf k < w * h" if "k < w * h" for w h hf vf k
    using that pixel_index [of "if vf then h - 1 - k div w else k div w" h "if hf then w - 1 - k mod w else k mod w" w]
      row_less [OF that] pos [OF that] by (auto simp: flip_source_def mult.commute)
  have tk: "flipped (take n p) w h hf vf = flipped p w h hf vf" if "w * h \<le> n" for n p w h hf vf
    using src less_le_trans [OF _ that] by (auto simp: flipped_def)
  have g: "\<not> (width = 0 \<or> height = 0 \<or> length buf < y + 2 * cw * ch)" using assms len by auto
  have 1: "flip_plane (take y buf) width height hf vf = Some (flipped buf width height hf vf)" for hf vf
    using flip_plane_mirror [OF assms(1,2), of "take y buf"] len tk by (simp add: y_def)
  have 2: "flip_plane (take (cw * ch) (drop y buf)) cw ch hf vf = Some (flipped (drop y buf) cw ch hf vf)" for hf vf
    using flip_plane_mirror [OF len(2,3), of "take (cw * ch) (drop y buf)"] len tk by simp
  have 3: "flip_plane (drop (y + cw * ch) buf) cw ch hf vf = Some (flipped (drop (y + cw * ch) buf) cw ch hf vf)" for hf vf
    using flip_plane_mirror [OF len(2,3), of "drop (y + cw * ch) buf"] len by simp
  have n: "flipped p w h False False = take (w * h) p" if "w * h \<le> length p" for p w h
    using that by (intro nth_equalityI) (auto simp: flipped_def flip_source_def)
  show ?thesis
  proof (cases "\<not> hflip \<and> \<not> vflip")
    case True
    have "take (cw * ch) (drop (y + cw * ch) buf) = drop (cw * ch) (drop y buf)" using len by (simp add: add.commute)
    then have "take y buf @ take (cw * ch) (drop y buf) @ take (cw * ch) (drop (y + cw * ch) buf) = buf"
      by (simp only: append_take_drop_id)
    then show ?thesis
      using True len n [of width height buf] n [of cw ch "drop y buf"] n [of cw ch "drop (y + cw * ch) buf"]
      unfolding flip_yu12_def Let_def if_P [OF True] chroma_dim_def cw_def [symmetric] ch_def [symmetric] y_def [symmetric]
      by (simp flip: y_def)
  next
    case False
    then show ?thesis
      unfolding flip_yu12_def Let_def if_not_P [OF False] cw_def [symmetric] ch_def [symmetric] y_def [symmetric]
        if_not_P [OF g] 1 2 3
      by (simp add: chroma_dim_def Let_def cw_def ch_def y_def)
  qed
qed

lemma quarter_turns_flip: "transposed (transposed p pw ph True) ph pw True = flipped p pw ph True True"
proof (rule nth_equalityI)
  fix k assume "k < length (transposed (transposed p pw ph True) ph pw True)"
  then have k: "k < pw * ph" by (simp add: mult.commute)
  then have y: "k div pw < ph" and x: "k mod pw < pw" using row_less [OF k] by (cases pw; simp)+
  have "transpose_source ph pw True k = turn_dest pw ph True (ph - 1 - k div pw) (pw - 1 - k mod pw)"
    using y by (simp add: transpose_source_def turn_dest_def)
  moreover have "ph - 1 - k div pw < ph" "pw - 1 - k mod pw < pw" using x y by auto
  ultimately have "transpose_source pw ph True (transpose_source ph pw True k) = flip_source pw ph True True k"
    "transpose_source ph pw True k < pw * ph"
    using turn_dest_source [of "ph - 1 - k div pw" ph "pw - 1 - k mod pw" pw True] by (simp_all add: flip_source_def)
  then show "transposed (transposed p pw ph True) ph pw True ! k = flipped p pw ph True True ! k"
    using k by (simp add: transposed_def [of "transposed p pw ph True"] flipped_def mult.commute)
      (simp add: transposed_def mult.commute)
qed (simp add: flipped_def mult.commute)


text \<open>C27: The downscaler with its index tables and pooled output buffer is the pixel-by-pixel
  reference: for any frame long enough, any smaller size and any stale contents of the pooled
  buffer, every output byte is the source byte the reference names, and nothing else.\<close>

theorem downscaler_is_nearest_neighbour:
  assumes "downscale_ok src_w src_h dst_w dst_h" "\<not> (dst_w = src_w \<and> dst_h = src_h)"
    "unat src_w * unat src_h + 2 * (unat src_w div 2 * (unat src_h div 2)) \<le> length src"
  shows "downscale_into old src src_w src_h dst_w dst_h =
     Some (map (\<lambda>k. src ! downscale_source (unat src_w) (unat src_h) (unat dst_w) (unat dst_h) k)
       [0..<plane_len (unat dst_w) (unat dst_h)])"
  using downscale_into_source [OF assms] .

theorem downscaler_is_nearest_neighbour_witness:
  "downscale_into (replicate 9 255) [1, 2, 3, 4, 5, 6, 7, 8, 9, 10, 11, 12, 13, 14, 15, 16, 20, 21, 22, 23, 30, 31, 32, 33] 4 4 2 2 =
   Some [1, 3, 9, 11, 20, 30]"
proof -
  have "downscale_ok 4 4 2 2" by (simp add: downscale_ok_def)
  from downscaler_is_nearest_neighbour [OF this, of "[1, 2, 3, 4, 5, 6, 7, 8, 9, 10, 11, 12, 13, 14, 15, 16, 20, 21, 22, 23, 30, 31, 32, 33]" "replicate 9 255"]
  show ?thesis by (simp add: downscale_source_def plane_len_def upt_rec Let_def)
qed

text \<open>Turning a frame a quarter clockwise and the result a quarter counter-clockwise gives back
  the frame and its dimensions, whatever the scratch buffers hold and however the tiles cut the planes.\<close>

theorem quarter_turn_and_back:
  assumes "0 < width" "0 < height" "length buf = frame_len width height"
  shows "\<exists>turned. rotate_yu12 buf scratch width height 90 = Some ((height, width), turned, buf) \<and>
     rotate_yu12 turned scratch' height width 270 = Some ((width, height), buf, turned)"
proof -
  have "length (turned_frame buf width height True) = frame_len height width"
    by (simp add: turned_frame_def Let_def frame_len_def mult.commute)
  then show ?thesis
    using assms turned_frame_back [OF assms(3), of True]
    by (simp add: rotate_frame)
qed

theorem quarter_turn_and_back_witness:
  "\<exists>turned. rotate_yu12 [1, 2, 3, 4, 5, 6, 50, 51, 60, 61] [] 3 2 90 =
      Some ((2, 3), turned, [1, 2, 3, 4, 5, 6, 50, 51, 60, 61]) \<and>
     rotate_yu12 turned [9] 2 3 270 = Some ((3, 2), [1, 2, 3, 4, 5, 6, 50, 51, 60, 61], turned)"
  using quarter_turn_and_back [of 3 2 "[1, 2, 3, 4, 5, 6, 50, 51, 60, 61]" "[]" "[9]"]
  by (simp add: frame_len_def chroma_dim_def)

text \<open>A half turn is both flips: two clockwise quarter turns through the scratch buffer and the
  in-place row swaps of FlipYU12 with both flags give the same frame, so folding 180 degrees into the
  flip flags loses nothing.\<close>

theorem half_turn_is_both_flips:
  assumes "0 < width" "0 < height" "length buf = frame_len width height"
  shows "\<exists>once twice. rotate_yu12 buf scratch width height 90 = Some ((height, width), once, buf) \<and>
     rotate_yu12 once scratch' height width 90 = Some ((width, height), twice, once) \<and>
     (case compose_rotation_flips 180 False False of (rotation, hflip, vflip) \<Rightarrow>
        rotation = 0 \<and> flip_yu12 buf width height hflip vflip = Some twice)"
proof -
  define cw ch y where "cw = chroma_dim width" and "ch = chroma_dim height" and "y = width * height"
  have len: "length buf = y + cw * ch + cw * ch" using assms by (simp add: frame_len_def cw_def ch_def y_def)
  let ?Y = "transposed buf width height True" and ?U = "transposed (drop y buf) cw ch True"
    and ?V = "transposed (drop (y + cw * ch) buf) cw ch True"
  have f: "turned_frame buf width height True = ?Y @ ?U @ ?V"
    by (simp add: turned_frame_def Let_def cw_def ch_def y_def)
  have l: "length (?Y @ ?U @ ?V) = frame_len height width"
    by (simp add: frame_len_def cw_def ch_def mult.commute)
  have "transposed (?Y @ ?U @ ?V) height width True = transposed ?Y height width True"
      "transposed (?U @ ?V) ch cw True = transposed ?U ch cw True"
    using transposed_take [of height width "width * height" "?Y @ ?U @ ?V" True]
      transposed_take [of ch cw "cw * ch" "?U @ ?V" True] by (simp_all add: mult.commute)
  then have "turned_frame (?Y @ ?U @ ?V) height width True =
      flipped buf width height True True @ flipped (drop y buf) cw ch True True @ flipped (drop (y + cw * ch) buf) cw ch True True"
    unfolding turned_frame_def Let_def cw_def [symmetric] ch_def [symmetric]
    by (simp add: mult.commute [of height] mult.commute [of ch] quarter_turns_flip)
  then show ?thesis
    using assms l by (simp add: rotate_frame f flip_frame compose_rotation_flips_def Let_def cw_def ch_def y_def)
qed

theorem half_turn_is_both_flips_witness:
  "\<exists>once twice. rotate_yu12 [1, 2, 3, 4, 5, 6, 50, 51, 60, 61] [] 3 2 90 = Some ((2, 3), once, [1, 2, 3, 4, 5, 6, 50, 51, 60, 61]) \<and>
     rotate_yu12 once [7] 2 3 90 = Some ((3, 2), twice, once) \<and>
     (case compose_rotation_flips 180 False False of (rotation, hflip, vflip) \<Rightarrow>
        rotation = 0 \<and> flip_yu12 [1, 2, 3, 4, 5, 6, 50, 51, 60, 61] 3 2 hflip vflip = Some twice)"
  using half_turn_is_both_flips [of 3 2 "[1, 2, 3, 4, 5, 6, 50, 51, 60, 61]" "[]" "[7]"]
  by (simp add: frame_len_def chroma_dim_def)

text \<open>Flipping twice restores the frame.\<close>

lemma flip_twice:
  assumes "0 < width" "0 < height" "length buf = frame_len width height"
  shows "Option.bind (flip_yu12 buf width height hflip vflip) (\<lambda>b. flip_yu12 b width height hflip vflip) = Some buf"
proof -
  define cw ch y where "cw = chroma_dim width" and "ch = chroma_dim height" and "y = width * height"
  have len: "length buf = y + cw * ch + cw * ch" using assms by (simp add: frame_len_def cw_def ch_def y_def)
  let ?Y = "flipped buf width height hflip vflip" and ?U = "flipped (drop y buf) cw ch hflip vflip"
    and ?V = "flipped (drop (y + cw * ch) buf) cw ch hflip vflip"
  have lens: "length ?Y = y" "length ?U = cw * ch" "length ?V = cw * ch" by (simp_all add: flipped_def y_def)
  have n: "flipped (p @ q) w h hflip vflip = flipped p w h hflip vflip" if "length p = w * h" for p q w h
  proof -
    have "flip_source w h hflip vflip k < w * h" if "k < w * h" for k
      using that pixel_index [of "if vflip then h - 1 - k div w else k div w" h "if hflip then w - 1 - k mod w else k mod w" w]
        row_less [OF that] by (cases w) (auto simp: flip_source_def mult.commute)
    then show ?thesis using that by (auto simp: flipped_def nth_append)
  qed
  have two: "flipped ?Y width height hflip vflip = take y buf" "flipped ?U cw ch hflip vflip = take (cw * ch) (drop y buf)"
      "flipped ?V cw ch hflip vflip = drop (y + cw * ch) buf"
    using flipped_twice [of width height buf] flipped_twice [of cw ch "drop y buf"] flipped_twice [of cw ch "drop (y + cw * ch) buf"]
      len by (simp_all add: y_def)
  have "flip_yu12 buf width height hflip vflip = Some (?Y @ ?U @ ?V)"
    using flip_frame [OF assms] by (simp add: Let_def cw_def ch_def y_def)
  moreover have "flip_yu12 (?Y @ ?U @ ?V) width height hflip vflip =
      Some (take y buf @ take (cw * ch) (drop y buf) @ drop (y + cw * ch) buf)"
    using flip_frame [OF assms(1,2), of "?Y @ ?U @ ?V" hflip vflip] len assms(3) lens
    by (simp add: Let_def n two flip: cw_def ch_def y_def)
  moreover have "take y buf @ take (cw * ch) (drop y buf) @ drop (y + cw * ch) buf = buf"
    using append_take_drop_id [of "cw * ch" "drop y buf"] by (simp add: add.commute)
  ultimately show ?thesis by simp
qed

text \<open>The downscaler can index out of range: a source one pixel high has no chroma row, and the
  clamped chroma row of the output is read from behind the frame.\<close>

theorem flat_frame_panics: "downscale_yu12 [16, 17] 2 1 1 1 = None"
  by code_simp

text \<open>A horizontal flip alone mirrors whatever follows the frame in the buffer as if it were more
  chroma rows, and panics when that rest is not whole rows; with the vertical flip the rest is left alone.\<close>

theorem flip_of_padded_buffer:
  "flip_yu12 [1, 2, 3, 4, 5, 6, 7, 8, 50, 51, 60, 61, 98, 99] 4 2 True False =
     Some [4, 3, 2, 1, 8, 7, 6, 5, 51, 50, 61, 60, 99, 98]"
  "flip_yu12 [1, 2, 3, 4, 5, 6, 7, 8, 50, 51, 60, 61, 99] 4 2 True False = None"
  "flip_yu12 [1, 2, 3, 4, 5, 6, 7, 8, 50, 51, 60, 61, 99] 4 2 True True =
     Some [8, 7, 6, 5, 4, 3, 2, 1, 51, 50, 61, 60, 99]"
  by code_simp+

end
