(* ===== verification/CamPipe.thy ===== *)
theory CamPipe
  imports Prelude
begin

text \<open>
  The two byte streams between the server and its camera subprocess: the length-prefixed pipe
  protocol of \<open>internal/camera/pipe.go\<close> and the filter that drops the subprocess's per-frame
  telemetry lines (\<open>internal/camera/telemetry_filter.go\<close>). The pipe is an instance of the codec
  interface; the filter is shown to depend only on the bytes, not on how writes cut them.
\<close>

section \<open>The pipe\<close>

definition max_frame_size :: nat where
  "max_frame_size = 10 * 2 ^ 20"

definition from_le32 :: "bytes \<Rightarrow> 32 word" where
  "from_le32 b = from_be32 (b ! 3) (b ! 2) (b ! 1) (b ! 0)"

text \<open>\<open>PipeEOF\<close>: \<open>io.ReadFull\<close> met the end of the stream.\<close>

datatype pipe_error = PipeEOF | FrameTooLarge

text \<open>\<open>io.ReadFull\<close> on what is left of the stream.\<close>

definition read_full :: "nat \<Rightarrow> bytes \<Rightarrow> (bytes \<times> bytes) option" where
  "read_full n s = (if length s < n then None else Some (take n s, drop n s))"

text \<open>The message (empty for \<open>nil\<close>) or the error, and what is left of the stream.\<close>

definition pipe_read :: "bytes \<Rightarrow> (pipe_error + bytes) \<times> bytes" where
  "pipe_read s =
     (case read_full 4 s of
        None \<Rightarrow> (Inl PipeEOF, [])
      | Some (len_buf, s1) \<Rightarrow>
          let le = unat (from_le32 len_buf) in
          if le = 0 then (Inr [], s1)
          else if max_frame_size < le then (Inl FrameTooLarge, s1)
          else case read_full le s1 of
                 None \<Rightarrow> (Inl PipeEOF, [])
               | Some (buf, s2) \<Rightarrow> (Inr buf, s2))"

text \<open>A writer that accepts \<open>room\<close> more bytes; the result is success, the bytes out, and the room.\<close>

definition write_some :: "bytes \<Rightarrow> bytes \<times> nat \<Rightarrow> bool \<times> bytes \<times> nat" where
  "write_some b = (\<lambda>(out, room). (length b \<le> room, out @ take room b, room - length b))"

definition pipe_write :: "bytes \<Rightarrow> bytes \<times> nat \<Rightarrow> bool \<times> bytes \<times> nat" where
  "pipe_write byts w =
     (case write_some (le32 (of_nat (length byts))) w of
        (False, w') \<Rightarrow> (False, w')
      | (True, w') \<Rightarrow> write_some byts w')"

section \<open>What was written is read\<close>

definition pipe_frame :: "bytes \<Rightarrow> bytes" where
  "pipe_frame m = le32 (of_nat (length m)) @ m"

definition pipe_dec :: "bytes \<Rightarrow> (bytes \<times> bytes) option" where
  "pipe_dec s = (case pipe_read s of (Inl _, _) \<Rightarrow> None | (Inr m, r) \<Rightarrow> Some (m, r))"

lemma from_le32_le32 [wire]: "from_le32 (le32 v) = v"
  using from_be32_parts [of v] by (simp add: from_le32_def le32_def be32_def)

lemma pipe_read_frame:
  "length m \<le> max_frame_size \<Longrightarrow> pipe_read (pipe_frame m @ r) = (Inr m, r)"
  by (simp add: pipe_read_def pipe_frame_def read_full_def wire unat_of_nat_lt max_frame_size_def Let_def)

interpretation pipe_codec: prefix_codec pipe_frame pipe_dec "\<lambda>m. length m \<le> max_frame_size"
  by unfold_locales (simp_all add: pipe_dec_def pipe_read_frame, simp add: pipe_frame_def le32_def be32_def)

lemma pipe_write_frame:
  "length (pipe_frame m) \<le> room \<Longrightarrow>
   pipe_write m (out, room) = (True, out @ pipe_frame m, room - length (pipe_frame m))"
  by (simp add: pipe_write_def write_some_def pipe_frame_def)

lemma pipe_write_prefix:
  "pipe_write m (out, room) = (ok, out', room') \<Longrightarrow> out' = out @ take room (pipe_frame m)"
  by (auto simp: pipe_write_def write_some_def pipe_frame_def split: bool.splits)

text \<open>A reader takes at least the length prefix, or reports the end.\<close>

lemma pipe_read_progress:
  "pipe_read s = (r, s') \<Longrightarrow> s' = [] \<and> r = Inl PipeEOF \<or> length s' + 4 \<le> length s"
  by (auto simp: pipe_read_def read_full_def Let_def split: if_splits)

section \<open>The telemetry filter\<close>

definition is_digit_byte :: "byte \<Rightarrow> bool" where
  "is_digit_byte b \<longleftrightarrow> 48 \<le> b \<and> b \<le> 57"

definition is_telemetry_line :: "bytes \<Rightarrow> bool" where
  "is_telemetry_line line =
     (line \<noteq> [] \<and> hd line = 35 \<and> take 2 (dropWhile is_digit_byte (tl line)) = str_bytes '' ('')"

text \<open>
  The destination: each \<open>Write\<close> meets the next outcome, \<open>None\<close> for success or the number of
  bytes written before the error; when the outcomes are used up, writes succeed.
\<close>

record telemetry_filter =
  tf_buf :: bytes
  tf_out :: bytes
  tf_outcomes :: "nat option list"

definition dst_write :: "bytes \<Rightarrow> telemetry_filter \<Rightarrow> bool \<times> telemetry_filter" where
  "dst_write b f =
     (case tf_outcomes f of
        Some n # os \<Rightarrow> (False, f\<lparr>tf_out := tf_out f @ take n b, tf_outcomes := os\<rparr>)
      | None # os \<Rightarrow> (True, f\<lparr>tf_out := tf_out f @ b, tf_outcomes := os\<rparr>)
      | [] \<Rightarrow> (True, f\<lparr>tf_out := tf_out f @ b\<rparr>))"

lemma dst_write_buf [simp]: "tf_buf (snd (dst_write b f)) = tf_buf f"
  by (simp add: dst_write_def split: list.splits option.splits)

text \<open>The loop of \<open>Write\<close> over the complete lines in the buffer; the result is the absence of an error.\<close>

function filter_lines :: "telemetry_filter \<Rightarrow> bool \<times> telemetry_filter" where
  "filter_lines f =
     (if 10 \<notin> set (tf_buf f) then (True, f)
      else
        let line = takeWhile (\<lambda>b. b \<noteq> 10) (tf_buf f);
            f1 = f\<lparr>tf_buf := tl (dropWhile (\<lambda>b. b \<noteq> 10) (tf_buf f))\<rparr> in
        if is_telemetry_line line then filter_lines f1
        else case dst_write line f1 of
               (False, f2) \<Rightarrow> (False, f2)
             | (True, f2) \<Rightarrow>
                 (case dst_write [10] f2 of
                    (False, f3) \<Rightarrow> (False, f3)
                  | (True, f3) \<Rightarrow> filter_lines f3))"
  by pat_completeness auto

lemma after_newline_shorter: "x \<in> set xs \<Longrightarrow> length (dropWhile P xs) - Suc 0 < length xs"
  using length_dropWhile_le [of P xs] by (cases xs) auto

lemma dst_write_keeps: "dst_write b f = (ok, f') \<Longrightarrow> tf_buf f' = tf_buf f"
  by (metis dst_write_buf snd_conv)

termination filter_lines
  by (relation "measure (\<lambda>f. length (tf_buf f))")
    (auto dest!: dst_write_keeps [OF sym] simp: after_newline_shorter)

declare filter_lines.simps [simp del]

text \<open>\<open>Write\<close> always reports \<open>len(p)\<close>; the boolean is the absence of an error.\<close>

definition filter_write :: "telemetry_filter \<Rightarrow> bytes \<Rightarrow> (nat \<times> bool) \<times> telemetry_filter" where
  "filter_write f p = (let (ok, f') = filter_lines (f\<lparr>tf_buf := tf_buf f @ p\<rparr>) in ((length p, ok), f'))"

definition new_filter :: "nat option list \<Rightarrow> telemetry_filter" where
  "new_filter outcomes = \<lparr>tf_buf = [], tf_out = [], tf_outcomes = outcomes\<rparr>"

section \<open>The filter on whole streams\<close>

text \<open>The lines of a stream, and what follows the last newline.\<close>

function stream_lines :: "bytes \<Rightarrow> bytes list \<times> bytes" where
  "stream_lines s =
     (if 10 \<notin> set s then ([], s)
      else let (ls, r) = stream_lines (tl (dropWhile (\<lambda>b. b \<noteq> 10) s)) in (takeWhile (\<lambda>b. b \<noteq> 10) s # ls, r))"
  by pat_completeness auto
termination by (relation "measure length") (simp_all add: after_newline_shorter)

declare stream_lines.simps [simp del]

definition kept_lines :: "bytes list \<Rightarrow> bytes" where
  "kept_lines ls = concat (map (\<lambda>l. l @ [10]) (filter (\<lambda>l. \<not> is_telemetry_line l) ls))"

lemma filter_lines_works:
  "tf_outcomes f = [] \<Longrightarrow>
   filter_lines f = (True, f\<lparr>tf_out := tf_out f @ kept_lines (fst (stream_lines (tf_buf f))),
     tf_buf := snd (stream_lines (tf_buf f))\<rparr>)"
proof (induction f rule: filter_lines.induct)
  case (1 f)
  show ?case
  proof (cases "10 \<in> set (tf_buf f)")
    case False
    then show ?thesis
      by (subst filter_lines.simps, subst (1 2) stream_lines.simps) (simp add: kept_lines_def)
  next
    case True
    let ?line = "takeWhile (\<lambda>b. b \<noteq> 10) (tf_buf f)"
    let ?rest = "tl (dropWhile (\<lambda>b. b \<noteq> 10) (tf_buf f))"
    have s: "stream_lines (tf_buf f) = (?line # fst (stream_lines ?rest), snd (stream_lines ?rest))"
      using True by (subst stream_lines.simps) (simp add: case_prod_beta)
    show ?thesis
    proof (cases "is_telemetry_line ?line")
      case tel: True
      have "filter_lines (f\<lparr>tf_buf := ?rest\<rparr>) = (True, f\<lparr>tf_out := tf_out f @ kept_lines (fst (stream_lines ?rest)),
          tf_buf := snd (stream_lines ?rest)\<rparr>)"
        using "1.IH"(1) [OF _ refl refl tel] True "1.prems" by simp
      then show ?thesis
        using True tel by (subst filter_lines.simps) (simp add: s kept_lines_def)
    next
      case tel: False
      let ?f3 = "f\<lparr>tf_out := tf_out f @ ?line @ [10], tf_buf := ?rest\<rparr>"
      have w: "dst_write ?line (f\<lparr>tf_buf := ?rest\<rparr>) = (True, f\<lparr>tf_buf := ?rest, tf_out := tf_out f @ ?line\<rparr>)"
        "dst_write [10] (f\<lparr>tf_buf := ?rest, tf_out := tf_out f @ ?line\<rparr>) = (True, ?f3)"
        using "1.prems" by (simp_all add: dst_write_def)
      have "filter_lines ?f3 = (True, f\<lparr>tf_out := tf_out f @ ?line @ [10] @ kept_lines (fst (stream_lines ?rest)),
          tf_buf := snd (stream_lines ?rest)\<rparr>)"
        using "1.IH"(2) [OF _ refl refl tel] True w "1.prems" by simp
      then show ?thesis
        using True tel w by (subst filter_lines.simps) (simp add: s kept_lines_def Let_def)
    qed
  qed
qed


lemma stream_lines_append:
  "stream_lines (xs @ ys) =
     (fst (stream_lines xs) @ fst (stream_lines (snd (stream_lines xs) @ ys)), snd (stream_lines (snd (stream_lines xs) @ ys)))"
proof (induction xs rule: stream_lines.induct)
  case (1 xs)
  show ?case
  proof (cases "10 \<in> set xs")
    case False
    then have "stream_lines xs = ([], xs)" by (subst stream_lines.simps) simp
    then show ?thesis by simp
  next
    case True
    let ?rest = "tl (dropWhile (\<lambda>b. b \<noteq> 10) xs)"
    have d: "dropWhile (\<lambda>b. b \<noteq> 10) xs \<noteq> []" using True by (simp add: dropWhile_eq_Nil_conv)
    have "stream_lines xs = (takeWhile (\<lambda>b. b \<noteq> 10) xs # fst (stream_lines ?rest), snd (stream_lines ?rest))"
      using True by (subst stream_lines.simps) (simp add: case_prod_beta)
    moreover have "stream_lines (xs @ ys) =
        (takeWhile (\<lambda>b. b \<noteq> 10) xs # fst (stream_lines (?rest @ ys)), snd (stream_lines (?rest @ ys)))"
      using True d by (subst stream_lines.simps) (simp add: case_prod_beta dropWhile_append1 takeWhile_append1)
    ultimately show ?thesis using "1.IH" True by simp
  qed
qed

lemma stream_lines_rest: "stream_lines (snd (stream_lines xs)) = ([], snd (stream_lines xs))"
proof (induction xs rule: stream_lines.induct)
  case (1 xs)
  show ?case
  proof (cases "10 \<in> set xs")
    case True
    then have "snd (stream_lines xs) = snd (stream_lines (tl (dropWhile (\<lambda>b. b \<noteq> 10) xs)))"
      by (subst stream_lines.simps) (simp add: case_prod_beta)
    then show ?thesis using 1 True by simp
  next
    case False
    then have "stream_lines xs = ([], xs)" by (subst stream_lines.simps) simp
    then show ?thesis by simp
  qed
qed

lemma filter_write_works:
  "tf_outcomes f = [] \<Longrightarrow>
   filter_write f p = ((length p, True), f\<lparr>tf_out := tf_out f @ kept_lines (fst (stream_lines (tf_buf f @ p))),
     tf_buf := snd (stream_lines (tf_buf f @ p))\<rparr>)"
  by (simp add: filter_write_def filter_lines_works)

section \<open>Writing and reading a whole conversation\<close>

fun pipe_write_all :: "bytes list \<Rightarrow> bytes \<times> nat \<Rightarrow> bool \<times> bytes \<times> nat" where
  "pipe_write_all [] w = (True, w)"
| "pipe_write_all (m # ms) w =
     (case pipe_write m w of (False, w') \<Rightarrow> (False, w') | (True, w') \<Rightarrow> pipe_write_all ms w')"

fun pipe_reads :: "nat \<Rightarrow> bytes \<Rightarrow> (pipe_error + bytes list) \<times> bytes" where
  "pipe_reads 0 s = (Inr [], s)"
| "pipe_reads (Suc n) s =
     (case pipe_read s of
        (Inl e, s') \<Rightarrow> (Inl e, s')
      | (Inr m, s') \<Rightarrow>
          (case pipe_reads n s' of (Inl e, t) \<Rightarrow> (Inl e, t) | (Inr ms, t) \<Rightarrow> (Inr (m # ms), t)))"

lemma pipe_reads_decode: "decode_n pipe_dec n s = Some (ms, r) \<Longrightarrow> pipe_reads n s = (Inr ms, r)"
  by (induction n arbitrary: s ms) (fastforce simp: pipe_dec_def split: option.splits prod.splits sum.splits)+

lemma pipe_write_all_frames:
  "length (concat (map pipe_frame ms)) \<le> room \<Longrightarrow>
   pipe_write_all ms (out, room) = (True, out @ concat (map pipe_frame ms), room - length (concat (map pipe_frame ms)))"
  by (induction ms arbitrary: out room) (simp_all add: pipe_write_frame)

section \<open>Properties\<close>

text \<open>Every sequence of messages of at most 10 MB written into the pipe is read back message by
  message, and what the other side wrote after them is left for the next reads.\<close>

theorem pipe_messages_arrive:
  assumes "list_all (\<lambda>m. length m \<le> max_frame_size) ms" "length (concat (map pipe_frame ms)) \<le> room"
  shows "\<exists>out room'. pipe_write_all ms ([], room) = (True, out, room') \<and>
     pipe_reads (length ms) (out @ rest) = (Inr ms, rest)"
  using pipe_write_all_frames [OF assms(2), of "[]"]
    pipe_reads_decode [OF pipe_codec.decode_n_enc [of ms rest]] assms(1)
  by (simp add: list_all_iff)

theorem pipe_messages_arrive_witness:
  "\<exists>out room'. pipe_write_all [[101], [], [99, 87]] ([], 15) = (True, out, room') \<and>
     pipe_reads 3 (out @ [1, 0, 0]) = (Inr [[101], [], [99, 87]], [1, 0, 0])"
  using pipe_messages_arrive [of "[[101], [], [99, 87]]" 15 "[1, 0, 0]"]
  by (simp add: max_frame_size_def pipe_frame_def numeral_3_eq_3 del: pipe_write_all.simps pipe_reads.simps)

text \<open>The writer has no limit but the reader has: a longer message is written without an error, and
  the reader rejects it and goes on in the middle of its payload.\<close>

theorem oversized_message_desynchronizes:
  assumes "max_frame_size < length m" "length m < 2 ^ 32" "length m + 4 \<le> room"
  shows "\<exists>out room'. pipe_write m ([], room) = (True, out, room') \<and>
     pipe_read (out @ rest) = (Inl FrameTooLarge, m @ rest)"
proof -
  have "from_le32 (le32 (of_nat (length m))) = of_nat (length m)" by (rule wire)
  then have "pipe_read (pipe_frame m @ rest) = (Inl FrameTooLarge, m @ rest)"
    using assms by (auto simp: pipe_read_def pipe_frame_def read_full_def unat_of_nat_lt Let_def)
  moreover have "pipe_write m ([], room) = (True, pipe_frame m, room - length (pipe_frame m))"
    using pipe_write_frame [of m room "[]"] assms(3) by (simp add: pipe_frame_def)
  ultimately show ?thesis by blast
qed

theorem oversized_message_desynchronizes_witness:
  "\<exists>m out room'. pipe_write m ([], 10485765) = (True, out, room') \<and> pipe_read (out @ [7]) = (Inl FrameTooLarge, m @ [7])"
proof -
  obtain m :: bytes where "length m = 10485761" using Ex_list_of_length by blast
  then show ?thesis
    using oversized_message_desynchronizes [of m 10485765 "[7]"] by (auto simp: max_frame_size_def)
qed

text \<open>C28: What the telemetry filter passes on depends only on the bytes written, not on how the writes
  cut them: after any sequence of writes the output is the complete lines that are not telemetry, each
  with its newline, and the buffer is what follows the last newline.\<close>

theorem telemetry_filter_ignores_chunking:
  "foldl (\<lambda>f p. snd (filter_write f p)) (new_filter []) ps =
     \<lparr>tf_buf = snd (stream_lines (concat ps)), tf_out = kept_lines (fst (stream_lines (concat ps))), tf_outcomes = []\<rparr>"
proof (induction ps rule: rev_induct)
  case Nil
  have "stream_lines [] = ([], [])" by (subst stream_lines.simps) simp
  then show ?case by (simp add: new_filter_def kept_lines_def)
next
  case (snoc p ps)
  then show ?case
    by (simp add: filter_write_works stream_lines_append [of "concat ps" p] kept_lines_def)
qed

text \<open>A failed write to the destination loses its line and leaves the following lines in the buffer
  until the next write, although \<open>Write\<close> reports that it took everything.\<close>

theorem failed_write_loses_line:
  "filter_write (new_filter [Some 0]) (str_bytes [CHR ''a'', CHR 0x0A, CHR ''b'', CHR 0x0A]) =
     ((4, False), \<lparr>tf_buf = str_bytes [CHR ''b'', CHR 0x0A], tf_out = [], tf_outcomes = []\<rparr>)"
  "filter_write \<lparr>tf_buf = str_bytes [CHR ''b'', CHR 0x0A], tf_out = [], tf_outcomes = []\<rparr> [] =
     ((0, True), \<lparr>tf_buf = [], tf_out = str_bytes [CHR ''b'', CHR 0x0A], tf_outcomes = []\<rparr>)"
  by code_simp+

end
