(* ===== verification/AuSplit.thy ===== *)
theory AuSplit
  imports H264 Chan Yuv
begin

text \<open>
  The readers that turn the byte stream of an encoder process into access units
  (\<open>internal/camera/rpicamvid.go\<close>, and the same helpers in the ffmpeg wrapper of
  \<open>internal/camera/v4l2_source.go\<close>): the NAL units that are complete are cut off the buffer, units
  are grouped into access units, each access unit is framed and offered to the frame channel. The cut
  is an instance of the incremental splitter, so the access units depend only on the bytes.
\<close>

section \<open>Complete NAL units\<close>

text \<open>\<open>None\<close> is a panic of \<open>data[naluStart:naluEnd]\<close>.\<close>

fun complete_loop :: "bytes \<Rightarrow> nat list \<Rightarrow> nalu list option" where
  "complete_loop d (pos # q # ps) =
     (let st = nalu_start d pos in
      if q \<le> st then complete_loop d (q # ps)
      else case slice d st q of
             None \<Rightarrow> None
           | Some nd \<Rightarrow> map_option (Cons (mk_nalu (nd ! 0 AND 0x1F) nd)) (complete_loop d (q # ps)))"
| "complete_loop d ps = Some []"

definition extract_complete :: "bytes \<Rightarrow> (nalu list \<times> bytes) option" where
  "extract_complete d =
     (let positions = find_start_codes d in
      if positions = [] then Some ([], d)
      else map_option (\<lambda>ns. (ns, drop (last positions) d)) (complete_loop d positions))"

section \<open>Access units\<close>

definition contains_type :: "nalu list \<Rightarrow> byte \<Rightarrow> bool" where
  "contains_type ns typ = list_ex (\<lambda>n. nal_type n = typ) ns"

definition starts_new_au :: "nalu \<Rightarrow> nalu list \<Rightarrow> bool" where
  "starts_new_au n cur =
     (if is_sps n then True
      else if is_pps n then \<not> contains_type cur 7
      else if is_idr n then \<not> contains_type cur 7 \<and> \<not> contains_type cur 8
      else True)"

record cam_frame =
  fr_data :: bytes
  fr_time :: int

definition frame_bytes :: "nalu list \<Rightarrow> bytes" where
  "frame_bytes ns = concat (map (\<lambda>n. [0, 0, 0, 1] @ nal_data n) ns)"

text \<open>The reader of \<open>readLoop\<close>: \<open>clk k\<close> is what the \<open>k\<close>-th call of \<open>time.Now\<close> returns.\<close>

record vid_reader =
  vr_pending :: bytes
  vr_au :: "nalu list"
  vr_start :: int
  vr_calls :: nat

definition new_vid_reader :: vid_reader where
  "new_vid_reader = \<lparr>vr_pending = [], vr_au = [], vr_start = 0, vr_calls = 0\<rparr>"

definition send_frame :: "nalu list \<Rightarrow> int \<Rightarrow> cam_frame" where
  "send_frame ns ts = \<lparr>fr_data = frame_bytes ns, fr_time = ts\<rparr>"

text \<open>One unit: the frame it completes, if any, and the reader.\<close>

definition vid_nalu :: "(nat \<Rightarrow> int) \<Rightarrow> vid_reader \<times> cam_frame list \<Rightarrow> nalu \<Rightarrow> vid_reader \<times> cam_frame list" where
  "vid_nalu clk = (\<lambda>(r, out) n.
     let (r1, out1) = (if starts_new_au n (vr_au r) \<and> 0 < length (vr_au r)
                       then (r\<lparr>vr_au := []\<rparr>, out @ [send_frame (vr_au r) (vr_start r)]) else (r, out));
         r2 = (if vr_au r1 = [] then r1\<lparr>vr_start := clk (vr_calls r1), vr_calls := vr_calls r1 + 1\<rparr> else r1) in
     (r2\<lparr>vr_au := vr_au r2 @ [n]\<rparr>, out1))"

definition vid_read :: "(nat \<Rightarrow> int) \<Rightarrow> vid_reader \<Rightarrow> bytes \<Rightarrow> (vid_reader \<times> cam_frame list) option" where
  "vid_read clk r chunk =
     (if chunk = [] then Some (r, [])
      else map_option (\<lambda>(nalus, rest). foldl (vid_nalu clk) (r\<lparr>vr_pending := rest\<rparr>, []) nalus)
             (extract_complete (vr_pending r @ chunk)))"

text \<open>The whole loop: the chunks the reads return, then the end of the stream.\<close>

fun vid_reads :: "(nat \<Rightarrow> int) \<Rightarrow> vid_reader \<Rightarrow> bytes list \<Rightarrow> (vid_reader \<times> cam_frame list) option" where
  "vid_reads clk r [] = Some (r, [])"
| "vid_reads clk r (c # cs) =
     Option.bind (vid_read clk r c) (\<lambda>(r1, out1).
       map_option (\<lambda>(r2, out2). (r2, out1 @ out2)) (vid_reads clk r1 cs))"

definition vid_read_loop :: "(nat \<Rightarrow> int) \<Rightarrow> bytes list \<Rightarrow> cam_frame list option" where
  "vid_read_loop clk cs =
     map_option (\<lambda>(r, out). if 0 < length (vr_au r) then out @ [send_frame (vr_au r) (vr_start r)] else out)
       (vid_reads clk new_vid_reader cs)"

section \<open>The cut depends only on the bytes\<close>

definition adj :: "bytes \<Rightarrow> nat \<Rightarrow> nat" where
  "adj d i = (if 0 < i \<and> d ! (i - 1) = 0 then i - 1 else i)"

definition hits :: "bytes \<Rightarrow> nat list" where
  "hits d = filter (sc_at d) [0..<length d]"

lemma sc_at_apart: "sc_at d i \<Longrightarrow> sc_at d j \<Longrightarrow> i < j \<Longrightarrow> i + 3 \<le> j"
proof (rule ccontr)
  assume s: "sc_at d i" "sc_at d j" "i < j" "\<not> i + 3 \<le> j"
  then have "j = i + 1 \<or> j = i + 2" by linarith
  then show False using s by (auto simp: sc_at_def numeral_eq_Suc)
qed

lemma fsc_filter: "fsc_loop d i = map (adj d) (filter (sc_at d) [i..<length d])"
proof (induction i rule: fsc_induct [where d = d])
  case (hit i)
  then have i: "i + 2 < length d" by (simp add: sc_at_def)
  have no: "\<not> sc_at d (i + 1)" "\<not> sc_at d (i + 2)"
    using sc_at_apart [OF hit.hyps, of "i + 1"] sc_at_apart [OF hit.hyps, of "i + 2"] by auto
  have "[i..<length d] = i # (i + 1) # (i + 2) # [i + 3..<length d]"
    using i by (simp add: upt_conv_Cons numeral_eq_Suc)
  then show ?case using hit no by (simp add: fsc_hit adj_def)
next
  case (miss i)
  then have "[i..<length d] = i # [i + 1..<length d]" by (simp add: upt_conv_Cons)
  then show ?case using miss by (simp add: fsc_miss)
next
  case (stop i)
  have "filter (sc_at d) [i..<length d] = []"
    using stop by (auto simp: filter_empty_conv sc_at_def)
  then show ?case using stop by (simp add: fsc_end)
qed

lemma find_start_codes_hits: "find_start_codes d = map (adj d) (hits d)"
proof (cases "length d < 3")
  case True
  then have "hits d = []" by (auto simp: hits_def filter_empty_conv sc_at_def)
  with True show ?thesis by (simp add: find_start_codes_def)
qed (simp add: find_start_codes_def fsc_filter hits_def)

lemma hits_sc: "h \<in> set (hits d) \<Longrightarrow> sc_at d h"
  by (simp add: hits_def)

lemma adj_range: "sc_at d i \<Longrightarrow> adj d i \<le> i \<and> i \<le> adj d i + 1 \<and> adj d i + 2 < length d"
  by (auto simp: adj_def sc_at_def)

fun units :: "bytes \<Rightarrow> nat list \<Rightarrow> nalu list" where
  "units d (i # j # hs) =
     (if adj d j \<le> i + 3 then [] else [nalu_of (take (adj d j - (i + 3)) (drop (i + 3) d))]) @ units d (j # hs)"
| "units d hs = []"

definition cut_nalus :: "bytes \<Rightarrow> nalu list \<times> bytes" where
  "cut_nalus d = (if hits d = [] then ([], d) else (units d (hits d), drop (adj d (last (hits d))) d))"

lemma complete_loop_step:
  assumes "nalu_start d p = s" "slice d s q = Some nd" "nd \<noteq> []" "complete_loop d (q # ps) = Some r"
  shows "complete_loop d (p # q # ps) = Some (nalu_of nd # r)"
proof -
  have "s < q" using slice_length [OF assms(2)] assms(3) by (cases nd) auto
  moreover have "nd ! 0 = hd nd" using assms(3) by (rule hd_conv_nth [symmetric])
  ultimately show ?thesis using assms by (simp add: nalu_of_def)
qed

lemma complete_loop_units:
  "\<forall>h\<in>set hs. sc_at d h \<Longrightarrow> complete_loop d (map (adj d) hs) = Some (units d hs)"
proof (induction d hs rule: units.induct)
  case (1 d i j hs)
  then have rest: "complete_loop d (adj d j # map (adj d) hs) = Some (units d (j # hs))" by simp
  have st: "nalu_start d (adj d i) = i + 3" using nalu_start_hit [of d i] 1 by (simp add: adj_def)
  have j: "adj d j + 2 < length d" using adj_range [of d j] 1 by simp
  show ?case
  proof (cases "adj d j \<le> i + 3")
    case False
    let ?nd = "take (adj d j - (i + 3)) (drop (i + 3) d)"
    have "slice d (i + 3) (adj d j) = Some ?nd" "?nd \<noteq> []" using False j by simp_all
    then have "complete_loop d (adj d i # adj d j # map (adj d) hs) = Some (nalu_of ?nd # units d (j # hs))"
      by (rule complete_loop_step [OF st _ _ rest])
    then show ?thesis using False by simp
  qed (use rest st in simp)
qed simp_all

lemma extract_complete_cut: "extract_complete d = Some (cut_nalus d)"
proof (cases "hits d = []")
  case False
  then have "complete_loop d (map (adj d) (hits d)) = Some (units d (hits d))"
    by (intro complete_loop_units) (simp add: hits_sc)
  then show ?thesis using False
    by (simp add: extract_complete_def find_start_codes_hits cut_nalus_def last_map)
qed (simp add: extract_complete_def find_start_codes_hits cut_nalus_def)

lemma sc_at_append1: "i + 2 < length xs \<Longrightarrow> sc_at (xs @ ys) i = sc_at xs i"
  by (simp add: sc_at_def nth_append)

lemma adj_append1: "i \<le> length xs \<Longrightarrow> adj (xs @ ys) i = adj xs i"
  by (auto simp: adj_def nth_append)

lemma upt_append: "(i :: nat) \<le> j \<Longrightarrow> j \<le> k \<Longrightarrow> [i..<j] @ [j..<k] = [i..<k]"
  using upt_add_eq_append [of i j "k - j"] by simp

lemma hits_append: "\<exists>H. hits (xs @ ys) = hits xs @ H"
proof -
  have split: "[0..<length (xs @ ys)] = [0..<length xs - 2] @ [length xs - 2..<length (xs @ ys)]"
    by (rule upt_append [symmetric]) simp_all
  have "[0..<length xs] = [0..<length xs - 2] @ [length xs - 2..<length xs]"
    by (rule upt_append [symmetric]) simp_all
  moreover have "filter (sc_at xs) [length xs - 2..<length xs] = []"
    by (auto simp: filter_empty_conv sc_at_def)
  ultimately have "hits xs = filter (sc_at xs) [0..<length xs - 2]" by (simp add: hits_def)
  also have "\<dots> = filter (sc_at (xs @ ys)) [0..<length xs - 2]"
    by (rule filter_cong) (auto simp: sc_at_append1)
  finally show ?thesis unfolding hits_def split by simp
qed

lemma units_append:
  "hs \<noteq> [] \<Longrightarrow> \<forall>h\<in>set hs. sc_at xs h \<Longrightarrow>
   units (xs @ ys) (hs @ H) = units xs hs @ units (xs @ ys) (last hs # H)"
proof (induction xs hs rule: units.induct)
  case (1 d i j hs)
  have j: "adj (d @ ys) j = adj d j" "adj d j \<le> length d"
    using adj_range [of d j] 1 by (auto simp: sc_at_def adj_append1)
  have i: "i + 3 \<le> length d" using 1 by (simp add: sc_at_def)
  have "take (adj d j - (i + 3)) (drop (i + 3) (d @ ys)) = take (adj d j - (i + 3)) (drop (i + 3) d)"
    using i j by simp
  with 1 j show ?case by (simp only: append_Cons units.simps) simp
qed simp_all

lemma hits_sorted: "sorted (hits d)" "distinct (hits d)"
  by (simp_all add: hits_def sorted_wrt_filter)

text \<open>Dropping a prefix of the data shifts the hits behind it.\<close>

lemma sc_at_drop: "l \<le> length d \<Longrightarrow> sc_at (drop l d) k = sc_at d (l + k)"
  by (auto simp: sc_at_def add.assoc)

lemma hits_drop: "l \<le> length d \<Longrightarrow> hits (drop l d) = map (\<lambda>i. i - l) (filter (\<lambda>i. l \<le> i) (hits d))"
proof -
  assume l: "l \<le> length d"
  have "filter (\<lambda>i. l \<le> i) (hits d) = filter (sc_at d) (filter (\<lambda>i. l \<le> i) [0..<length d])"
    by (simp add: hits_def conj_commute)
  also have "filter (\<lambda>i. l \<le> i) [0..<length d] = [l..<length d]"
  proof -
    have "[0..<length d] = [0..<l] @ [l..<length d]" using l by (simp add: upt_append)
    then show ?thesis by (simp only: filter_append) (simp add: filter_empty_conv)
  qed
  also have "[l..<length d] = map (\<lambda>i. i + l) [0..<length d - l]"
    using l by (simp add: map_add_upt)
  finally have "filter (\<lambda>i. l \<le> i) (hits d) = map (\<lambda>i. i + l) (filter (\<lambda>k. sc_at d (l + k)) [0..<length d - l])"
    by (simp add: filter_map o_def add.commute)
  moreover have "sc_at (drop l d) = (\<lambda>k. sc_at d (l + k))" using sc_at_drop [OF l] by blast
  ultimately show ?thesis using l by (simp add: hits_def o_def)
qed

lemma units_shift:
  "l \<le> length d \<Longrightarrow> \<forall>i\<in>set hs. l \<le> adj d i \<and> adj (drop l d) (i - l) = adj d i - l \<Longrightarrow>
   units (drop l d) (map (\<lambda>i. i - l) hs) = units d hs"
proof (induction d hs rule: units.induct)
  case (1 d i j hs)
  have le: "l \<le> i" using 1 by (auto simp: adj_def split: if_splits)
  have "drop (i - l + 3) (drop l d) = drop (i + 3) d" using le by (simp add: add.commute)
  moreover have "adj d j - l - (i - l + 3) = adj d j - (i + 3)" using le by simp
  moreover have "adj d j - l \<le> i - l + 3 \<longleftrightarrow> adj d j \<le> i + 3" using le 1 by auto
  moreover have "i - l + 3 = i + 3 - l" using le by simp
  ultimately show ?case using 1 by (simp del: drop_drop)
qed simp_all

lemma last_hit_position:
  assumes "hits d = hs @ h # H" and "l = adj d h"
  shows "filter (\<lambda>i. l \<le> i) (hits d) = h # H" and "\<forall>i\<in>set (h # H). l \<le> adj d i \<and> adj (drop l d) (i - l) = adj d i - l"
proof -
  have sc: "sc_at d h" "\<forall>i\<in>set hs. sc_at d i" "\<forall>i\<in>set H. sc_at d i"
    using hits_sc [of _ d] assms(1) by auto
  have s: "\<forall>i\<in>set hs. i < h" "\<forall>i\<in>set H. h < i"
    using hits_sorted [of d] assms(1) by (auto simp: sorted_append order.strict_iff_order)
  have before: "\<forall>i\<in>set hs. i + 3 \<le> h" and after: "\<forall>i\<in>set H. h + 3 \<le> i"
    using s sc sc_at_apart by blast+
  have l: "l \<le> h" "h \<le> l + 1" "l + 2 < length d" using adj_range [OF sc(1)] assms(2) by auto
  have "filter (\<lambda>i. l \<le> i) hs = []" using before l by (fastforce simp: filter_empty_conv)
  moreover have "filter (\<lambda>i. l \<le> i) H = H" using s l by (fastforce simp: filter_id_conv)
  ultimately show "filter (\<lambda>i. l \<le> i) (hits d) = h # H" using assms(1) l by simp
  have "adj (drop l d) (i - l) = adj d i - l \<and> l \<le> adj d i" if i: "i \<in> set H" for i
  proof -
    have "h + 3 \<le> i" using after i by blast
    then have "i - l > 0" "l + (i - l - 1) = i - 1" "l < i - 1" using l by linarith+
    then show ?thesis using l unfolding adj_def by (simp only: nth_drop [of l d] less_imp_le) auto
  qed
  moreover have "adj (drop l d) (h - l) = 0"
  proof (cases "h = l")
    case False
    then have "h = l + 1" "d ! l = 0" using l assms(2) by (auto simp: adj_def split: if_splits)
    then show ?thesis using l by (simp add: adj_def)
  qed (simp add: adj_def)
  ultimately show "\<forall>i\<in>set (h # H). l \<le> adj d i \<and> adj (drop l d) (i - l) = adj d i - l"
    using assms(2) by simp
qed

lemma cut_append:
  "cut_nalus (xs @ ys) =
     (fst (cut_nalus xs) @ fst (cut_nalus (snd (cut_nalus xs) @ ys)), snd (cut_nalus (snd (cut_nalus xs) @ ys)))"
proof (cases "hits xs = []")
  case True
  then show ?thesis by (simp add: cut_nalus_def)
next
  case False
  define d where "d = xs @ ys"
  define h where "h = last (hits xs)"
  define l where "l = adj d h"
  obtain H where H: "hits d = hits xs @ H" using hits_append [of xs ys] unfolding d_def by blast
  have hs: "hits xs = butlast (hits xs) @ [h]" using False by (simp add: h_def)
  have hx: "sc_at xs h" using False by (simp add: h_def hits_sc)
  have l: "l = adj xs h" "l \<le> length xs" using adj_range [OF hx] hx by (auto simp: l_def d_def adj_append1 sc_at_def)
  have dH: "hits d = butlast (hits xs) @ h # H" using H hs by (metis append.assoc append_Cons append_Nil)
  have dl: "drop l xs @ ys = drop l d" "l \<le> length d" using l by (simp_all add: d_def)
  have zs: "hits (drop l d) = map (\<lambda>i. i - l) (h # H)"
    using hits_drop [OF dl(2)] last_hit_position(1) [OF dH l_def] by simp
  have u: "units (drop l d) (hits (drop l d)) = units d (h # H)"
    unfolding zs by (rule units_shift [OF dl(2) last_hit_position(2) [OF dH l_def]])
  have "units d (hits d) = units xs (hits xs) @ units d (h # H)"
    unfolding H unfolding d_def h_def by (rule units_append [OF False]) (simp add: hits_sc)
  moreover have "drop (adj d (last (hits d))) d = drop (adj (drop l d) (last (hits (drop l d)))) (drop l d)"
  proof -
    have "last (hits d) = last (h # H)" unfolding dH by simp
    moreover have "last (hits (drop l d)) = last (h # H) - l" unfolding zs by (rule last_map) simp
    moreover have "last (h # H) \<in> set (h # H)" by (rule last_in_set) simp
    ultimately show ?thesis using last_hit_position(2) [OF dH l_def] by simp
  qed
  moreover have "hits d \<noteq> []" "hits (drop l d) \<noteq> []" by (simp_all add: dH zs)
  moreover have "cut_nalus xs = (units xs (hits xs), drop l xs)" using False l(1) by (simp add: cut_nalus_def h_def)
  ultimately show ?thesis by (simp add: cut_nalus_def [of "drop l d"] cut_nalus_def [of d] u dl d_def [symmetric])
qed

interpretation nalu_stream: stream_splitter cut_nalus
  by unfold_locales (simp add: cut_nalus_def hits_def, rule cut_append)

section \<open>The reader on whole streams\<close>

definition vid_step :: "(nat \<Rightarrow> int) \<Rightarrow> vid_reader \<times> cam_frame list \<Rightarrow> bytes \<Rightarrow> vid_reader \<times> cam_frame list" where
  "vid_step clk = (\<lambda>(r, out) c.
     let (nalus, rest) = cut_nalus (vr_pending r @ c) in foldl (vid_nalu clk) (r\<lparr>vr_pending := rest\<rparr>, out) nalus)"

lemma vid_nalu_frame:
  "vid_nalu clk (r\<lparr>vr_pending := p\<rparr>, out @ out') n =
     (case vid_nalu clk (r, out') n of (r', o') \<Rightarrow> (r'\<lparr>vr_pending := p\<rparr>, out @ o'))"
  by (simp add: vid_nalu_def Let_def)

lemma vid_nalus_frame:
  "foldl (vid_nalu clk) (r\<lparr>vr_pending := p\<rparr>, out @ out') ns =
     (case foldl (vid_nalu clk) (r, out') ns of (r', o') \<Rightarrow> (r'\<lparr>vr_pending := p\<rparr>, out @ o'))"
  by (induction ns arbitrary: r out') (simp_all add: vid_nalu_frame split: prod.splits)

lemma vid_nalus_pending: "vr_pending (fst (foldl (vid_nalu clk) (r, out) ns)) = vr_pending r"
  by (induction ns arbitrary: r out) (simp_all add: vid_nalu_def Let_def split: prod.split)

lemma vid_step_out: "vid_step clk (r, out @ out') c = (case vid_step clk (r, out') c of (r', o') \<Rightarrow> (r', out @ o'))"
  using vid_nalus_frame [of clk _ r out out'] vid_nalus_frame [of clk _ r "[]" out']
  by (simp add: vid_step_def split: prod.splits)

lemma vid_steps_out:
  "foldl (vid_step clk) (r, out) cs = (case foldl (vid_step clk) (r, []) cs of (r', o') \<Rightarrow> (r', out @ o'))"
proof (induction cs arbitrary: r out)
  case (Cons c cs)
  obtain r1 o1 where s: "vid_step clk (r, []) c = (r1, o1)" by fastforce
  then have "vid_step clk (r, out) c = (r1, out @ o1)" using vid_step_out [of clk r out "[]" c] by simp
  then show ?case using Cons [of r1 "out @ o1"] Cons [of r1 o1] s by (simp split: prod.splits)
qed simp

lemma vid_read_step: "c \<noteq> [] \<Longrightarrow> vid_read clk r c = Some (vid_step clk (r, []) c)"
  by (simp add: vid_read_def extract_complete_cut vid_step_def split: prod.split)

lemma vid_reads_steps: "vid_reads clk r cs = Some (foldl (vid_step clk) (r, []) (filter (\<lambda>c. c \<noteq> []) cs))"
proof (induction cs arbitrary: r)
  case (Cons c cs)
  show ?case
  proof (cases "c = []")
    case False
    obtain r1 o1 where s: "vid_step clk (r, []) c = (r1, o1)" by fastforce
    then show ?thesis
      using False Cons [of r1] vid_steps_out [of clk r1 o1] by (simp add: vid_read_step split: prod.split)
  qed (simp add: Cons vid_read_def split: prod.split)
qed simp

lemma concat_filter_nonempty: "concat (filter (\<lambda>c. c \<noteq> []) cs) = concat cs"
  by (induction cs) auto

lemma vid_reads_whole:
  "vid_reads clk new_vid_reader cs =
     Some (foldl (vid_nalu clk) (new_vid_reader\<lparr>vr_pending := snd (cut_nalus (concat cs))\<rparr>, []) (fst (cut_nalus (concat cs))))"
proof -
  define rep where "rep us p = foldl (vid_nalu clk) (new_vid_reader\<lparr>vr_pending := p\<rparr>, []) us" for us p
  have "vid_step clk (rep us p) c = rep (us @ fst (cut_nalus (p @ c))) (snd (cut_nalus (p @ c)))" for us p c
  proof -
    obtain r out where s: "foldl (vid_nalu clk) (new_vid_reader, []) us = (r, out)" by fastforce
    have rep: "rep us q = (r\<lparr>vr_pending := q\<rparr>, out)" for q
      using vid_nalus_frame [of clk q new_vid_reader "[]" "[]" us] s by (simp add: rep_def)
    obtain ns q where c: "cut_nalus (p @ c) = (ns, q)" by fastforce
    have "rep (us @ ns) q = foldl (vid_nalu clk) (rep us q) ns" by (simp add: rep_def)
    then show ?thesis by (simp add: rep vid_step_def c)
  qed
  then have "foldl (vid_step clk) (rep [] []) cs' = rep (fst (cut_nalus (concat cs'))) (snd (cut_nalus (concat cs')))" for cs'
    by (rule nalu_stream.client_run)
  moreover have "rep [] [] = (new_vid_reader, [])" by (simp add: rep_def new_vid_reader_def)
  ultimately show ?thesis by (simp add: vid_reads_steps rep_def concat_filter_nonempty)
qed

section \<open>Streams of framed access units\<close>

definition unit_type :: "bytes \<Rightarrow> byte" where
  "unit_type b = hd b AND 0x1F"

text \<open>What the camera process emits: a key frame with its parameter sets, or one other unit.\<close>

definition whole_au :: "bytes list \<Rightarrow> bool" where
  "whole_au a \<longleftrightarrow> map unit_type a = [7, 8, 5] \<or> length a = 1 \<and> unit_type (hd a) \<notin> {5, 7, 8}"

lemma complete_loop_annexb:
  "\<forall>n\<in>set ns. n \<noteq> [] \<Longrightarrow>
   complete_loop (pre @ annexb ns) (starts (length pre) ns) = Some (map nalu_of (butlast ns))"
proof (induction ns arbitrary: pre)
  case (Cons n ns)
  let ?d = "pre @ annexb (n # ns)"
  let ?e = "length pre + 4 + length n"
  show ?case
  proof (cases ns)
    case (Cons m ms)
    have n: "n \<noteq> []" using Cons.prems by simp
    have st: "nalu_start ?d (length pre) = length pre + 4" by (simp add: nalu_start_def nth_append)
    have sl: "slice ?d (length pre + 4) ?e = Some n" by (simp add: slice_def)
    have "length (pre @ [0, 0, 0, 1] @ n) = ?e" by simp
    then have "complete_loop ?d (starts ?e ns) = Some (map nalu_of (butlast ns))"
      using Cons.IH [of "pre @ [0, 0, 0, 1] @ n"] Cons.prems by (simp only:) simp
    then have "complete_loop ?d (length pre # ?e # starts (?e + 4 + length m) ms) = Some (nalu_of n # map nalu_of (butlast ns))"
      using Cons by (intro complete_loop_step [OF st sl n]) simp
    then show ?thesis using Cons by simp
  qed simp
qed simp

lemma cut_annexb:
  assumes "ns \<noteq> []" "\<forall>n\<in>set ns. n \<noteq> [] \<and> no_start_code n"
  shows "fst (cut_nalus (annexb ns)) = map nalu_of (butlast ns)"
proof -
  have f: "find_start_codes (annexb ns) = starts 0 ns"
    using fsc_annexb [of ns "[]"] assms by (cases ns) (auto simp: find_start_codes_def)
  moreover have "starts 0 ns \<noteq> []" using assms(1) by (cases ns) auto
  moreover have "complete_loop (annexb ns) (starts 0 ns) = Some (map nalu_of (butlast ns))"
    using complete_loop_annexb [of ns "[]"] assms(2) by simp
  ultimately have "map_option fst (extract_complete (annexb ns)) = Some (map nalu_of (butlast ns))"
    by (simp add: extract_complete_def)
  then show ?thesis by (simp add: extract_complete_cut)
qed

lemma nalu_of_simps [simp]:
  "nal_data (nalu_of b) = b" "nal_type (nalu_of b) = unit_type b" "is_idr (nalu_of b) = (unit_type b = 5)"
  "is_sps (nalu_of b) = (unit_type b = 7)" "is_pps (nalu_of b) = (unit_type b = 8)"
  by (simp_all add: nalu_of_def mk_nalu_def unit_type_def)

lemma frame_bytes_annexb: "frame_bytes (map nalu_of a) = annexb a"
  by (simp add: frame_bytes_def annexb_def o_def)

lemma contains_type_simps [simp]:
  "contains_type [] t = False" "contains_type (n # ns) t = (nal_type n = t \<or> contains_type ns t)"
  by (simp_all add: contains_type_def)

text \<open>The reader between two access units: the units sent so far carry one clock reading each.\<close>

definition au_frames :: "(nat \<Rightarrow> int) \<Rightarrow> bytes list list \<Rightarrow> cam_frame list" where
  "au_frames clk aus = map (\<lambda>k. \<lparr>fr_data = annexb (aus ! k), fr_time = clk k\<rparr>) [0..<length aus]"

lemma au_frames_snoc: "au_frames clk (aus @ [a]) = au_frames clk aus @ [\<lparr>fr_data = annexb a, fr_time = clk (length aus)\<rparr>]"
  by (simp add: au_frames_def nth_append)

lemma vid_first_unit:
  assumes "unit_type b \<in> {5, 8} \<longrightarrow> vr_au r = []"
  shows "vid_nalu clk (r, out) (nalu_of b) =
    (r\<lparr>vr_au := [nalu_of b], vr_start := clk (vr_calls r), vr_calls := vr_calls r + 1\<rparr>,
     if vr_au r = [] then out else out @ [send_frame (vr_au r) (vr_start r)])"
  using assms by (cases "vr_au r") (auto simp: vid_nalu_def starts_new_au_def)

lemma vid_whole_au:
  assumes "whole_au a"
  shows "foldl (vid_nalu clk) (r\<lparr>vr_au := map nalu_of cur, vr_start := t, vr_calls := n\<rparr>, out) (map nalu_of a) =
    (r\<lparr>vr_au := map nalu_of a, vr_start := clk n, vr_calls := n + 1\<rparr>,
     if cur = [] then out else out @ [\<lparr>fr_data = annexb cur, fr_time = t\<rparr>])"
  using assms unfolding whole_au_def
proof
  assume "map unit_type a = [7, 8, 5]"
  then obtain s p i where a: "a = [s, p, i]" and ty: "unit_type s = 7" "unit_type p = 8" "unit_type i = 5"
    by (auto simp: map_eq_Cons_conv)
  show ?thesis unfolding a by (simp add: vid_first_unit ty send_frame_def frame_bytes_annexb)
    (simp add: vid_nalu_def starts_new_au_def ty)
next
  assume "length a = 1 \<and> unit_type (hd a) \<notin> {5, 7, 8}"
  then obtain b where a: "a = [b]" and ty: "unit_type b \<notin> {5, 8}" by (cases a) auto
  then show ?thesis by (simp add: vid_first_unit send_frame_def frame_bytes_annexb)
qed

lemma vid_whole_aus:
  assumes "\<forall>a\<in>set (aus @ [a]). whole_au a"
  shows "foldl (vid_nalu clk) (new_vid_reader\<lparr>vr_pending := p\<rparr>, []) (map nalu_of (concat (aus @ [a]))) =
    (\<lparr>vr_pending = p, vr_au = map nalu_of a, vr_start = clk (length aus), vr_calls = length aus + 1\<rparr>, au_frames clk aus)"
  using assms
proof (induction aus arbitrary: a rule: rev_induct)
  case Nil
  have "whole_au a" using Nil by simp
  from vid_whole_au [OF this, where cur = "[]" and t = 0 and n = 0 and r = "new_vid_reader\<lparr>vr_pending := p\<rparr>" and out = "[]"]
  show ?case by (simp add: new_vid_reader_def au_frames_def)
next
  case (snoc b aus)
  let ?r = "\<lparr>vr_pending = p, vr_au = map nalu_of b, vr_start = clk (length aus), vr_calls = length aus + 1\<rparr>"
  have b: "b \<noteq> []" using snoc.prems by (auto simp: whole_au_def)
  have "whole_au a" using snoc.prems by simp
  from vid_whole_au [OF this, where clk = clk and cur = b and t = "clk (length aus)" and n = "length aus + 1"
      and r = ?r and out = "au_frames clk aus"] b
  have step: "foldl (vid_nalu clk) (?r, au_frames clk aus) (map nalu_of a) =
      (\<lparr>vr_pending = p, vr_au = map nalu_of a, vr_start = clk (length (aus @ [b])), vr_calls = length (aus @ [b]) + 1\<rparr>,
       au_frames clk (aus @ [b]))" by (simp add: au_frames_snoc)
  have "foldl (vid_nalu clk) (new_vid_reader\<lparr>vr_pending := p\<rparr>, []) (map nalu_of (concat (aus @ [b]))) = (?r, au_frames clk aus)"
    using snoc.prems by (intro snoc.IH) simp
  then have "foldl (vid_nalu clk) (new_vid_reader\<lparr>vr_pending := p\<rparr>, []) (map nalu_of (concat (aus @ [b])) @ map nalu_of a) =
      foldl (vid_nalu clk) (?r, au_frames clk aus) (map nalu_of a)" by (simp only: foldl_append)
  then show ?case by (simp only: step) simp
qed

lemma vid_partial_au:
  assumes "whole_au a" "u = butlast a" "u \<noteq> []"
  shows "foldl (vid_nalu clk) (r\<lparr>vr_au := map nalu_of cur, vr_start := t, vr_calls := n\<rparr>, out) (map nalu_of u) =
    (r\<lparr>vr_au := map nalu_of u, vr_start := clk n, vr_calls := n + 1\<rparr>,
     if cur = [] then out else out @ [\<lparr>fr_data = annexb cur, fr_time = t\<rparr>])"
proof -
  obtain s q i where a: "a = [s, q, i]" and ty: "unit_type s = 7" "unit_type q = 8"
  proof -
    have "map unit_type a = [7, 8, 5]" using assms by (cases a) (auto simp: whole_au_def)
    then show ?thesis using that by (auto simp: map_eq_Cons_conv)
  qed
  show ?thesis unfolding assms(2) a by (simp add: vid_first_unit ty send_frame_def frame_bytes_annexb)
    (simp add: vid_nalu_def starts_new_au_def ty)
qed

section \<open>The ffmpeg wrapper\<close>

text \<open>
  The same cut and grouping without time stamps; every access unit goes with its key flag to a callback.
  \<open>ff_reader\<close> is the buffer and the current access unit.
\<close>

definition ff_key :: "nalu list \<Rightarrow> bool" where
  "ff_key cur = list_ex (\<lambda>n. is_sps n \<or> is_pps n \<or> 0 < length (nal_data n) \<and> nal_data n ! 0 AND 0x1F = 5) cur"

type_synonym ff_reader = "bytes \<times> nalu list"

definition ff_nalu :: "nalu list \<times> (nalu list \<times> bool) list \<Rightarrow> nalu \<Rightarrow> nalu list \<times> (nalu list \<times> bool) list" where
  "ff_nalu = (\<lambda>(cur, out) n.
     if 0 < length cur \<and> starts_new_au n cur then ([n], out @ [(cur, ff_key cur)]) else (cur @ [n], out))"

definition ff_read :: "ff_reader \<Rightarrow> bytes \<Rightarrow> (ff_reader \<times> (nalu list \<times> bool) list) option" where
  "ff_read = (\<lambda>(pending, cur) chunk.
     if chunk = [] then Some ((pending, cur), [])
     else map_option (\<lambda>(nalus, rest). case foldl ff_nalu (cur, []) nalus of (cur', out) \<Rightarrow> ((rest, cur'), out))
            (extract_complete (pending @ chunk)))"

fun ff_reads :: "ff_reader \<Rightarrow> bytes list \<Rightarrow> (ff_reader \<times> (nalu list \<times> bool) list) option" where
  "ff_reads r [] = Some (r, [])"
| "ff_reads r (c # cs) =
     Option.bind (ff_read r c) (\<lambda>(r1, out1). map_option (\<lambda>(r2, out2). (r2, out1 @ out2)) (ff_reads r1 cs))"

definition ff_read_loop :: "bytes list \<Rightarrow> (nalu list \<times> bool) list option" where
  "ff_read_loop cs =
     map_option (\<lambda>((pending, cur), out). if 0 < length cur then out @ [(cur, ff_key cur)] else out) (ff_reads ([], []) cs)"

text \<open>\<open>V4L2Source.emit\<close>: the frame it offers to the channel, none for an empty access unit.\<close>

definition v4l2_emit :: "nalu list \<Rightarrow> int \<Rightarrow> cam_frame option" where
  "v4l2_emit ns now = (if ns = [] then None else Some \<lparr>fr_data = frame_bytes ns, fr_time = now\<rparr>)"

text \<open>The ffmpeg reader groups as the rpicam-vid reader does.\<close>

definition au_bytes :: "(nalu list \<times> bool) list \<Rightarrow> bytes list" where
  "au_bytes out = map (frame_bytes \<circ> fst) out"

lemma au_bytes_append [simp]: "au_bytes (xs @ ys) = au_bytes xs @ au_bytes ys" "au_bytes [] = []"
  "au_bytes ((a, k) # xs) = frame_bytes a # au_bytes xs"
  by (simp_all add: au_bytes_def)

lemma ff_nalu_vid:
  assumes "(cur, map fst out) = (vr_au r, vout)"
  shows "\<exists>out'. ff_nalu (cur, out) n = (vr_au (fst (vid_nalu clk (r, vfr) n)), out') \<and>
     au_bytes out' =
       au_bytes out @ map fr_data (drop (length vfr) (snd (vid_nalu clk (r, vfr) n)))"
  using assms by (auto simp: ff_nalu_def vid_nalu_def Let_def send_frame_def)

lemma ff_nalus_vid:
  "vr_au r = cur \<Longrightarrow>
   \<exists>out'. foldl ff_nalu (cur, out) ns = (vr_au (fst (foldl (vid_nalu clk) (r, []) ns)), out') \<and>
     au_bytes out' = au_bytes out @ map fr_data (snd (foldl (vid_nalu clk) (r, []) ns))"
proof (induction ns arbitrary: r cur out)
  case (Cons n ns)
  obtain r1 o1 where v: "vid_nalu clk (r, []) n = (r1, o1)" by fastforce
  obtain out1 where f: "ff_nalu (cur, out) n = (vr_au r1, out1)"
      "au_bytes out1 = au_bytes out @ map fr_data o1"
    using ff_nalu_vid [of cur out r "map fst out" n clk "[]"] Cons.prems v by auto
  obtain r2 o2 where g: "foldl (vid_nalu clk) (r1, []) ns = (r2, o2)" by fastforce
  have "foldl (vid_nalu clk) (r1, o1) ns = (r2, o1 @ o2)"
    using vid_nalus_frame [of clk "vr_pending r1" r1 o1 "[]" ns] g vid_nalus_pending [of clk r1 "[]" ns]
    by simp
  then show ?case using Cons.IH [of r1 "vr_au r1" out1] f g v by auto
qed simp

lemma ff_reads_vid:
  "\<exists>vr vout out. vid_reads clk r cs = Some (vr, vout) \<and> ff_reads (vr_pending r, vr_au r) cs = Some ((vr_pending vr, vr_au vr), out) \<and>
     au_bytes out = map fr_data vout"
proof (induction cs arbitrary: r)
  case (Cons c cs)
  show ?case
  proof (cases "c = []")
    case True
    then show ?thesis using Cons.IH [of r] by (fastforce simp: vid_read_def ff_read_def)
  next
    case False
    obtain ns rest where c: "cut_nalus (vr_pending r @ c) = (ns, rest)" by fastforce
    let ?r = "r\<lparr>vr_pending := rest\<rparr>"
    obtain r1 o1 where v: "foldl (vid_nalu clk) (?r, []) ns = (r1, o1)" by fastforce
    then have p: "vr_pending r1 = rest" using vid_nalus_pending [of clk ?r "[]" ns] by simp
    obtain out1 where f: "foldl ff_nalu (vr_au r, []) ns = (vr_au r1, out1)" "au_bytes out1 = map fr_data o1"
      using ff_nalus_vid [of ?r "vr_au r" "[]" ns clk] v by auto
    obtain vr vout out where IH: "vid_reads clk r1 cs = Some (vr, vout)"
        "ff_reads (vr_pending r1, vr_au r1) cs = Some ((vr_pending vr, vr_au vr), out)" "au_bytes out = map fr_data vout"
      using Cons.IH [of r1] by blast
    show ?thesis using False IH f p v by (simp add: vid_read_def ff_read_def extract_complete_cut c)
  qed
qed simp

lemma vid_front:
  assumes "\<forall>x\<in>set front. whole_au x"
  shows "\<exists>cur t. foldl (vid_nalu clk) (new_vid_reader\<lparr>vr_pending := p\<rparr>, []) (map nalu_of (concat front)) =
      (new_vid_reader\<lparr>vr_pending := p, vr_au := map nalu_of cur, vr_start := t, vr_calls := length front\<rparr>, au_frames clk (butlast front)) \<and>
    (if cur = [] then au_frames clk (butlast front) else au_frames clk (butlast front) @ [\<lparr>fr_data = annexb cur, fr_time = t\<rparr>])
      = au_frames clk front"
proof (cases front rule: rev_cases)
  case Nil
  then show ?thesis by (intro exI [of _ "[]"] exI [of _ 0]) (simp add: new_vid_reader_def au_frames_def)
next
  case (snoc aus a)
  moreover have "a \<noteq> []" using assms snoc by (auto simp: whole_au_def)
  ultimately show ?thesis using vid_whole_aus [of aus a clk p] assms
    by (intro exI [of _ a] exI [of _ "clk (length aus)"]) (simp add: au_frames_snoc new_vid_reader_def)
qed

lemma whole_aus_frames:
  assumes "aus \<noteq> []" "list_all whole_au aus" "list_all (\<lambda>n. n \<noteq> [] \<and> no_start_code n) (concat aus)"
    "concat cs = annexb (concat aus)"
  shows "vid_read_loop clk cs =
    Some (map (\<lambda>k. \<lparr>fr_data = annexb (aus ! k), fr_time = clk k\<rparr>) [0..<length aus - 1] @
      (if length (last aus) = 1 then []
       else [\<lparr>fr_data = annexb (butlast (last aus)), fr_time = clk (length aus - 1)\<rparr>]))"
proof -
  obtain front a where aus: "aus = front @ [a]" using assms(1) by (cases aus rule: rev_cases) auto
  have wa: "\<forall>x\<in>set (front @ [a]). whole_au x" using assms(2) by (simp add: aus list_all_iff)
  have a: "a \<noteq> []" using wa by (auto simp: whole_au_def)
  have "fst (cut_nalus (annexb (concat aus))) = map nalu_of (butlast (concat aus))"
    using a assms(3) by (intro cut_annexb) (auto simp: aus list_all_iff)
  also have "butlast (concat aus) = concat front @ butlast a" using a by (simp add: aus butlast_append)
  finally have u: "fst (cut_nalus (annexb (concat aus))) = map nalu_of (concat front) @ map nalu_of (butlast a)" by simp
  define p where "p = snd (cut_nalus (annexb (concat aus)))"
  have frames: "map (\<lambda>k. \<lparr>fr_data = annexb (aus ! k), fr_time = clk k\<rparr>) [0..<length aus - 1] = au_frames clk front"
    by (auto simp: au_frames_def aus nth_append)
  define rd where "rd = foldl (vid_nalu clk) (new_vid_reader\<lparr>vr_pending := p\<rparr>, []) (map nalu_of (concat front) @ map nalu_of (butlast a))"
  have loop: "vid_read_loop clk cs = (case rd of (r, out) \<Rightarrow>
      Some (if 0 < length (vr_au r) then out @ [send_frame (vr_au r) (vr_start r)] else out))"
    by (simp only: vid_read_loop_def vid_reads_whole assms(4) u rd_def p_def) (simp split: prod.split)
  obtain cur s where front: "foldl (vid_nalu clk) (new_vid_reader\<lparr>vr_pending := p\<rparr>, []) (map nalu_of (concat front)) =
      (new_vid_reader\<lparr>vr_pending := p, vr_au := map nalu_of cur, vr_start := s, vr_calls := length front\<rparr>, au_frames clk (butlast front))"
    and sent: "(if cur = [] then au_frames clk (butlast front) else au_frames clk (butlast front) @ [\<lparr>fr_data = annexb cur, fr_time = s\<rparr>])
      = au_frames clk front"
    using vid_front [of front clk p] wa by auto
  show ?thesis
  proof (cases "butlast a = []")
    case True
    then have "length a = 1" using a by (cases a) (auto split: if_splits)
    then show ?thesis using True front sent unfolding loop frames
      by (cases "cur = []") (simp_all add: rd_def send_frame_def frame_bytes_annexb aus)
  next
    case False
    have "rd = (new_vid_reader\<lparr>vr_pending := p, vr_au := map nalu_of (butlast a), vr_start := clk (length front),
        vr_calls := length front + 1\<rparr>, au_frames clk front)"
      using vid_partial_au [of a "butlast a" clk, where cur = cur and t = s and n = "length front"
          and r = "new_vid_reader\<lparr>vr_pending := p\<rparr>" and out = "au_frames clk (butlast front)"] wa False front sent
      by (simp add: rd_def)
    moreover have "length a \<noteq> 1" using False by (cases a) auto
    ultimately show ?thesis using False unfolding loop frames by (simp add: send_frame_def frame_bytes_annexb aus)
  qed
qed

section \<open>Properties\<close>

text \<open>The reader never panics, and the frames it sends, with their clock readings, depend only on the
  bytes of the stream, not on how the reads cut it.\<close>

theorem frames_ignore_chunking:
  "\<exists>frames. vid_read_loop clk cs = Some frames \<and> vid_read_loop clk [concat cs] = Some frames"
proof -
  have "vid_reads clk new_vid_reader [concat cs] = vid_reads clk new_vid_reader cs"
    by (simp only: vid_reads_whole concat.simps append_Nil2)
  then show ?thesis unfolding vid_read_loop_def by (simp add: vid_reads_whole)
qed

text \<open>C33: A camera stream of whole access units, cut anywhere, gives one frame per access unit, in order, with
  the k-th reading of the clock; but the last unit of the stream stays in the buffer: a final slice is
  lost and a final key frame is sent without its picture.\<close>

theorem access_units_become_frames:
  assumes "aus \<noteq> []" "list_all whole_au aus" "list_all (\<lambda>n. n \<noteq> [] \<and> no_start_code n) (concat aus)"
    "concat cs = annexb (concat aus)"
  shows "vid_read_loop clk cs =
    Some (map (\<lambda>k. \<lparr>fr_data = annexb (aus ! k), fr_time = clk k\<rparr>) [0..<length aus - 1] @
      (if length (last aus) = 1 then []
       else [\<lparr>fr_data = annexb (butlast (last aus)), fr_time = clk (length aus - 1)\<rparr>]))"
  using assms by (rule whole_aus_frames)

theorem access_units_become_frames_witness:
  "vid_read_loop (\<lambda>k. 100 + int k) [[0, 0], [0, 1, 0x41, 7, 0, 0, 0, 1, 0x67], [1, 0, 0, 0, 1, 0x68, 2, 0, 0, 0, 1, 0x65, 3]] =
    Some [\<lparr>fr_data = [0, 0, 0, 1, 0x41, 7], fr_time = 100\<rparr>,
      \<lparr>fr_data = [0, 0, 0, 1, 0x67, 1, 0, 0, 0, 1, 0x68, 2], fr_time = 101\<rparr>]"
  using access_units_become_frames [of "[[[0x41, 7]], [[0x67, 1], [0x68, 2], [0x65, 3]]]"
      "[[0, 0], [0, 1, 0x41, 7, 0, 0, 0, 1, 0x67], [1, 0, 0, 0, 1, 0x68, 2, 0, 0, 0, 1, 0x65, 3]]" "\<lambda>k. 100 + int k"]
  by (simp add: whole_au_def unit_type_def no_start_code_def sc_at_def All_less_Suc nth_Cons')

text \<open>The ffmpeg wrapper's reader, with \<open>emit\<close> behind it, delivers the same frames as the reader of
  rpicam-vid on the same bytes.\<close>

theorem ffmpeg_reader_same_frames:
  "map_option (map fr_data) (vid_read_loop clk cs) =
   map_option (map (\<lambda>au. case v4l2_emit (fst au) now of None \<Rightarrow> [] | Some f \<Rightarrow> fr_data f)) (ff_read_loop cs)"
proof -
  have emit: "(case v4l2_emit ns now of None \<Rightarrow> [] | Some f \<Rightarrow> fr_data f) = frame_bytes ns" for ns
    by (simp add: v4l2_emit_def frame_bytes_def)
  obtain vr vout out where r: "vid_reads clk new_vid_reader cs = Some (vr, vout)"
      "ff_reads ([], []) cs = Some ((vr_pending vr, vr_au vr), out)" "au_bytes out = map fr_data vout"
    using ff_reads_vid [of clk new_vid_reader cs] by (auto simp: new_vid_reader_def)
  have "map (\<lambda>au. frame_bytes (fst au)) out = map fr_data vout" using r(3) by (simp add: au_bytes_def o_def)
  then show ?thesis using r(1,2) by (simp add: vid_read_loop_def ff_read_loop_def emit send_frame_def)
qed

end
