(* ===== verification/TextUtil.thy ===== *)
theory TextUtil
  imports Prelude "HOL-Library.Sublist"
begin

text \<open>
  The functions of the packages \<open>strings\<close> and \<open>strconv\<close> that the configuration, the
  observability and the date parsers call. A string is its bytes; the white space of
  \<open>unicode.IsSpace\<close> is listed as byte sequences, which is how a scan that decodes runes meets it.
\<close>

section \<open>strings\<close>

fun split_on :: "char \<Rightarrow> string \<Rightarrow> string list" where
  "split_on c [] = [[]]"
| "split_on c (x # xs) = (if x = c then [] # split_on c xs else (x # hd (split_on c xs)) # tl (split_on c xs))"

definition chr :: "nat \<Rightarrow> char" where
  "chr n = char_of n"

definition spaces :: "string list" where
  "spaces =
     [[CHR 0x09], [CHR 0x0A], [CHR 0x0B], [CHR 0x0C], [CHR 0x0D], '' '', [CHR 0xC2, CHR 0x85], [CHR 0xC2, CHR 0xA0],
      [CHR 0xE1, CHR 0x9A, CHR 0x80], [CHR 0xE2, CHR 0x80, CHR 0xA8], [CHR 0xE2, CHR 0x80, CHR 0xA9],
      [CHR 0xE2, CHR 0x80, CHR 0xAF], [CHR 0xE2, CHR 0x81, CHR 0x9F], [CHR 0xE3, CHR 0x80, CHR 0x80],
      [CHR 0xE2, CHR 0x80, CHR 0x80], [CHR 0xE2, CHR 0x80, CHR 0x81], [CHR 0xE2, CHR 0x80, CHR 0x82],
      [CHR 0xE2, CHR 0x80, CHR 0x83], [CHR 0xE2, CHR 0x80, CHR 0x84], [CHR 0xE2, CHR 0x80, CHR 0x85],
      [CHR 0xE2, CHR 0x80, CHR 0x86], [CHR 0xE2, CHR 0x80, CHR 0x87], [CHR 0xE2, CHR 0x80, CHR 0x88],
      [CHR 0xE2, CHR 0x80, CHR 0x89], [CHR 0xE2, CHR 0x80, CHR 0x8A]]"

lemma spaces_nonempty: "sp \<in> set spaces \<Longrightarrow> sp \<noteq> []"
  by (auto simp: spaces_def)

text \<open>The white space a string starts with, empty when there is none.\<close>

definition leading_space :: "string \<Rightarrow> string" where
  "leading_space s = (case find (\<lambda>sp. prefix sp s) spaces of None \<Rightarrow> [] | Some sp \<Rightarrow> sp)"

definition trailing_space :: "string \<Rightarrow> string" where
  "trailing_space s = (case find (\<lambda>sp. suffix sp s) spaces of None \<Rightarrow> [] | Some sp \<Rightarrow> sp)"

function trim_left :: "string \<Rightarrow> string" where
  "trim_left s = (if leading_space s = [] then s else trim_left (drop (length (leading_space s)) s))"
  by pat_completeness auto

lemma leading_space_prefix: "prefix (leading_space s) s"
  by (auto simp: leading_space_def find_Some_iff split: option.splits)

lemma trailing_space_suffix: "suffix (trailing_space s) s"
  by (auto simp: trailing_space_def find_Some_iff split: option.splits)

termination trim_left
proof (relation "measure length", simp)
  fix s assume "leading_space s \<noteq> []"
  then have "s \<noteq> []" using leading_space_prefix [of s] by auto
  then show "(drop (length (leading_space s)) s, s) \<in> measure length" using \<open>leading_space s \<noteq> []\<close> by simp
qed

function trim_right :: "string \<Rightarrow> string" where
  "trim_right s = (if trailing_space s = [] then s else trim_right (take (length s - length (trailing_space s)) s))"
  by pat_completeness auto

termination trim_right
proof (relation "measure length", simp)
  fix s assume "trailing_space s \<noteq> []"
  then have "s \<noteq> []" using trailing_space_suffix [of s] by auto
  then show "(take (length s - length (trailing_space s)) s, s) \<in> measure length"
    using \<open>trailing_space s \<noteq> []\<close> by simp
qed

declare trim_left.simps [simp del] trim_right.simps [simp del]

definition trim_space :: "string \<Rightarrow> string" where
  "trim_space s = trim_right (trim_left s)"

function fields_from :: "string \<Rightarrow> string \<Rightarrow> string list" where
  "fields_from s cur =
     (if s = [] then (if cur = [] then [] else [cur])
      else if leading_space s = [] then fields_from (tl s) (cur @ [hd s])
      else (if cur = [] then [] else [cur]) @ fields_from (drop (length (leading_space s)) s) [])"
  by pat_completeness auto

termination fields_from
  by (relation "measure (\<lambda>(s, cur). length s)") auto

declare fields_from.simps [simp del]

definition fields :: "string \<Rightarrow> string list" where
  "fields s = fields_from s []"

text \<open>\<open>strings.Cut\<close> at the first occurrence of a character, and \<open>SplitN\<close> into two.\<close>

definition cut :: "char \<Rightarrow> string \<Rightarrow> string \<times> string \<times> bool" where
  "cut c s = (if c \<in> set s then (takeWhile (\<lambda>x. x \<noteq> c) s, tl (dropWhile (\<lambda>x. x \<noteq> c) s), True) else (s, [], False))"

definition split_n2 :: "char \<Rightarrow> string \<Rightarrow> string list" where
  "split_n2 c s = (case cut c s of (a, b, found) \<Rightarrow> if found then [a, b] else [a])"

definition contains :: "string \<Rightarrow> string \<Rightarrow> bool" where
  "contains s sub \<longleftrightarrow> list_ex (\<lambda>i. prefix sub (drop i s)) [0..<Suc (length s)]"

text \<open>\<open>strings.ToLower\<close> on ASCII letters; the callers compare the result with ASCII words.\<close>

definition lower_char :: "char \<Rightarrow> char" where
  "lower_char c = (let n = of_char c :: nat in if 65 \<le> n \<and> n \<le> 90 then chr (n + 32) else c)"

definition to_lower :: "string \<Rightarrow> string" where
  "to_lower s = map lower_char s"

section \<open>strconv\<close>

definition atoi :: "string \<Rightarrow> int option" where
  "atoi s =
     (let neg = (take 1 s = ''-''); ds = (if take 1 s = ''-'' \<or> take 1 s = ''+'' then tl s else s) in
      if ds = [] then None
      else case digits_value 0 ds of
             None \<Rightarrow> None
           | Some n \<Rightarrow>
               let v = (if neg then - int n else int n) in
               if - (2 ^ 63) \<le> v \<and> v < 2 ^ 63 then Some v else None)"

definition parse_bool :: "string \<Rightarrow> bool option" where
  "parse_bool s =
     (if s \<in> set [''1'', ''t'', ''T'', ''true'', ''TRUE'', ''True''] then Some True
      else if s \<in> set [''0'', ''f'', ''F'', ''false'', ''FALSE'', ''False''] then Some False
      else None)"

lemma split_on_nonempty [simp]: "split_on c s \<noteq> []"
  by (cases s) auto

lemma split_on_absent: "c \<notin> set s \<Longrightarrow> split_on c s = [s]"
  by (induction s) auto

lemma split_on_append: "c \<notin> set s \<Longrightarrow> split_on c (s @ c # t) = s # split_on c t"
  by (induction s) auto

lemma atoi_decimal: "n < 2 ^ 63 \<Longrightarrow> atoi (decimal n) = Some (int n)"
proof -
  assume n: "n < 2 ^ 63"
  have hd: "\<exists>d<10. hd (decimal m) = digit d" for m
  proof (induction m rule: decimal.induct)
    case (1 m)
    then show ?case by (cases "m < 10") (auto simp: decimal.simps [of m] hd_append)
  qed
  have "digit d \<noteq> CHR ''-'' \<and> digit d \<noteq> CHR ''+''" if "d < 10" for d
    using that digit_value_digit [OF that] by (auto simp: digit_value_def)
  then have "take 1 (decimal n) \<noteq> ''-'' \<and> take 1 (decimal n) \<noteq> ''+''"
    using hd [of n] by (cases "decimal n") auto
  then show ?thesis using n by (simp add: atoi_def digits_value_decimal)
qed

end
