(* ===== verification/CamParams.thy ===== *)
theory CamParams
  imports Ieee Base64 TextUtil CamPipe
begin

text \<open>
  The camera's parameters: the struct (\<open>internal/camera/params.go\<close>), access by field name with dynamic
  values (\<open>params_reflect.go\<close>), the wire format of the camera process (\<open>params_serialize.go\<close>), the
  user-facing names (\<open>mapParamName\<close> of \<open>camera.go\<close>), \<open>SetParam\<close> and \<open>GetParam\<close> of the four sources, and
  the manager that checks ranges in front of them (\<open>manager.go\<close>). The interface \<open>param_camera\<close> is what
  the manager may expect of a source.
\<close>

section \<open>The parameters\<close>

record params =
  pa_log_level :: string
  pa_camera_id :: "32 word"
  pa_width :: "32 word"
  pa_height :: "32 word"
  pa_h_flip :: bool
  pa_v_flip :: bool
  pa_brightness :: float32
  pa_contrast :: float32
  pa_saturation :: float32
  pa_sharpness :: float32
  pa_exposure :: string
  pa_awb :: string
  pa_awb_gain_red :: float32
  pa_awb_gain_blue :: float32
  pa_denoise :: string
  pa_shutter :: "32 word"
  pa_metering :: string
  pa_gain :: float32
  pa_ev :: float32
  pa_roi :: string
  pa_hdr :: bool
  pa_tuning_file :: string
  pa_mode :: string
  pa_fps :: float32
  pa_af_mode :: string
  pa_af_range :: string
  pa_af_speed :: string
  pa_lens_position :: float32
  pa_af_window :: string
  pa_flicker_period :: "32 word"
  pa_text_overlay_enable :: bool
  pa_text_overlay :: string
  pa_codec :: string
  pa_idr_period :: "32 word"
  pa_bitrate :: "32 word"
  pa_profile :: string
  pa_level :: string

definition default_params :: params where
  "default_params = \<lparr>
   pa_log_level = ''info'', pa_camera_id = 0, pa_width = 1280, pa_height = 720, pa_h_flip = False,
   pa_v_flip = False, pa_brightness = 0, pa_contrast = 0x3F800000, pa_saturation = 0x3F800000,
   pa_sharpness = 0x3F800000, pa_exposure = ''normal'', pa_awb = ''auto'', pa_awb_gain_red = 0,
   pa_awb_gain_blue = 0, pa_denoise = ''auto'', pa_shutter = 0, pa_metering = ''centre'',
   pa_gain = 0, pa_ev = 0, pa_roi = '''', pa_hdr = False, pa_tuning_file = '''', pa_mode = '''',
   pa_fps = 0x41700000, pa_af_mode = '''', pa_af_range = '''', pa_af_speed = '''',
   pa_lens_position = 0, pa_af_window = '''', pa_flicker_period = 0,
   pa_text_overlay_enable = False, pa_text_overlay = '''', pa_codec = ''hardwareH264'',
   pa_idr_period = 60, pa_bitrate = 2000000, pa_profile = ''main'', pa_level = ''4.1''\<rparr>"

text \<open>
  What an \<open>interface{}\<close> value holds, by its dynamic type; \<open>VOther\<close> is every type the code has no case
  for. \<open>conv\<close> collects what is not determined by the language: conversions of floats that do not fit an
  unsigned integer, and the decimal text of floating-point numbers.
\<close>

datatype param_value =
    VBool bool | VInt int | VInt32 int | VInt64 int | VUint32 "32 word" | VUint64 "64 word"
  | VF32 float32 | VF64 float64 | VStr string | VOther

record conv =
  cv_u64 :: "float64 \<Rightarrow> 64 word"
  cv_parse32 :: "string \<Rightarrow> float32 option"
  cv_format :: "float64 \<Rightarrow> string"

datatype param_error =
    UnknownField | UnknownParameter | NegativeValue | BadSyntax | WrongType
  | NotStarted | PipeWriteFailed | OutOfRange | NotAllowed

text \<open>A field of the struct, as reflection sees it: its kind and how it is read and set.\<close>

datatype param_field =
    FU32 "params \<Rightarrow> 32 word" "(32 word \<Rightarrow> 32 word) \<Rightarrow> params \<Rightarrow> params"
  | FF32 "params \<Rightarrow> float32" "(float32 \<Rightarrow> float32) \<Rightarrow> params \<Rightarrow> params"
  | FStr "params \<Rightarrow> string" "(string \<Rightarrow> string) \<Rightarrow> params \<Rightarrow> params"
  | FBool "params \<Rightarrow> bool" "(bool \<Rightarrow> bool) \<Rightarrow> params \<Rightarrow> params"

definition param_fields :: "(string \<times> param_field) list" where
  "param_fields = [
     (''LogLevel'', FStr pa_log_level pa_log_level_update),
     (''CameraID'', FU32 pa_camera_id pa_camera_id_update),
     (''Width'', FU32 pa_width pa_width_update),
     (''Height'', FU32 pa_height pa_height_update),
     (''HFlip'', FBool pa_h_flip pa_h_flip_update),
     (''VFlip'', FBool pa_v_flip pa_v_flip_update),
     (''Brightness'', FF32 pa_brightness pa_brightness_update),
     (''Contrast'', FF32 pa_contrast pa_contrast_update),
     (''Saturation'', FF32 pa_saturation pa_saturation_update),
     (''Sharpness'', FF32 pa_sharpness pa_sharpness_update),
     (''Exposure'', FStr pa_exposure pa_exposure_update),
     (''AWB'', FStr pa_awb pa_awb_update),
     (''AWBGainRed'', FF32 pa_awb_gain_red pa_awb_gain_red_update),
     (''AWBGainBlue'', FF32 pa_awb_gain_blue pa_awb_gain_blue_update),
     (''Denoise'', FStr pa_denoise pa_denoise_update),
     (''Shutter'', FU32 pa_shutter pa_shutter_update),
     (''Metering'', FStr pa_metering pa_metering_update),
     (''Gain'', FF32 pa_gain pa_gain_update),
     (''EV'', FF32 pa_ev pa_ev_update),
     (''ROI'', FStr pa_roi pa_roi_update),
     (''HDR'', FBool pa_hdr pa_hdr_update),
     (''TuningFile'', FStr pa_tuning_file pa_tuning_file_update),
     (''Mode'', FStr pa_mode pa_mode_update),
     (''FPS'', FF32 pa_fps pa_fps_update),
     (''AfMode'', FStr pa_af_mode pa_af_mode_update),
     (''AfRange'', FStr pa_af_range pa_af_range_update),
     (''AfSpeed'', FStr pa_af_speed pa_af_speed_update),
     (''LensPosition'', FF32 pa_lens_position pa_lens_position_update),
     (''AfWindow'', FStr pa_af_window pa_af_window_update),
     (''FlickerPeriod'', FU32 pa_flicker_period pa_flicker_period_update),
     (''TextOverlayEnable'', FBool pa_text_overlay_enable pa_text_overlay_enable_update),
     (''TextOverlay'', FStr pa_text_overlay pa_text_overlay_update),
     (''Codec'', FStr pa_codec pa_codec_update),
     (''IDRPeriod'', FU32 pa_idr_period pa_idr_period_update),
     (''Bitrate'', FU32 pa_bitrate pa_bitrate_update),
     (''Profile'', FStr pa_profile pa_profile_update),
     (''Level'', FStr pa_level pa_level_update)]"

section \<open>Access by name\<close>

text \<open>\<open>SetUint\<close> on a \<open>uint32\<close> field keeps the low 32 bits; \<open>SetFloat\<close> on a \<open>float32\<close> field rounds.\<close>

definition u32_value :: "conv \<Rightarrow> param_value \<Rightarrow> param_error + 32 word" where
  "u32_value cv v =
     (case v of
        VUint32 x \<Rightarrow> Inr x
      | VInt n \<Rightarrow> if n < 0 then Inl NegativeValue else Inr (ucast (word_of_int n :: 64 word))
      | VF64 x \<Rightarrow> Inr (ucast (f64_to_u64 (cv_u64 cv) x))
      | VStr s \<Rightarrow> (case parse_uint 32 s of None \<Rightarrow> Inl BadSyntax | Some n \<Rightarrow> Inr (of_nat n))
      | _ \<Rightarrow> Inl WrongType)"

definition f32_value :: "conv \<Rightarrow> param_value \<Rightarrow> param_error + float32" where
  "f32_value cv v =
     (case v of
        VF32 x \<Rightarrow> Inr (f32_of_f64 (f64_of_f32 x))
      | VF64 x \<Rightarrow> Inr (f32_of_f64 x)
      | VInt n \<Rightarrow> Inr (f32_of_f64 (f64_of_int n))
      | VStr s \<Rightarrow> (case cv_parse32 cv s of None \<Rightarrow> Inl BadSyntax | Some x \<Rightarrow> Inr x)
      | _ \<Rightarrow> Inl WrongType)"

definition str_value :: "param_value \<Rightarrow> param_error + string" where
  "str_value v = (case v of VStr s \<Rightarrow> Inr s | _ \<Rightarrow> Inl WrongType)"

definition bool_value :: "param_value \<Rightarrow> param_error + bool" where
  "bool_value v =
     (case v of
        VBool b \<Rightarrow> Inr b
      | VInt n \<Rightarrow> Inr (n \<noteq> 0)
      | VF64 x \<Rightarrow> Inr (\<not> f64_eq x 0)
      | VStr s \<Rightarrow> (case parse_bool s of None \<Rightarrow> Inl BadSyntax | Some b \<Rightarrow> Inr b)
      | _ \<Rightarrow> Inl WrongType)"

definition set_field :: "conv \<Rightarrow> param_field \<Rightarrow> param_value \<Rightarrow> params \<Rightarrow> param_error + params" where
  "set_field cv f v p =
     (case f of
        FU32 get upd \<Rightarrow> map_sum id (\<lambda>x. upd (\<lambda>_. x) p) (u32_value cv v)
      | FF32 get upd \<Rightarrow> map_sum id (\<lambda>x. upd (\<lambda>_. x) p) (f32_value cv v)
      | FStr get upd \<Rightarrow> map_sum id (\<lambda>x. upd (\<lambda>_. x) p) (str_value v)
      | FBool get upd \<Rightarrow> map_sum id (\<lambda>x. upd (\<lambda>_. x) p) (bool_value v))"

definition set_param_value :: "conv \<Rightarrow> string \<Rightarrow> param_value \<Rightarrow> params \<Rightarrow> param_error + params" where
  "set_param_value cv name v p =
     (case map_of param_fields name of None \<Rightarrow> Inl UnknownField | Some f \<Rightarrow> set_field cv f v p)"

text \<open>\<open>fv.Uint()\<close> has type \<open>uint64\<close>.\<close>

definition get_field :: "param_field \<Rightarrow> params \<Rightarrow> param_value" where
  "get_field f p =
     (case f of
        FU32 get upd \<Rightarrow> VUint64 (ucast (get p))
      | FF32 get upd \<Rightarrow> VF32 (f32_of_f64 (f64_of_f32 (get p)))
      | FStr get upd \<Rightarrow> VStr (get p)
      | FBool get upd \<Rightarrow> VBool (get p))"

definition get_param_value :: "params \<Rightarrow> string \<Rightarrow> param_error + param_value" where
  "get_param_value p name =
     (case map_of param_fields name of None \<Rightarrow> Inl UnknownField | Some f \<Rightarrow> Inr (get_field f p))"

section \<open>The wire format\<close>

definition wire_value :: "conv \<Rightarrow> param_field \<Rightarrow> params \<Rightarrow> string" where
  "wire_value cv f p =
     (case f of
        FU32 get upd \<Rightarrow> decimal (unat (get p))
      | FF32 get upd \<Rightarrow> cv_format cv (f64_of_f32 (get p))
      | FStr get upd \<Rightarrow> b64_encode (get p)
      | FBool get upd \<Rightarrow> if get p then ''1'' else ''0'')"

fun join_on :: "char \<Rightarrow> string list \<Rightarrow> string" where
  "join_on c [] = []"
| "join_on c [s] = s"
| "join_on c (s # ss) = s @ c # join_on c ss"

definition serialize :: "conv \<Rightarrow> params \<Rightarrow> string" where
  "serialize cv p = join_on CHR '' '' (map (\<lambda>(name, f). name @ CHR '':'' # wire_value cv f p) param_fields)"

definition serialize_command :: "conv \<Rightarrow> params \<Rightarrow> bytes" where
  "serialize_command cv p = str_bytes (CHR ''c'' # serialize cv p)"

definition serialize_quit :: bytes where
  "serialize_quit = str_bytes ''e''"

definition deserialize_param_value :: "string \<Rightarrow> string option" where
  "deserialize_param_value s = b64_decode s"

section \<open>User-facing names\<close>

definition param_names :: "(string \<times> string) list" where
  "param_names = [
     (''brightness'', ''Brightness''), (''contrast'', ''Contrast''),
     (''saturation'', ''Saturation''), (''sharpness'', ''Sharpness''), (''width'', ''Width''),
     (''height'', ''Height''), (''fps'', ''FPS''), (''exposure'', ''Exposure''),
     (''exposureMode'', ''Exposure''), (''gain'', ''Gain''), (''awbMode'', ''AWB''),
     (''hFlip'', ''HFlip''), (''vFlip'', ''VFlip''), (''shutter'', ''Shutter''),
     (''denoise'', ''Denoise''), (''ev'', ''EV''), (''bitrate'', ''Bitrate''),
     (''idrPeriod'', ''IDRPeriod''), (''metering'', ''Metering''), (''mode'', ''Mode''),
     (''hdr'', ''HDR''), (''awbGainRed'', ''AWBGainRed''), (''awbGainBlue'', ''AWBGainBlue''),
     (''codec'', ''Codec''), (''cameraID'', ''CameraID'')]"

definition map_param_name :: "string \<Rightarrow> string option" where
  "map_param_name name = map_of param_names name"

section \<open>The sources\<close>

text \<open>The part the sources share: the parameters and the resolution and rate they report.\<close>

record cam_base =
  cb_params :: params
  cb_width :: "32 word"
  cb_height :: "32 word"
  cb_fps :: float32

text \<open>\<open>RPiCamera\<close>: \<open>rpi_pipe\<close> is the bytes written to the configuration pipe and the room left in it.\<close>

record rpi_cam = cam_base +
  rpi_started :: bool
  rpi_stopped :: bool
  rpi_pipe :: "(bytes \<times> nat) option"

record vid_cam = cam_base +
  vid_started :: bool
  vid_stopped :: bool
  vid_yuv_mode :: bool
  vid_flip_h :: bool
  vid_flip_v :: bool

record v4l2_cam =
  v4_params :: params
  v4_mem :: "string \<Rightarrow> param_value option"
  v4_flip_h :: bool
  v4_flip_v :: bool

text \<open>\<open>RTSPSource.SetParam\<close>, which is also the body of the other two after their guards.\<close>

definition base_set_param :: "conv \<Rightarrow> string \<Rightarrow> param_value \<Rightarrow> 'a cam_base_scheme \<Rightarrow> param_error option \<times> 'a cam_base_scheme" where
  "base_set_param cv name v c =
     (case map_param_name name of
        None \<Rightarrow> (Some UnknownParameter, c)
      | Some field \<Rightarrow>
          (case set_param_value cv field v (cb_params c) of
             Inl e \<Rightarrow> (Some e, c)
           | Inr p \<Rightarrow> (None, c\<lparr>cb_params := p, cb_width := pa_width p, cb_height := pa_height p, cb_fps := pa_fps p\<rparr>)))"

definition base_get_param :: "string \<Rightarrow> 'a cam_base_scheme \<Rightarrow> param_error + param_value" where
  "base_get_param name c =
     (case map_param_name name of None \<Rightarrow> Inl UnknownParameter | Some field \<Rightarrow> get_param_value (cb_params c) field)"

definition rpi_set_param :: "conv \<Rightarrow> string \<Rightarrow> param_value \<Rightarrow> rpi_cam \<Rightarrow> param_error option \<times> rpi_cam" where
  "rpi_set_param cv name v c =
     (if \<not> rpi_started c \<or> rpi_stopped c then (Some NotStarted, c)
      else case base_set_param cv name v c of
             (Some e, c1) \<Rightarrow> (Some e, c1)
           | (None, c1) \<Rightarrow>
               (case rpi_pipe c1 of
                  None \<Rightarrow> (None, c1)
                | Some w \<Rightarrow>
                    (case pipe_write (serialize_command cv (cb_params c1)) w of
                       (ok, w') \<Rightarrow> (if ok then None else Some PipeWriteFailed, c1\<lparr>rpi_pipe := Some w'\<rparr>))))"

definition vid_set_param :: "conv \<Rightarrow> string \<Rightarrow> param_value \<Rightarrow> vid_cam \<Rightarrow> param_error option \<times> vid_cam" where
  "vid_set_param cv name v c =
     (let c1 = (case v of
                  VBool b \<Rightarrow>
                    if \<not> vid_yuv_mode c then c
                    else if name = ''hFlip'' \<or> name = ''HFlip'' then c\<lparr>vid_flip_h := b\<rparr>
                    else if name = ''vFlip'' \<or> name = ''VFlip'' then c\<lparr>vid_flip_v := b\<rparr>
                    else c
                | _ \<Rightarrow> c) in
      if \<not> vid_started c1 \<or> vid_stopped c1 then (Some NotStarted, c1) else base_set_param cv name v c1)"

definition v4l2_set_param :: "string \<Rightarrow> param_value \<Rightarrow> v4l2_cam \<Rightarrow> param_error option \<times> v4l2_cam" where
  "v4l2_set_param name v c =
     (let c1 = c\<lparr>v4_mem := (v4_mem c)(name \<mapsto> v)\<rparr> in
      (None, case v of
               VBool b \<Rightarrow>
                 if name = ''hFlip'' \<or> name = ''HFlip'' then c1\<lparr>v4_flip_h := b\<rparr>
                 else if name = ''vFlip'' \<or> name = ''VFlip'' then c1\<lparr>v4_flip_v := b\<rparr>
                 else c1
             | _ \<Rightarrow> c1))"

definition v4l2_get_param :: "string \<Rightarrow> v4l2_cam \<Rightarrow> param_error + param_value" where
  "v4l2_get_param name c = (case v4_mem c name of Some v \<Rightarrow> Inr v | None \<Rightarrow> get_param_value (v4_params c) name)"

section \<open>The manager\<close>

record value_range =
  rg_min :: float64
  rg_max :: float64
  rg_default :: float64

definition param_ranges :: "(string \<times> value_range) list" where
  "param_ranges = [
     (''Brightness'', \<lparr>rg_min = 0xbff0000000000000, rg_max = 0x3ff0000000000000, rg_default = 0\<rparr>),
     (''Contrast'', \<lparr>rg_min = 0, rg_max = 0x4040000000000000, rg_default = 0x3ff0000000000000\<rparr>),
     (''Saturation'', \<lparr>rg_min = 0, rg_max = 0x4040000000000000, rg_default = 0x3ff0000000000000\<rparr>),
     (''Sharpness'', \<lparr>rg_min = 0, rg_max = 0x4030000000000000, rg_default = 0x3ff0000000000000\<rparr>),
     (''ExposureTime'', \<lparr>rg_min = 0, rg_max = 0x412e848000000000, rg_default = 0\<rparr>),
     (''Gain'', \<lparr>rg_min = 0x3ff0000000000000, rg_max = 0x4030000000000000, rg_default = 0x3ff0000000000000\<rparr>),
     (''Width'', \<lparr>rg_min = 0x4050000000000000, rg_max = 0x40a4400000000000, rg_default = 0x4094000000000000\<rparr>),
     (''Height'', \<lparr>rg_min = 0x4050000000000000, rg_max = 0x409e600000000000, rg_default = 0x4086800000000000\<rparr>),
     (''FPS'', \<lparr>rg_min = 0x3ff0000000000000, rg_max = 0x403e000000000000, rg_default = 0x402e000000000000\<rparr>),
     (''HFlip'', \<lparr>rg_min = 0, rg_max = 0x3ff0000000000000, rg_default = 0\<rparr>),
     (''VFlip'', \<lparr>rg_min = 0, rg_max = 0x3ff0000000000000, rg_default = 0\<rparr>)]"

definition param_enums :: "(string \<times> string list) list" where
  "param_enums = [
     (''AWBMode'', [''auto'', ''incandescent'', ''tungsten'', ''fluorescent'', ''daylight'', ''cloudy'', ''custom'']),
     (''ExposureMode'', [''normal'', ''sport'', ''short'', ''long'', ''custom''])]"

definition onvif_to_cam :: "(string \<times> string) list" where
  "onvif_to_cam = [
     (''Brightness'', ''brightness''), (''Contrast'', ''contrast''), (''Saturation'', ''saturation''),
     (''Sharpness'', ''sharpness''), (''ExposureTime'', ''shutter''), (''Gain'', ''gain''), (''Width'', ''width''),
     (''Height'', ''height''), (''FPS'', ''fps''), (''HFlip'', ''hFlip''), (''VFlip'', ''vFlip''),
     (''AWBMode'', ''awbMode''), (''ExposureMode'', ''exposureMode'')]"

definition to_float64 :: "param_value \<Rightarrow> float64 option" where
  "to_float64 v =
     (case v of
        VBool b \<Rightarrow> Some (if b then 0x3FF0000000000000 else 0)
      | VF32 x \<Rightarrow> Some (f64_of_f32 x)
      | VF64 x \<Rightarrow> Some x
      | VInt n \<Rightarrow> Some (f64_of_int n)
      | VInt32 n \<Rightarrow> Some (f64_of_int n)
      | VInt64 n \<Rightarrow> Some (f64_of_int n)
      | VUint32 n \<Rightarrow> Some (f64_of_int (uint n))
      | VUint64 n \<Rightarrow> Some (f64_of_int (uint n))
      | _ \<Rightarrow> None)"

text \<open>\<open>None\<close> when the value may be applied.\<close>

definition manager_validate :: "string \<Rightarrow> param_value \<Rightarrow> param_error option" where
  "manager_validate name v =
     (case map_of param_enums name of
        Some allowed \<Rightarrow>
          (case v of VStr s \<Rightarrow> if s \<in> set allowed then None else Some NotAllowed | _ \<Rightarrow> Some WrongType)
      | None \<Rightarrow>
          (case map_of param_ranges name of
             None \<Rightarrow> Some UnknownParameter
           | Some r \<Rightarrow>
               (case to_float64 v of
                  None \<Rightarrow> Some WrongType
                | Some x \<Rightarrow> if f64_less x (rg_min r) \<or> f64_less (rg_max r) x then Some OutOfRange else None)))"

text \<open>The wrapped camera, whether a callback is registered, and the calls it got.\<close>

record 'c param_manager =
  pm_cam :: 'c
  pm_on_change :: bool
  pm_calls :: "(string \<times> param_value) list"

definition new_param_manager :: "'c \<Rightarrow> 'c param_manager" where
  "new_param_manager cam = \<lparr>pm_cam = cam, pm_on_change = False, pm_calls = []\<rparr>"

definition set_on_change :: "bool \<Rightarrow> 'c param_manager \<Rightarrow> 'c param_manager" where
  "set_on_change fn pm = pm\<lparr>pm_on_change := fn\<rparr>"

definition manager_set ::
  "(string \<Rightarrow> param_value \<Rightarrow> 'c \<Rightarrow> param_error option \<times> 'c) \<Rightarrow> string \<Rightarrow> param_value \<Rightarrow> 'c param_manager \<Rightarrow>
   param_error option \<times> 'c param_manager" where
  "manager_set set_p name v pm =
     (case manager_validate name v of
        Some e \<Rightarrow> (Some e, pm)
      | None \<Rightarrow>
          (case map_of onvif_to_cam name of
             None \<Rightarrow> (Some UnknownParameter, pm)
           | Some cam_name \<Rightarrow>
               (case set_p cam_name v (pm_cam pm) of
                  (Some e, c) \<Rightarrow> (Some e, pm\<lparr>pm_cam := c\<rparr>)
                | (None, c) \<Rightarrow>
                    (None, pm\<lparr>pm_cam := c, pm_calls := if pm_on_change pm then pm_calls pm @ [(name, v)] else pm_calls pm\<rparr>))))"

definition manager_get :: "(string \<Rightarrow> 'c \<Rightarrow> param_error + param_value) \<Rightarrow> string \<Rightarrow> 'c param_manager \<Rightarrow> param_error + param_value" where
  "manager_get get_p name pm =
     (case map_of onvif_to_cam name of None \<Rightarrow> Inl UnknownParameter | Some cam_name \<Rightarrow> get_p cam_name (pm_cam pm))"

section \<open>Fields are independent\<close>

definition field_lawful :: "param_field \<Rightarrow> bool" where
  "field_lawful f = (case f of
       FU32 get upd \<Rightarrow> \<forall>x p. get (upd (\<lambda>_. x) p) = x
     | FF32 get upd \<Rightarrow> \<forall>x p. get (upd (\<lambda>_. x) p) = x
     | FStr get upd \<Rightarrow> \<forall>x p. get (upd (\<lambda>_. x) p) = x
     | FBool get upd \<Rightarrow> \<forall>x p. get (upd (\<lambda>_. x) p) = x)"

lemma fields_lawful: "list_all (\<lambda>(n, f). field_lawful f) param_fields"
  by (simp add: param_fields_def field_lawful_def)

definition field_step :: "param_field \<Rightarrow> params \<Rightarrow> params \<Rightarrow> bool" where
  "field_step f p p' = (case f of
       FU32 get upd \<Rightarrow> \<exists>x. p' = upd (\<lambda>_. x) p
     | FF32 get upd \<Rightarrow> \<exists>x. p' = upd (\<lambda>_. x) p
     | FStr get upd \<Rightarrow> \<exists>x. p' = upd (\<lambda>_. x) p
     | FBool get upd \<Rightarrow> \<exists>x. p' = upd (\<lambda>_. x) p)"

lemma set_field_step: "set_field cv f v p = Inr p' \<Longrightarrow> field_step f p p'"
  by (cases f; cases "u32_value cv v"; cases "f32_value cv v"; cases "str_value v"; cases "bool_value v")
    (auto simp: set_field_def field_step_def)

text \<open>The fields behind the names of the manager.\<close>

definition managed_fields :: "(string \<times> param_field) list" where
  "managed_fields = map (\<lambda>(n, c). (c, the (map_of param_fields (the (map_param_name c))))) onvif_to_cam"

lemma managed_fields_eq:
  "managed_fields = [
     (''brightness'', FF32 pa_brightness pa_brightness_update), (''contrast'', FF32 pa_contrast pa_contrast_update),
     (''saturation'', FF32 pa_saturation pa_saturation_update), (''sharpness'', FF32 pa_sharpness pa_sharpness_update),
     (''shutter'', FU32 pa_shutter pa_shutter_update), (''gain'', FF32 pa_gain pa_gain_update),
     (''width'', FU32 pa_width pa_width_update), (''height'', FU32 pa_height pa_height_update),
     (''fps'', FF32 pa_fps pa_fps_update), (''hFlip'', FBool pa_h_flip pa_h_flip_update),
     (''vFlip'', FBool pa_v_flip pa_v_flip_update), (''awbMode'', FStr pa_awb pa_awb_update),
     (''exposureMode'', FStr pa_exposure pa_exposure_update)]"
  by (simp add: managed_fields_def onvif_to_cam_def map_param_name_def param_names_def param_fields_def)

lemma managed_apart:
  "list_all (\<lambda>(n, f). list_all (\<lambda>(m, g). m = n \<or> (\<forall>p p'. field_step f p p' \<longrightarrow> get_field g p' = get_field g p))
     managed_fields) managed_fields"
  unfolding managed_fields_eq by (auto simp: field_step_def get_field_def)

definition managed_names :: "string set" where
  "managed_names = set (map snd onvif_to_cam)"

lemma managed_field:
  assumes "n \<in> managed_names"
  shows "\<exists>field f. map_param_name n = Some field \<and> map_of param_fields field = Some f \<and> (n, f) \<in> set managed_fields \<and>
    map_of managed_fields n = Some f \<and> field_lawful f"
proof -
  have "list_all (\<lambda>n. case map_param_name n of None \<Rightarrow> False | Some field \<Rightarrow>
      (case map_of param_fields field of None \<Rightarrow> False | Some f \<Rightarrow>
        (n, f) \<in> set managed_fields \<and> map_of managed_fields n = Some f \<and> field_lawful f)) (map snd onvif_to_cam)"
    unfolding managed_fields_eq
    by (simp add: onvif_to_cam_def map_param_name_def param_names_def param_fields_def field_lawful_def)
  from bspec [OF this [unfolded list_all_iff] assms [unfolded managed_names_def]] show ?thesis
    by (auto split: option.splits)
qed

text \<open>What is read back after a value has been set: the value in the kind of its field.\<close>

definition stored_value :: "conv \<Rightarrow> string \<Rightarrow> param_value \<Rightarrow> param_value" where
  "stored_value cv n v =
     (case map_of managed_fields n of
        None \<Rightarrow> v
      | Some f \<Rightarrow> (case set_field cv f v default_params of Inl e \<Rightarrow> v | Inr p \<Rightarrow> get_field f p))"

lemma get_set_field:
  assumes "field_lawful f" "set_field cv f v p = Inr p'"
  shows "\<exists>q. set_field cv f v p0 = Inr q \<and> get_field f q = get_field f p'"
  using assms by (cases f; cases "u32_value cv v"; cases "f32_value cv v"; cases "str_value v"; cases "bool_value v")
    (auto simp: set_field_def get_field_def field_lawful_def)

lemma base_get_managed:
  assumes "n \<in> managed_names" "map_of managed_fields n = Some f"
  shows "base_get_param n c = Inr (get_field f (cb_params c))"
  using managed_field [OF assms(1)] assms(2) by (auto simp: base_get_param_def get_param_value_def)

lemma base_set_managed:
  assumes "n \<in> managed_names" "map_of managed_fields n = Some f" "base_set_param cv n v c = (r, c')"
  shows "case r of Some e \<Rightarrow> c' = c | None \<Rightarrow> set_field cv f v (cb_params c) = Inr (cb_params c')"
  using managed_field [OF assms(1)] assms(2,3)
  by (auto simp: base_set_param_def set_param_value_def split: sum.splits)

section \<open>Interface: a camera with parameters\<close>

locale param_camera =
  fixes set_p :: "string \<Rightarrow> param_value \<Rightarrow> 'c \<Rightarrow> param_error option \<times> 'c"
    and get_p :: "string \<Rightarrow> 'c \<Rightarrow> param_error + param_value"
    and stored :: "string \<Rightarrow> param_value \<Rightarrow> param_value"
  assumes set_get: "n \<in> managed_names \<Longrightarrow> set_p n v c = (None, c') \<Longrightarrow> get_p n c' = Inr (stored n v)"
    and set_other: "n \<in> managed_names \<Longrightarrow> m \<in> managed_names \<Longrightarrow> m \<noteq> n \<Longrightarrow> get_p m (snd (set_p n v c)) = get_p m c"
begin

lemma manager_names: "map_of onvif_to_cam name = Some n \<Longrightarrow> n \<in> managed_names"
  unfolding managed_names_def by (force dest: map_of_SomeD)

lemma manager_names_inj: "map_of onvif_to_cam a = Some n \<Longrightarrow> map_of onvif_to_cam b = Some n \<Longrightarrow> a = b"
proof -
  have "distinct (map snd onvif_to_cam)" by (simp add: onvif_to_cam_def)
  moreover assume "map_of onvif_to_cam a = Some n" "map_of onvif_to_cam b = Some n"
  ultimately show ?thesis by (metis map_of_SomeD distinct_map inj_onD fst_conv snd_conv)
qed

lemma manager_rejects:
  "manager_validate name v \<noteq> None \<Longrightarrow> manager_set set_p name v pm = (manager_validate name v, pm)"
  by (auto simp: manager_set_def)

lemma manager_set_get:
  assumes "manager_set set_p name v pm = (None, pm')"
  shows "manager_get get_p name pm' = Inr (stored (the (map_of onvif_to_cam name)) v)"
  using assms set_get [OF manager_names]
  by (auto simp: manager_set_def manager_get_def split: option.splits prod.splits)

lemma manager_set_other:
  assumes "manager_set set_p name v pm = (r, pm')" "other \<noteq> name"
  shows "manager_get get_p other pm' = manager_get get_p other pm"
proof (cases "map_of onvif_to_cam other")
  case (Some m)
  show ?thesis
  proof (cases "manager_validate name v = None \<and> map_of onvif_to_cam name \<noteq> None")
    case True
    then obtain n where n: "map_of onvif_to_cam name = Some n" by auto
    have "pm_cam pm' = snd (set_p n v (pm_cam pm))"
      using assms(1) True n by (auto simp: manager_set_def split: prod.splits option.splits)
    moreover have "m \<noteq> n" using manager_names_inj [OF Some] n assms(2) by auto
    ultimately show ?thesis using Some n set_other [OF manager_names [OF n] manager_names [OF Some]]
      by (simp add: manager_get_def)
  next
    case False
    then have "pm' = pm" using assms(1) by (auto simp: manager_set_def split: option.splits)
    then show ?thesis by simp
  qed
qed (simp add: manager_get_def)

end

text \<open>The three sources that keep the struct, and the one that keeps the values.\<close>

lemma base_set_get:
  "n \<in> managed_names \<Longrightarrow> base_set_param cv n v c = (None, c') \<Longrightarrow> base_get_param n c' = Inr (stored_value cv n v)"
proof -
  assume n: "n \<in> managed_names" and s: "base_set_param cv n v c = (None, c')"
  obtain f where f: "map_of managed_fields n = Some f" "field_lawful f" using managed_field [OF n] by blast
  have "set_field cv f v (cb_params c) = Inr (cb_params c')" using base_set_managed [OF n f(1) s] by simp
  from get_set_field [OF f(2) this, of default_params] show ?thesis
    using base_get_managed [OF n f(1)] f(1) by (auto simp: stored_value_def)
qed

lemma base_set_other:
  assumes "n \<in> managed_names" "m \<in> managed_names" "m \<noteq> n"
  shows "base_get_param m (snd (base_set_param cv n v c)) = base_get_param m c"
proof -
  obtain f where f: "map_of managed_fields n = Some f" "(n, f) \<in> set managed_fields" using managed_field [OF assms(1)] by blast
  obtain g where g: "map_of managed_fields m = Some g" "(m, g) \<in> set managed_fields" using managed_field [OF assms(2)] by blast
  obtain r c' where s: "base_set_param cv n v c = (r, c')" by fastforce
  show ?thesis
  proof (cases r)
    case None
    then have "field_step f (cb_params c) (cb_params c')" using base_set_managed [OF assms(1) f(1) s] set_field_step by simp
    then have "get_field g (cb_params c') = get_field g (cb_params c)"
      using managed_apart f(2) g(2) assms(3) by (fastforce simp: list_all_iff)
    then show ?thesis using base_get_managed [OF assms(2) g(1), of c] base_get_managed [OF assms(2) g(1), of c'] by (simp add: s)
  qed (use base_set_managed [OF assms(1) f(1) s] s in simp)
qed

interpretation rtsp_params: param_camera "base_set_param cv" base_get_param "stored_value cv"
  for cv :: conv
  by unfold_locales (rule base_set_get, assumption+, rule base_set_other)

lemma rpi_set_base:
  "rpi_set_param cv n v c = (r, c') \<Longrightarrow>
   (r = Some NotStarted \<and> c' = c) \<or>
   (\<exists>r1 c1 p. base_set_param cv n v c = (r1, c1) \<and> c' = c1\<lparr>rpi_pipe := p\<rparr> \<and> (r = None \<longrightarrow> r1 = None))"
proof (cases "\<not> rpi_started c \<or> rpi_stopped c")
  case False
  assume s: "rpi_set_param cv n v c = (r, c')"
  obtain r1 c1 where b: "base_set_param cv n v c = (r1, c1)" by fastforce
  have same: "c1 = c1\<lparr>rpi_pipe := rpi_pipe c1\<rparr>" by simp
  have "\<exists>p. c' = c1\<lparr>rpi_pipe := p\<rparr> \<and> (r = None \<longrightarrow> r1 = None)"
  proof (cases "r1 = None \<and> rpi_pipe c1 \<noteq> None")
    case True
    then show ?thesis using s False b by (auto simp: rpi_set_param_def split: prod.splits)
  next
    case no: False
    then have "c' = c1 \<and> (r = None \<longrightarrow> r1 = None)" using s False b
      by (cases r1; cases "rpi_pipe c1") (auto simp: rpi_set_param_def)
    then show ?thesis using same by (intro exI [of _ "rpi_pipe c1"]) simp
  qed
  then show ?thesis using b by blast
qed (simp add: rpi_set_param_def)

lemma base_get_pipe [simp]: "base_get_param m (c\<lparr>rpi_pipe := p\<rparr>) = base_get_param m c"
  by (simp add: base_get_param_def split: option.split)

interpretation rpi_params: param_camera "rpi_set_param cv" base_get_param "stored_value cv"
  for cv :: conv
proof unfold_locales
  fix n v and c c' :: rpi_cam
  assume "n \<in> managed_names" "rpi_set_param cv n v c = (None, c')"
  then show "base_get_param n c' = Inr (stored_value cv n v)"
    using rpi_set_base [of cv n v c None c'] base_set_get by fastforce
next
  fix n m v and c :: rpi_cam
  assume a: "n \<in> managed_names" "m \<in> managed_names" "m \<noteq> n"
  obtain r c' where "rpi_set_param cv n v c = (r, c')" by fastforce
  then show "base_get_param m (snd (rpi_set_param cv n v c)) = base_get_param m c"
    using rpi_set_base [of cv n v c r c'] base_set_other [OF a, of cv v c] by auto
qed

lemma vid_set_base:
  "\<exists>h w. vid_set_param cv n v c = (if \<not> vid_started c \<or> vid_stopped c then (Some NotStarted, c\<lparr>vid_flip_h := h, vid_flip_v := w\<rparr>)
     else base_set_param cv n v (c\<lparr>vid_flip_h := h, vid_flip_v := w\<rparr>))"
proof -
  define h w where "h = (case v of VBool b \<Rightarrow> if vid_yuv_mode c \<and> (n = ''hFlip'' \<or> n = ''HFlip'') then b else vid_flip_h c
      | _ \<Rightarrow> vid_flip_h c)"
    and "w = (case v of VBool b \<Rightarrow>
        if vid_yuv_mode c \<and> \<not> (n = ''hFlip'' \<or> n = ''HFlip'') \<and> (n = ''vFlip'' \<or> n = ''VFlip'') then b else vid_flip_v c
      | _ \<Rightarrow> vid_flip_v c)"
  have "(case v of VBool b \<Rightarrow>
      if \<not> vid_yuv_mode c then c
      else if n = ''hFlip'' \<or> n = ''HFlip'' then c\<lparr>vid_flip_h := b\<rparr>
      else if n = ''vFlip'' \<or> n = ''VFlip'' then c\<lparr>vid_flip_v := b\<rparr> else c | _ \<Rightarrow> c) = c\<lparr>vid_flip_h := h, vid_flip_v := w\<rparr>"
    unfolding h_def w_def
    by (cases v; cases "vid_yuv_mode c"; cases "n = ''hFlip'' \<or> n = ''HFlip''"; cases "n = ''vFlip'' \<or> n = ''VFlip''") simp_all
  then show ?thesis by (intro exI [of _ h] exI [of _ w]) (simp add: vid_set_param_def Let_def)
qed

lemma base_get_flips [simp]: "base_get_param m (c\<lparr>vid_flip_h := h, vid_flip_v := w\<rparr>) = base_get_param m c"
  by (simp add: base_get_param_def split: option.split)

interpretation vid_params: param_camera "vid_set_param cv" base_get_param "stored_value cv"
  for cv :: conv
proof unfold_locales
  fix n v and c c' :: vid_cam
  assume "n \<in> managed_names" "vid_set_param cv n v c = (None, c')"
  then show "base_get_param n c' = Inr (stored_value cv n v)"
    using vid_set_base [of cv n v c] base_set_get by (fastforce split: if_splits)
next
  fix n m v and c :: vid_cam
  assume a: "n \<in> managed_names" "m \<in> managed_names" "m \<noteq> n"
  obtain h w where s: "vid_set_param cv n v c = (if \<not> vid_started c \<or> vid_stopped c then (Some NotStarted, c\<lparr>vid_flip_h := h, vid_flip_v := w\<rparr>)
     else base_set_param cv n v (c\<lparr>vid_flip_h := h, vid_flip_v := w\<rparr>))" using vid_set_base by blast
  show "base_get_param m (snd (vid_set_param cv n v c)) = base_get_param m c"
    using base_set_other [OF a, of cv v "c\<lparr>vid_flip_h := h, vid_flip_v := w\<rparr>"] unfolding s
    by (cases "\<not> vid_started c \<or> vid_stopped c") simp_all
qed

lemma v4l2_set_mem: "fst (v4l2_set_param n v c) = None" "v4_mem (snd (v4l2_set_param n v c)) = (v4_mem c)(n \<mapsto> v)"
    "v4_params (snd (v4l2_set_param n v c)) = v4_params c"
  unfolding v4l2_set_param_def Let_def by (simp_all split: param_value.split)

interpretation v4l2_params: param_camera v4l2_set_param v4l2_get_param "\<lambda>n v. v"
proof unfold_locales
  fix n v and c c' :: v4l2_cam
  assume "v4l2_set_param n v c = (None, c')"
  then show "v4l2_get_param n c' = Inr v" using v4l2_set_mem(2) [of n v c] by (simp add: v4l2_get_param_def)
next
  fix n m :: string and v and c :: v4l2_cam
  assume "m \<noteq> n"
  then show "v4l2_get_param m (snd (v4l2_set_param n v c)) = v4l2_get_param m c"
    by (simp add: v4l2_get_param_def v4l2_set_mem split: option.split)
qed

section \<open>Reading the wire format\<close>

lemma split_join:
  "ss \<noteq> [] \<Longrightarrow> \<forall>s\<in>set ss. c \<notin> set s \<Longrightarrow> split_on c (join_on c ss) = ss"
  by (induction c ss rule: join_on.induct) (auto simp: split_on_absent split_on_append)

lemma decimal_digits: "c \<in> set (decimal n) \<Longrightarrow> \<exists>d<10. c = digit d"
proof (induction n rule: decimal.induct)
  case (1 n)
  show ?case
  proof (cases "n < 10")
    case True
    then show ?thesis using "1.prems" by (auto simp: decimal.simps [of n])
  next
    case False
    then consider "c \<in> set (decimal (n div 10))" | "c = digit (n mod 10)" using "1.prems" by (auto simp: decimal.simps [of n])
    then show ?thesis
    proof cases
      case 1
      then show ?thesis using "1.IH" False by blast
    next
      case 2
      then show ?thesis by (intro exI [of _ "n mod 10"]) simp
    qed
  qed
qed

lemma digit_not_space: "d < 10 \<Longrightarrow> digit d \<noteq> CHR '' ''"
  using digit_value_digit [of d] by (auto simp: digit_value_def)

lemma wire_value_no_space:
  assumes "\<And>x. CHR '' '' \<notin> set (cv_format cv x)"
  shows "CHR '' '' \<notin> set (wire_value cv f p)"
proof -
  have "CHR '' '' \<notin> set (decimal n)" for n using decimal_digits [of "CHR '' ''" n] digit_not_space by metis
  moreover have "CHR '' '' \<notin> set (b64_encode s)" for s using b64_encode_chars [of "CHR '' ''" s] by blast
  ultimately show ?thesis using assms by (cases f) (simp_all add: wire_value_def)
qed

lemma param_field_names: "list_all (\<lambda>(n, f). CHR '':'' \<notin> set n \<and> CHR '' '' \<notin> set n) param_fields"
  by (simp add: param_fields_def)

lemma cut_at: "c \<notin> set s \<Longrightarrow> cut c (s @ c # r) = (s, r, True)"
  by (auto simp: cut_def takeWhile_append dropWhile_append)

section \<open>Validated sizes\<close>

text \<open>A value the language can build, other than a NaN.\<close>

definition plain_value :: "param_value \<Rightarrow> bool" where
  "plain_value v = (case v of
       VInt n \<Rightarrow> - (2 ^ 63) \<le> n \<and> n < 2 ^ 63
     | VF64 x \<Rightarrow> \<not> ieee_nan 0x7FF0000000000000 x
     | _ \<Rightarrow> True)"

lemma int_in_range:
  assumes "0 \<le> n" "n < 2 ^ 63" "\<not> f64_less (f64_of_int n) lo" "\<not> f64_less hi (f64_of_int n)"
    "f64_trunc lo = Some a" "f64_trunc hi = Some b" "\<not> bit lo 63" "0 < ieee_key lo" "ieee_key lo \<le> ieee_key hi"
    "ieee_key hi < 1075 * 2 ^ 52"
  shows "a \<le> n \<and> n \<le> b"
proof -
  note nan = f64_trunc_not_nan [OF assms(5)] f64_trunc_not_nan [OF assms(6)]
  have "0 < n"
  proof (rule ccontr)
    assume "\<not> 0 < n"
    then have n: "n = 0" using assms(1) by simp
    have "f64_of_int n = 0" by (simp add: n f64_of_int_def fl_encode_def with_sign_def)
    then show False using assms(3,8) nan(1) by (simp add: f64_less_def ieee_nan_def ieee_key_def)
  qed
  moreover have "n < 2 ^ 64" using assms(2) by simp
  moreover have "n < 2 ^ 53"
  proof (rule ccontr)
    assume "\<not> n < 2 ^ 53"
    then have "1075 * 2 ^ 52 \<le> ieee_key (f64_of_int n)" using \<open>n < 2 ^ 64\<close> by (intro f64_of_int_large) simp_all
    then have "ieee_key hi < ieee_key (f64_of_int n)" using assms(10) by linarith
    then show False using assms(4) nan(2) f64_of_int_not_nan [OF \<open>0 < n\<close> \<open>n < 2 ^ 64\<close>] by (simp add: f64_less_def)
  qed
  ultimately have tr: "f64_trunc (f64_of_int n) = Some n" by (intro f64_trunc_of_int)
  have "\<exists>k. f64_trunc (f64_of_int n) = Some k \<and> a \<le> k \<and> k \<le> b"
    by (rule f64_trunc_between [OF assms(5,6,7) f64_trunc_not_nan [OF tr] assms(3,4) nan assms(8,9)])
  then show ?thesis by (simp add: tr)
qed

lemma u32_in_range:
  assumes "to_float64 v = Some x" "\<not> f64_less x lo" "\<not> f64_less hi x" "plain_value v" "u32_value cv v = Inr w"
    "f64_trunc lo = Some a" "f64_trunc hi = Some b" "\<not> bit lo 63" "0 < ieee_key lo" "ieee_key lo \<le> ieee_key hi"
    "ieee_key hi < 1075 * 2 ^ 52" "0 \<le> a" "b < 2 ^ 32"
  shows "a \<le> uint w \<and> uint w \<le> b"
proof -
  have w: "uint (ucast (word_of_int n :: 64 word) :: 32 word) = n" if "a \<le> n" "n \<le> b" for n
    using that assms(12,13) by (simp add: unsigned_ucast_eq uint_word_of_int_eq take_bit_int_eq_self)
  show ?thesis
  proof (cases v)
    case (VUint32 n)
    have "uint n < 2 ^ 63" using unsigned_less [where 'a = int, of n] by simp
    then show ?thesis using int_in_range [of "uint n"] assms VUint32 by (simp add: to_float64_def u32_value_def)
  next
    case (VInt n)
    then have n: "0 \<le> n" "n < 2 ^ 63" "w = ucast (word_of_int n :: 64 word)" using assms(4,5)
      by (auto simp: u32_value_def plain_value_def split: if_splits)
    then show ?thesis using int_in_range [OF n(1,2), of lo hi a b] assms VInt w [of n] by (simp add: to_float64_def)
  next
    case (VF64 y)
    have "\<exists>n. f64_trunc y = Some n \<and> a \<le> n \<and> n \<le> b"
      using assms VF64 by (intro f64_trunc_between [OF assms(6,7,8)] f64_trunc_not_nan [OF assms(6)] f64_trunc_not_nan [OF assms(7)])
        (simp_all add: to_float64_def plain_value_def)
    then obtain n where n: "f64_trunc y = Some n" "a \<le> n" "n \<le> b" by blast
    then have "w = ucast (word_of_int n :: 64 word)" using assms(5,12,13) VF64
      by (simp add: u32_value_def f64_to_u64_def)
    then show ?thesis using n w [of n] by simp
  qed (use assms(1,5) in \<open>simp_all add: u32_value_def to_float64_def\<close>)
qed

lemma size_bounds:
  "f64_trunc 0x4050000000000000 = Some 64" "f64_trunc 0x40A4400000000000 = Some 2592" "f64_trunc 0x409E600000000000 = Some 1944"
  "\<not> bit (0x4050000000000000 :: float64) 63" "0 < ieee_key (0x4050000000000000 :: float64)"
  "ieee_key (0x4050000000000000 :: float64) \<le> ieee_key (0x40A4400000000000 :: float64)"
  "ieee_key (0x4050000000000000 :: float64) \<le> ieee_key (0x409E600000000000 :: float64)"
  "ieee_key (0x40A4400000000000 :: float64) < 1075 * 2 ^ 52" "ieee_key (0x409E600000000000 :: float64) < 1075 * 2 ^ 52"
  by (simp_all add: f64_trunc_def f64_exp_def f64_frac_def ieee_key_def)

definition sizes_ok :: "rpi_cam param_manager \<Rightarrow> bool" where
  "sizes_ok pm = (let c = pm_cam pm; p = cb_params c in
     64 \<le> uint (pa_width p) \<and> uint (pa_width p) \<le> 2592 \<and> 64 \<le> uint (pa_height p) \<and> uint (pa_height p) \<le> 1944 \<and>
     cb_width c = pa_width p \<and> cb_height c = pa_height p \<and> cb_fps c = pa_fps p)"

lemma ucast_64_inj: "x = y" if "(ucast (x :: 32 word) :: 64 word) = ucast y"
proof (rule bit_word_eqI)
  fix n assume n: "n < LENGTH(32)"
  have "bit (ucast x :: 64 word) n = bit (ucast y :: 64 word) n" using that by simp
  then show "bit x n = bit y n" using n by (simp add: bit_simps)
qed

lemma base_set_sizes:
  assumes "map_of onvif_to_cam name = Some n" "manager_validate name v = None" "plain_value v"
    "base_set_param cv n v c = (r, c')"
    "64 \<le> uint (pa_width (cb_params c))" "uint (pa_width (cb_params c)) \<le> 2592"
    "64 \<le> uint (pa_height (cb_params c))" "uint (pa_height (cb_params c)) \<le> 1944"
  shows "c' = c \<or> 64 \<le> uint (pa_width (cb_params c')) \<and> uint (pa_width (cb_params c')) \<le> 2592 \<and>
    64 \<le> uint (pa_height (cb_params c')) \<and> uint (pa_height (cb_params c')) \<le> 1944 \<and>
    cb_width c' = pa_width (cb_params c') \<and> cb_height c' = pa_height (cb_params c') \<and> cb_fps c' = pa_fps (cb_params c')"
proof (cases r)
  case None
  have nm: "n \<in> managed_names" using assms(1) by (rule rtsp_params.manager_names)
  obtain f where f: "map_of managed_fields n = Some f" "(n, f) \<in> set managed_fields" using managed_field [OF nm] by blast
  have s: "set_field cv f v (cb_params c) = Inr (cb_params c')" using base_set_managed [OF nm f(1) assms(4)] None by simp
  have info: "cb_width c' = pa_width (cb_params c') \<and> cb_height c' = pa_height (cb_params c') \<and> cb_fps c' = pa_fps (cb_params c')"
    using assms(4) None by (auto simp: base_set_param_def split: option.splits sum.splits)
  have keep: "get_field g (cb_params c') = get_field g (cb_params c)" if "(m, g) \<in> set managed_fields" "m \<noteq> n" for m g
    using bspec [OF bspec [OF managed_apart [unfolded list_all_iff] f(2), unfolded prod.case] that(1)] that(2)
      set_field_step [OF s] by simp
  have w: "pa_width (cb_params c') = pa_width (cb_params c)" if "n \<noteq> ''width''"
    using keep [of "''width''" "FU32 pa_width pa_width_update"] that
    by (simp add: managed_fields_eq get_field_def ucast_64_inj)
  have h: "pa_height (cb_params c') = pa_height (cb_params c)" if "n \<noteq> ''height''"
    using keep [of "''height''" "FU32 pa_height pa_height_update"] that
    by (simp add: managed_fields_eq get_field_def ucast_64_inj)
  have width: "64 \<le> uint (pa_width (cb_params c')) \<and> uint (pa_width (cb_params c')) \<le> 2592" if n: "n = ''width''"
  proof -
    have "name = ''Width''" using assms(1) n by (auto simp: onvif_to_cam_def split: if_splits)
    then obtain x where x: "to_float64 v = Some x" "\<not> f64_less x 0x4050000000000000" "\<not> f64_less 0x40A4400000000000 x"
      using assms(2) by (auto simp: manager_validate_def param_enums_def param_ranges_def split: option.splits if_splits)
    obtain u where "u32_value cv v = Inr u" "cb_params c' = cb_params c\<lparr>pa_width := u\<rparr>"
      using s f(1) n by (cases "u32_value cv v") (auto simp: managed_fields_eq set_field_def)
    then show ?thesis using u32_in_range [OF x assms(3) _ size_bounds(1,2,4,5,6,8)] by simp
  qed
  have height: "64 \<le> uint (pa_height (cb_params c')) \<and> uint (pa_height (cb_params c')) \<le> 1944" if n: "n = ''height''"
  proof -
    have "name = ''Height''" using assms(1) n by (auto simp: onvif_to_cam_def split: if_splits)
    then obtain x where x: "to_float64 v = Some x" "\<not> f64_less x 0x4050000000000000" "\<not> f64_less 0x409E600000000000 x"
      using assms(2) by (auto simp: manager_validate_def param_enums_def param_ranges_def split: option.splits if_splits)
    obtain u where "u32_value cv v = Inr u" "cb_params c' = cb_params c\<lparr>pa_height := u\<rparr>"
      using s f(1) n by (cases "u32_value cv v") (auto simp: managed_fields_eq set_field_def)
    then show ?thesis using u32_in_range [OF x assms(3) _ size_bounds(1,3,4,5,7,9)] by simp
  qed
  show ?thesis using width height w h info assms(5-8) by (cases "n = ''width''"; cases "n = ''height''") auto
next
  case (Some e)
  then show ?thesis using assms(4) by (auto simp: base_set_param_def split: option.splits sum.splits)
qed

lemma manager_set_sizes:
  assumes "sizes_ok pm" "plain_value v"
  shows "sizes_ok (snd (manager_set (rpi_set_param cv) name v pm))"
proof (cases "manager_validate name v = None \<and> map_of onvif_to_cam name \<noteq> None")
  case True
  then obtain n where n: "map_of onvif_to_cam name = Some n" by auto
  obtain r c' where s: "rpi_set_param cv n v (pm_cam pm) = (r, c')" by fastforce
  have cam: "pm_cam (snd (manager_set (rpi_set_param cv) name v pm)) = c'"
    using True n s by (simp add: manager_set_def split: option.split)
  show ?thesis
    using rpi_set_base [OF s] base_set_sizes [OF n _ assms(2), of cv "pm_cam pm"] True assms(1)
    unfolding sizes_ok_def Let_def cam by auto
next
  case False
  then have "snd (manager_set (rpi_set_param cv) name v pm) = pm" by (auto simp: manager_set_def split: option.splits)
  then show ?thesis using assms(1) by simp
qed

interpretation managed: event_machine "\<lambda>pm (name, v). snd (manager_set (rpi_set_param cv) name v pm)" sizes_ok "\<lambda>(name, v). plain_value v"
  for cv :: conv
  by unfold_locales (auto simp: manager_set_sizes)

section \<open>Properties\<close>

text \<open>The parameter command of the camera process can be read back: splitting at the spaces and cutting
  at the first colon gives the fields in order with their values, the strings are what Base64 decoding
  returns, and the integers what decimal parsing returns; the formatter of floating-point numbers only has
  to write no spaces.\<close>

theorem wire_fields_recovered:
  assumes "\<And>x. CHR '' '' \<notin> set (cv_format cv x)"
  shows "map (cut CHR '':'') (split_on CHR '' '' (serialize cv p)) =
      map (\<lambda>(n, f). (n, wire_value cv f p, True)) param_fields \<and>
    list_all (\<lambda>(n, f). case f of
        FStr get upd \<Rightarrow> deserialize_param_value (wire_value cv f p) = Some (get p)
      | FU32 get upd \<Rightarrow> parse_uint 32 (wire_value cv f p) = Some (unat (get p))
      | FBool get upd \<Rightarrow> parse_bool (wire_value cv f p) = Some (get p)
      | FF32 get upd \<Rightarrow> wire_value cv f p = cv_format cv (f64_of_f32 (get p))) param_fields"
proof
  let ?items = "map (\<lambda>(name, f). name @ CHR '':'' # wire_value cv f p) param_fields"
  have "\<forall>s\<in>set ?items. CHR '' '' \<notin> set s"
    using param_field_names wire_value_no_space [OF assms] by (auto simp: list_all_iff)
  moreover have "?items \<noteq> []" by (simp add: param_fields_def)
  ultimately have "split_on CHR '' '' (serialize cv p) = ?items"
    unfolding serialize_def by (intro split_join)
  moreover have "map (cut CHR '':'') ?items = map (\<lambda>(n, f). (n, wire_value cv f p, True)) param_fields"
    using param_field_names by (auto simp: list_all_iff cut_at)
  ultimately show "map (cut CHR '':'') (split_on CHR '' '' (serialize cv p)) =
      map (\<lambda>(n, f). (n, wire_value cv f p, True)) param_fields" by simp
  have "unat x < 2 ^ 32" for x :: "32 word" by (rule order_less_le_trans [OF unsigned_less]) simp
  then show "list_all (\<lambda>(n, f). case f of
        FStr get upd \<Rightarrow> deserialize_param_value (wire_value cv f p) = Some (get p)
      | FU32 get upd \<Rightarrow> parse_uint 32 (wire_value cv f p) = Some (unat (get p))
      | FBool get upd \<Rightarrow> parse_bool (wire_value cv f p) = Some (get p)
      | FF32 get upd \<Rightarrow> wire_value cv f p = cv_format cv (f64_of_f32 (get p))) param_fields"
    unfolding list_all_iff
    by (auto simp: wire_value_def deserialize_param_value_def b64_decode_encode parse_uint_decimal parse_bool_def
        split: param_field.split)
qed

definition example_conv :: conv where
  "example_conv = \<lparr>cv_u64 = \<lambda>x. 0, cv_parse32 = \<lambda>s. None, cv_format = \<lambda>x. ''0.5''\<rparr>"

theorem wire_fields_recovered_witness:
  "map (cut CHR '':'') (split_on CHR '' '' (serialize example_conv default_params)) =
      map (\<lambda>(n, f). (n, wire_value example_conv f default_params, True)) param_fields"
  by (rule conjunct1 [OF wire_fields_recovered]) (simp add: example_conv_def)

text \<open>A rejected value leaves the camera and its manager as they were; a value that is set is read
  back in the kind of its field; and no call changes what another name reads, whatever the outcome.\<close>

theorem manager_sets_and_reads:
  assumes "manager_set (rpi_set_param cv) name v pm = (r, pm')"
  shows "(r = None \<longrightarrow> manager_get base_get_param name pm' = Inr (stored_value cv (the (map_of onvif_to_cam name)) v)) \<and>
    (manager_validate name v \<noteq> None \<longrightarrow> r = manager_validate name v \<and> pm' = pm) \<and>
    (\<forall>other. other \<noteq> name \<longrightarrow> manager_get base_get_param other pm' = manager_get base_get_param other pm)"
  using assms rpi_params.manager_set_get [of cv name v pm pm'] rpi_params.manager_rejects [of name v cv pm]
    rpi_params.manager_set_other [OF assms] by auto

text \<open>What \<open>GetParam\<close> returns can be set again and changes nothing, except for the integer parameters: they
  are read as 64-bit values, which \<open>SetParam\<close> does not accept.\<close>

theorem read_values_written_back:
  assumes "name \<in> managed_names" "base_get_param name c = Inr v"
  shows "if name \<in> {''width'', ''height'', ''shutter''} then base_set_param cv name v c = (Some WrongType, c)
    else (\<forall>x. v = VF32 x \<longrightarrow> \<not> ieee_nan 0x7F800000 x) \<longrightarrow>
      (\<exists>c'. base_set_param cv name v c = (None, c') \<and> base_get_param name c' = Inr v)"
proof -
  obtain field f where f: "map_param_name name = Some field" "map_of param_fields field = Some f" "(name, f) \<in> set managed_fields"
      "map_of managed_fields name = Some f" "field_lawful f" using managed_field [OF assms(1)] by blast
  have v: "v = get_field f (cb_params c)" using base_get_managed [OF assms(1) f(4), of c] assms(2) by simp
  have kind: "name \<in> {''width'', ''height'', ''shutter''} \<longleftrightarrow> (\<exists>get upd. f = FU32 get upd)"
    using f(3) unfolding managed_fields_eq by auto
  have set: "base_set_param cv name v c = (case set_field cv f v (cb_params c) of Inl e \<Rightarrow> (Some e, c)
      | Inr p \<Rightarrow> (None, c\<lparr>cb_params := p, cb_width := pa_width p, cb_height := pa_height p, cb_fps := pa_fps p\<rparr>))"
    using f(1,2) by (simp add: base_set_param_def set_param_value_def)
  have read: "set_field cv f v (cb_params c) = Inr p \<Longrightarrow> get_field f p = v \<Longrightarrow> \<exists>c'. base_set_param cv name v c = (None, c') \<and> base_get_param name c' = Inr v" for p
    using base_get_managed [OF assms(1) f(4), of "c\<lparr>cb_params := p, cb_width := pa_width p, cb_height := pa_height p, cb_fps := pa_fps p\<rparr>"]
    by (simp add: set)
  show ?thesis
  proof (cases f)
    case (FU32 get upd)
    then have "set_field cv f v (cb_params c) = Inl WrongType" by (simp add: v set_field_def get_field_def u32_value_def)
    then show ?thesis using kind FU32 by (simp add: set)
  next
    case (FF32 get upd)
    have "\<exists>p. set_field cv f v (cb_params c) = Inr p \<and> get_field f p = v" if "\<forall>x. v = VF32 x \<longrightarrow> \<not> ieee_nan 0x7F800000 x"
      using that f(5) f32_through_f64 by (simp add: v FF32 set_field_def get_field_def f32_value_def field_lawful_def)
    then show ?thesis using kind read FF32 by auto
  next
    case (FStr get upd)
    have "\<exists>p. set_field cv f v (cb_params c) = Inr p \<and> get_field f p = v"
      using f(5) by (simp add: v FStr set_field_def get_field_def str_value_def field_lawful_def)
    then show ?thesis using kind read FStr by auto
  next
    case (FBool get upd)
    have "\<exists>p. set_field cv f v (cb_params c) = Inr p \<and> get_field f p = v"
      using f(5) by (simp add: v FBool set_field_def get_field_def bool_value_def field_lawful_def)
    then show ?thesis using kind read FBool by auto
  qed
qed

text \<open>The v4l2 source looks the user-facing name up among the struct's fields, so none of the parameters of
  the manager can be read before it has been set.\<close>

theorem v4l2_unreadable_before_set:
  assumes "name \<in> managed_names" "v4_mem c name = None"
  shows "v4l2_get_param name c = Inl UnknownField"
proof -
  have "list_all (\<lambda>n. map_of param_fields n = None) (map snd onvif_to_cam)"
    by (simp add: onvif_to_cam_def param_fields_def)
  then show ?thesis using assms by (auto simp: v4l2_get_param_def get_param_value_def managed_names_def list_all_iff)
qed

text \<open>Whatever the web interface and ONVIF set through the manager, in any order and with any failures, the
  width stays within 64 to 2592 and the height within 64 to 1944, and the reported resolution and rate are
  those of the parameters; only a NaN, which passes the range check, can break this.\<close>

theorem managed_sizes_stay_in_range:
  assumes "sizes_ok pm" "list_all (\<lambda>(name, v). plain_value v) calls"
  shows "sizes_ok (foldl (\<lambda>pm (name, v). snd (manager_set (rpi_set_param cv) name v pm)) pm calls)"
  using assms by (rule managed.run_inv)

definition example_cam :: "rpi_cam param_manager" where
  "example_cam = new_param_manager \<lparr>cb_params = default_params, cb_width = 1280, cb_height = 720, cb_fps = 0x41700000,
     rpi_started = True, rpi_stopped = False, rpi_pipe = None\<rparr>"

theorem managed_sizes_stay_in_range_witness:
  "sizes_ok (foldl (\<lambda>pm (name, v). snd (manager_set (rpi_set_param example_conv) name v pm))
     example_cam [(''Width'', VInt 640), (''Height'', VF64 0x40A4400000000000), (''Width'', VInt 100000)])"
  by (rule managed_sizes_stay_in_range)
    (simp_all add: sizes_ok_def example_cam_def new_param_manager_def default_params_def plain_value_def ieee_nan_def)

theorem manager_sets_and_reads_witness:
  "\<exists>pm'. manager_set (rpi_set_param example_conv) ''AWBMode'' (VStr ''cloudy'') example_cam = (None, pm') \<and>
    manager_get base_get_param ''AWBMode'' pm' = Inr (VStr ''cloudy'') \<and>
    manager_get base_get_param ''HFlip'' pm' = Inr (VBool False)"
proof -
  obtain r pm' where s: "manager_set (rpi_set_param example_conv) ''AWBMode'' (VStr ''cloudy'') example_cam = (r, pm')" by fastforce
  have "fst (manager_set (rpi_set_param example_conv) ''AWBMode'' (VStr ''cloudy'') example_cam) = None" by code_simp
  then have r: "r = None" by (simp add: s)
  have "stored_value example_conv (the (map_of onvif_to_cam ''AWBMode'')) (VStr ''cloudy'') = VStr ''cloudy''" by code_simp
  moreover have "manager_get base_get_param ''HFlip'' example_cam = Inr (VBool False)" by code_simp
  ultimately show ?thesis using manager_sets_and_reads [OF s] r s by auto
qed

theorem read_values_written_back_witness:
  "base_set_param example_conv ''width'' (VUint64 1280) (pm_cam example_cam) = (Some WrongType, pm_cam example_cam)"
  using read_values_written_back [of "''width''" "pm_cam example_cam" "VUint64 1280"]
  by (simp add: managed_names_def onvif_to_cam_def base_get_param_def map_param_name_def param_names_def get_param_value_def
      param_fields_def get_field_def example_cam_def new_param_manager_def default_params_def)

theorem v4l2_unreadable_before_set_witness:
  "v4l2_get_param ''brightness'' \<lparr>v4_params = default_params, v4_mem = Map.empty, v4_flip_h = False, v4_flip_v = False\<rparr> = Inl UnknownField"
  by (rule v4l2_unreadable_before_set) (simp_all add: managed_names_def onvif_to_cam_def)

text \<open>A NaN passes the range check.\<close>

theorem manager_accepts_nan: "manager_validate ''Width'' (VF64 0x7FF8000000000001) = None"
  by (simp add: manager_validate_def param_enums_def param_ranges_def to_float64_def f64_less_def ieee_nan_def)

end
