(* ===== verification/CamBake.thy ===== *)
theory CamBake
  imports Yuv CamParams
begin

text \<open>
  The raw-frame path of the rpicam-vid source in a quarter turn (\<open>readLoopYUV\<close> of
  \<open>internal/camera/rpicamvid.go\<close>) and of the v4l2 source (\<open>pump\<close> of \<open>v4l2_source.go\<close>): frames of fixed
  size are cut off the stream, turned and flipped in two buffers that swap roles from frame to frame, and
  handed to the taps and the encoder. Every frame comes out as its pixel-by-pixel reference, whatever the
  buffers held before. \<open>build_args\<close> is the command line of the process.
\<close>

section \<open>One frame\<close>

text \<open>The dimensions, the frame and the scratch buffer after rotation and flips.\<close>

definition bake_frame :: "int \<Rightarrow> bool \<Rightarrow> bool \<Rightarrow> nat \<Rightarrow> nat \<Rightarrow> bytes \<Rightarrow> bytes \<Rightarrow> ((nat \<times> nat) \<times> bytes \<times> bytes) option" where
  "bake_frame rotation flip_h flip_v w h frame scratch =
     (let (rot, hf, vf) = compose_rotation_flips rotation flip_h flip_v in
      Option.bind (if rot = 90 \<or> rot = 270 then rotate_yu12 frame scratch w h rot else Some ((w, h), frame, scratch))
        (\<lambda>((fw, fh), frame1, scratch1).
           if hf \<or> vf then
             let scratch2 = (if length scratch1 < fw then replicate fw 0 else scratch1) in
             map_option (\<lambda>b. ((fw, fh), b, scratch2)) (flip_yu12 frame1 fw fh hf vf)
           else Some ((fw, fh), frame1, scratch1)))"

section \<open>The loops\<close>

text \<open>
  \<open>fl k\<close> is what the two flip flags hold when frame \<open>k\<close> is transformed. \<open>buf\<close> is the buffer
  \<open>io.ReadFull\<close> fills: it reads as many bytes as the buffer is long. The result is the frames the taps and
  the encoder get; a panic is \<open>None\<close>. With an empty buffer the code spins without reading; the model then
  delivers nothing.
\<close>

function yuv_loop :: "int \<Rightarrow> (nat \<Rightarrow> bool \<times> bool) \<Rightarrow> nat \<Rightarrow> nat \<Rightarrow> nat \<Rightarrow> bytes \<Rightarrow> bytes \<Rightarrow> bytes \<Rightarrow> ((nat \<times> nat) \<times> bytes) list option"
where
  "yuv_loop rotation fl w h k buf scratch s =
     (if buf = [] \<or> length s < length buf then Some []
      else Option.bind (bake_frame rotation (fst (fl k)) (snd (fl k)) w h (take (length buf) s) scratch)
        (\<lambda>(dims, buf1, scratch1).
           map_option (Cons (dims, buf1)) (yuv_loop rotation fl w h (k + 1) buf1 scratch1 (drop (length buf) s))))"
  by pat_completeness auto

termination yuv_loop
  by (relation "measure (\<lambda>(rotation, fl, w, h, k, buf, scratch, s). length s)") (auto simp: neq_Nil_conv)

declare yuv_loop.simps [simp del]

definition read_loop_yuv :: "int \<Rightarrow> (nat \<Rightarrow> bool \<times> bool) \<Rightarrow> params \<Rightarrow> bytes \<Rightarrow> bytes \<Rightarrow> ((nat \<times> nat) \<times> bytes) list option" where
  "read_loop_yuv rotation fl p scratch s =
     (let w = unat (pa_width p); h = unat (pa_height p); cw = (w + 1) div 2; ch = (h + 1) div 2;
          frame_size = w * h + 2 * cw * ch in
      yuv_loop rotation fl w h 0 (replicate frame_size 0) scratch s)"

text \<open>The v4l2 pump copies each captured frame into a new buffer first.\<close>

fun pump_loop :: "int \<Rightarrow> (nat \<Rightarrow> bool \<times> bool) \<Rightarrow> nat \<Rightarrow> nat \<Rightarrow> nat \<Rightarrow> bytes \<Rightarrow> bytes list \<Rightarrow> ((nat \<times> nat) \<times> bytes) list option" where
  "pump_loop rotation fl w h k scratch [] = Some []"
| "pump_loop rotation fl w h k scratch (frame # frames) =
     Option.bind (bake_frame rotation (fst (fl k)) (snd (fl k)) w h frame scratch)
       (\<lambda>(dims, yuv, scratch1). map_option (Cons (dims, yuv)) (pump_loop rotation fl w h (k + 1) scratch1 frames))"

section \<open>The command line\<close>

text \<open>\<open>fmt\<close> is \<open>strconv.FormatFloat(_, 'f', -1, 32)\<close> of the widened rate.\<close>

definition build_args :: "(float64 \<Rightarrow> string) \<Rightarrow> int \<Rightarrow> bool \<Rightarrow> params \<Rightarrow> string list" where
  "build_args fmt rotation yuv_mode p =
     (let args = [''-t'', ''0'', ''--codec'', if yuv_mode then ''yuv420'' else ''h264'',
                  ''--width'', decimal (unat (pa_width p)), ''--height'', decimal (unat (pa_height p)),
                  ''--framerate'', fmt (f64_of_f32 (pa_fps p)), ''-o'', ''-''] in
      if yuv_mode then args
      else args @ [''-b'', decimal (unat (pa_bitrate p)), ''--inline''] @
        (if 0 < pa_idr_period p then [''--intra'', decimal (unat (pa_idr_period p))] else []) @
        (if rotation \<noteq> 0 then [''--rotation'', decimal_int rotation] else []) @
        (if pa_h_flip p then [''--hflip''] else []) @
        (if pa_v_flip p then [''--vflip''] else []))"

text \<open>What \<open>WithVidRotation\<close> stores and \<open>Start\<close> derives from it.\<close>

definition vid_yuv_mode_of :: "int \<Rightarrow> bool" where
  "vid_yuv_mode_of rotation \<longleftrightarrow> rotation = 90 \<or> rotation = 270"

section \<open>The reference of a baked frame\<close>

definition flipped_frame :: "bytes \<Rightarrow> nat \<Rightarrow> nat \<Rightarrow> bool \<Rightarrow> bool \<Rightarrow> bytes" where
  "flipped_frame buf width height hf vf =
     (let cw = chroma_dim width; ch = chroma_dim height; y = width * height in
      flipped buf width height hf vf @ flipped (drop y buf) cw ch hf vf @ flipped (drop (y + cw * ch) buf) cw ch hf vf)"

text \<open>Rotation first, then the flips on the rotated axes; a half turn is both flips.\<close>

definition baked :: "int \<Rightarrow> bool \<times> bool \<Rightarrow> nat \<Rightarrow> nat \<Rightarrow> bytes \<Rightarrow> (nat \<times> nat) \<times> bytes" where
  "baked rotation fl w h frame =
     (if rotation = 90 \<or> rotation = 270
      then ((h, w), flipped_frame (turned_frame frame w h (rotation = 90)) h w (fst fl) (snd fl))
      else ((w, h), flipped_frame frame w h (fst fl \<noteq> (rotation = 180)) (snd fl \<noteq> (rotation = 180))))"

lemma frame_len_swap: "frame_len h w = frame_len w h"
  by (simp add: frame_len_def mult.commute)

lemma length_turned_frame: "length (turned_frame b w h c) = frame_len w h"
  by (simp add: turned_frame_def Let_def frame_len_def)

lemma length_flipped_frame [simp]: "length (flipped_frame b w h hf vf) = frame_len w h"
  by (simp add: flipped_frame_def Let_def frame_len_def flipped_def)

lemma length_baked: "length (snd (baked rotation fl w h frame)) = frame_len w h"
  by (simp add: baked_def frame_len_swap)

lemma flip_is_flipped:
  "0 < w \<Longrightarrow> 0 < h \<Longrightarrow> length b = frame_len w h \<Longrightarrow> flip_yu12 b w h hf vf = Some (flipped_frame b w h hf vf)"
  by (simp add: flip_frame flipped_frame_def)

lemma bake_frame_baked:
  assumes "0 < w" "0 < h" "length frame = frame_len w h"
  shows "\<exists>scratch1. bake_frame rotation hf vf w h frame scratch =
    Some (fst (baked rotation (hf, vf) w h frame), snd (baked rotation (hf, vf) w h frame), scratch1)"
proof -
  have none: "flip_yu12 b a c False False = Some b" for b a c by (simp add: flip_yu12_def)
  have id: "flipped_frame b a c False False = b" if "0 < a" "0 < c" "length b = frame_len a c" for b a c
    using flip_is_flipped [OF that, of False False] none by simp
  show ?thesis
  proof (cases "rotation = 90 \<or> rotation = 270")
    case True
    let ?t = "turned_frame frame w h (rotation = 90)"
    have t: "length ?t = frame_len h w" by (simp add: length_turned_frame frame_len_swap)
    have r: "rotate_yu12 frame scratch w h rotation = Some ((h, w), ?t, frame)"
      using rotate_frame [OF True assms] .
    have c: "compose_rotation_flips rotation hf vf = (rotation, hf, vf)"
      using True by (auto simp: compose_rotation_flips_def)
    show ?thesis
      unfolding bake_frame_def c using True r flip_is_flipped [OF assms(2,1) t] id [OF assms(2,1) t]
      by (cases "hf \<or> vf") (auto simp: baked_def Let_def)
  next
    case False
    define hf' vf' where "hf' = (hf \<noteq> (rotation = 180))" and "vf' = (vf \<noteq> (rotation = 180))"
    have c: "compose_rotation_flips rotation hf vf = (0, hf', vf')"
      using False by (auto simp: compose_rotation_flips_def hf'_def vf'_def)
    have bk: "baked rotation (hf, vf) w h frame = ((w, h), flipped_frame frame w h hf' vf')"
      using False by (simp add: baked_def hf'_def vf'_def)
    show ?thesis
      unfolding bake_frame_def c bk using flip_is_flipped [OF assms] id [OF assms]
      by (cases "hf' \<or> vf'") (auto simp: Let_def)
  qed
qed

section \<open>The stream\<close>

definition frame_at :: "nat \<Rightarrow> bytes \<Rightarrow> nat \<Rightarrow> bytes" where
  "frame_at n s k = take n (drop (k * n) s)"

lemma yuv_loop_baked:
  assumes "0 < w" "0 < h"
  shows "length buf = frame_len w h \<Longrightarrow>
    yuv_loop rotation fl w h k buf scratch s =
      Some (map (\<lambda>j. baked rotation (fl (k + j)) w h (frame_at (frame_len w h) s j)) [0..<length s div frame_len w h])"
proof (induction "length s" arbitrary: k buf scratch s rule: less_induct)
  case less
  let ?n = "frame_len w h"
  have n: "0 < ?n" using assms by (simp add: frame_len_def)
  show ?case
  proof (cases "length s < ?n")
    case True
    then show ?thesis using less.prems by (subst yuv_loop.simps) simp
  next
    case False
    have f: "length (take ?n s) = ?n" using False by simp
    obtain hf vf where fl: "fl k = (hf, vf)" by fastforce
    obtain scr where b: "bake_frame rotation hf vf w h (take ?n s) scratch =
        Some (fst (baked rotation (fl k) w h (take ?n s)), snd (baked rotation (fl k) w h (take ?n s)), scr)"
      using bake_frame_baked [OF assms f, of rotation hf vf scratch] unfolding fl by blast
    have rest: "yuv_loop rotation fl w h (k + 1) (snd (baked rotation (fl k) w h (take ?n s))) scr (drop ?n s) =
        Some (map (\<lambda>j. baked rotation (fl (k + 1 + j)) w h (frame_at ?n (drop ?n s) j)) [0..<length (drop ?n s) div ?n])"
      using False n by (intro less.hyps) (simp_all add: length_baked)
    have q: "length s div ?n = Suc (length (drop ?n s) div ?n)"
      using False n by (simp add: le_div_geq)
    have shift: "frame_at ?n (drop ?n s) j = frame_at ?n s (Suc j)" for j by (simp add: frame_at_def add.commute)
    have "buf \<noteq> []" using less.prems n by auto
    then have "yuv_loop rotation fl w h k buf scratch s =
        Some (baked rotation (fl k) w h (take ?n s) #
          map (\<lambda>j. baked rotation (fl (k + 1 + j)) w h (frame_at ?n s (Suc j))) [0..<length (drop ?n s) div ?n])"
      using False less.prems b rest by (subst yuv_loop.simps) (simp add: fl shift)
    also have "\<dots> = Some (map (\<lambda>j. baked rotation (fl (k + j)) w h (frame_at ?n s j)) [0..<Suc (length (drop ?n s) div ?n)])"
      by (simp only: map_upt_Suc) (simp add: frame_at_def)
    finally show ?thesis by (simp only: q)
  qed
qed

lemma pump_loop_baked:
  assumes "0 < w" "0 < h" "\<forall>f\<in>set frames. length f = frame_len w h"
  shows "pump_loop rotation fl w h k scratch frames =
    Some (map (\<lambda>j. baked rotation (fl (k + j)) w h (frames ! j)) [0..<length frames])"
  using assms(3)
proof (induction frames arbitrary: k scratch)
  case (Cons f frames)
  obtain hf vf where fl: "fl k = (hf, vf)" by fastforce
  obtain scr where b: "bake_frame rotation hf vf w h f scratch =
      Some (fst (baked rotation (fl k) w h f), snd (baked rotation (fl k) w h f), scr)"
    using bake_frame_baked [OF assms(1,2), of f rotation hf vf scratch] Cons.prems unfolding fl by auto
  have "map (\<lambda>j. baked rotation (fl (k + j)) w h ((f # frames) ! j)) [0..<length (f # frames)] =
      baked rotation (fl k) w h f # map (\<lambda>j. baked rotation (fl (k + 1 + j)) w h (frames ! j)) [0..<length frames]"
    by (simp only: length_Cons map_upt_Suc) simp
  then show ?case using Cons b fl by simp
qed simp

section \<open>Properties\<close>

text \<open>C34: In a quarter turn the process writes raw frames, and however many there are, each whole frame reaches
  the taps and the encoder exactly as its reference: turned, then mirrored on the turned axes by the flags of
  that moment. The reused buffers leave no trace, nothing panics, and a partial frame at the end is dropped.\<close>

theorem raw_frames_baked:
  assumes "0 < pa_width p" "0 < pa_height p"
  shows "read_loop_yuv rotation fl p scratch s =
    (let w = unat (pa_width p); h = unat (pa_height p); n = frame_len w h in
     Some (map (\<lambda>k. baked rotation (fl k) w h (take n (drop (k * n) s))) [0..<length s div n]))"
proof -
  have pos: "0 < unat (pa_width p)" "0 < unat (pa_height p)" using assms by (simp_all add: unat_gt_0 word_gt_0)
  have "unat (pa_width p) * unat (pa_height p) + 2 * ((unat (pa_width p) + 1) div 2) * ((unat (pa_height p) + 1) div 2) =
      frame_len (unat (pa_width p)) (unat (pa_height p))"
    by (simp add: frame_len_def chroma_dim_def mult.assoc)
  then show ?thesis
    using yuv_loop_baked [OF pos] by (simp add: read_loop_yuv_def Let_def frame_at_def)
qed

theorem raw_frames_baked_witness:
  "read_loop_yuv 90 (\<lambda>k. (k = 1, False)) (default_params\<lparr>pa_width := 2, pa_height := 2\<rparr>) [9]
     [1, 2, 3, 4, 50, 60, 5, 6, 7, 8, 51, 61, 0] =
   Some [((2, 2), [3, 1, 4, 2, 50, 60]), ((2, 2), [5, 7, 6, 8, 51, 61])]"
  by (subst raw_frames_baked) (simp_all, code_simp)

text \<open>The v4l2 pump bakes as the process reader does: frames of the exact size, captured one by one, come
  out as the same bytes the reader delivers for their concatenation.\<close>

theorem pump_equals_reader:
  assumes "0 < w" "0 < h" "\<forall>f\<in>set frames. length f = frame_len w h"
  shows "pump_loop rotation fl w h 0 scratch frames =
    yuv_loop rotation fl w h 0 (replicate (frame_len w h) 0) scratch' (concat frames)"
proof -
  let ?n = "frame_len w h"
  have n: "0 < ?n" using assms by (simp add: frame_len_def)
  have l: "length (concat frames) = length frames * ?n" using assms(3) by (induction frames) auto
  have at: "frame_at ?n (concat frames) j = frames ! j" if "j < length frames" for j
    using assms(3) that
  proof (induction frames arbitrary: j)
    case (Cons f frames)
    then show ?case by (cases j) (auto simp: frame_at_def)
  qed simp
  show ?thesis
    unfolding pump_loop_baked [OF assms] yuv_loop_baked [OF assms(1,2) length_replicate]
    using n at by (simp add: l)
qed

theorem pump_equals_reader_witness:
  "pump_loop 180 (\<lambda>k. (False, False)) 2 2 0 [] [[1, 2, 3, 4, 50, 60]] =
    yuv_loop 180 (\<lambda>k. (False, False)) 2 2 0 (replicate (frame_len 2 2) 0) [7, 7] (concat [[1, 2, 3, 4, 50, 60]])"
  by (rule pump_equals_reader) (simp_all add: frame_len_def chroma_dim_def)

text \<open>A transposing rotation never reaches the process, whose camera library would reject it: a quarter turn
  runs raw frames without any transform flag, and otherwise \<open>--rotation\<close> appears exactly for a half turn.\<close>

theorem process_never_transposes:
  assumes "rotation = normalize_rotation degrees" "yuv = vid_yuv_mode_of rotation"
    "\<And>x. fmt x \<notin> {''--rotation'', ''--hflip'', ''--vflip''}"
  shows "(''--rotation'' \<in> set (build_args fmt rotation yuv p) \<longleftrightarrow> rotation = 180) \<and>
    (''--hflip'' \<in> set (build_args fmt rotation yuv p) \<longleftrightarrow> \<not> yuv \<and> pa_h_flip p) \<and>
    (''--vflip'' \<in> set (build_args fmt rotation yuv p) \<longleftrightarrow> \<not> yuv \<and> pa_v_flip p)"
proof -
  have "digit d \<noteq> CHR ''-''" if "d < 10" for d using digit_value_digit [OF that] by (auto simp: digit_value_def)
  then have "CHR ''-'' \<notin> set (decimal n)" for n using decimal_digits [of "CHR ''-''" n] by metis
  then have d: "decimal n \<noteq> ''--rotation'' \<and> decimal n \<noteq> ''--hflip'' \<and> decimal n \<noteq> ''--vflip''" for n
    by (metis list.set_intros(1))
  have f: "fmt x \<noteq> ''--rotation'' \<and> fmt x \<noteq> ''--hflip'' \<and> fmt x \<noteq> ''--vflip''" for x using assms(3) [of x] by simp
  have r: "rotation = 0 \<or> rotation = 90 \<or> rotation = 180 \<or> rotation = 270"
    using assms(1) by (auto simp: normalize_rotation_def split: if_splits)
  have "decimal_int 180 = ''180''" by code_simp
  then show ?thesis
    using r d f by (elim disjE) (simp_all add: assms(2) vid_yuv_mode_of_def build_args_def Let_def not_sym [OF conjunct1 [OF d]]
        eq_commute [of "''--rotation''"] eq_commute [of "''--hflip''"] eq_commute [of "''--vflip''"])
qed

theorem process_never_transposes_witness:
  "''--rotation'' \<notin> set (build_args (\<lambda>x. ''15'') 90 True (default_params\<lparr>pa_h_flip := True\<rparr>)) \<and>
   ''--rotation'' \<in> set (build_args (\<lambda>x. ''15'') 180 False default_params)"
  using process_never_transposes [of 90 90 True "\<lambda>x. ''15''" "default_params\<lparr>pa_h_flip := True\<rparr>"]
    process_never_transposes [of 180 180 False "\<lambda>x. ''15''" default_params]
  by (simp add: normalize_rotation_def vid_yuv_mode_of_def)

end
