(* ===== verification/CamSources.thy ===== *)
theory CamSources
  imports CamParams CamPipe AuSplit CamBake
begin

text \<open>
  The camera sources as processes. \<open>RPiCamera\<close> (\<open>internal/camera/camera.go\<close>): starting the process and
  waiting for its ready message, the messages of the video pipe, restarts with their delays. The life of a
  source whose reader goroutine runs beside \<open>Stop\<close> is a step relation, for the two process sources, which
  close the frame channel before their reader has ended, and for the RTSP source
  (\<open>rtsp_source.go\<close>), which waits. The v4l2 source (\<open>v4l2_source.go\<close>) is the ledger of what it opens.
\<close>

section \<open>Video messages\<close>

definition multiply_and_divide :: "int \<Rightarrow> int \<Rightarrow> int \<Rightarrow> int" where
  "multiply_and_divide v m d =
     (let secs = go_div v d; dec = go_mod v d in i64 (i64 (secs * m) + go_div (i64 (dec * m)) d))"

record pts_frame = cam_frame +
  fr_pts :: int

definition message_dts :: "bytes \<Rightarrow> int" where
  "message_dts buf =
     sint (from_be64 (from_be32 (buf ! 8) (buf ! 7) (buf ! 6) (buf ! 5)) (from_be32 (buf ! 4) (buf ! 3) (buf ! 2) (buf ! 1)))"

definition parse_video_frame :: "bytes \<Rightarrow> int \<Rightarrow> pts_frame option" where
  "parse_video_frame buf now =
     (if length buf < 9 then None
      else Some \<lparr>fr_data = drop 9 buf, fr_time = now, fr_pts = multiply_and_divide (message_dts buf) 90000 1000000\<rparr>)"

text \<open>Why \<open>readLoop\<close> returned; the timer that closes an idle pipe ends the stream.\<close>

datatype loop_end = PipeFailed pipe_error | CameraError bytes

lemma pipe_read_shorter: "pipe_read s = (Inr m, r) \<Longrightarrow> length r < length s"
  using pipe_read_progress [of s "Inr m" r] by auto

text \<open>The frames passed to the channel, with the \<open>k\<close>-th reading of the clock, and the end of the loop.\<close>

function rpi_read_loop :: "(nat \<Rightarrow> int) \<Rightarrow> nat \<Rightarrow> bytes \<Rightarrow> pts_frame list \<times> loop_end" where
  "rpi_read_loop clk k s =
     (case pipe_read s of
        (Inl e, r) \<Rightarrow> ([], PipeFailed e)
      | (Inr buf, r) \<Rightarrow>
          if buf = [] then rpi_read_loop clk k r
          else if hd buf = 101 then ([], CameraError (tl buf))
          else if hd buf = 114 then rpi_read_loop clk k r
          else if hd buf = 98 \<or> hd buf = 100 then
            (case parse_video_frame buf (clk k) of
               None \<Rightarrow> rpi_read_loop clk k r
             | Some f \<Rightarrow> (case rpi_read_loop clk (k + 1) r of (fs, e) \<Rightarrow> (f # fs, e)))
          else rpi_read_loop clk k r)"
  by pat_completeness auto

termination rpi_read_loop
  by (relation "measure (\<lambda>(clk, k, s). length s)") (auto dest: pipe_read_shorter [OF sym])

declare rpi_read_loop.simps [simp del]

section \<open>Starting the process\<close>

datatype startup = Ready bytes | StartupReadFailed pipe_error | StartupError bytes

function wait_ready :: "bytes \<Rightarrow> startup" where
  "wait_ready s =
     (case pipe_read s of
        (Inl e, r) \<Rightarrow> StartupReadFailed e
      | (Inr buf, r) \<Rightarrow>
          if buf = [] then wait_ready r
          else if hd buf = 114 then Ready r
          else if hd buf = 101 then StartupError (tl buf)
          else wait_ready r)"
  by pat_completeness auto

termination wait_ready
  by (relation "measure length") (auto dest: pipe_read_shorter [OF sym])

declare wait_ready.simps [simp del]

text \<open>
  What the system answers: whether the two pipes, the path and the process come about, the room in the
  configuration pipe, the bytes of the video pipe, and whether ten seconds pass first. The result is the
  error, the number of pipe ends this process holds open, and the camera.
\<close>

record spawn_env =
  se_conf_pipe :: bool
  se_video_pipe :: bool
  se_path :: bool
  se_start :: bool
  se_room :: nat
  se_bytes :: bytes
  se_timeout :: bool

datatype spawn_error = NoConfPipe | NoVideoPipe | BadPath | StartFailed | ConfigFailed | NotReady startup | TimedOut

definition rpi_cleanup :: "nat \<Rightarrow> rpi_cam \<Rightarrow> nat \<times> rpi_cam" where
  "rpi_cleanup fds c = (if rpi_pipe c \<noteq> None then fds - 2 else fds, c\<lparr>rpi_pipe := None\<rparr>)"

definition rpi_spawn :: "conv \<Rightarrow> spawn_env \<Rightarrow> rpi_cam \<Rightarrow> spawn_error option \<times> nat \<times> rpi_cam" where
  "rpi_spawn cv en c =
     (if \<not> se_conf_pipe en then (Some NoConfPipe, 0, c)
      else let fds = 2 in
      if \<not> se_video_pipe en then (Some NoVideoPipe, fds - 2, c)
      else let fds = fds + 2 in
      if \<not> se_path en then (Some BadPath, fds - 4, c)
      else if \<not> se_start en then (Some StartFailed, fds - 4, c)
      else
        let fds = fds - 2; c1 = c\<lparr>rpi_pipe := Some ([], se_room en)\<rparr> in
        case pipe_write (serialize_command cv (cb_params c1)) ([], se_room en) of
          (False, w) \<Rightarrow> (Some ConfigFailed, rpi_cleanup fds (c1\<lparr>rpi_pipe := Some w\<rparr>))
        | (True, w) \<Rightarrow>
            let c2 = c1\<lparr>rpi_pipe := Some w\<rparr> in
            if se_timeout en then (Some TimedOut, rpi_cleanup fds c2)
            else case wait_ready (se_bytes en) of
                   Ready r \<Rightarrow> (None, fds, c2)
                 | st \<Rightarrow> (Some (NotReady st), rpi_cleanup fds c2))"

section \<open>Restarts\<close>

datatype attempt = SpawnFails | RanAndDied

text \<open>The delays \<open>run\<close> waits after each attempt, from the current backoff.\<close>

fun restart_delays :: "int \<Rightarrow> int \<Rightarrow> attempt list \<Rightarrow> int list" where
  "restart_delays max_backoff backoff [] = []"
| "restart_delays max_backoff backoff (SpawnFails # as) =
     backoff # restart_delays max_backoff (min (backoff * 2) max_backoff) as"
| "restart_delays max_backoff backoff (RanAndDied # as) =
     (let backoff = one_second in backoff # restart_delays max_backoff (min (backoff * 2) max_backoff) as)"

text \<open>The RTSP source resets the delay only after a connection that delivered a frame.\<close>

fun reconnect_delays :: "int \<Rightarrow> bool list \<Rightarrow> int list" where
  "reconnect_delays backoff [] = []"
| "reconnect_delays backoff (frames_received # cs) =
     (let b = (if frames_received then one_second else backoff) in
      b # reconnect_delays (min (b * 2) (30 * one_second)) cs)"

lemma multiply_and_divide_exact:
  assumes "- (2 ^ 63) \<le> v" "v < 2 ^ 63"
  shows "multiply_and_divide v 90000 1000000 = go_div (v * 90000) 1000000"
proof -
  define q r where "q = \<bar>v\<bar> div 1000000" and "r = \<bar>v\<bar> mod 1000000"
  have v: "\<bar>v\<bar> = q * 1000000 + r" "0 \<le> r" "r < 1000000" "0 \<le> q" by (simp_all add: q_def r_def)
  have "\<bar>v\<bar> \<le> 2 ^ 63" using assms by (simp add: abs_le_iff)
  then have q: "q \<le> 9223372036854" using v by simp
  have "\<bar>v * 90000\<bar> div 1000000 = q * 90000 + r * 90000 div 1000000"
  proof -
    have "\<bar>v * 90000\<bar> = q * 90000 * 1000000 + r * 90000" using v(1) by (simp add: abs_mult)
    then show ?thesis by simp
  qed
  then have whole: "go_div (v * 90000) 1000000 = sgn v * (q * 90000 + r * 90000 div 1000000)"
    by (simp add: go_div_def sgn_mult)
  have f: "r * 90000 div 1000000 < 90000" "0 \<le> r * 90000 div 1000000" using v(2,3) by linarith+
  have parts: "go_div v 1000000 = sgn v * q" "go_mod v 1000000 = sgn v * r"
    by (simp_all add: go_div_def go_mod_def q_def r_def)
  have s: "sgn v = 1 \<or> sgn v = -1 \<or> v = 0" by (auto simp: sgn_if)
  have "go_div (i64 (go_mod v 1000000 * 90000)) 1000000 = sgn v * (r * 90000 div 1000000)"
  proof -
    have "i64 (sgn v * r * 90000) = sgn v * r * 90000" using s v(2,3) by (intro i64_id) auto
    then show ?thesis using v(2) s by (auto simp: parts go_div_def sgn_mult abs_mult sgn_if)
  qed
  moreover have "i64 (go_div v 1000000 * 90000) = sgn v * q * 90000"
    unfolding parts using s v(4) q by (intro i64_id) auto
  moreover have "i64 (sgn v * q * 90000 + sgn v * (r * 90000 div 1000000)) = sgn v * q * 90000 + sgn v * (r * 90000 div 1000000)"
    using s v(4) q f by (intro i64_id) auto
  ultimately show ?thesis by (simp add: multiply_and_divide_def Let_def whole algebra_simps)
qed

section \<open>Framed messages\<close>

lemma rpi_read_framed:
  "length m \<le> max_frame_size \<Longrightarrow>
   rpi_read_loop clk k (pipe_frame m @ r) =
     (if m = [] then rpi_read_loop clk k r
      else if hd m = 101 then ([], CameraError (tl m))
      else if (hd m = 98 \<or> hd m = 100) \<and> 9 \<le> length m then
        (case rpi_read_loop clk (k + 1) r of (fs, e) \<Rightarrow> (the (parse_video_frame m (clk k)) # fs, e))
      else rpi_read_loop clk k r)"
  by (subst rpi_read_loop.simps) (auto simp: pipe_read_frame parse_video_frame_def)

text \<open>The 64-bit number of eight bytes, least significant first.\<close>

definition le_word :: "bytes \<Rightarrow> 64 word" where
  "le_word bs = foldr (\<lambda>b v. ucast b OR push_bit 8 v) bs 0"

lemma bit_byte: "8 \<le> n \<Longrightarrow> \<not> bit (b :: byte) n" using bit_imp_le_length [of b n] by auto

lemma le_word_parts: "from_be64 (from_be32 h g f e) (from_be32 d c b a) = le_word [a, b, c, d, e, f, g, h]"
  proof (rule bit_word_eqI)
    fix n assume n: "n < LENGTH(64)"
    have "n div 8 < 8" using n by simp
    then consider "n < 8" | "8 \<le> n" "n < 16" | "16 \<le> n" "n < 24" | "24 \<le> n" "n < 32" | "32 \<le> n" "n < 40"
      | "40 \<le> n" "n < 48" | "48 \<le> n" "n < 56" | "56 \<le> n" "n < 64" using n by fastforce
    then show "bit (from_be64 (from_be32 h g f e) (from_be32 d c b a)) n = bit (le_word [a, b, c, d, e, f, g, h]) n"
      by cases (auto simp: from_be64_def from_be32_def le_word_def bit_simps bit_byte)
  qed

lemma message_dts_le: "9 \<le> length m \<Longrightarrow> message_dts m = sint (le_word (take 8 (drop 1 m)))"
proof -
  assume "9 \<le> length m"
  then obtain t a b c d e f g h r where m: "m = t # a # b # c # d # e # f # g # h # r"
    by (auto simp: numeral_eq_Suc Suc_le_length_iff)
  show ?thesis by (simp add: m message_dts_def numeral_eq_Suc le_word_parts [symmetric])
qed

definition is_video :: "bytes \<Rightarrow> bool" where
  "is_video m \<longleftrightarrow> m \<noteq> [] \<and> (hd m = 98 \<or> hd m = 100) \<and> 9 \<le> length m"

definition is_error :: "bytes \<Rightarrow> bool" where
  "is_error m \<longleftrightarrow> m \<noteq> [] \<and> hd m = 101"

definition video_frame :: "(nat \<Rightarrow> int) \<Rightarrow> nat \<Rightarrow> bytes \<Rightarrow> pts_frame" where
  "video_frame clk k m = \<lparr>fr_data = drop 9 m, fr_time = clk k, fr_pts = go_div (sint (le_word (take 8 (drop 1 m))) * 90000) 1000000\<rparr>"

lemma parse_video_message: "is_video m \<Longrightarrow> parse_video_frame m (clk k) = Some (video_frame clk k m)"
proof -
  assume m: "is_video m"
  have "- (2 ^ 63) \<le> message_dts m" "message_dts m < 2 ^ 63"
    unfolding message_dts_def using sint_greater_eq [where 'a = 64] sint_less [where 'a = 64] by auto
  then show ?thesis using m by (simp add: is_video_def parse_video_frame_def video_frame_def multiply_and_divide_exact message_dts_le)
qed

lemma pipe_read_nil: "pipe_read [] = (Inl PipeEOF, [])"
  by (simp add: pipe_read_def read_full_def)

lemma rpi_read_messages:
  "list_all (\<lambda>m. length m \<le> max_frame_size) ms \<Longrightarrow>
   rpi_read_loop clk k (concat (map pipe_frame ms)) =
     (let live = takeWhile (\<lambda>m. \<not> is_error m) ms; videos = filter is_video live in
      (map (\<lambda>i. video_frame clk (k + i) (videos ! i)) [0..<length videos],
       if live = ms then PipeFailed PipeEOF else CameraError (tl (ms ! length live))))"
proof (induction ms arbitrary: k)
  case Nil
  then show ?case by (subst rpi_read_loop.simps) (simp add: pipe_read_nil)
next
  case (Cons m ms)
  have m: "length m \<le> max_frame_size" using Cons.prems by simp
  show ?case
  proof (cases "is_error m")
    case True
    then show ?thesis using rpi_read_framed [OF m, of clk k] by (simp add: is_error_def)
  next
    case no: False
    show ?thesis
    proof (cases "is_video m")
      case True
      then have "rpi_read_loop clk k (pipe_frame m @ concat (map pipe_frame ms)) =
          (case rpi_read_loop clk (k + 1) (concat (map pipe_frame ms)) of (fs, e) \<Rightarrow> (video_frame clk k m # fs, e))"
        using rpi_read_framed [OF m, of clk k] parse_video_message [OF True, of clk k] no
        by (auto simp: is_video_def is_error_def)
      then show ?thesis using Cons no True
        by (simp add: Let_def map_upt_Suc del: upt_Suc)
    next
      case False
      then have "rpi_read_loop clk k (pipe_frame m @ concat (map pipe_frame ms)) = rpi_read_loop clk k (concat (map pipe_frame ms))"
        using rpi_read_framed [OF m, of clk k] no by (auto simp: is_video_def is_error_def)
      then show ?thesis using Cons no False by (simp add: Let_def)
    qed
  qed
qed

section \<open>The reader beside Stop\<close>

text \<open>
  Where the reader goroutine and \<open>Stop\<close> are. \<open>RLast\<close> holds the access unit that \<open>readLoop\<close> flushes after
  the end of the stream. \<open>waits\<close> tells the sources apart: the RTSP source closes the channel only after its
  goroutine has ended. \<open>spawnSubprocess\<close> and the marking in \<open>Stop\<close> hold the same mutex, and a process
  is not started under a cancelled context.
\<close>

datatype reader_pos = RCheck | RSpawn | RRead | RSend | RLast | RClean | RBackoff | REnd

datatype stop_pos = SNot | SMarked | SCleaned | SClosed | SDone

record source_life =
  sl_stopped :: bool
  sl_process :: bool
  sl_closed :: bool
  sl_reader :: reader_pos
  sl_stop :: stop_pos

definition fresh_life :: source_life where
  "fresh_life = \<lparr>sl_stopped = False, sl_process = False, sl_closed = False, sl_reader = RCheck, sl_stop = SNot\<rparr>"

definition send_on :: "source_life \<Rightarrow> reader_pos \<Rightarrow> source_life option" where
  "send_on l then_at = (if sl_closed l then None else Some (l\<lparr>sl_reader := then_at\<rparr>))"

text \<open>A panic is \<open>None\<close>.\<close>

inductive source_step :: "bool \<Rightarrow> source_life option \<Rightarrow> source_life option \<Rightarrow> bool" for waits where
  check_run: "sl_reader l = RCheck \<Longrightarrow>
    source_step waits (Some l) (Some (l\<lparr>sl_reader := if sl_stopped l then REnd else RSpawn\<rparr>))"
| spawned: "sl_reader l = RSpawn \<Longrightarrow> \<not> sl_stopped l \<Longrightarrow>
    source_step waits (Some l) (Some (l\<lparr>sl_process := True, sl_reader := RRead\<rparr>))"
| spawn_failed: "sl_reader l = RSpawn \<Longrightarrow> source_step waits (Some l) (Some (l\<lparr>sl_reader := RBackoff\<rparr>))"
| frame_read: "sl_reader l = RRead \<Longrightarrow> sl_process l \<Longrightarrow> source_step waits (Some l) (Some (l\<lparr>sl_reader := RSend\<rparr>))"
| frame_sent: "sl_reader l = RSend \<Longrightarrow> source_step waits (Some l) (send_on l RRead)"
| process_died: "sl_process l \<Longrightarrow> source_step waits (Some l) (Some (l\<lparr>sl_process := False\<rparr>))"
| stream_ended: "sl_reader l = RRead \<Longrightarrow> \<not> sl_process l \<Longrightarrow> at \<in> {RLast, RClean} \<Longrightarrow>
    source_step waits (Some l) (Some (l\<lparr>sl_reader := at\<rparr>))"
| last_sent: "sl_reader l = RLast \<Longrightarrow> source_step waits (Some l) (send_on l RClean)"
| cleaned: "sl_reader l = RClean \<Longrightarrow>
    source_step waits (Some l) (Some (l\<lparr>sl_process := False, sl_reader := if sl_stopped l then REnd else RBackoff\<rparr>))"
| backed_off: "sl_reader l = RBackoff \<Longrightarrow>
    source_step waits (Some l) (Some (l\<lparr>sl_reader := if sl_stopped l then REnd else RCheck\<rparr>))"
| stop_mark: "sl_stop l = SNot \<Longrightarrow> source_step waits (Some l) (Some (l\<lparr>sl_stopped := True, sl_stop := SMarked\<rparr>))"
| stop_clean: "sl_stop l = SMarked \<Longrightarrow> source_step waits (Some l) (Some (l\<lparr>sl_process := False, sl_stop := SCleaned\<rparr>))"
| stop_close: "sl_stop l = SCleaned \<Longrightarrow> waits \<longrightarrow> sl_reader l = REnd \<Longrightarrow>
    source_step waits (Some l) (Some (l\<lparr>sl_closed := True, sl_stop := SClosed\<rparr>))"
| stop_done: "sl_stop l = SClosed \<Longrightarrow> source_step waits (Some l) (Some (l\<lparr>sl_stop := SDone\<rparr>))"

inductive_cases source_stepE: "source_step waits (Some l) s"
inductive_simps source_step_None: "source_step waits None s"

definition life_inv :: "bool \<Rightarrow> source_life \<Rightarrow> bool" where
  "life_inv waits l \<longleftrightarrow>
     (sl_stop l \<noteq> SNot \<longrightarrow> sl_stopped l) \<and>
     (sl_stop l \<in> {SCleaned, SClosed, SDone} \<longrightarrow> \<not> sl_process l) \<and>
     (sl_closed l \<longleftrightarrow> sl_stop l \<in> {SClosed, SDone}) \<and>
     (waits \<and> sl_closed l \<longrightarrow> sl_reader l = REnd)"

lemma source_step_inv:
  assumes "life_inv waits l" "source_step waits (Some l) s"
  shows "case s of None \<Rightarrow> \<not> waits | Some l' \<Rightarrow> life_inv waits l'"
  using assms(2,1)
  by (cases waits "Some l" s rule: source_step.cases) (auto simp: life_inv_def send_on_def split: if_splits)

lemma source_reachable_inv:
  "(source_step waits)\<^sup>*\<^sup>* (Some fresh_life) s \<Longrightarrow> case s of None \<Rightarrow> \<not> waits | Some l \<Rightarrow> life_inv waits l"
proof (induction rule: rtranclp_induct)
  case base
  then show ?case by (simp add: life_inv_def fresh_life_def)
next
  case (step s t)
  show ?case
  proof (cases s)
    case None
    then show ?thesis using step.hyps(2) by (simp add: source_step_None)
  next
    case (Some l)
    then show ?thesis using step source_step_inv by simp
  qed
qed

section \<open>The v4l2 source's resources\<close>

datatype v4l2_encoder = EncM2M | EncFFmpeg

record v4l2_source =
  vs_capture :: bool
  vs_encoder :: "v4l2_encoder option"
  vs_stop_closed :: bool
  vs_pumping :: bool

text \<open>
  What \<open>Start\<close> meets: a configured device, the capture opening, the probe (\<open>None\<close> for an error, otherwise
  whether the node encodes), the hardware encoder opening, a configured ffmpeg, and its process starting.
\<close>

record v4l2_env =
  ve_device :: bool
  ve_capture :: bool
  ve_probe :: "bool option"
  ve_m2m :: bool
  ve_ffmpeg_set :: bool
  ve_ffmpeg :: bool

datatype v4l2_error = NoDevice | CaptureFailed | NoEncoder | FFmpegFailed

definition v4l2_start :: "v4l2_env \<Rightarrow> v4l2_source \<Rightarrow> v4l2_error option \<times> v4l2_source" where
  "v4l2_start en s =
     (if \<not> ve_device en then (Some NoDevice, s)
      else if \<not> ve_capture en then (Some CaptureFailed, s)
      else
        let s1 = s\<lparr>vs_capture := True\<rparr>;
            s2 = (if ve_probe en = Some True \<and> ve_m2m en then s1\<lparr>vs_encoder := Some EncM2M\<rparr> else s1) in
        if vs_encoder s2 \<noteq> None then (None, s2\<lparr>vs_pumping := True\<rparr>)
        else if \<not> ve_ffmpeg_set en then (Some NoEncoder, s2)
        else if \<not> ve_ffmpeg en then (Some FFmpegFailed, s2\<lparr>vs_capture := False\<rparr>)
        else (None, s2\<lparr>vs_encoder := Some EncFFmpeg, vs_pumping := True\<rparr>))"

text \<open>\<open>Stop\<close> waits for the pump, which ends when the channel is closed.\<close>

definition v4l2_stop :: "v4l2_source \<Rightarrow> v4l2_source" where
  "v4l2_stop s = s\<lparr>vs_stop_closed := True, vs_pumping := False, vs_encoder := None, vs_capture := False\<rparr>"

definition new_v4l2_source :: v4l2_source where
  "new_v4l2_source = \<lparr>vs_capture = False, vs_encoder = None, vs_stop_closed = False, vs_pumping = False\<rparr>"

text \<open>The group of pictures: the conversion of a rate above one, doubled with wrap-around; \<open>oor\<close> as in \<open>f64_to_u32\<close>.\<close>

definition ffmpeg_gop :: "(float64 \<Rightarrow> 32 word) \<Rightarrow> params \<Rightarrow> 32 word" where
  "ffmpeg_gop oor p = (if f32_less 0x3F800000 (pa_fps p) then f64_to_u32 oor (f64_of_f32 (pa_fps p)) * 2 else 30)"

definition ffmpeg_encoder_args :: "(float64 \<Rightarrow> 32 word) \<Rightarrow> (float32 \<Rightarrow> string) \<Rightarrow> params \<Rightarrow> string \<Rightarrow> string list" where
  "ffmpeg_encoder_args oor fmt_g p preset =
     (let preset = (if preset = '''' then ''veryfast'' else preset) in
      [''-hide_banner'', ''-loglevel'', ''error'', ''-f'', ''rawvideo'', ''-pix_fmt'', ''yuv420p'',
       ''-s'', decimal (unat (pa_width p)) @ ''x'' @ decimal (unat (pa_height p)),
       ''-r'', fmt_g (pa_fps p), ''-i'', ''pipe:0'', ''-c:v'', ''libx264'', ''-preset'', preset,
       ''-tune'', ''zerolatency'', ''-profile:v'', ''baseline'', ''-pix_fmt'', ''yuv420p'',
       ''-b:v'', decimal (unat (pa_bitrate p)), ''-g'', decimal (unat (ffmpeg_gop oor p)),
       ''-f'', ''h264'', ''pipe:1''])"

text \<open>One hardware-encoded frame: the access unit is parsed and handed on with its key flag.\<close>

definition m2m_encode :: "bytes option \<Rightarrow> (nalu list \<times> bool) option option" where
  "m2m_encode au =
     (case au of
        None \<Rightarrow> Some None
      | Some b \<Rightarrow> (case parse b of None \<Rightarrow> None | Some ns \<Rightarrow> Some (Some (ns, list_ex is_idr ns))))"

section \<open>Restart schedules\<close>

lemma restart_failures:
  "0 < b \<Longrightarrow> b \<le> m \<Longrightarrow> restart_delays m b (replicate n SpawnFails @ as) =
     map (\<lambda>k. min (2 ^ k * b) m) [0..<n] @ restart_delays m (min (2 ^ n * b) m) as"
proof (induction n arbitrary: b)
  case (Suc n)
  have mm: "min (2 ^ k * min (b * 2) m) m = min (2 ^ Suc k * b) m" for k
  proof (cases "b * 2 \<le> m")
    case False
    have one: "(1::int) \<le> 2 ^ k" by simp
    have "m \<le> 2 ^ k * m" using Suc.prems mult_right_mono [OF one, of m] by simp
    moreover have "m \<le> 2 ^ Suc k * b"
    proof -
      have "b * 2 \<le> 2 ^ k * (b * 2)" using Suc.prems mult_right_mono [OF one, of "b * 2"] by simp
      moreover have "2 ^ Suc k * b = 2 ^ k * (b * 2)" by simp
      ultimately show ?thesis using False by linarith
    qed
    ultimately show ?thesis using False by simp
  qed (simp add: mult.commute mult.left_commute)
  have "0 < min (b * 2) m" "min (b * 2) m \<le> m" using Suc.prems by auto
  from Suc.IH [OF this] show ?case using Suc.prems by (simp add: mm map_upt_Suc del: upt_Suc power_Suc)
qed simp

lemma restart_after_run:
  "restart_delays m b (RanAndDied # as) = one_second # restart_delays m (min (one_second * 2) m) as"
  by (simp add: Let_def)


section \<open>The RTSP source's packet handler\<close>

text \<open>\<open>int64(elapsed.Seconds() * 90000)\<close>, whose operand is always in range.\<close>

definition rtsp_pts :: "int \<Rightarrow> int" where
  "rtsp_pts since_base =
     (let elapsed = i64 (since_base * 1000000) in
      case f64_trunc (f64_mul (duration_seconds elapsed) (f64_of_int 90000)) of Some n \<Rightarrow> n | None \<Rightarrow> 0)"

record rtsp_session =
  rs_base :: "int option"
  rs_first_ra :: bool
  rs_received :: bool

definition new_rtsp_session :: rtsp_session where
  "new_rtsp_session = \<lparr>rs_base = None, rs_first_ra = False, rs_received = False\<rparr>"

definition rtsp_au_bytes :: "bytes list \<Rightarrow> bytes" where
  "rtsp_au_bytes us = concat (map (\<lambda>u. [0, 0, 0, 1] @ u) us)"

text \<open>
  One packet, as the client library reports it: its time, if it is known, and the access unit the
  depacketizer completes with it, if any. \<open>is_ra\<close> is the codec library's random access test, \<open>now\<close> the clock.
  The result is the frame offered to the channel.
\<close>

definition rtsp_packet ::
    "(bytes list \<Rightarrow> bool) \<Rightarrow> int \<Rightarrow> rtsp_session \<Rightarrow> int option \<Rightarrow> bytes list option \<Rightarrow> rtsp_session \<times> pts_frame option" where
  "rtsp_packet is_ra now s pts au =
     (case pts of
        None \<Rightarrow> (s, None)
      | Some p \<Rightarrow>
          let s1 = (if rs_base s = None then s\<lparr>rs_base := Some p\<rparr> else s);
              since = i64 (p - the (rs_base s1)) in
          case au of
            None \<Rightarrow> (s1, None)
          | Some us \<Rightarrow>
              if \<not> rs_first_ra s1 \<and> \<not> is_ra us then (s1, None)
              else
                let s2 = s1\<lparr>rs_first_ra := True, rs_received := True\<rparr>;
                    nalu_data = rtsp_au_bytes us in
                if nalu_data = [] then (s2, None)
                else (s2, Some \<lparr>fr_data = nalu_data, fr_time = now, fr_pts = rtsp_pts since\<rparr>))"

fun rtsp_packets ::
    "(bytes list \<Rightarrow> bool) \<Rightarrow> int \<Rightarrow> rtsp_session \<Rightarrow> (int option \<times> bytes list option) list \<Rightarrow> rtsp_session \<times> pts_frame list" where
  "rtsp_packets is_ra now s [] = (s, [])"
| "rtsp_packets is_ra now s ((pts, au) # ps) =
     (let (s1, f) = rtsp_packet is_ra now s pts au; (s2, fs) = rtsp_packets is_ra now s1 ps in
      (s2, (case f of None \<Rightarrow> fs | Some x \<Rightarrow> x # fs)))"

text \<open>
  A session that goes wrong at one of its steps, or plays until the connection ends: whether a frame came,
  which resets the delay before the next connection.
\<close>

datatype rtsp_end = BadUrl | ConnectFailed | DescribeFailed | NoH264 | NoDecoder | SetupFailed | PlayFailed | Disconnected

definition rtsp_connect ::
    "(bytes list \<Rightarrow> bool) \<Rightarrow> int \<Rightarrow> rtsp_end \<Rightarrow> (int option \<times> bytes list option) list \<Rightarrow> bool \<times> rtsp_end \<times> pts_frame list" where
  "rtsp_connect is_ra now e ps =
     (if e \<noteq> Disconnected then (False, e, [])
      else let (s, fs) = rtsp_packets is_ra now new_rtsp_session ps in (rs_received s, Disconnected, fs))"


section \<open>Properties\<close>

text \<open>Whatever messages the process writes, each video message of at least nine bytes becomes one frame in order,
  with its payload, its own reading of the clock and its time converted from microseconds to 90 kHz without overflow;
  everything else is passed over, until an error message or the end of the pipe ends the loop.\<close>

theorem messages_become_frames:
  assumes "list_all (\<lambda>m. length m \<le> max_frame_size) ms"
  shows "rpi_read_loop clk 0 (concat (map pipe_frame ms)) =
     (let live = takeWhile (\<lambda>m. \<not> is_error m) ms; videos = filter is_video live in
      (map (\<lambda>i. \<lparr>fr_data = drop 9 (videos ! i), fr_time = clk i, fr_pts = go_div (sint (le_word (take 8 (drop 1 (videos ! i)))) * 90000) 1000000\<rparr>)
         [0..<length videos],
       if live = ms then PipeFailed PipeEOF else CameraError (tl (ms ! length live))))"
  using rpi_read_messages [OF assms, of clk 0] by (simp add: video_frame_def Let_def)

theorem messages_become_frames_witness:
  "rpi_read_loop (\<lambda>k. 7) 0 (concat (map pipe_frame [[98, 64, 66, 15, 0, 0, 0, 0, 0, 0xAA], [101, 33], []])) =
     ([\<lparr>fr_data = [0xAA], fr_time = 7, fr_pts = 90000\<rparr>], CameraError [33])"
proof -
  have "sint (le_word [64, 66, 15, 0, 0, 0, 0, 0]) = 1000000" by code_simp
  then show ?thesis
    using messages_become_frames [of "[[98, 64, 66, 15, 0, 0, 0, 0, 0, 0xAA], [101, 33], []]" "\<lambda>k. 7"]
    by (simp add: max_frame_size_def is_error_def is_video_def go_div_def)
qed

text \<open>Stopping a source whose goroutine is waited for never panics, and the channel is closed only after the
  goroutine has ended. Whichever way a source stops, no process is left running once \<open>Stop\<close> has cleaned up.\<close>

theorem stop_is_orderly:
  assumes "(source_step waits)\<^sup>*\<^sup>* (Some fresh_life) s"
  shows "case s of None \<Rightarrow> \<not> waits
    | Some l \<Rightarrow> (sl_stop l \<in> {SCleaned, SClosed, SDone} \<longrightarrow> sl_stopped l \<and> \<not> sl_process l) \<and>
        (waits \<and> sl_closed l \<longrightarrow> sl_reader l = REnd)"
  using source_reachable_inv [OF assms] by (auto simp: life_inv_def split: option.splits)

text \<open>C40: The process sources close the channel before their goroutine has ended: a frame read just before is then sent
  on a closed channel, which panics.\<close>

theorem stop_closes_under_the_reader: "(source_step False)\<^sup>*\<^sup>* (Some fresh_life) None"
proof -
  define l where "l = (\<lambda>st pr cl rd sp. \<lparr>sl_stopped = st, sl_process = pr, sl_closed = cl, sl_reader = rd, sl_stop = sp\<rparr>)"
  note step = converse_rtranclp_into_rtranclp [where r = "source_step False"]
  have "(source_step False)\<^sup>*\<^sup>* (Some (l False False False RCheck SNot)) None"
    apply (rule step [where b = "Some (l False False False RSpawn SNot)"])
    using source_step.check_run [of "l False False False RCheck SNot" False] apply (simp add: l_def)
    apply (rule step [where b = "Some (l False True False RRead SNot)"])
    using source_step.spawned [of "l False False False RSpawn SNot" False] apply (simp add: l_def)
    apply (rule step [where b = "Some (l False True False RSend SNot)"])
    using source_step.frame_read [of "l False True False RRead SNot" False] apply (simp add: l_def)
    apply (rule step [where b = "Some (l True True False RSend SMarked)"])
    using source_step.stop_mark [of "l False True False RSend SNot" False] apply (simp add: l_def)
    apply (rule step [where b = "Some (l True False False RSend SCleaned)"])
    using source_step.stop_clean [of "l True True False RSend SMarked" False] apply (simp add: l_def)
    apply (rule step [where b = "Some (l True False True RSend SClosed)"])
    using source_step.stop_close [of "l True False False RSend SCleaned" False] apply (simp add: l_def)
    apply (rule step [where b = None])
    using source_step.frame_sent [of "l True False True RSend SClosed" False] apply (simp add: l_def send_on_def)
    apply (rule rtranclp.rtrancl_refl)
    done
  then show ?thesis by (simp add: l_def fresh_life_def)
qed

text \<open>Starting the process holds two descriptors when it succeeds and none when it fails, whichever step fails,
  and the configuration pipe is there exactly when it succeeds.\<close>

theorem spawn_leaves_no_descriptor:
  assumes "rpi_pipe c = None" "rpi_spawn cv en c = (e, fds, c')"
  shows "(if e = None then fds = 2 else fds = 0) \<and> (rpi_pipe c' \<noteq> None \<longleftrightarrow> e = None)"
  using assms
  by (auto simp: rpi_spawn_def rpi_cleanup_def Let_def split: if_splits prod.splits bool.splits startup.splits)


definition example_spawn_env :: spawn_env where
  "example_spawn_env = \<lparr>se_conf_pipe = True, se_video_pipe = True, se_path = True, se_start = False, se_room = 0,
     se_bytes = [], se_timeout = False\<rparr>"

theorem spawn_leaves_no_descriptor_witness:
  "rpi_spawn example_conv example_spawn_env (pm_cam example_cam\<lparr>rpi_pipe := None\<rparr>) = (Some StartFailed, 0, pm_cam example_cam\<lparr>rpi_pipe := None\<rparr>)"
proof -
  have "rpi_spawn example_conv example_spawn_env (pm_cam example_cam\<lparr>rpi_pipe := None\<rparr>) = (Some StartFailed, 4 - 4, pm_cam example_cam\<lparr>rpi_pipe := None\<rparr>)"
    by (simp add: rpi_spawn_def example_spawn_env_def)
  then show ?thesis
    using spawn_leaves_no_descriptor [of "pm_cam example_cam\<lparr>rpi_pipe := None\<rparr>" example_conv example_spawn_env] by simp
qed

theorem stop_is_orderly_witness:
  "case (if True then Some (fresh_life\<lparr>sl_reader := RSpawn\<rparr>) else None) of None \<Rightarrow> \<not> True
    | Some l \<Rightarrow> (sl_stop l \<in> {SCleaned, SClosed, SDone} \<longrightarrow> sl_stopped l \<and> \<not> sl_process l) \<and>
        (True \<and> sl_closed l \<longrightarrow> sl_reader l = REnd)"
proof -
  have "source_step True (Some fresh_life) (Some (fresh_life\<lparr>sl_reader := RSpawn\<rparr>))"
    using source_step.check_run [of fresh_life True] by (simp add: fresh_life_def)
  then have "(source_step True)\<^sup>*\<^sup>* (Some fresh_life) (Some (fresh_life\<lparr>sl_reader := RSpawn\<rparr>))" by (rule r_into_rtranclp)
  from stop_is_orderly [OF this] show ?thesis by simp
qed

lemma reconnect_is_restart:
  "reconnect_delays b cs = restart_delays (30 * one_second) b (map (\<lambda>got. if got then RanAndDied else SpawnFails) cs)"
proof (induction cs arbitrary: b)
  case (Cons c cs)
  then show ?case by (cases c) (simp_all add: Let_def)
qed simp

lemma restart_lasting: "restart_delays m one_second (replicate n RanAndDied) = replicate n one_second"
proof -
  have "restart_delays m b (replicate n RanAndDied) = replicate n one_second" for b
    by (induction n arbitrary: b) (simp_all add: Let_def)
  then show ?thesis .
qed

text \<open>Failures in a row are retried after delays that double from one second up to the limit; after a process that
  did start, the next delay is one second again, however short it ran, so a process that dies whenever it has started is
  restarted every second without end. The RTSP source follows the same schedule, where a session counts as started only
  once it has delivered a frame.\<close>

theorem restart_schedule:
  "restart_delays (30 * one_second) one_second (replicate n SpawnFails) = map (\<lambda>k. min (2 ^ k * one_second) (30 * one_second)) [0..<n] \<and>
   restart_delays (30 * one_second) one_second (replicate n RanAndDied) = replicate n one_second \<and>
   restart_delays (30 * one_second) b (RanAndDied # as) = one_second # restart_delays (30 * one_second) (one_second * 2) as \<and>
   reconnect_delays b cs = restart_delays (30 * one_second) b (map (\<lambda>got. if got then RanAndDied else SpawnFails) cs)"
proof -
  have "0 < one_second" "one_second \<le> 30 * one_second" "min (one_second * 2) (30 * one_second) = one_second * 2" by (simp_all add: one_second_def)
  then show ?thesis using restart_failures [of one_second "30 * one_second" n "[]"]
    by (simp add: restart_lasting reconnect_is_restart restart_after_run)
qed

lemma rtsp_packets_started:
  "rs_first_ra s \<Longrightarrow> map fr_data (snd (rtsp_packets is_ra now s ps)) =
     filter (\<lambda>d. d \<noteq> []) (map rtsp_au_bytes [us. (Some p, Some us) \<leftarrow> ps]) \<and>
   rs_received (fst (rtsp_packets is_ra now s ps)) = (rs_received s \<or> [us. (Some p, Some us) \<leftarrow> ps] \<noteq> [])"
proof (induction is_ra now s ps rule: rtsp_packets.induct)
  case (2 is_ra now s pts au ps)
  then show ?case
    by (cases pts; cases au) (auto simp: rtsp_packet_def Let_def split_beta split: if_splits option.splits)
qed simp

text \<open>The frames of a session are the access units from the first random access point on, in order and in Annex B form,
  and a session counts as having delivered when there is such a point.\<close>

theorem rtsp_frames_start_at_key:
  "rtsp_connect is_ra now Disconnected ps =
     (let started = dropWhile (\<lambda>us. \<not> is_ra us) [us. (Some p, Some us) \<leftarrow> ps];
          frames = snd (rtsp_packets is_ra now new_rtsp_session ps) in
      (started \<noteq> [], Disconnected, frames)) \<and>
   map fr_data (snd (rtsp_packets is_ra now new_rtsp_session ps)) =
     filter (\<lambda>d. d \<noteq> []) (map rtsp_au_bytes
       (dropWhile (\<lambda>us. \<not> is_ra us) [us. (Some p, Some us) \<leftarrow> ps]))"
proof -
  have "\<not> rs_first_ra s \<Longrightarrow> \<not> rs_received s \<Longrightarrow>
     rs_received (fst (rtsp_packets is_ra now s ps)) = (dropWhile (\<lambda>us. \<not> is_ra us) [us. (Some p, Some us) \<leftarrow> ps] \<noteq> []) \<and>
     map fr_data (snd (rtsp_packets is_ra now s ps)) =
       filter (\<lambda>d. d \<noteq> []) (map rtsp_au_bytes
         (dropWhile (\<lambda>us. \<not> is_ra us) [us. (Some p, Some us) \<leftarrow> ps]))" for s
  proof (induction ps arbitrary: s)
    case (Cons q ps)
    obtain pts au where q: "q = (pts, au)" by (cases q)
    show ?case
    proof (cases "\<exists>p us. q = (Some p, Some us) \<and> is_ra us")
      case True
      then obtain p us where q: "q = (Some p, Some us)" "is_ra us" by auto
      show ?thesis
        using Cons.prems rtsp_packets_started [of _ is_ra now ps]
        by (auto simp: q rtsp_packet_def Let_def split_beta split: if_splits option.splits)
    next
      case False
      then show ?thesis using Cons.prems Cons.IH
        by (cases pts; cases au) (auto simp: q rtsp_packet_def Let_def split_beta split: if_splits option.splits)
    qed
  qed simp
  from this [of new_rtsp_session] show ?thesis
    by (simp add: rtsp_connect_def split_beta new_rtsp_session_def)
qed

text \<open>A library time of one second, 90000 ticks, becomes ninety seconds of 90 kHz ticks, because the handler
  takes the ticks for milliseconds.\<close>

lemma rtsp_pts_second: "rtsp_pts 90000 = 90 * 90000"
proof -
  have "f64_mul (duration_seconds 90000000000) (f64_of_int 90000) = f64_of_int 8100000" by code_simp
  then show ?thesis using f64_trunc_of_int [of 8100000] by (simp add: rtsp_pts_def)
qed

text \<open>The v4l2 source runs only with an open capture and encoder, a failing \<open>Start\<close> leaves nothing open except
  that the capture stays open when there is no encoder at all, and \<open>Stop\<close> releases everything.\<close>

theorem v4l2_start_resources:
  "case v4l2_start en new_v4l2_source of (e, s) \<Rightarrow>
     (vs_pumping s \<longleftrightarrow> e = None) \<and> (vs_encoder s \<noteq> None \<longleftrightarrow> e = None) \<and>
     (vs_capture s \<longleftrightarrow> e = None \<or> e = Some NoEncoder) \<and>
     v4l2_stop s = new_v4l2_source\<lparr>vs_stop_closed := True\<rparr>"
  by (simp add: v4l2_start_def v4l2_stop_def new_v4l2_source_def Let_def)


section \<open>The rpicam-vid source starts\<close>

text \<open>
  Which encoder the raw pipeline of a quarter turn gets, with the size it encodes: the hardware node when it
  probes capable and opens, else ffmpeg. The environment is that of \<open>v4l2_start\<close>.
\<close>

definition resolve_yuv_encoder :: "v4l2_env \<Rightarrow> int \<Rightarrow> params \<Rightarrow> v4l2_error + v4l2_encoder \<times> nat \<times> nat" where
  "resolve_yuv_encoder en rotation p =
     (let (ew, eh) = rotated_dims (unat (pa_width p)) (unat (pa_height p)) rotation in
      if ve_probe en = Some True \<and> ve_m2m en then Inr (EncM2M, ew, eh)
      else if \<not> ve_ffmpeg_set en then Inl NoEncoder
      else if \<not> ve_ffmpeg en then Inl FFmpegFailed
      else Inr (EncFFmpeg, ew, eh))"

datatype vid_start_error = AlreadyStarted | BinaryMissing | NoRotationEncoder v4l2_error

record vid_source =
  vd_started :: bool
  vd_rotation :: int
  vd_params :: params
  vd_sub_tap :: bool
  vd_ai_tap :: bool
  vd_yuv_mode :: bool
  vd_encoder :: "(v4l2_encoder \<times> nat \<times> nat) option"
  vd_channel :: bool

definition vid_start :: "bool \<Rightarrow> v4l2_env \<Rightarrow> vid_source \<Rightarrow> vid_start_error option \<times> vid_source" where
  "vid_start found en c =
     (if vd_started c then (Some AlreadyStarted, c)
      else if \<not> found then (Some BinaryMissing, c)
      else
        let yuv = vid_yuv_mode_of (vd_rotation c);
            c1 = c\<lparr>vd_started := True, vd_channel := True, vd_yuv_mode := yuv,
                   vd_sub_tap := vd_sub_tap c \<and> yuv, vd_ai_tap := vd_ai_tap c \<and> yuv\<rparr> in
        if \<not> yuv then (None, c1)
        else case resolve_yuv_encoder en (vd_rotation c) (vd_params c) of
               Inl e \<Rightarrow> (Some (NoRotationEncoder e), c1\<lparr>vd_started := False, vd_channel := False\<rparr>)
             | Inr enc \<Rightarrow> (None, c1\<lparr>vd_encoder := Some enc\<rparr>))"

definition rpi_start :: "bool \<Rightarrow> bool \<Rightarrow> vid_start_error option \<times> bool" where
  "rpi_start found started =
     (if started then (Some AlreadyStarted, started) else if \<not> found then (Some BinaryMissing, started) else (None, True))"

datatype idr_error = NotStarted | IdrUnsupported | RequestFailed

text \<open>Only the hardware encoder takes the request; \<open>ok\<close> is whether the device accepts it.\<close>

definition force_idr :: "bool \<Rightarrow> v4l2_encoder option \<Rightarrow> idr_error option" where
  "force_idr ok enc = (case enc of None \<Rightarrow> Some NotStarted | Some EncM2M \<Rightarrow> if ok then None else Some RequestFailed | Some EncFFmpeg \<Rightarrow> Some IdrUnsupported)"

definition vid_force_idr :: "bool \<Rightarrow> vid_source \<Rightarrow> idr_error option" where
  "vid_force_idr ok c =
     (if \<not> vd_yuv_mode c \<or> vd_encoder c = None then Some IdrUnsupported else force_idr ok (map_option fst (vd_encoder c)))"

text \<open>A started source in a quarter turn has an encoder for the turned size and keeps its taps; any other drops them.
  A start that fails can be tried again.\<close>

theorem vid_start_outcomes:
  "case vid_start found en c of (e, c') \<Rightarrow>
     (e = None \<longrightarrow> vd_started c' \<and> vd_channel c' \<and>
        (if vd_rotation c = 90 \<or> vd_rotation c = 270
         then (\<exists>k. vd_encoder c' = Some (k, unat (pa_height (vd_params c)), unat (pa_width (vd_params c)))) \<and>
           vd_sub_tap c' = vd_sub_tap c \<and> vd_ai_tap c' = vd_ai_tap c
         else \<not> vd_sub_tap c' \<and> \<not> vd_ai_tap c' \<and> vd_encoder c' = vd_encoder c)) \<and>
     (e \<noteq> None \<longrightarrow> vd_started c' = vd_started c)"
  by (auto simp: vid_start_def resolve_yuv_encoder_def rotated_dims_def vid_yuv_mode_of_def Let_def split: prod.splits sum.splits if_splits)

end
