(* ===== verification/Substream.thy ===== *)
theory Substream
  imports Yuv H264
begin

text \<open>
  The substream pipeline of \<open>internal/camera/substream.go\<close>: fractional decimation, the tap that
  downscales into the bounded queue, the encoder loop with its failover budget, and the emission of
  access units. A panic is \<open>None\<close>; whether a device probes, an encoder opens and an \<open>Encode\<close> call
  succeeds are arguments. Encoders are numbered in the order they are opened.
\<close>

section \<open>Decimation\<close>

function go_gcd :: "int \<Rightarrow> int \<Rightarrow> int" where
  "go_gcd a b = (if b \<noteq> 0 then go_gcd b (go_mod a b) else a)"
  by pat_completeness auto

lemma go_mod_smaller: "b \<noteq> 0 \<Longrightarrow> \<bar>go_mod a b\<bar> < \<bar>b\<bar>"
  by (auto simp: go_mod_def abs_mult sgn_if)

termination go_gcd
  by (relation "measure (\<lambda>(a, b). nat \<bar>b\<bar>)") (auto simp: go_mod_smaller)

declare go_gcd.simps [simp del]

lemma go_gcd_gcd: "0 \<le> a \<Longrightarrow> 0 \<le> b \<Longrightarrow> go_gcd a b = gcd a b"
proof (induction a b rule: go_gcd.induct)
  case (1 a b)
  show ?case
  proof (cases "b = 0")
    case True
    then show ?thesis using 1(2) by (simp add: go_gcd.simps [of a])
  next
    case False
    then have b: "0 < b" using 1(3) by simp
    have "go_mod a b = a mod b" using 1(2) b by (cases "a = 0") (simp_all add: go_mod_def)
    then have "go_gcd a b = gcd b (a mod b)" using 1 False b by (subst go_gcd.simps) simp
    then show ?thesis by (simp only: gcd_red_int [of a b])
  qed
qed

definition sub_rate :: "int \<Rightarrow> int \<Rightarrow> int" where
  "sub_rate fps main_fps =
     (let f = (if fps \<le> 0 then main_fps else fps) in if f \<le> 0 then 15 else f)"

definition decimation :: "int \<Rightarrow> int \<Rightarrow> int \<times> int" where
  "decimation main_fps sub_fps =
     (if sub_fps < main_fps then
        let g = go_gcd main_fps sub_fps in (go_div main_fps g, go_div sub_fps g)
      else (1, 1))"

section \<open>The pipeline\<close>

record sub_options =
  so_src_w :: int
  so_src_h :: int
  so_width :: int
  so_height :: int
  so_fps :: int
  so_ffmpeg :: bool
  so_main_fps :: int

record substream =
  sp_opts :: sub_options
  sp_sub_fps :: int
  sp_period :: "32 word"
  sp_keep :: "32 word"
  sp_enc :: "nat option"
  sp_opened :: nat
  sp_closed :: "nat list"
  sp_frames :: "bytes list"
  sp_frames_closed :: bool
  sp_tap :: "bytes list"
  sp_on_fallback :: bool
  sp_disabled :: bool
  sp_consec :: nat
  sp_counter :: "64 word"
  sp_dropped :: "64 word"

definition tap_capacity :: nat where
  "tap_capacity = 2"

definition frames_capacity :: nat where
  "frames_capacity = 16"

definition failover_budget :: nat where
  "failover_budget = 10"

text \<open>
  \<open>probe\<close> is \<open>None\<close> for an error and otherwise whether the device encodes; the other two say
  whether the device and the subprocess encoder open.
\<close>

definition new_substream :: "sub_options \<Rightarrow> bool option \<Rightarrow> bool \<Rightarrow> bool \<Rightarrow> substream option" where
  "new_substream o1 probe m2m_opens ffmpeg_opens =
     (let sub_fps = sub_rate (so_fps o1) (so_main_fps o1);
          (period, keep) = decimation (so_main_fps o1) sub_fps;
          p = \<lparr>sp_opts = o1, sp_sub_fps = sub_fps, sp_period = of_int period, sp_keep = of_int keep,
               sp_enc = Some 0, sp_opened = 1, sp_closed = [], sp_frames = [], sp_frames_closed = False,
               sp_tap = [], sp_on_fallback = False, sp_disabled = False, sp_consec = 0,
               sp_counter = 0, sp_dropped = 0\<rparr>
      in if probe = Some True \<and> m2m_opens then Some p
         else if \<not> so_ffmpeg o1 then None
         else if ffmpeg_opens then Some p else None)"

definition count_drop :: "substream \<Rightarrow> substream" where
  "count_drop p = p\<lparr>sp_dropped := sp_dropped p + 1\<rparr>"

definition decimated :: "32 word \<Rightarrow> 32 word \<Rightarrow> 64 word \<Rightarrow> bool" where
  "decimated period keep n \<longleftrightarrow> keep \<le> ucast n mod period"

text \<open>\<open>old\<close> is the pooled buffer the tap happens to get.\<close>

definition tap_downscaled :: "bytes \<Rightarrow> substream \<Rightarrow> substream" where
  "tap_downscaled sub p =
     (if length (sp_tap p) < tap_capacity then p\<lparr>sp_tap := sp_tap p @ [sub]\<rparr> else count_drop p)"

definition tap_frame :: "bytes \<Rightarrow> bytes \<Rightarrow> 32 word \<Rightarrow> 32 word \<Rightarrow> substream \<Rightarrow> substream option" where
  "tap_frame old frame w h p =
     (if w \<noteq> of_int (so_src_w (sp_opts p)) \<or> h \<noteq> of_int (so_src_h (sp_opts p)) then Some (count_drop p)
      else if sp_disabled p then Some (count_drop p)
      else
        let n = sp_counter p + 1; p1 = (if 1 < sp_period p then p\<lparr>sp_counter := n\<rparr> else p) in
        if 1 < sp_period p \<and> decimated (sp_period p) (sp_keep p) n then Some (count_drop p1)
        else map_option (\<lambda>sub. tap_downscaled sub p1)
               (downscale_into old frame (of_int (so_src_w (sp_opts p))) (of_int (so_src_h (sp_opts p)))
                 (of_int (so_width (sp_opts p))) (of_int (so_height (sp_opts p)))))"

definition close_enc :: "substream \<Rightarrow> substream" where
  "close_enc p = (case sp_enc p of None \<Rightarrow> p | Some e \<Rightarrow> p\<lparr>sp_closed := sp_closed p @ [e], sp_enc := None\<rparr>)"

definition failover :: "bool \<Rightarrow> substream \<Rightarrow> substream" where
  "failover fallback_opens p =
     (let p1 = close_enc p in
      if sp_on_fallback p1 then p1\<lparr>sp_disabled := True, sp_consec := 0\<rparr>
      else if \<not> fallback_opens then p1\<lparr>sp_disabled := True, sp_consec := 0\<rparr>
      else p1\<lparr>sp_enc := Some (sp_opened p1), sp_opened := sp_opened p1 + 1, sp_on_fallback := True, sp_consec := 0\<rparr>)"

text \<open>
  One round of the loop of \<open>Run\<close>: the frame at the head of the tap (nothing happens when it is
  empty), whether \<open>Encode\<close> succeeds, and whether a fallback would open. Calling a nil encoder panics.
\<close>

definition run_round :: "bool \<Rightarrow> bool \<Rightarrow> substream \<Rightarrow> substream option" where
  "run_round encode_ok fallback_opens p =
     (case sp_tap p of
        [] \<Rightarrow> Some p
      | frame # rest \<Rightarrow>
          let p1 = p\<lparr>sp_tap := rest\<rparr> in
          if sp_disabled p1 then Some p1
          else case sp_enc p1 of
                 None \<Rightarrow> None
               | Some _ \<Rightarrow>
                   if encode_ok then Some (p1\<lparr>sp_consec := 0\<rparr>)
                   else
                     let p2 = p1\<lparr>sp_consec := sp_consec p1 + 1\<rparr> in
                     Some (if failover_budget \<le> sp_consec p2 then failover fallback_opens p2 else p2))"

text \<open>The deferred calls when \<open>Run\<close> ends: the encoder is closed, then the channel.\<close>

definition run_exit :: "substream \<Rightarrow> substream" where
  "run_exit p = (case sp_enc p of None \<Rightarrow> p | Some e \<Rightarrow> p\<lparr>sp_closed := sp_closed p @ [e]\<rparr>)\<lparr>sp_frames_closed := True\<rparr>"

text \<open>A send on the closed channel panics.\<close>

definition emit :: "nalu list \<Rightarrow> substream \<Rightarrow> substream option" where
  "emit nalus p =
     (if nalus = [] then Some p
      else
        let data = concat (map (\<lambda>n. [0, 0, 0, 1] @ nal_data n) nalus) in
        if sp_frames_closed p then None
        else if length (sp_frames p) < frames_capacity then Some (p\<lparr>sp_frames := sp_frames p @ [data]\<rparr>)
        else Some (count_drop p))"

section \<open>Runs\<close>

datatype sub_event = Tapped bytes bytes "32 word" "32 word" | Round bool bool | Emitted "nalu list"

fun sub_step :: "sub_event \<Rightarrow> substream \<Rightarrow> substream option" where
  "sub_step (Tapped old frame w h) p = tap_frame old frame w h p"
| "sub_step (Round encode_ok fallback_opens) p = run_round encode_ok fallback_opens p"
| "sub_step (Emitted nalus) p = emit nalus p"


fun sub_run :: "sub_event list \<Rightarrow> substream \<Rightarrow> substream option" where
  "sub_run [] p = Some p"
| "sub_run (e # es) p = Option.bind (sub_step e p) (sub_run es)"


section \<open>The state of the pipeline\<close>

definition sub_ok :: "sub_options \<Rightarrow> bool" where
  "sub_ok o1 \<longleftrightarrow> downscale_ok (of_int (so_src_w o1)) (of_int (so_src_h o1)) (of_int (so_width o1)) (of_int (so_height o1))"

definition sub_wf :: "substream \<Rightarrow> bool" where
  "sub_wf p \<longleftrightarrow> sub_ok (sp_opts p) \<and> length (sp_tap p) \<le> tap_capacity \<and> length (sp_frames p) \<le> frames_capacity \<and>
     \<not> sp_frames_closed p \<and> sp_consec p < failover_budget \<and>
     sp_opened p = (if sp_on_fallback p then 2 else 1) \<and>
     (if sp_disabled p then sp_enc p = None \<and> sp_closed p = [0..<sp_opened p]
      else sp_enc p = Some (sp_opened p - 1) \<and> sp_closed p = [0..<sp_opened p - 1])"

lemma downscale_total:
  assumes "downscale_ok sw sh dw dh"
  shows "\<exists>out. downscale_into old src sw sh dw dh = Some out"
proof (cases "dw = sw \<and> dh = sh \<or> length src < unat sw * unat sh + 2 * (unat sw div 2 * (unat sh div 2))")
  case True
  then show ?thesis unfolding downscale_into_def Let_def downscale_words [OF assms] by auto
next
  case False
  then show ?thesis using downscale_into_source [OF assms, of src old] by auto
qed

lemma new_substream_wf: "new_substream o1 probe m f = Some p \<Longrightarrow> sub_ok o1 \<Longrightarrow> sub_wf p"
  by (auto simp: new_substream_def Let_def sub_wf_def failover_budget_def split: prod.splits if_splits)

lemma count_drop_wf [simp]: "sub_wf (count_drop p) = sub_wf p"
  by (simp add: sub_wf_def count_drop_def)

lemma tap_frame_wf: "sub_wf p \<Longrightarrow> \<exists>p'. tap_frame old frame w h p = Some p' \<and> sub_wf p'"
proof -
  assume wf: "sub_wf p"
  then have "downscale_ok (of_int (so_src_w (sp_opts p))) (of_int (so_src_h (sp_opts p)))
      (of_int (so_width (sp_opts p))) (of_int (so_height (sp_opts p)))"
    by (simp add: sub_wf_def sub_ok_def)
  from downscale_total [OF this, of old frame] obtain out where
    out: "downscale_into old frame (of_int (so_src_w (sp_opts p))) (of_int (so_src_h (sp_opts p)))
      (of_int (so_width (sp_opts p))) (of_int (so_height (sp_opts p))) = Some out" by blast
  have "sub_wf (p\<lparr>sp_counter := n\<rparr>)" for n using wf by (simp add: sub_wf_def)
  moreover have "sub_wf (tap_downscaled out q)" if "sub_wf q" for q
    using that by (auto simp: tap_downscaled_def sub_wf_def count_drop_def)
  ultimately show ?thesis using wf out by (auto simp: tap_frame_def Let_def)
qed

lemma close_enc_simps [simp]:
  "sp_on_fallback (close_enc p) = sp_on_fallback p" "sp_opened (close_enc p) = sp_opened p"
  "sp_enc (close_enc p) = None" "sp_tap (close_enc p) = sp_tap p" "sp_opts (close_enc p) = sp_opts p"
  "sp_frames (close_enc p) = sp_frames p" "sp_frames_closed (close_enc p) = sp_frames_closed p"
  "sp_disabled (close_enc p) = sp_disabled p"
  "sp_closed (close_enc p) = sp_closed p @ (case sp_enc p of None \<Rightarrow> [] | Some e \<Rightarrow> [e])"
  by (simp_all add: close_enc_def split: option.splits)

lemma failover_wf: "sub_wf (p\<lparr>sp_consec := 0\<rparr>) \<Longrightarrow> \<not> sp_disabled p \<Longrightarrow> sub_wf (failover fb p)"
  by (cases "sp_on_fallback p"; cases fb)
    (simp_all add: failover_def sub_wf_def Let_def failover_budget_def upt_rec numeral_2_eq_2)

lemma run_round_cases:
  assumes "sub_wf p" "sp_tap p = frame # rest" "\<not> sp_disabled p"
  shows "run_round ok fb p = Some (if ok then p\<lparr>sp_tap := rest, sp_consec := 0\<rparr>
     else if failover_budget \<le> sp_consec p + 1 then failover fb (p\<lparr>sp_tap := rest, sp_consec := sp_consec p + 1\<rparr>)
     else p\<lparr>sp_tap := rest, sp_consec := sp_consec p + 1\<rparr>)"
  using assms by (simp add: run_round_def sub_wf_def)

lemma run_round_wf: "sub_wf p \<Longrightarrow> \<exists>p'. run_round ok fb p = Some p' \<and> sub_wf p'"
proof (cases "sp_tap p")
  case (Cons frame rest)
  assume wf: "sub_wf p"
  have upd: "sub_wf (p\<lparr>sp_tap := rest, sp_consec := n\<rparr>)" if "n < failover_budget" for n
    using wf that Cons by (simp add: sub_wf_def)
  show ?thesis
  proof (cases "sp_disabled p")
    case True
    have "sub_wf (p\<lparr>sp_tap := rest\<rparr>)" using wf Cons by (simp add: sub_wf_def)
    then show ?thesis using Cons True by (simp add: run_round_def)
  next
    case False
    have "sub_wf (failover fb (p\<lparr>sp_tap := rest, sp_consec := n\<rparr>))" for n
      using failover_wf [of "p\<lparr>sp_tap := rest, sp_consec := n\<rparr>"] upd [of 0] False by (simp add: failover_budget_def)
    then show ?thesis
      using run_round_cases [OF wf Cons False, of ok fb] upd by (auto simp: failover_budget_def)
  qed
qed (simp add: run_round_def)

lemma emit_wf: "sub_wf p \<Longrightarrow> \<exists>p'. emit nalus p = Some p' \<and> sub_wf p'"
  by (auto simp: emit_def Let_def sub_wf_def count_drop_def)

lemma sub_step_wf: "sub_wf p \<Longrightarrow> \<exists>p'. sub_step e p = Some p' \<and> sub_wf p'"
  by (cases e) (simp_all add: tap_frame_wf run_round_wf emit_wf)

lemma sub_run_wf: "sub_wf p \<Longrightarrow> \<exists>p'. sub_run es p = Some p' \<and> sub_wf p'"
proof (induction es arbitrary: p)
  case (Cons e es)
  then show ?case using sub_step_wf [of p e] by fastforce
qed simp

text \<open>How many more failing calls the pipeline takes before it gives up.\<close>

definition patience :: "substream \<Rightarrow> nat" where
  "patience p = (if sp_disabled p then 0
     else failover_budget - sp_consec p + (if sp_on_fallback p then 0 else failover_budget))"

lemma patience_simps [simp]:
  "patience (count_drop p) = patience p" "patience (p\<lparr>sp_counter := n\<rparr>) = patience p"
  "patience (p\<lparr>sp_tap := t\<rparr>) = patience p" "patience (p\<lparr>sp_frames := f\<rparr>) = patience p"
  by (simp_all add: patience_def count_drop_def)

lemma patience_tap_downscaled [simp]: "patience (tap_downscaled sub p) = patience p"
  by (simp add: tap_downscaled_def)





section \<open>The decimation ratio\<close>

lemma mod_window: "K \<le> P \<Longrightarrow> length (filter (\<lambda>i. i mod P < K) [c..<c + P]) = (K :: nat)"
proof (induction c)
  case 0
  have "filter (\<lambda>i. i mod P < K) [0..<P] = filter (\<lambda>i. i < K) [0..<P]"
    by (rule filter_cong) auto
  also have "\<dots> = [0..<K]" using 0
    by (induction P) (auto simp: le_Suc_eq filter_empty_conv)
  finally show ?case by simp
next
  case (Suc c)
  show ?case
  proof (cases "P = 0")
    case False
    then have "[c..<c + P] = c # [Suc c..<c + P]" "[Suc c..<Suc c + P] = [Suc c..<c + P] @ [c + P]"
      by (simp_all add: upt_conv_Cons)
    then show ?thesis using Suc by (simp split: if_split_asm)
  qed (use Suc in simp)
qed

lemma mod_windows: "K \<le> P \<Longrightarrow> length (filter (\<lambda>i. i mod P < K) [c..<c + g * P]) = g * (K :: nat)"
proof (induction g)
  case (Suc g)
  have "[c..<c + Suc g * P] = [c..<c + g * P] @ [c + g * P..<c + g * P + P]"
    using upt_add_eq_append [of c "c + g * P" P] by (simp add: algebra_simps)
  then show ?case using Suc mod_window [OF Suc(2), of "c + g * P"] by simp
qed simp

lemma decimation_ratio:
  assumes "0 < sub_fps" "sub_fps < main_fps"
  shows "\<exists>g period keep. decimation main_fps sub_fps = (period, keep) \<and> 0 < g \<and> main_fps = g * period \<and>
    sub_fps = g * keep \<and> 0 < keep \<and> keep < period"
proof -
  let ?g = "gcd main_fps sub_fps"
  have g: "0 < ?g" using assms by simp
  have "go_gcd main_fps sub_fps = ?g" using assms by (intro go_gcd_gcd) auto
  then have d: "decimation main_fps sub_fps = (main_fps div ?g, sub_fps div ?g)"
    using assms g by (simp add: decimation_def go_div_nonneg Let_def)
  have m: "main_fps = ?g * (main_fps div ?g)" "sub_fps = ?g * (sub_fps div ?g)" by simp_all
  have "0 < sub_fps div ?g" using m(2) assms(1) g by (metis zero_less_mult_pos)
  moreover have "sub_fps div ?g < main_fps div ?g"
    using m assms(2) g by (metis mult_less_cancel_left_pos)
  ultimately show ?thesis using d g m by blast
qed

lemma decimated_nat:
  assumes "n < 2 ^ 32" "0 < period" "period < 2 ^ 32" "0 \<le> keep" "keep < 2 ^ 32"
  shows "decimated (of_int period) (of_int keep) (of_nat n) \<longleftrightarrow> nat keep \<le> n mod nat period"
proof -
  have u: "unat (of_int x :: 32 word) = nat x" if "0 \<le> x" "x < 2 ^ 32" for x
  proof -
    obtain k where "x = int k" using \<open>0 \<le> x\<close> nonneg_int_cases by blast
    then show ?thesis using that(2) by (simp add: unat_of_nat)
  qed
  have "unat (ucast (of_nat n :: 64 word) :: 32 word) = n"
    using assms(1) by (simp add: unsigned_ucast_eq unat_of_nat take_bit_eq_mod)
  then show ?thesis
    using u [of period] u [of keep] assms by (simp add: decimated_def word_le_nat_alt unat_mod)
qed


section \<open>Properties\<close>

text \<open>C29: The pipeline never panics, whatever order frames, encoder rounds and emissions come in and
  whichever calls fail: a running pipeline always has an encoder, the queues stay within their bounds,
  and when the loop ends every encoder that was ever opened has been closed exactly once.\<close>

theorem substream_never_panics_or_leaks:
  assumes "new_substream o1 probe m2m_opens ffmpeg_opens = Some p" "sub_ok o1"
  shows "\<exists>p'. sub_run es p = Some p' \<and> (sp_disabled p' \<or> sp_enc p' \<noteq> None) \<and>
     length (sp_tap p') \<le> tap_capacity \<and> length (sp_frames p') \<le> frames_capacity \<and>
     sp_opened p' \<le> 2 \<and> sp_closed (run_exit p') = [0..<sp_opened p']"
proof -
  have "sub_wf p" using new_substream_wf assms by blast
  then obtain p' where p': "sub_run es p = Some p'" "sub_wf p'" using sub_run_wf by blast
  have "sp_closed (run_exit p') = [0..<sp_opened p']"
  proof (cases "sp_disabled p'")
    case False
    then have "sp_enc p' = Some (sp_opened p' - 1)" "sp_closed p' = [0..<sp_opened p' - 1]" "0 < sp_opened p'"
      using p'(2) by (auto simp: sub_wf_def)
    then show ?thesis by (cases "sp_opened p'") (simp_all add: run_exit_def)
  qed (use p'(2) in \<open>simp add: sub_wf_def run_exit_def\<close>)
  then show ?thesis using p' by (auto simp: sub_wf_def)
qed

definition demo_options :: sub_options where
  "demo_options = \<lparr>so_src_w = 4, so_src_h = 2, so_width = 2, so_height = 2, so_fps = 10, so_ffmpeg = True, so_main_fps = 15\<rparr>"

lemma demo_options_ok: "sub_ok demo_options"
  by (simp add: sub_ok_def demo_options_def downscale_ok_def)

lemma demo_substream: "\<exists>p. new_substream demo_options (Some True) True False = Some p"
  by (simp add: new_substream_def Let_def case_prod_beta)

theorem substream_never_panics_or_leaks_witness:
  "\<exists>p p'. new_substream demo_options (Some True) True False = Some p \<and>
     sub_run [Tapped [] [1, 2, 3, 4, 5, 6, 7, 8, 9, 10, 11, 12] 4 2, Round False True, Emitted []] p = Some p' \<and>
     sp_closed (run_exit p') = [0..<sp_opened p']"
proof -
  obtain p where p: "new_substream demo_options (Some True) True False = Some p" using demo_substream by blast
  from substream_never_panics_or_leaks [OF p demo_options_ok,
      of "[Tapped [] [1, 2, 3, 4, 5, 6, 7, 8, 9, 10, 11, 12] 4 2, Round False True, Emitted []]"]
  show ?thesis using p by blast
qed



text \<open>Decimation is exact: among any \<open>main_fps\<close> consecutive frames, one second of the main
  stream, exactly \<open>sub_fps\<close> reach the encoder, whatever the phase of the counter, until the counter
  passes 32 bits.\<close>

theorem decimation_keeps_exact_rate:
  assumes "0 < sub_fps" "sub_fps < main_fps" "main_fps < 2 ^ 31" "nat main_fps + c < 2 ^ 32"
    and "decimation main_fps sub_fps = (period, keep)"
  shows "length (filter (\<lambda>n. \<not> decimated (of_int period) (of_int keep) (of_nat n)) [c..<c + nat main_fps]) = nat sub_fps"
proof -
  obtain g where g: "0 < g" "main_fps = g * period" "sub_fps = g * keep" "0 < keep" "keep < period"
    using decimation_ratio [OF assms(1,2)] assms(5) by auto
  have p: "period < 2 ^ 32"
  proof -
    have "1 * period \<le> g * period" using g(1,4,5) by (intro mult_right_mono) auto
    moreover have "main_fps < 2147483648" using assms(3) by simp
    ultimately show ?thesis using g(2) by simp
  qed
  have m: "nat main_fps = nat g * nat period" "nat sub_fps = nat g * nat keep"
    using g by (simp_all add: nat_mult_distrib)
  have "filter (\<lambda>n. \<not> decimated (of_int period) (of_int keep) (of_nat n)) [c..<c + nat main_fps] =
      filter (\<lambda>n. n mod nat period < nat keep) [c..<c + nat main_fps]"
    using g p assms(4) by (intro filter_cong refl) (subst decimated_nat; simp add: not_le)
  then show ?thesis
    using mod_windows [of "nat keep" "nat period" c "nat g"] g m by simp
qed

theorem decimation_keeps_exact_rate_witness:
  "length (filter (\<lambda>n. \<not> decimated 3 2 (of_nat n)) [7..<22]) = 10"
proof -
  have "decimation 15 10 = (3, 2)" by code_simp
  from decimation_keeps_exact_rate [OF _ _ _ _ this, of 7] show ?thesis by simp
qed

text \<open>What a consumer of the sub stream parses out of an emitted frame is the encoder's units.\<close>

lemma emitted_frame_parses:
  assumes "\<forall>n\<in>set nalus. nal_data n \<noteq> [] \<and> no_start_code (nal_data n) \<and> n = nalu_of (nal_data n)"
    and "nalus \<noteq> []" "emit nalus p = Some p'" "length (sp_frames p) < frames_capacity"
  shows "parse (last (sp_frames p')) = Some nalus"
proof -
  have "last (sp_frames p') = annexb (map nal_data nalus)"
    using assms by (auto simp: emit_def annexb_def comp_def split: if_splits)
  moreover have "map nalu_of (map nal_data nalus) = nalus"
    using assms(1) by (simp add: map_idI)
  ultimately show ?thesis using parse_annexb [of "map nal_data nalus"] assms(1) by simp
qed

end
