(* ===== verification/Restartable.thy ===== *)
theory Restartable
  imports Prelude "HOL-Library.Sublist"
begin

text \<open>
  The restartable camera of \<open>internal/camera/restartable.go\<close>: one stable output channel, a current
  source that \<open>Restart\<close> swaps, and one pump goroutine per started source. A source is what the
  \<open>Camera\<close> interface promises: frames come while it runs, its channel closes when \<open>Stop\<close>
  succeeds; the outcomes of \<open>Start\<close>, \<open>Stop\<close> and the factory are arbitrary. The goroutines make
  the component a step relation; \<open>None\<close> is the state after a panic.
\<close>

section \<open>State and operations\<close>

record 'f source =
  src_started :: bool
  src_stopped :: bool
  src_queue :: "'f list"
  src_log :: "'f list"

text \<open>
  A pump is its source and the frame it holds between receiving and sending. \<open>src_log\<close> and
  \<open>rc_got\<close> record what a source produced and what the consumer received; the code does not read them.
\<close>

record 'f restartable =
  rc_current :: nat
  rc_sources :: "'f source list"
  rc_pumps :: "(nat \<times> 'f option) list"
  rc_out :: "(nat \<times> 'f) list"
  rc_out_closed :: bool
  rc_stopped :: bool
  rc_done :: bool
  rc_got :: "(nat \<times> 'f) list"

definition out_capacity :: nat where
  "out_capacity = 4"

definition fresh_source :: "'f source" where
  "fresh_source = \<lparr>src_started = False, src_stopped = False, src_queue = [], src_log = []\<rparr>"

definition new_restartable :: "'f restartable" where
  "new_restartable = \<lparr>rc_current = 0, rc_sources = [fresh_source], rc_pumps = [], rc_out = [],
     rc_out_closed = False, rc_stopped = False, rc_done = False, rc_got = []\<rparr>"

definition upd_source :: "nat \<Rightarrow> ('f source \<Rightarrow> 'f source) \<Rightarrow> 'f restartable \<Rightarrow> 'f restartable" where
  "upd_source i f r = r\<lparr>rc_sources := (rc_sources r)[i := f (rc_sources r ! i)]\<rparr>"

text \<open>\<open>Stop\<close> of a source; after an error it may still run.\<close>

definition stop_source :: "bool \<Rightarrow> nat \<Rightarrow> 'f restartable \<Rightarrow> 'f restartable" where
  "stop_source ok i r = (if ok then upd_source i (src_stopped_update (\<lambda>_. True)) r else r)"

definition start_rc :: "bool \<Rightarrow> 'f restartable \<Rightarrow> bool \<times> 'f restartable" where
  "start_rc start_ok r =
     (if rc_stopped r then (False, r)
      else if \<not> start_ok then (False, r)
      else (True, (upd_source (rc_current r) (src_started_update (\<lambda>_. True)) r)
              \<lparr>rc_pumps := rc_pumps r @ [(rc_current r, None)]\<rparr>))"

definition stop_rc :: "bool \<Rightarrow> 'f restartable \<Rightarrow> bool \<times> 'f restartable" where
  "stop_rc stop_ok r =
     (if rc_stopped r then (True, r)
      else (stop_ok, (stop_source stop_ok (rc_current r) (r\<lparr>rc_stopped := True\<rparr>))\<lparr>rc_out_closed := True\<rparr>))"

definition restart_rc :: "bool \<Rightarrow> bool \<Rightarrow> bool \<Rightarrow> 'f restartable \<Rightarrow> bool \<times> 'f restartable" where
  "restart_rc stop_ok factory_ok start_ok r =
     (if rc_stopped r then (False, r)
      else if \<not> stop_ok then (False, r)
      else
        let r1 = stop_source True (rc_current r) r in
        if \<not> factory_ok then (False, r1)
        else
          let i = length (rc_sources r1); r2 = r1\<lparr>rc_sources := rc_sources r1 @ [fresh_source]\<rparr> in
          if \<not> start_ok then (False, stop_source True i r2)
          else (True, (upd_source i (src_started_update (\<lambda>_. True)) r2)
                  \<lparr>rc_current := i, rc_pumps := rc_pumps r @ [(i, None)]\<rparr>))"

section \<open>Steps\<close>

text \<open>
  \<open>Start\<close> is called at most once, on the initial source. A send on a closed channel panics.
\<close>

inductive rc_step :: "'f restartable \<Rightarrow> 'f restartable option \<Rightarrow> bool" where
  start: "\<not> src_started (rc_sources r ! rc_current r) \<Longrightarrow> rc_current r = 0 \<Longrightarrow> \<not> src_stopped (rc_sources r ! 0) \<Longrightarrow>
    rc_step r (Some (snd (start_rc ok r)))"
| stop: "rc_step r (Some (snd (stop_rc ok r)))"
| restart: "rc_step r (Some (snd (restart_rc stop_ok factory_ok start_ok r)))"
| produce: "i < length (rc_sources r) \<Longrightarrow> src_started (rc_sources r ! i) \<Longrightarrow> \<not> src_stopped (rc_sources r ! i) \<Longrightarrow>
    rc_step r (Some (upd_source i (\<lambda>s. s\<lparr>src_queue := src_queue s @ [f], src_log := src_log s @ [f]\<rparr>) r))"
| pump_recv: "k < length (rc_pumps r) \<Longrightarrow> rc_pumps r ! k = (i, None) \<Longrightarrow>
    src_queue (rc_sources r ! i) = f # fs \<Longrightarrow>
    rc_step r (Some ((upd_source i (\<lambda>s. s\<lparr>src_queue := fs\<rparr>) r)\<lparr>rc_pumps := (rc_pumps r)[k := (i, Some f)]\<rparr>))"
| pump_end: "k < length (rc_pumps r) \<Longrightarrow> rc_pumps r ! k = (i, None) \<Longrightarrow> src_queue (rc_sources r ! i) = [] \<Longrightarrow>
    src_stopped (rc_sources r ! i) \<Longrightarrow>
    rc_step r (Some (r\<lparr>rc_pumps := take k (rc_pumps r) @ drop (Suc k) (rc_pumps r)\<rparr>))"
| pump_send: "k < length (rc_pumps r) \<Longrightarrow> rc_pumps r ! k = (i, Some f) \<Longrightarrow> \<not> rc_out_closed r \<Longrightarrow>
    length (rc_out r) < out_capacity \<Longrightarrow>
    rc_step r (Some (r\<lparr>rc_pumps := (rc_pumps r)[k := (i, None)], rc_out := rc_out r @ [(i, f)]\<rparr>))"
| pump_panic: "k < length (rc_pumps r) \<Longrightarrow> rc_pumps r ! k = (i, Some f) \<Longrightarrow> rc_out_closed r \<Longrightarrow> rc_step r None"
| pump_done: "k < length (rc_pumps r) \<Longrightarrow> rc_pumps r ! k = (i, Some f) \<Longrightarrow> rc_done r \<Longrightarrow>
    rc_step r (Some (r\<lparr>rc_pumps := take k (rc_pumps r) @ drop (Suc k) (rc_pumps r)\<rparr>))"
| ctx_done: "rc_step r (Some (r\<lparr>rc_done := True\<rparr>))"
| consume: "rc_out r = x # xs \<Longrightarrow> rc_step r (Some (r\<lparr>rc_out := xs, rc_got := rc_got r @ [x]\<rparr>))"

inductive rc_reach :: "'f restartable option \<Rightarrow> bool" where
  init: "rc_reach (Some new_restartable)"
| step: "rc_reach (Some r) \<Longrightarrow> rc_step r x \<Longrightarrow> rc_reach x"

inductive_cases rc_stepE: "rc_step r (Some r')"

section \<open>One source at a time\<close>

definition running :: "'f restartable \<Rightarrow> nat \<Rightarrow> bool" where
  "running r i \<longleftrightarrow> i < length (rc_sources r) \<and> src_started (rc_sources r ! i) \<and> \<not> src_stopped (rc_sources r ! i)"

definition rc_wf :: "'f restartable \<Rightarrow> bool" where
  "rc_wf r \<longleftrightarrow> rc_current r < length (rc_sources r) \<and> (\<forall>i. running r i \<longrightarrow> i = rc_current r) \<and>
     length (rc_out r) \<le> out_capacity \<and> (rc_out_closed r \<longleftrightarrow> rc_stopped r)"

lemma upd_source_simps [simp]:
  "rc_current (upd_source i f r) = rc_current r" "rc_pumps (upd_source i f r) = rc_pumps r"
  "rc_out (upd_source i f r) = rc_out r" "rc_out_closed (upd_source i f r) = rc_out_closed r"
  "rc_stopped (upd_source i f r) = rc_stopped r" "rc_done (upd_source i f r) = rc_done r"
  "rc_got (upd_source i f r) = rc_got r" "length (rc_sources (upd_source i f r)) = length (rc_sources r)"
  "rc_sources (upd_source i f r) = (rc_sources r)[i := f (rc_sources r ! i)]"
  by (simp_all add: upd_source_def)

lemma running_upd [simp]:
  assumes "\<And>s. src_started (f s) = src_started s" "\<And>s. src_stopped (f s) = src_stopped s"
  shows "running (upd_source i f r) j = running r j"
proof (cases "j = i \<and> i < length (rc_sources r)")
  case True
  then have "rc_sources (upd_source i f r) ! j = f (rc_sources r ! j)" by simp
  then show ?thesis using assms by (simp add: running_def)
next
  case False
  then have "rc_sources (upd_source i f r) ! j = rc_sources r ! j \<or> \<not> j < length (rc_sources r)" by auto
  then show ?thesis by (auto simp: running_def)
qed

lemma running_other [simp]:
  "running (r\<lparr>rc_pumps := p\<rparr>) j = running r j" "running (r\<lparr>rc_out := q\<rparr>) j = running r j"
  "running (r\<lparr>rc_out_closed := b\<rparr>) j = running r j" "running (r\<lparr>rc_stopped := b\<rparr>) j = running r j"
  "running (r\<lparr>rc_done := b\<rparr>) j = running r j" "running (r\<lparr>rc_got := q\<rparr>) j = running r j"
  "running (r\<lparr>rc_pumps := p, rc_out := q\<rparr>) j = running r j" "running (r\<lparr>rc_out := q, rc_got := q'\<rparr>) j = running r j"
  by (simp_all add: running_def)

lemma rc_step_wf: "rc_step r (Some r') \<Longrightarrow> rc_wf r \<Longrightarrow> rc_wf r'"
proof (erule rc_stepE)
  fix ok assume "rc_wf r" "r' = snd (start_rc ok r)"
  then show "rc_wf r'"
    by (auto simp: rc_wf_def start_rc_def running_def nth_list_update split: if_splits)
next
  fix ok assume "rc_wf r" "r' = snd (stop_rc ok r)"
  then show "rc_wf r'"
    by (auto simp: rc_wf_def stop_rc_def stop_source_def running_def nth_list_update split: if_splits)
next
  fix a b c assume "rc_wf r" "r' = snd (restart_rc a b c r)"
  then show "rc_wf r'"
    by (auto simp: rc_wf_def restart_rc_def stop_source_def running_def Let_def nth_list_update nth_append
      fresh_source_def less_Suc_eq split: if_splits)
qed (auto simp: rc_wf_def)

lemma rc_reach_wf: "rc_reach x \<Longrightarrow> case x of None \<Rightarrow> True | Some r \<Rightarrow> rc_wf r"
proof (induction rule: rc_reach.induct)
  case init
  then show ?case by (simp add: rc_wf_def new_restartable_def running_def fresh_source_def)
next
  case (step r x)
  then show ?case by (cases x) (auto intro: rc_step_wf)
qed

section \<open>Nothing lost, nothing doubled, nothing reordered\<close>

definition sent :: "'f restartable \<Rightarrow> nat \<Rightarrow> 'f list" where
  "sent r i = map snd (filter (\<lambda>x. fst x = i) (rc_got r @ rc_out r))"

definition held :: "(nat \<times> 'f option) list \<Rightarrow> nat \<Rightarrow> 'f list" where
  "held ps i = concat (map (\<lambda>(j, h). if j = i then (case h of None \<Rightarrow> [] | Some f \<Rightarrow> [f]) else []) ps)"

definition accounted :: "'f restartable \<Rightarrow> nat \<Rightarrow> bool" where
  "accounted r i \<longleftrightarrow> sent r i @ held (rc_pumps r) i @ src_queue (rc_sources r ! i) = src_log (rc_sources r ! i)"

definition flow_ok :: "'f restartable \<Rightarrow> bool" where
  "flow_ok r \<longleftrightarrow> distinct (map fst (rc_pumps r)) \<and>
     (\<forall>i\<in>fst ` set (rc_pumps r). i < length (rc_sources r) \<and> src_started (rc_sources r ! i) \<and> accounted r i) \<and>
     (\<forall>i<length (rc_sources r). prefix (sent r i) (src_log (rc_sources r ! i)) \<and>
        (\<not> src_started (rc_sources r ! i) \<longrightarrow> src_log (rc_sources r ! i) = [] \<and> src_queue (rc_sources r ! i) = []) \<and>
        (\<not> rc_done r \<longrightarrow> accounted r i)) \<and>
     (\<forall>i. length (rc_sources r) \<le> i \<longrightarrow> sent r i = [])"

lemma held_other: "i \<notin> fst ` set ps \<Longrightarrow> held ps i = []"
  by (force simp: held_def)

lemma held_append [simp]: "held (ps @ qs) i = held ps i @ held qs i"
  by (simp add: held_def)

lemma held_single [simp]: "held [(j, h)] i = (if j = i then (case h of None \<Rightarrow> [] | Some f \<Rightarrow> [f]) else [])"
  by (simp add: held_def)

lemma pump_split:
  assumes "k < length ps" "ps ! k = (i, h)" "distinct (map fst ps)"
  obtains us vs where "ps = us @ (i, h) # vs" "take k ps @ drop (Suc k) ps = us @ vs"
    "\<And>h'. ps[k := (i, h')] = us @ (i, h') # vs" "i \<notin> fst ` set us" "i \<notin> fst ` set vs"
proof -
  have p: "ps = take k ps @ (i, h) # drop (Suc k) ps" using assms id_take_nth_drop [of k ps] by simp
  then have "distinct (map fst (take k ps @ (i, h) # drop (Suc k) ps))" using assms(3) by simp
  then have "i \<notin> fst ` set (take k ps)" "i \<notin> fst ` set (drop (Suc k) ps)" by force+
  then show ?thesis using that [of "take k ps" "drop (Suc k) ps"] p assms(1)
    by (simp add: upd_conv_take_nth_drop)
qed

lemma flow_new: "flow_ok new_restartable"
  by (simp add: flow_ok_def new_restartable_def sent_def accounted_def held_def fresh_source_def)


lemma marked_nth [simp]:
  "j < length xs \<Longrightarrow> xs[i := src_stopped_update g (xs ! i)] ! j = (if i = j then src_stopped_update g (xs ! j) else xs ! j)"
  "j < length xs \<Longrightarrow> xs[i := src_started_update g (xs ! i)] ! j = (if i = j then src_started_update g (xs ! j) else xs ! j)"
  by (cases "i = j"; simp)+

text \<open>A step that leaves pumps, frames and consumer alone and only marks sources keeps the flow.\<close>

lemma flow_marks:
  assumes "flow_ok r" "rc_pumps r' = rc_pumps r" "rc_out r' = rc_out r" "rc_got r' = rc_got r"
    "rc_done r' = rc_done r \<or> rc_done r'" "length (rc_sources r') = length (rc_sources r)"
    "\<And>i. i < length (rc_sources r) \<Longrightarrow> src_log (rc_sources r' ! i) = src_log (rc_sources r ! i) \<and>
       src_queue (rc_sources r' ! i) = src_queue (rc_sources r ! i) \<and>
       (src_started (rc_sources r ! i) \<longrightarrow> src_started (rc_sources r' ! i))"
  shows "flow_ok r'"
proof -
  have "sent r' = sent r" using assms(3,4) by (simp add: sent_def fun_eq_iff)
  moreover have "accounted r' i = accounted r i" if "i < length (rc_sources r)" for i
    using assms(2,7) that \<open>sent r' = sent r\<close> by (simp add: accounted_def)
  ultimately show ?thesis using assms unfolding flow_ok_def by auto
qed

text \<open>A started source without a past gets its pump.\<close>

lemma flow_pump:
  assumes "flow_ok r" "i < length (rc_sources r)" "src_started (rc_sources r ! i)" "src_log (rc_sources r ! i) = []"
    "src_queue (rc_sources r ! i) = []" "i \<notin> fst ` set (rc_pumps r)"
  shows "flow_ok (r\<lparr>rc_pumps := rc_pumps r @ [(i, None)]\<rparr>)"
proof -
  let ?r = "r\<lparr>rc_pumps := rc_pumps r @ [(i, None)]\<rparr>"
  have s: "sent ?r = sent r" by (simp add: sent_def fun_eq_iff)
  have a: "accounted ?r j = accounted r j" for j by (auto simp: accounted_def s)
  have "sent r i = []" using assms unfolding flow_ok_def by fastforce
  then have "accounted r i" using assms by (simp add: accounted_def held_other)
  then show ?thesis using assms a s unfolding flow_ok_def by (auto simp: s)
qed

text \<open>A new source has no past.\<close>

lemma flow_fresh:
  assumes "flow_ok r"
  shows "flow_ok (r\<lparr>rc_sources := rc_sources r @ [fresh_source]\<rparr>)"
proof -
  let ?r = "r\<lparr>rc_sources := rc_sources r @ [fresh_source]\<rparr>" and ?n = "length (rc_sources r)"
  have s: "sent ?r = sent r" by (simp add: sent_def fun_eq_iff)
  have n: "sent r ?n = []" "held (rc_pumps r) ?n = []"
    using assms by (auto simp: flow_ok_def intro!: held_other)
  have a: "accounted ?r j = accounted r j" if "j < ?n" for j using that by (simp add: accounted_def s nth_append)
  have "accounted ?r ?n" using n unfolding accounted_def s by (simp add: fresh_source_def)
  then show ?thesis using assms a n unfolding flow_ok_def s
    by (auto simp: nth_append less_Suc_eq fresh_source_def)
qed

lemma flow_produce:
  assumes "flow_ok r" "i < length (rc_sources r)" "src_started (rc_sources r ! i)"
  shows "flow_ok (upd_source i (\<lambda>s. s\<lparr>src_queue := src_queue s @ [f], src_log := src_log s @ [f]\<rparr>) r)"
proof -
  let ?r = "upd_source i (\<lambda>s. s\<lparr>src_queue := src_queue s @ [f], src_log := src_log s @ [f]\<rparr>) r"
  have s: "sent ?r = sent r" by (simp add: sent_def fun_eq_iff)
  have "accounted ?r j = accounted r j" if "j < length (rc_sources r)" for j
    using that assms(2) by (cases "j = i") (simp_all add: accounted_def s flip: append_assoc)
  then show ?thesis using assms unfolding flow_ok_def s by (auto simp: nth_list_update prefix_def)
qed

lemma held_mid:
  "i \<notin> fst ` set us \<Longrightarrow> i \<notin> fst ` set vs \<Longrightarrow>
   held (us @ (i, h) # vs) j = (if j = i then (case h of None \<Rightarrow> [] | Some f \<Rightarrow> [f]) else held (us @ vs) j)"
  using held_append [of "[(i, h)]" vs j] held_other [of i us] held_other [of i vs] by auto

lemma flow_pump_moves:
  assumes "flow_ok r" "k < length (rc_pumps r)" "rc_pumps r ! k = (i, h)"
  shows "h = None \<Longrightarrow> src_queue (rc_sources r ! i) = f # fs \<Longrightarrow>
      flow_ok ((upd_source i (\<lambda>s. s\<lparr>src_queue := fs\<rparr>) r)\<lparr>rc_pumps := (rc_pumps r)[k := (i, Some f)]\<rparr>)" (is "_ \<Longrightarrow> _ \<Longrightarrow> flow_ok ?r1")
    and "h = Some f \<Longrightarrow> flow_ok (r\<lparr>rc_pumps := (rc_pumps r)[k := (i, None)], rc_out := rc_out r @ [(i, f)]\<rparr>)" (is "_ \<Longrightarrow> flow_ok ?r2")
    and "h = None \<and> src_queue (rc_sources r ! i) = [] \<or> rc_done r \<Longrightarrow>
      flow_ok (r\<lparr>rc_pumps := take k (rc_pumps r) @ drop (Suc k) (rc_pumps r)\<rparr>)" (is "_ \<Longrightarrow> flow_ok ?r3")
proof -
  have d: "distinct (map fst (rc_pumps r))" using assms(1) by (simp add: flow_ok_def)
  obtain us vs where u: "rc_pumps r = us @ (i, h) # vs" "take k (rc_pumps r) @ drop (Suc k) (rc_pumps r) = us @ vs"
    "\<And>h'. (rc_pumps r)[k := (i, h')] = us @ (i, h') # vs" "i \<notin> fst ` set us" "i \<notin> fst ` set vs"
    using pump_split [OF assms(2,3) d] by blast
  have i: "i < length (rc_sources r)" "src_started (rc_sources r ! i)" "accounted r i"
    using assms(1) u(1) by (auto simp: flow_ok_def)
  note mid = held_mid [OF u(4,5)]
  show "flow_ok ?r1" if "h = None" "src_queue (rc_sources r ! i) = f # fs"
  proof -
    have s: "sent ?r1 = sent r" by (simp add: sent_def fun_eq_iff)
    have p: "rc_pumps ?r1 = us @ (i, Some f) # vs" by (simp add: u(3))
    have a: "accounted ?r1 j = accounted r j" for j
      unfolding accounted_def s p unfolding u(1) mid using that i(1) by (cases "j = i") simp_all
    have "fst ` set (rc_pumps ?r1) = fst ` set (rc_pumps r)" "map fst (rc_pumps ?r1) = map fst (rc_pumps r)"
      unfolding p unfolding u(1) by simp_all
    then show ?thesis using assms(1) i(1,2) unfolding flow_ok_def s a by (auto simp: nth_list_update)
  qed
  show "flow_ok ?r2" if "h = Some f"
  proof -
    have s: "sent ?r2 j = (if j = i then sent r j @ [f] else sent r j)" for j by (simp add: sent_def)
    have p: "rc_pumps ?r2 = us @ (i, None) # vs" by (simp add: u(3))
    have a: "accounted ?r2 j = accounted r j" for j
      unfolding accounted_def s p unfolding u(1) mid using that by simp
    have "prefix (sent r i @ [f]) (src_log (rc_sources r ! i))"
      using i(3) that unfolding accounted_def u(1) mid by (auto simp: prefix_def intro: sym)
    moreover have "fst ` set (rc_pumps ?r2) = fst ` set (rc_pumps r)" "map fst (rc_pumps ?r2) = map fst (rc_pumps r)"
      unfolding p unfolding u(1) by simp_all
    ultimately show ?thesis using assms(1) i(1) unfolding flow_ok_def s a by (auto simp del: map_update)
  qed
  show "flow_ok ?r3" if "h = None \<and> src_queue (rc_sources r ! i) = [] \<or> rc_done r"
  proof -
    have s: "sent ?r3 = sent r" by (simp add: sent_def fun_eq_iff)
    have r3: "rc_pumps ?r3 = us @ vs" by (simp add: u(2))
    have a: "accounted ?r3 j = accounted r j" if "j \<noteq> i \<or> h = None" for j
      unfolding accounted_def s r3 unfolding u(1) mid using that held_other [OF u(4)] held_other [OF u(5)] by auto
    show ?thesis
    proof (cases "h = None")
      case True
      then have "accounted ?r3 j = accounted r j" for j using a by blast
      then show ?thesis using assms(1) unfolding flow_ok_def s r3 unfolding u(1) by auto
   next
      case False
      then have "rc_done r" using that by blast
      moreover have "accounted ?r3 j = accounted r j" if "j \<in> fst ` set (us @ vs)" for j
      proof -
        have "j \<noteq> i" using that u(4,5) by auto
        then show ?thesis by (rule a [OF disjI1])
      qed
      ultimately show ?thesis using assms(1) unfolding flow_ok_def s r3 unfolding u(1) by auto
    qed
  qed
qed

lemma flow_step: "rc_step r (Some r') \<Longrightarrow> rc_wf r \<Longrightarrow> flow_ok r \<Longrightarrow> flow_ok r'"
proof (erule rc_stepE)
  fix ok assume r: "rc_wf r" "flow_ok r" "r' = snd (start_rc ok r)"
    "\<not> src_started (rc_sources r ! 0)" "rc_current r = 0"
  let ?r = "upd_source 0 (src_started_update (\<lambda>_. True)) r"
  have l: "0 < length (rc_sources r)" using r(1,5) by (simp add: rc_wf_def)
  have n: "src_log (rc_sources r ! 0) = []" "src_queue (rc_sources r ! 0) = []" "0 \<notin> fst ` set (rc_pumps r)"
    using r(2,4,5) l by (auto simp: flow_ok_def)
  have "flow_ok ?r" by (rule flow_marks [OF r(2)]) (use l in \<open>auto simp: nth_list_update\<close>)
  from flow_pump [OF this, of 0] have "flow_ok (?r\<lparr>rc_pumps := rc_pumps r @ [(0, None)]\<rparr>)" using l n by simp
  then show "flow_ok r'" using r(2,3,5) by (simp add: start_rc_def)
next
  fix ok assume r: "rc_wf r" "flow_ok r" "r' = snd (stop_rc ok r)"
  show "flow_ok r'" unfolding r(3) using r(2)
    by (rule flow_marks) (auto simp: stop_rc_def stop_source_def nth_list_update)
next
  fix a b c assume r: "rc_wf r" "flow_ok r" "r' = snd (restart_rc a b c r)"
  let ?n = "length (rc_sources r)"
  let ?r1 = "stop_source True (rc_current r) r"
  let ?r2 = "?r1\<lparr>rc_sources := rc_sources ?r1 @ [fresh_source]\<rparr>"
  have c: "rc_current r < ?n" using r(1) by (simp add: rc_wf_def)
  have r1: "flow_ok ?r1" using r(2) by (rule flow_marks) (auto simp: stop_source_def nth_list_update)
  then have r2: "flow_ok ?r2" by (rule flow_fresh)
  have n: "length (rc_sources ?r1) = ?n" by (simp add: stop_source_def)
  have f: "rc_sources ?r2 ! ?n = fresh_source" using n by (simp add: nth_append)
  have stopped: "flow_ok (stop_source True ?n ?r2)"
    using r2 by (rule flow_marks) (auto simp: stop_source_def nth_list_update)
  let ?r3 = "upd_source ?n (src_started_update (\<lambda>_. True)) ?r2"
  have r3: "flow_ok ?r3" using r2 by (rule flow_marks) (auto simp: nth_list_update)
  have p: "rc_pumps ?r3 = rc_pumps r" by (simp add: stop_source_def)
  have "?n \<notin> fst ` set (rc_pumps r)" using r(2) by (auto simp: flow_ok_def)
  then have r4: "flow_ok (?r3\<lparr>rc_pumps := rc_pumps r @ [(?n, None)]\<rparr>)"
    using flow_pump [OF r3, of ?n] n f p by (simp add: fresh_source_def)
  have "flow_ok (?r3\<lparr>rc_current := ?n, rc_pumps := rc_pumps r @ [(?n, None)]\<rparr>)"
    using r4 by (rule flow_marks) auto
  then show "flow_ok r'" unfolding r(3) using r(2) r1 stopped n by (simp add: restart_rc_def Let_def)
next
  fix i f assume "flow_ok r" "i < length (rc_sources r)" "src_started (rc_sources r ! i)"
    "r' = upd_source i (\<lambda>s. s\<lparr>src_queue := src_queue s @ [f], src_log := src_log s @ [f]\<rparr>) r"
  then show "flow_ok r'" by (simp only: flow_produce)
next
  fix k i f fs assume "flow_ok r" "k < length (rc_pumps r)" "rc_pumps r ! k = (i, None)" "src_queue (rc_sources r ! i) = f # fs"
    "r' = (upd_source i (src_queue_update (\<lambda>_. fs)) r)\<lparr>rc_pumps := (rc_pumps r)[k := (i, Some f)]\<rparr>"
  then show "flow_ok r'" using flow_pump_moves(1) [of r k i None f fs] by simp
next
  fix k i f assume "flow_ok r" "k < length (rc_pumps r)" "rc_pumps r ! k = (i, Some f)"
    "r' = r\<lparr>rc_pumps := (rc_pumps r)[k := (i, None)], rc_out := rc_out r @ [(i, f)]\<rparr>"
  then show "flow_ok r'" using flow_pump_moves(2) [of r k i "Some f" f] by simp
next
  fix k i assume "flow_ok r" "k < length (rc_pumps r)" "rc_pumps r ! k = (i, None)" "src_queue (rc_sources r ! i) = []"
    "r' = r\<lparr>rc_pumps := take k (rc_pumps r) @ drop (Suc k) (rc_pumps r)\<rparr>"
  then show "flow_ok r'" using flow_pump_moves(3) [of r k i None] by simp
next
  fix k i f assume "flow_ok r" "k < length (rc_pumps r)" "rc_pumps r ! k = (i, Some f)" "rc_done r"
    "r' = r\<lparr>rc_pumps := take k (rc_pumps r) @ drop (Suc k) (rc_pumps r)\<rparr>"
  then show "flow_ok r'" using flow_pump_moves(3) [of r k i "Some f"] by simp
next
  assume r: "flow_ok r" "r' = r\<lparr>rc_done := True\<rparr>"
  show "flow_ok r'" unfolding r(2) using r(1) by (rule flow_marks) auto
next
  fix x xs assume r: "flow_ok r" "r' = r\<lparr>rc_out := xs, rc_got := rc_got r @ [x]\<rparr>" "rc_out r = x # xs"
  have s: "sent r' = sent r" using r(3) by (simp add: r(2) sent_def fun_eq_iff)
  have "accounted r' j = accounted r j" for j by (simp add: accounted_def s) (simp add: r(2))
  then show "flow_ok r'" using r(1) unfolding flow_ok_def s by (simp add: r(2))
qed

lemma rc_reach_flow: "rc_reach x \<Longrightarrow> case x of None \<Rightarrow> True | Some r \<Rightarrow> flow_ok r"
proof (induction rule: rc_reach.induct)
  case (step r x)
  then show ?case using rc_reach_wf [OF step(1)] by (cases x) (auto intro: flow_step)
qed (simp add: flow_new)


section \<open>Properties\<close>

text \<open>C31: In every reachable state at most one source runs, and it is the current one, so the camera
  device is never opened twice; the stable channel is closed exactly when the camera was stopped; and
  for each source, across any number of restarts, the consumer has received its frames in order without
  gaps or repetitions, and as long as the context lives every frame not yet received is still on its way.\<close>

theorem restarts_lose_no_frame:
  assumes "rc_reach (Some r)"
  shows "(running r i \<longrightarrow> i = rc_current r) \<and> (rc_out_closed r \<longleftrightarrow> rc_stopped r) \<and>
    (i < length (rc_sources r) \<longrightarrow>
       prefix (map snd (filter (\<lambda>x. fst x = i) (rc_got r))) (src_log (rc_sources r ! i)) \<and>
       (\<not> rc_done r \<longrightarrow>
          map snd (filter (\<lambda>x. fst x = i) (rc_got r @ rc_out r)) @ held (rc_pumps r) i @ src_queue (rc_sources r ! i) =
          src_log (rc_sources r ! i)))"
proof -
  have wf: "rc_wf r" and fl: "flow_ok r" using rc_reach_wf [OF assms] rc_reach_flow [OF assms] by simp_all
  have "prefix (map snd (filter (\<lambda>x. fst x = i) (rc_got r))) (src_log (rc_sources r ! i))"
    if "i < length (rc_sources r)"
  proof -
    have "prefix (sent r i) (src_log (rc_sources r ! i))" using fl that by (simp add: flow_ok_def)
    moreover have "prefix (map snd (filter (\<lambda>x. fst x = i) (rc_got r))) (sent r i)" by (simp add: sent_def)
    ultimately show ?thesis by (rule prefix_order.order_trans [rotated])
  qed
  moreover have "accounted r i" if "i < length (rc_sources r)" "\<not> rc_done r"
    using fl that by (simp add: flow_ok_def)
  ultimately show ?thesis using wf by (auto simp: rc_wf_def accounted_def sent_def)
qed

text \<open>A state with one frame in the hands of the pump, and the same after \<open>Stop\<close>.\<close>

definition held_state :: "nat restartable" where
  "held_state = \<lparr>rc_current = 0,
     rc_sources = [\<lparr>src_started = True, src_stopped = False, src_queue = [], src_log = [7]\<rparr>],
     rc_pumps = [(0, Some 7)], rc_out = [], rc_out_closed = False, rc_stopped = False, rc_done = False, rc_got = []\<rparr>"

lemma held_state_reachable: "rc_reach (Some held_state)"
proof -
  let ?s1 = "snd (start_rc True (new_restartable :: nat restartable))"
  have s1: "?s1 = new_restartable\<lparr>rc_sources := [fresh_source\<lparr>src_started := True\<rparr>], rc_pumps := [(0, None)]\<rparr>"
    by (simp add: start_rc_def new_restartable_def upd_source_def)
  have 1: "rc_reach (Some ?s1)"
    by (rule rc_reach.step [OF rc_reach.init], rule rc_step.start) (simp_all add: new_restartable_def fresh_source_def)
  let ?s2 = "upd_source 0 (\<lambda>s. s\<lparr>src_queue := src_queue s @ [7], src_log := src_log s @ [7]\<rparr>) ?s1"
  have 2: "rc_reach (Some ?s2)"
    by (rule rc_reach.step [OF 1], rule rc_step.produce) (simp_all add: s1 fresh_source_def)
  have "rc_reach (Some ((upd_source 0 (\<lambda>s. s\<lparr>src_queue := []\<rparr>) ?s2)\<lparr>rc_pumps := (rc_pumps ?s2)[0 := (0, Some 7)]\<rparr>))"
    by (rule rc_reach.step [OF 2], rule rc_step.pump_recv) (simp_all add: s1 fresh_source_def)
  also have "(upd_source 0 (\<lambda>s. s\<lparr>src_queue := []\<rparr>) ?s2)\<lparr>rc_pumps := (rc_pumps ?s2)[0 := (0, Some 7)]\<rparr> = held_state"
    unfolding s1 by (simp add: held_state_def new_restartable_def fresh_source_def upd_source_def)
  finally show ?thesis .
qed

theorem restarts_lose_no_frame_witness:
  "rc_reach (Some held_state) \<and> held (rc_pumps held_state) 0 = src_log (rc_sources held_state ! 0) \<and>
   \<not> rc_out_closed held_state"
  using restarts_lose_no_frame [OF held_state_reachable, of 0] held_state_reachable
  by (simp add: held_state_def)

text \<open>\<open>Stop\<close> closes the stable channel while a pump may hold a frame between its source and the
  channel; the pump's send then panics and takes the server down.\<close>

theorem stop_during_delivery_panics:
  "rc_reach (Some held_state) \<and> rc_step held_state (Some (snd (stop_rc True held_state))) \<and>
   rc_step (snd (stop_rc True held_state)) None \<and> rc_reach (None :: nat restartable option)"
proof -
  have s: "rc_step held_state (Some (snd (stop_rc True held_state)))" by (rule rc_step.stop)
  have p: "rc_step (snd (stop_rc True held_state)) None"
    by (rule rc_step.pump_panic [of 0 _ 0 7]) (simp_all add: stop_rc_def stop_source_def held_state_def upd_source_def)
  show ?thesis
    using held_state_reachable s p rc_reach.step [OF rc_reach.step [OF held_state_reachable s] p] by blast
qed

text \<open>A restart whose factory or start fails leaves the camera without a running source, but not
  stopped: a later restart brings it back on the same channel.\<close>

theorem failed_restart_can_be_retried:
  assumes "rc_wf r" "\<not> rc_stopped r" "\<not> (factory_ok \<and> start_ok)"
  shows "case restart_rc True factory_ok start_ok r of (ok, r1) \<Rightarrow>
     \<not> ok \<and> \<not> running r1 i \<and> \<not> rc_stopped r1 \<and>
     (case restart_rc True True True r1 of (ok2, r2) \<Rightarrow>
        ok2 \<and> running r2 (rc_current r2) \<and> \<not> rc_out_closed r2)"
  using assms
  by (auto simp: restart_rc_def rc_wf_def stop_source_def running_def Let_def nth_append fresh_source_def less_Suc_eq
    split: if_splits)

end
