(* ===== verification/Config.thy ===== *)
theory Config
  imports TextUtil Substream Ieee
begin

text \<open>
  Loading and validating the configuration (\<open>internal/config/config.go\<close>): the sections with their
  defaults, the environment overrides, the detection of a serial number, and the chain of checks. The
  YAML decoder is not part of the repository and an argument, as are the file contents, the
  environment, and the two numeric parsers of the library that the overrides call (floating-point
  numbers and durations). A floating-point field is its IEEE 754 bit pattern.
\<close>

section \<open>The sections\<close>

record substream_config =
  sub_enabled :: bool
  sub_width :: int
  sub_height :: int
  sub_fps :: int
  sub_bitrate :: int

record camera_config =
  cam_device :: string
  cam_mode :: string
  cam_encoder_device :: string
  cam_rtsp_url :: string
  cam_width :: int
  cam_height :: int
  cam_fps :: int
  cam_codec :: string
  cam_bitrate :: int
  cam_brightness :: float64
  cam_contrast :: float64
  cam_saturation :: float64
  cam_sharpness :: float64
  cam_idr_period :: int
  cam_bin_path :: string
  cam_ffmpeg_bin :: string
  cam_still_bin :: string
  cam_vid_bin :: string
  cam_frame_buffer_size :: int
  cam_max_backoff :: int
  cam_hflip :: bool
  cam_vflip :: bool
  cam_rotation :: int
  cam_substream :: substream_config

record rtsp_config =
  rtsp_port :: int
  rtsp_username :: string
  rtsp_password :: string
  rtsp_subscriber_buffer_size :: int
  rtsp_write_queue_size :: int
  rtsp_enable_udp :: bool
  rtsp_udp_rtp_port :: int
  rtsp_udp_rtcp_port :: int

record onvif_config =
  onvif_port :: int
  onvif_username :: string
  onvif_password :: string
  onvif_events_enabled :: bool
  onvif_media2_enabled :: bool
  onvif_deviceio_enabled :: bool

record web_config =
  web_enabled :: bool
  web_port :: int
  web_username :: string
  web_password :: string
  web_allowed_origins :: "string list"
  web_read_header_timeout :: int
  web_read_timeout :: int
  web_write_timeout :: int
  web_idle_timeout :: int

record device_config =
  dev_name :: string
  dev_manufacturer :: string
  dev_model :: string
  dev_firmware :: string
  dev_hardware_id :: string
  dev_serial_number :: string

record logging_config =
  log_level :: string

record metrics_config =
  met_enabled :: bool
  met_port :: int

record observability_config =
  obs_otlp_endpoint :: string

record snapshot_config =
  snap_enabled :: bool
  snap_quality :: int

record rtmp_config =
  rtmp_enabled :: bool
  rtmp_url :: string
  rtmp_max_retries :: int

record hls_config =
  hls_enabled :: bool
  hls_segment_duration :: int

record extra_channel =
  ec_device_id :: string
  ec_name :: string
  ec_manufacturer :: string
  ec_model :: string
  ec_civil_code :: string
  ec_address :: string
  ec_parent_id :: string
  ec_status :: string

record gb35114_config =
  gs_enabled :: bool
  gs_device_cert_file :: string
  gs_device_key_file :: string
  gs_platform_cert_file :: string
  gs_server_id :: string

record gb28181_config =
  gb_enabled :: bool
  gb_platform_sip_address :: string
  gb_platform_sip_port :: int
  gb_device_id :: string
  gb_channel_id :: string
  gb_sip_domain :: string
  gb_password :: string
  gb_local_sip_port :: int
  gb_register_interval_secs :: int
  gb_heartbeat_interval_secs :: int
  gb_heartbeat_timeout_count :: int
  gb_transport :: string
  gb_multicast_ttl :: int
  gb_extra_channels :: "extra_channel list"
  gb_max_sip_message_size :: int
  gb_tls_ca_file :: string
  gb_tls_cert_file :: string
  gb_tls_key_file :: string
  gb_tls_insecure_skip_verify :: bool
  gb_video_param_opt_download_speed :: string
  gb_video_param_opt_resolution :: string
  gb_gb35114 :: gb35114_config
  gb_alarm_notify_enabled :: bool
  gb_alarm_cooldown_secs :: int
  gb_longitude :: string
  gb_latitude :: string

record recording_config =
  rec_enabled :: bool
  rec_storage_path :: string
  rec_segment_secs :: int
  rec_retention_days :: int
  rec_max_storage_mb :: int

record ai_config =
  ai_enabled :: bool
  ai_allow_upload :: bool
  ai_model :: string
  ai_model_path :: string
  ai_onnx_lib_path :: string
  ai_confidence_threshold :: float32
  ai_interval_ms :: "64 word"
  ai_decoder_bin :: string

record bus_spec =
  bus_type :: string
  bus_device :: string
  bus_sda :: "32 word"
  bus_scl :: "32 word"

record thermal_config =
  th_enabled :: bool
  th_bus :: bus_spec
  th_addr :: "8 word"
  th_emissivity :: float64

record config =
  cf_camera :: camera_config
  cf_rtsp :: rtsp_config
  cf_onvif :: onvif_config
  cf_device :: device_config
  cf_logging :: logging_config
  cf_web :: web_config
  cf_metrics :: metrics_config
  cf_observability :: observability_config
  cf_snapshot :: snapshot_config
  cf_rtmp :: rtmp_config
  cf_hls :: hls_config
  cf_gb28181 :: gb28181_config
  cf_recording :: recording_config
  cf_ai :: ai_config
  cf_thermal :: thermal_config

definition effective_fps :: "substream_config \<Rightarrow> int \<Rightarrow> int" where
  "effective_fps sc main_fps = (if sub_fps sc \<le> 0 then main_fps else sub_fps sc)"

definition effective_dims :: "camera_config \<Rightarrow> int \<times> int" where
  "effective_dims c =
     (if cam_rotation c = 90 \<or> cam_rotation c = 270 then (cam_height c, cam_width c) else (cam_width c, cam_height c))"

section \<open>Defaults\<close>

definition second_ns :: int where
  "second_ns = 1000000000"

definition default_camera :: camera_config where
  "default_camera = \<lparr>cam_device = ''/dev/video0'', cam_mode = ''mtxrpicam'', cam_encoder_device = ''/dev/video11'',
     cam_rtsp_url = '''', cam_width = 1280, cam_height = 720, cam_fps = 15, cam_codec = ''h264'', cam_bitrate = 2000000,
     cam_brightness = 0, cam_contrast = 0x3FF0000000000000, cam_saturation = 0x3FF0000000000000,
     cam_sharpness = 0x3FF0000000000000, cam_idr_period = 15, cam_bin_path = ''deploy/bin/mtxrpicam'',
     cam_ffmpeg_bin = ''ffmpeg'', cam_still_bin = ''rpicam-still'', cam_vid_bin = ''rpicam-vid'',
     cam_frame_buffer_size = 30, cam_max_backoff = 30 * second_ns, cam_hflip = False, cam_vflip = False,
     cam_rotation = 0,
     cam_substream = \<lparr>sub_enabled = False, sub_width = 640, sub_height = 360, sub_fps = 0, sub_bitrate = 400000\<rparr>\<rparr>"

definition default_gb28181 :: gb28181_config where
  "default_gb28181 = \<lparr>gb_enabled = False, gb_platform_sip_address = ''192.168.1.1'', gb_platform_sip_port = 5060,
     gb_device_id = ''34020000001320000001'', gb_channel_id = ''34020000001320000001'', gb_sip_domain = ''3402000000'',
     gb_password = '''', gb_local_sip_port = 5060, gb_register_interval_secs = 60, gb_heartbeat_interval_secs = 60,
     gb_heartbeat_timeout_count = 3, gb_transport = ''udp'', gb_multicast_ttl = 0, gb_extra_channels = [],
     gb_max_sip_message_size = 0, gb_tls_ca_file = '''', gb_tls_cert_file = '''', gb_tls_key_file = '''',
     gb_tls_insecure_skip_verify = False, gb_video_param_opt_download_speed = '''', gb_video_param_opt_resolution = '''',
     gb_gb35114 = \<lparr>gs_enabled = False, gs_device_cert_file = '''', gs_device_key_file = '''',
       gs_platform_cert_file = '''', gs_server_id = ''''\<rparr>,
     gb_alarm_notify_enabled = True, gb_alarm_cooldown_secs = 30, gb_longitude = '''', gb_latitude = ''''\<rparr>"

definition default_config :: config where
  "default_config = \<lparr>
     cf_camera = default_camera,
     cf_rtsp = \<lparr>rtsp_port = 8554, rtsp_username = '''', rtsp_password = '''', rtsp_subscriber_buffer_size = 64,
       rtsp_write_queue_size = 2048, rtsp_enable_udp = True, rtsp_udp_rtp_port = 8000, rtsp_udp_rtcp_port = 8001\<rparr>,
     cf_onvif = \<lparr>onvif_port = 8080, onvif_username = ''admin'', onvif_password = '''', onvif_events_enabled = True,
       onvif_media2_enabled = True, onvif_deviceio_enabled = True\<rparr>,
     cf_device = \<lparr>dev_name = ''Pi Camera V1'', dev_manufacturer = ''Raspberry Pi'', dev_model = ''OV5647'',
       dev_firmware = ''1.0.0'', dev_hardware_id = ''OV5647'', dev_serial_number = ''''\<rparr>,
     cf_logging = \<lparr>log_level = ''info''\<rparr>,
     cf_web = \<lparr>web_enabled = True, web_port = 8088, web_username = '''', web_password = '''',
       web_allowed_origins = [''*''], web_read_header_timeout = 5 * second_ns, web_read_timeout = 10 * second_ns,
       web_write_timeout = 30 * second_ns, web_idle_timeout = 120 * second_ns\<rparr>,
     cf_metrics = \<lparr>met_enabled = True, met_port = 9100\<rparr>,
     cf_observability = \<lparr>obs_otlp_endpoint = ''''\<rparr>,
     cf_snapshot = \<lparr>snap_enabled = True, snap_quality = 0\<rparr>,
     cf_rtmp = \<lparr>rtmp_enabled = False, rtmp_url = '''', rtmp_max_retries = 10\<rparr>,
     cf_hls = \<lparr>hls_enabled = False, hls_segment_duration = 2 * second_ns\<rparr>,
     cf_gb28181 = default_gb28181,
     cf_recording = \<lparr>rec_enabled = False, rec_storage_path = ''recordings'', rec_segment_secs = 600,
       rec_retention_days = 3, rec_max_storage_mb = 8192\<rparr>,
     cf_ai = \<lparr>ai_enabled = False, ai_allow_upload = False, ai_model = ''nanodet-plus-m-320'',
       ai_model_path = ''/var/lib/mibee-eye/models/nanodet-m.onnx'', ai_onnx_lib_path = ''/usr/local/lib/libonnxruntime.so'',
       ai_confidence_threshold = 0x3EB33333, ai_interval_ms = 1000, ai_decoder_bin = ''ffmpeg''\<rparr>,
     cf_thermal = \<lparr>th_enabled = False,
       th_bus = \<lparr>bus_type = ''auto'', bus_device = '''', bus_sda = 0, bus_scl = 0\<rparr>,
       th_addr = 0x33, th_emissivity = 0x3FF0000000000000\<rparr>\<rparr>"

section \<open>Environment overrides\<close>

record env =
  env_vars :: "string \<Rightarrow> string option"
  env_float :: "string \<Rightarrow> float64 option"
  env_float32 :: "string \<Rightarrow> float32 option"
  env_duration :: "string \<Rightarrow> int option"

text \<open>\<open>upd\<close> is the update of the field that \<open>dest\<close> points to.\<close>

definition override_with ::
  "(env \<Rightarrow> string \<Rightarrow> 'v option) \<Rightarrow> string \<Rightarrow> (('v \<Rightarrow> 'v) \<Rightarrow> config \<Rightarrow> config) \<Rightarrow> env \<Rightarrow> config \<Rightarrow> config" where
  "override_with parse_value name upd e c =
     (case env_vars e name of
        None \<Rightarrow> c
      | Some v \<Rightarrow> (case parse_value e v of None \<Rightarrow> c | Some x \<Rightarrow> upd (\<lambda>_. x) c))"

definition override_string :: "string \<Rightarrow> ((string \<Rightarrow> string) \<Rightarrow> config \<Rightarrow> config) \<Rightarrow> env \<Rightarrow> config \<Rightarrow> config" where
  "override_string = override_with (\<lambda>_ v. Some v)"

definition override_int :: "string \<Rightarrow> ((int \<Rightarrow> int) \<Rightarrow> config \<Rightarrow> config) \<Rightarrow> env \<Rightarrow> config \<Rightarrow> config" where
  "override_int = override_with (\<lambda>_. atoi)"

definition override_float :: "string \<Rightarrow> ((float64 \<Rightarrow> float64) \<Rightarrow> config \<Rightarrow> config) \<Rightarrow> env \<Rightarrow> config \<Rightarrow> config" where
  "override_float = override_with env_float"

definition override_float32 :: "string \<Rightarrow> ((float32 \<Rightarrow> float32) \<Rightarrow> config \<Rightarrow> config) \<Rightarrow> env \<Rightarrow> config \<Rightarrow> config" where
  "override_float32 = override_with env_float32"

definition override_uint64 :: "string \<Rightarrow> ((64 word \<Rightarrow> 64 word) \<Rightarrow> config \<Rightarrow> config) \<Rightarrow> env \<Rightarrow> config \<Rightarrow> config" where
  "override_uint64 = override_with (\<lambda>_ v. map_option of_nat (parse_uint 64 v))"

definition override_bool :: "string \<Rightarrow> ((bool \<Rightarrow> bool) \<Rightarrow> config \<Rightarrow> config) \<Rightarrow> env \<Rightarrow> config \<Rightarrow> config" where
  "override_bool = override_with (\<lambda>_. parse_bool)"

definition override_string_slice ::
  "string \<Rightarrow> ((string list \<Rightarrow> string list) \<Rightarrow> config \<Rightarrow> config) \<Rightarrow> env \<Rightarrow> config \<Rightarrow> config" where
  "override_string_slice = override_with (\<lambda>_ v. if v = [] then None else Some (map trim_space (split_on (CHR '','') v)))"

definition override_duration :: "string \<Rightarrow> ((int \<Rightarrow> int) \<Rightarrow> config \<Rightarrow> config) \<Rightarrow> env \<Rightarrow> config \<Rightarrow> config" where
  "override_duration = override_with env_duration"

definition camera_overrides :: "(env \<Rightarrow> config \<Rightarrow> config) list" where
  "camera_overrides =
    [override_string ''MIBEE_EYE_CAMERA_DEVICE'' (cf_camera_update \<circ> cam_device_update),
     override_string ''MIBEE_EYE_CAMERA_MODE'' (cf_camera_update \<circ> cam_mode_update),
     override_string ''MIBEE_EYE_CAMERA_ENCODER_DEVICE'' (cf_camera_update \<circ> cam_encoder_device_update),
     override_int ''MIBEE_EYE_CAMERA_WIDTH'' (cf_camera_update \<circ> cam_width_update),
     override_int ''MIBEE_EYE_CAMERA_HEIGHT'' (cf_camera_update \<circ> cam_height_update),
     override_int ''MIBEE_EYE_CAMERA_FPS'' (cf_camera_update \<circ> cam_fps_update),
     override_string ''MIBEE_EYE_CAMERA_CODEC'' (cf_camera_update \<circ> cam_codec_update),
     override_int ''MIBEE_EYE_CAMERA_BITRATE'' (cf_camera_update \<circ> cam_bitrate_update),
     override_float ''MIBEE_EYE_CAMERA_BRIGHTNESS'' (cf_camera_update \<circ> cam_brightness_update),
     override_float ''MIBEE_EYE_CAMERA_CONTRAST'' (cf_camera_update \<circ> cam_contrast_update),
     override_float ''MIBEE_EYE_CAMERA_SATURATION'' (cf_camera_update \<circ> cam_saturation_update),
     override_float ''MIBEE_EYE_CAMERA_SHARPNESS'' (cf_camera_update \<circ> cam_sharpness_update),
     override_int ''MIBEE_EYE_CAMERA_IDR_PERIOD'' (cf_camera_update \<circ> cam_idr_period_update),
     override_string ''MIBEE_EYE_CAMERA_BIN_PATH'' (cf_camera_update \<circ> cam_bin_path_update),
     override_string ''MIBEE_EYE_CAMERA_FFMPEG_BIN'' (cf_camera_update \<circ> cam_ffmpeg_bin_update),
     override_string ''MIBEE_EYE_CAMERA_STILL_BIN'' (cf_camera_update \<circ> cam_still_bin_update),
     override_string ''MIBEE_EYE_CAMERA_VID_BIN'' (cf_camera_update \<circ> cam_vid_bin_update),
     override_int ''MIBEE_EYE_CAMERA_FRAME_BUFFER_SIZE'' (cf_camera_update \<circ> cam_frame_buffer_size_update),
     override_duration ''MIBEE_EYE_CAMERA_MAX_BACKOFF'' (cf_camera_update \<circ> cam_max_backoff_update),
     override_bool ''MIBEE_EYE_CAMERA_SUBSTREAM_ENABLED'' (cf_camera_update \<circ> cam_substream_update \<circ> sub_enabled_update),
     override_int ''MIBEE_EYE_CAMERA_SUBSTREAM_WIDTH'' (cf_camera_update \<circ> cam_substream_update \<circ> sub_width_update),
     override_int ''MIBEE_EYE_CAMERA_SUBSTREAM_HEIGHT'' (cf_camera_update \<circ> cam_substream_update \<circ> sub_height_update),
     override_int ''MIBEE_EYE_CAMERA_SUBSTREAM_FPS'' (cf_camera_update \<circ> cam_substream_update \<circ> sub_fps_update),
     override_int ''MIBEE_EYE_CAMERA_SUBSTREAM_BITRATE'' (cf_camera_update \<circ> cam_substream_update \<circ> sub_bitrate_update)]"

definition rtsp_overrides :: "(env \<Rightarrow> config \<Rightarrow> config) list" where
  "rtsp_overrides =
    [override_int ''MIBEE_EYE_RTSP_PORT'' (cf_rtsp_update \<circ> rtsp_port_update),
     override_string ''MIBEE_EYE_RTSP_USERNAME'' (cf_rtsp_update \<circ> rtsp_username_update),
     override_string ''MIBEE_EYE_RTSP_PASSWORD'' (cf_rtsp_update \<circ> rtsp_password_update),
     override_int ''MIBEE_EYE_RTSP_SUBSCRIBER_BUFFER_SIZE'' (cf_rtsp_update \<circ> rtsp_subscriber_buffer_size_update),
     override_int ''MIBEE_EYE_RTSP_WRITE_QUEUE_SIZE'' (cf_rtsp_update \<circ> rtsp_write_queue_size_update),
     override_bool ''MIBEE_EYE_RTSP_ENABLE_UDP'' (cf_rtsp_update \<circ> rtsp_enable_udp_update),
     override_int ''MIBEE_EYE_RTSP_UDP_RTP_PORT'' (cf_rtsp_update \<circ> rtsp_udp_rtp_port_update),
     override_int ''MIBEE_EYE_RTSP_UDP_RTCP_PORT'' (cf_rtsp_update \<circ> rtsp_udp_rtcp_port_update)]"

definition onvif_overrides :: "(env \<Rightarrow> config \<Rightarrow> config) list" where
  "onvif_overrides =
    [override_int ''MIBEE_EYE_ONVIF_PORT'' (cf_onvif_update \<circ> onvif_port_update),
     override_string ''MIBEE_EYE_ONVIF_USERNAME'' (cf_onvif_update \<circ> onvif_username_update),
     override_string ''MIBEE_EYE_ONVIF_PASSWORD'' (cf_onvif_update \<circ> onvif_password_update),
     override_bool ''MIBEE_EYE_ONVIF_MEDIA2_ENABLED'' (cf_onvif_update \<circ> onvif_media2_enabled_update),
     override_bool ''MIBEE_EYE_ONVIF_DEVICEIO_ENABLED'' (cf_onvif_update \<circ> onvif_deviceio_enabled_update)]"

definition web_overrides :: "(env \<Rightarrow> config \<Rightarrow> config) list" where
  "web_overrides =
    [override_bool ''MIBEE_EYE_WEB_ENABLED'' (cf_web_update \<circ> web_enabled_update),
     override_int ''MIBEE_EYE_WEB_PORT'' (cf_web_update \<circ> web_port_update),
     override_string ''MIBEE_EYE_WEB_USERNAME'' (cf_web_update \<circ> web_username_update),
     override_string ''MIBEE_EYE_WEB_PASSWORD'' (cf_web_update \<circ> web_password_update),
     override_string_slice ''MIBEE_EYE_WEB_ALLOWED_ORIGINS'' (cf_web_update \<circ> web_allowed_origins_update),
     override_duration ''MIBEE_EYE_WEB_READ_HEADER_TIMEOUT'' (cf_web_update \<circ> web_read_header_timeout_update),
     override_duration ''MIBEE_EYE_WEB_READ_TIMEOUT'' (cf_web_update \<circ> web_read_timeout_update),
     override_duration ''MIBEE_EYE_WEB_WRITE_TIMEOUT'' (cf_web_update \<circ> web_write_timeout_update),
     override_duration ''MIBEE_EYE_WEB_IDLE_TIMEOUT'' (cf_web_update \<circ> web_idle_timeout_update)]"

definition metrics_overrides :: "(env \<Rightarrow> config \<Rightarrow> config) list" where
  "metrics_overrides =
    [override_bool ''MIBEE_EYE_METRICS_ENABLED'' (cf_metrics_update \<circ> met_enabled_update),
     override_string ''MIBEE_EYE_OBSERVABILITY_OTLP_ENDPOINT'' (cf_observability_update \<circ> obs_otlp_endpoint_update),
     override_int ''MIBEE_EYE_METRICS_PORT'' (cf_metrics_update \<circ> met_port_update)]"

definition device_overrides :: "(env \<Rightarrow> config \<Rightarrow> config) list" where
  "device_overrides =
    [override_string ''MIBEE_EYE_DEVICE_NAME'' (cf_device_update \<circ> dev_name_update),
     override_string ''MIBEE_EYE_DEVICE_MANUFACTURER'' (cf_device_update \<circ> dev_manufacturer_update),
     override_string ''MIBEE_EYE_DEVICE_MODEL'' (cf_device_update \<circ> dev_model_update),
     override_string ''MIBEE_EYE_DEVICE_FIRMWARE'' (cf_device_update \<circ> dev_firmware_update),
     override_string ''MIBEE_EYE_DEVICE_HARDWAREID'' (cf_device_update \<circ> dev_hardware_id_update),
     override_string ''MIBEE_EYE_DEVICE_SERIALNUMBER'' (cf_device_update \<circ> dev_serial_number_update)]"

definition logging_snapshot_overrides :: "(env \<Rightarrow> config \<Rightarrow> config) list" where
  "logging_snapshot_overrides =
    [override_string ''MIBEE_EYE_LOGGING_LEVEL'' (cf_logging_update \<circ> log_level_update),
     override_bool ''MIBEE_EYE_SNAPSHOT_ENABLED'' (cf_snapshot_update \<circ> snap_enabled_update),
     override_int ''MIBEE_EYE_SNAPSHOT_QUALITY'' (cf_snapshot_update \<circ> snap_quality_update)]"

definition rtmp_hls_overrides :: "(env \<Rightarrow> config \<Rightarrow> config) list" where
  "rtmp_hls_overrides =
    [override_bool ''MIBEE_EYE_RTMP_ENABLED'' (cf_rtmp_update \<circ> rtmp_enabled_update),
     override_string ''MIBEE_EYE_RTMP_URL'' (cf_rtmp_update \<circ> rtmp_url_update),
     override_int ''MIBEE_EYE_RTMP_MAX_RETRIES'' (cf_rtmp_update \<circ> rtmp_max_retries_update),
     override_bool ''MIBEE_EYE_HLS_ENABLED'' (cf_hls_update \<circ> hls_enabled_update),
     override_duration ''MIBEE_EYE_HLS_SEGMENT_DURATION'' (cf_hls_update \<circ> hls_segment_duration_update)]"

definition gb28181_overrides :: "(env \<Rightarrow> config \<Rightarrow> config) list" where
  "gb28181_overrides =
    [override_bool ''MIBEE_EYE_GB28181_ENABLED'' (cf_gb28181_update \<circ> gb_enabled_update),
     override_string ''MIBEE_EYE_GB28181_PLATFORM_SIP_ADDRESS'' (cf_gb28181_update \<circ> gb_platform_sip_address_update),
     override_int ''MIBEE_EYE_GB28181_PLATFORM_SIP_PORT'' (cf_gb28181_update \<circ> gb_platform_sip_port_update),
     override_bool ''MIBEE_EYE_GB28181_GB35114_ENABLED'' (cf_gb28181_update \<circ> gb_gb35114_update \<circ> gs_enabled_update),
     override_string ''MIBEE_EYE_GB28181_GB35114_DEVICE_CERT_FILE'' (cf_gb28181_update \<circ> gb_gb35114_update \<circ> gs_device_cert_file_update),
     override_string ''MIBEE_EYE_GB28181_GB35114_DEVICE_KEY_FILE'' (cf_gb28181_update \<circ> gb_gb35114_update \<circ> gs_device_key_file_update),
     override_string ''MIBEE_EYE_GB28181_GB35114_PLATFORM_CERT_FILE'' (cf_gb28181_update \<circ> gb_gb35114_update \<circ> gs_platform_cert_file_update),
     override_string ''MIBEE_EYE_GB28181_GB35114_SERVER_ID'' (cf_gb28181_update \<circ> gb_gb35114_update \<circ> gs_server_id_update),
     override_string ''MIBEE_EYE_GB28181_DEVICE_ID'' (cf_gb28181_update \<circ> gb_device_id_update),
     override_string ''MIBEE_EYE_GB28181_CHANNEL_ID'' (cf_gb28181_update \<circ> gb_channel_id_update),
     override_string ''MIBEE_EYE_GB28181_SIP_DOMAIN'' (cf_gb28181_update \<circ> gb_sip_domain_update),
     override_string ''MIBEE_EYE_GB28181_PASSWORD'' (cf_gb28181_update \<circ> gb_password_update),
     override_int ''MIBEE_EYE_GB28181_LOCAL_SIP_PORT'' (cf_gb28181_update \<circ> gb_local_sip_port_update),
     override_int ''MIBEE_EYE_GB28181_REGISTER_INTERVAL_SECS'' (cf_gb28181_update \<circ> gb_register_interval_secs_update),
     override_int ''MIBEE_EYE_GB28181_HEARTBEAT_INTERVAL_SECS'' (cf_gb28181_update \<circ> gb_heartbeat_interval_secs_update),
     override_int ''MIBEE_EYE_GB28181_HEARTBEAT_TIMEOUT_COUNT'' (cf_gb28181_update \<circ> gb_heartbeat_timeout_count_update),
     override_string ''MIBEE_EYE_GB28181_TRANSPORT'' (cf_gb28181_update \<circ> gb_transport_update)]"

definition recording_overrides :: "(env \<Rightarrow> config \<Rightarrow> config) list" where
  "recording_overrides =
    [override_bool ''MIBEE_EYE_RECORDING_ENABLED'' (cf_recording_update \<circ> rec_enabled_update),
     override_string ''MIBEE_EYE_RECORDING_STORAGE_PATH'' (cf_recording_update \<circ> rec_storage_path_update),
     override_int ''MIBEE_EYE_RECORDING_SEGMENT_SECS'' (cf_recording_update \<circ> rec_segment_secs_update),
     override_int ''MIBEE_EYE_RECORDING_RETENTION_DAYS'' (cf_recording_update \<circ> rec_retention_days_update),
     override_int ''MIBEE_EYE_RECORDING_MAX_STORAGE_MB'' (cf_recording_update \<circ> rec_max_storage_mb_update)]"

definition ai_overrides :: "(env \<Rightarrow> config \<Rightarrow> config) list" where
  "ai_overrides =
    [override_bool ''MIBEE_EYE_AI_ENABLED'' (cf_ai_update \<circ> ai_enabled_update),
     override_string ''MIBEE_EYE_AI_MODEL_PATH'' (cf_ai_update \<circ> ai_model_path_update),
     override_string ''MIBEE_EYE_AI_ONNX_LIB_PATH'' (cf_ai_update \<circ> ai_onnx_lib_path_update),
     override_float32 ''MIBEE_EYE_AI_CONFIDENCE_THRESHOLD'' (cf_ai_update \<circ> ai_confidence_threshold_update),
     override_uint64 ''MIBEE_EYE_AI_INTERVAL_MS'' (cf_ai_update \<circ> ai_interval_ms_update),
     override_string ''MIBEE_EYE_AI_DECODER_BIN'' (cf_ai_update \<circ> ai_decoder_bin_update)]"

definition env_overrides :: "(env \<Rightarrow> config \<Rightarrow> config) list" where
  "env_overrides = camera_overrides @ rtsp_overrides @ onvif_overrides @ web_overrides @ 
     metrics_overrides @ device_overrides @ logging_snapshot_overrides @ rtmp_hls_overrides @ 
     gb28181_overrides @ recording_overrides @ ai_overrides"

definition apply_env_overrides :: "env \<Rightarrow> config \<Rightarrow> config" where
  "apply_env_overrides e c = fold (\<lambda>f. f e) env_overrides c"

section \<open>The serial number of the device\<close>

fun serial_from_lines :: "string list \<Rightarrow> string" where
  "serial_from_lines [] = []"
| "serial_from_lines (line # ls) =
     (case split_n2 (CHR '':'') (trim_space line) of
        [k, v] \<Rightarrow>
          if trim_space k \<noteq> ''Serial'' then serial_from_lines ls
          else if trim_space v \<noteq> [] then trim_space v else serial_from_lines ls
      | _ \<Rightarrow> serial_from_lines ls)"

definition serial_from_cpuinfo :: "string \<Rightarrow> string" where
  "serial_from_cpuinfo s = serial_from_lines (split_on (chr 10) s)"

definition normalize_machine_id :: "string \<Rightarrow> string" where
  "normalize_machine_id s =
     (let i = trim_space (hd (split_n2 (chr 10) s)) in if length i < 8 then [] else i)"

text \<open>Files that cannot be read are \<open>None\<close>; the machine-id files come in the order of the code.\<close>

fun first_machine_id :: "string option list \<Rightarrow> string" where
  "first_machine_id [] = []"
| "first_machine_id (None # fs) = first_machine_id fs"
| "first_machine_id (Some s # fs) =
     (let i = normalize_machine_id s in if i \<noteq> [] then i else first_machine_id fs)"

definition detect_device_serial :: "string option \<Rightarrow> string option list \<Rightarrow> string" where
  "detect_device_serial cpuinfo ids =
     (let s = (case cpuinfo of None \<Rightarrow> [] | Some d \<Rightarrow> serial_from_cpuinfo d) in
      if s \<noteq> [] then s else first_machine_id ids)"

section \<open>Validation\<close>

text \<open>The first check that fails gives the error, named by its path in the configuration.\<close>

fun first_error :: "(bool \<times> string) list \<Rightarrow> string option" where
  "first_error [] = None"
| "first_error ((bad, err) # cs) = (if bad then Some err else first_error cs)"

definition camera_checks :: "camera_config \<Rightarrow> (bool \<times> string) list" where
  "camera_checks c =
     [(cam_fps c \<le> 0, ''config.camera.fps''),
      (cam_width c \<le> 0, ''config.camera.width''),
      (cam_height c \<le> 0, ''config.camera.height''),
      (cam_bitrate c \<le> 0, ''config.camera.bitrate''),
      (f64_less (cam_brightness c) 0xBFF0000000000000 \<or> f64_less 0x3FF0000000000000 (cam_brightness c),
        ''config.camera.brightness''),
      (f64_less (cam_contrast c) 0 \<or> f64_less 0x4040000000000000 (cam_contrast c), ''config.camera.contrast''),
      (f64_less (cam_saturation c) 0 \<or> f64_less 0x4040000000000000 (cam_saturation c), ''config.camera.saturation''),
      (f64_less (cam_sharpness c) 0 \<or> f64_less 0x4030000000000000 (cam_sharpness c), ''config.camera.sharpness''),
      (cam_mode c \<notin> set [''mtxrpicam'', ''rpicamvid'', ''rtsp'', ''v4l2''], ''config.camera.mode''),
      (cam_rotation c \<notin> set [0, 90, 180, 270], ''config.camera.rotation''),
      (cam_rotation c \<noteq> 0 \<and> cam_mode c \<notin> set [''v4l2'', ''rpicamvid''], ''config.camera.rotation''),
      ((cam_rotation c = 90 \<or> cam_rotation c = 270) \<and> (go_mod (cam_width c) 2 \<noteq> 0 \<or> go_mod (cam_height c) 2 \<noteq> 0),
        ''config.camera''),
      (cam_codec c \<noteq> ''h264'' \<and> cam_codec c \<noteq> ''h265'', ''config.camera.codec'')]"

definition substream_checks :: "camera_config \<Rightarrow> (bool \<times> string) list" where
  "substream_checks c =
     (let sc = cam_substream c; (ew, eh) = effective_dims c in
      if sub_enabled sc then
        [(sub_width sc \<le> 0 \<or> sub_height sc \<le> 0, ''config.camera.substream''),
         (go_mod (sub_width sc) 2 \<noteq> 0 \<or> go_mod (sub_height sc) 2 \<noteq> 0, ''config.camera.substream''),
         (sub_bitrate sc \<le> 0 \<or> 50000000 < sub_bitrate sc, ''config.camera.substream''),
         (ew < sub_width sc \<or> eh < sub_height sc, ''config.camera.substream'')]
      else [])"

definition server_checks :: "config \<Rightarrow> (bool \<times> string) list" where
  "server_checks c =
     [(cam_idr_period (cf_camera c) \<le> 0, ''config.camera.idr_period''),
      (cam_frame_buffer_size (cf_camera c) \<le> 0, ''config.camera.frame_buffer_size''),
      (cam_max_backoff (cf_camera c) \<le> 0, ''config.camera.max_backoff''),
      (rtsp_subscriber_buffer_size (cf_rtsp c) \<le> 0, ''config.rtsp.subscriber_buffer_size''),
      (rtsp_write_queue_size (cf_rtsp c) \<le> 0, ''config.rtsp.write_queue_size''),
      (web_read_header_timeout (cf_web c) < 0, ''config.web.read_header_timeout''),
      (web_read_timeout (cf_web c) < 0, ''config.web.read_timeout''),
      (web_write_timeout (cf_web c) < 0, ''config.web.write_timeout''),
      (web_idle_timeout (cf_web c) < 0, ''config.web.idle_timeout''),
      (rtsp_port (cf_rtsp c) \<le> 0, ''config.rtsp.port''),
      (onvif_port (cf_onvif c) \<le> 0, ''config.onvif.port''),
      (web_enabled (cf_web c) \<and> web_port (cf_web c) \<le> 0, ''config.web.port''),
      (log_level (cf_logging c) \<notin> set [''debug'', ''info'', ''warn'', ''error''], ''config.logging.level''),
      (met_enabled (cf_metrics c) \<and> met_port (cf_metrics c) \<le> 0, ''config.metrics.port''),
      (snap_enabled (cf_snapshot c) \<and> (snap_quality (cf_snapshot c) < 0 \<or> 100 < snap_quality (cf_snapshot c)),
        ''config.snapshot.quality''),
      (gb_transport (cf_gb28181 c) \<notin> set [''udp'', ''tcp'', ''tcp-out'', ''tls'', ''tls-listen'', ''''],
        ''config.gb28181.transport'')]"

definition gb28181_checks :: "gb28181_config \<Rightarrow> (bool \<times> string) list" where
  "gb28181_checks g =
     [(gb_transport g = ''tls-listen'' \<and> (gb_tls_cert_file g = '''' \<or> gb_tls_key_file g = ''''), ''config.gb28181''),
      (gb_multicast_ttl g < 0 \<or> 255 < gb_multicast_ttl g, ''config.gb28181.multicast_ttl''),
      (gb_enabled g \<and> gb_password g = '''' \<and> \<not> gs_enabled (gb_gb35114 g), ''config.gb28181.password'')]"

definition storage_checks :: "config \<Rightarrow> (bool \<times> string) list" where
  "storage_checks c =
     [(rec_retention_days (cf_recording c) < 0, ''config.recording.retention_days''),
      (rec_max_storage_mb (cf_recording c) < 0, ''config.recording.max_storage_mb''),
      (ai_enabled (cf_ai c) \<and> ai_model_path (cf_ai c) = '''', ''config.ai.model_path''),
      (ai_enabled (cf_ai c) \<and> ai_interval_ms (cf_ai c) = 0, ''config.ai.interval_ms''),
      (ai_enabled (cf_ai c) \<and> (\<not> f32_less 0 (ai_confidence_threshold (cf_ai c)) \<and>
          \<not> ieee_nan 0x7F800000 (ai_confidence_threshold (cf_ai c)) \<or>
          f32_less 0x3F800000 (ai_confidence_threshold (cf_ai c))), ''config.ai.confidence_threshold'')]"

definition default_transport :: "gb28181_config \<Rightarrow> gb28181_config" where
  "default_transport g = (if gb_transport g = '''' then g\<lparr>gb_transport := ''udp''\<rparr> else g)"

definition clamp_segment :: "recording_config \<Rightarrow> recording_config" where
  "clamp_segment r = (if rec_segment_secs r < 60 then r\<lparr>rec_segment_secs := 60\<rparr> else r)"

definition validate :: "config \<Rightarrow> string + config" where
  "validate c =
     (case first_error (camera_checks (cf_camera c) @ substream_checks (cf_camera c) @ server_checks c) of
        Some err \<Rightarrow> Inl err
      | None \<Rightarrow>
          let c1 = cf_gb28181_update default_transport c in
          (case first_error (gb28181_checks (cf_gb28181 c1)) of
             Some err \<Rightarrow> Inl err
           | None \<Rightarrow>
               let c2 = cf_recording_update clamp_segment c1 in
               (case first_error (storage_checks c2) of Some err \<Rightarrow> Inl err | None \<Rightarrow> Inr c2)))"

section \<open>Loading\<close>

datatype load_error = ReadFailed | ParseFailed | Invalid string

text \<open>\<open>file\<close> is \<open>None\<close> when it cannot be read; \<open>unmarshal\<close> merges a document over a configuration.\<close>

definition load ::
  "string option \<Rightarrow> (string \<Rightarrow> config \<Rightarrow> config option) \<Rightarrow> env \<Rightarrow> string option \<Rightarrow> string option list \<Rightarrow> load_error + config"
where
  "load file unmarshal e cpuinfo ids =
     (case file of
        None \<Rightarrow> Inl ReadFailed
      | Some text \<Rightarrow>
          (case unmarshal text default_config of
             None \<Rightarrow> Inl ParseFailed
           | Some cfg0 \<Rightarrow>
               let cfg1 = apply_env_overrides e cfg0;
                   detected = detect_device_serial cpuinfo ids;
                   cfg2 = (if dev_serial_number (cf_device cfg1) = '''' \<and> detected \<noteq> ''''
                           then (cf_device_update \<circ> dev_serial_number_update) (\<lambda>_. detected) cfg1 else cfg1)
               in (case validate cfg2 of Inl err \<Rightarrow> Inl (Invalid err) | Inr cfg \<Rightarrow> Inr cfg)))"

section \<open>What validation accepts\<close>

lemma first_error_None: "first_error cs = None \<longleftrightarrow> list_all (\<lambda>(bad, err). \<not> bad) cs"
  by (induction cs rule: first_error.induct) auto

text \<open>Closed ranges; a NaN compares with nothing and passes.\<close>

definition f64_between :: "float64 \<Rightarrow> float64 \<Rightarrow> float64 \<Rightarrow> bool" where
  "f64_between lo hi x \<longleftrightarrow> ieee_nan 0x7FF0000000000000 x \<or> ieee_key lo \<le> ieee_key x \<and> ieee_key x \<le> ieee_key hi"

definition camera_valid :: "camera_config \<Rightarrow> bool" where
  "camera_valid c \<longleftrightarrow>
     0 < cam_fps c \<and> 0 < cam_width c \<and> 0 < cam_height c \<and> 0 < cam_bitrate c \<and>
     f64_between 0xBFF0000000000000 0x3FF0000000000000 (cam_brightness c) \<and>
     f64_between 0 0x4040000000000000 (cam_contrast c) \<and> f64_between 0 0x4040000000000000 (cam_saturation c) \<and>
     f64_between 0 0x4030000000000000 (cam_sharpness c) \<and>
     (cam_rotation c = 0 \<and> (cam_mode c = ''mtxrpicam'' \<or> cam_mode c = ''rtsp'') \<or>
      cam_rotation c \<in> {0, 90, 180, 270} \<and> (cam_mode c = ''rpicamvid'' \<or> cam_mode c = ''v4l2'')) \<and>
     (cam_rotation c \<in> {90, 270} \<longrightarrow> even (cam_width c) \<and> even (cam_height c)) \<and>
     (cam_codec c = ''h264'' \<or> cam_codec c = ''h265'') \<and>
     0 < cam_idr_period c \<and> 0 < cam_frame_buffer_size c \<and> 0 < cam_max_backoff c \<and>
     (sub_enabled (cam_substream c) \<longrightarrow>
        0 < sub_width (cam_substream c) \<and> 0 < sub_height (cam_substream c) \<and>
        even (sub_width (cam_substream c)) \<and> even (sub_height (cam_substream c)) \<and>
        sub_width (cam_substream c) \<le> fst (effective_dims c) \<and> sub_height (cam_substream c) \<le> snd (effective_dims c) \<and>
        0 < sub_bitrate (cam_substream c) \<and> sub_bitrate (cam_substream c) \<le> 50000000)"

definition config_valid :: "config \<Rightarrow> bool" where
  "config_valid c \<longleftrightarrow>
     camera_valid (cf_camera c) \<and>
     0 < rtsp_subscriber_buffer_size (cf_rtsp c) \<and> 0 < rtsp_write_queue_size (cf_rtsp c) \<and> 0 < rtsp_port (cf_rtsp c) \<and>
     0 < onvif_port (cf_onvif c) \<and>
     0 \<le> web_read_header_timeout (cf_web c) \<and> 0 \<le> web_read_timeout (cf_web c) \<and> 0 \<le> web_write_timeout (cf_web c) \<and>
     0 \<le> web_idle_timeout (cf_web c) \<and> (web_enabled (cf_web c) \<longrightarrow> 0 < web_port (cf_web c)) \<and>
     log_level (cf_logging c) \<in> {''debug'', ''info'', ''warn'', ''error''} \<and>
     (met_enabled (cf_metrics c) \<longrightarrow> 0 < met_port (cf_metrics c)) \<and>
     (snap_enabled (cf_snapshot c) \<longrightarrow> 0 \<le> snap_quality (cf_snapshot c) \<and> snap_quality (cf_snapshot c) \<le> 100) \<and>
     gb_transport (cf_gb28181 c) \<in> {''udp'', ''tcp'', ''tcp-out'', ''tls'', ''tls-listen''} \<and>
     (gb_transport (cf_gb28181 c) = ''tls-listen'' \<longrightarrow>
        gb_tls_cert_file (cf_gb28181 c) \<noteq> '''' \<and> gb_tls_key_file (cf_gb28181 c) \<noteq> '''') \<and>
     0 \<le> gb_multicast_ttl (cf_gb28181 c) \<and> gb_multicast_ttl (cf_gb28181 c) \<le> 255 \<and>
     (gb_enabled (cf_gb28181 c) \<longrightarrow> gb_password (cf_gb28181 c) \<noteq> '''' \<or> gs_enabled (gb_gb35114 (cf_gb28181 c))) \<and>
     60 \<le> rec_segment_secs (cf_recording c) \<and> 0 \<le> rec_retention_days (cf_recording c) \<and>
     0 \<le> rec_max_storage_mb (cf_recording c) \<and>
     (ai_enabled (cf_ai c) \<longrightarrow> ai_model_path (cf_ai c) \<noteq> '''' \<and> ai_interval_ms (cf_ai c) \<noteq> 0 \<and>
        (ieee_nan 0x7F800000 (ai_confidence_threshold (cf_ai c)) \<or>
         0 < ieee_key (ai_confidence_threshold (cf_ai c)) \<and>
         ieee_key (ai_confidence_threshold (cf_ai c)) \<le> ieee_key (0x3F800000 :: float32)))"

definition normalized :: "config \<Rightarrow> config" where
  "normalized c = cf_recording_update clamp_segment (cf_gb28181_update default_transport c)"

lemma go_mod_2: "go_mod x 2 \<noteq> 0 \<longleftrightarrow> odd x"
proof -
  have "\<bar>x\<bar> mod 2 = 0 \<longleftrightarrow> even x" by (simp flip: even_iff_mod_2_eq_zero)
  then show ?thesis by (cases "x = 0") (simp_all add: go_mod_def sgn_0_0)
qed

lemma f64_out: "f64_less x lo \<or> f64_less hi x \<longleftrightarrow> \<not> f64_between lo hi x"
  if "\<not> ieee_nan 0x7FF0000000000000 lo" "\<not> ieee_nan 0x7FF0000000000000 hi"
  using that by (auto simp: f64_less_def f64_between_def)

lemma bounds_not_nan:
  "\<not> ieee_nan 0x7FF0000000000000 (0 :: float64)" "\<not> ieee_nan 0x7FF0000000000000 (0xBFF0000000000000 :: float64)"
  "\<not> ieee_nan 0x7FF0000000000000 (0x3FF0000000000000 :: float64)"
  "\<not> ieee_nan 0x7FF0000000000000 (0x4040000000000000 :: float64)"
  "\<not> ieee_nan 0x7FF0000000000000 (0x4030000000000000 :: float64)"
  "\<not> ieee_nan 0x7F800000 (0 :: float32)" "\<not> ieee_nan 0x7F800000 (0x3F800000 :: float32)"
  by (simp_all add: ieee_nan_def)

lemmas f64_ranges = f64_out [OF bounds_not_nan(2,3)] f64_out [OF bounds_not_nan(1,4)] f64_out [OF bounds_not_nan(1,5)]

lemma camera_checks_pass:
  "first_error (camera_checks c @ substream_checks c) = None \<and> 0 < cam_idr_period c \<and> 0 < cam_frame_buffer_size c \<and>
   0 < cam_max_backoff c \<longleftrightarrow> camera_valid c"
proof (cases "effective_dims c")
  case (Pair ew eh)
  show ?thesis
    unfolding first_error_None camera_checks_def substream_checks_def camera_valid_def list_all_append Let_def Pair
      f64_ranges go_mod_2
    apply (cases "sub_enabled (cam_substream c)")
    by (simp_all only: if_True if_False list.pred_inject prod.case not_le not_less de_Morgan_disj not_not simp_thms
      list.set insert_iff empty_iff fst_conv snd_conv) blast+
qed

lemma default_transport_in:
  "gb_transport g \<in> set [''udp'', ''tcp'', ''tcp-out'', ''tls'', ''tls-listen'', ''''] \<longleftrightarrow>
   gb_transport (default_transport g) \<in> {''udp'', ''tcp'', ''tcp-out'', ''tls'', ''tls-listen''}"
  by (cases "gb_transport g = ''''") (simp_all add: default_transport_def)

lemma server_checks_pass:
  "first_error (server_checks c) = None \<longleftrightarrow>
     0 < cam_idr_period (cf_camera c) \<and> 0 < cam_frame_buffer_size (cf_camera c) \<and> 0 < cam_max_backoff (cf_camera c) \<and>
     0 < rtsp_subscriber_buffer_size (cf_rtsp c) \<and> 0 < rtsp_write_queue_size (cf_rtsp c) \<and>
     0 \<le> web_read_header_timeout (cf_web c) \<and> 0 \<le> web_read_timeout (cf_web c) \<and> 0 \<le> web_write_timeout (cf_web c) \<and>
     0 \<le> web_idle_timeout (cf_web c) \<and> 0 < rtsp_port (cf_rtsp c) \<and> 0 < onvif_port (cf_onvif c) \<and>
     (web_enabled (cf_web c) \<longrightarrow> 0 < web_port (cf_web c)) \<and>
     log_level (cf_logging c) \<in> {''debug'', ''info'', ''warn'', ''error''} \<and>
     (met_enabled (cf_metrics c) \<longrightarrow> 0 < met_port (cf_metrics c)) \<and>
     (snap_enabled (cf_snapshot c) \<longrightarrow> 0 \<le> snap_quality (cf_snapshot c) \<and> snap_quality (cf_snapshot c) \<le> 100) \<and>
     gb_transport (default_transport (cf_gb28181 c)) \<in> {''udp'', ''tcp'', ''tcp-out'', ''tls'', ''tls-listen''}"
  unfolding first_error_None server_checks_def default_transport_in [symmetric]
  by (simp only: list.pred_inject prod.case not_le not_less de_Morgan_disj de_Morgan_conj not_not simp_thms
      list.set insert_iff empty_iff) blast

lemma gb28181_checks_pass:
  "first_error (gb28181_checks g) = None \<longleftrightarrow>
     (gb_transport g = ''tls-listen'' \<longrightarrow> gb_tls_cert_file g \<noteq> '''' \<and> gb_tls_key_file g \<noteq> '''') \<and>
     0 \<le> gb_multicast_ttl g \<and> gb_multicast_ttl g \<le> 255 \<and>
     (gb_enabled g \<longrightarrow> gb_password g \<noteq> '''' \<or> gs_enabled (gb_gb35114 g))"
  unfolding first_error_None gb28181_checks_def
  by (simp only: list.pred_inject prod.case not_le not_less de_Morgan_disj de_Morgan_conj not_not simp_thms) blast

lemma storage_checks_pass:
  "first_error (storage_checks c) = None \<longleftrightarrow>
     0 \<le> rec_retention_days (cf_recording c) \<and> 0 \<le> rec_max_storage_mb (cf_recording c) \<and>
     (ai_enabled (cf_ai c) \<longrightarrow> ai_model_path (cf_ai c) \<noteq> '''' \<and> ai_interval_ms (cf_ai c) \<noteq> 0 \<and>
        (ieee_nan 0x7F800000 (ai_confidence_threshold (cf_ai c)) \<or>
         0 < ieee_key (ai_confidence_threshold (cf_ai c)) \<and>
         ieee_key (ai_confidence_threshold (cf_ai c)) \<le> ieee_key (0x3F800000 :: float32)))"
proof -
  have z: "ieee_key (0 :: float32) = 0" by (simp add: ieee_key_def)
  show ?thesis
    unfolding first_error_None storage_checks_def f32_less_def z using bounds_not_nan(6,7)
    by (simp only: list.pred_inject prod.case not_le not_less de_Morgan_disj de_Morgan_conj not_not simp_thms) blast
qed

lemma normalized_simps [simp]:
  "cf_camera (normalized c) = cf_camera c" "cf_rtsp (normalized c) = cf_rtsp c" "cf_onvif (normalized c) = cf_onvif c"
  "cf_web (normalized c) = cf_web c" "cf_logging (normalized c) = cf_logging c" "cf_metrics (normalized c) = cf_metrics c"
  "cf_snapshot (normalized c) = cf_snapshot c" "cf_ai (normalized c) = cf_ai c"
  "cf_gb28181 (normalized c) = default_transport (cf_gb28181 c)" "cf_recording (normalized c) = clamp_segment (cf_recording c)"
  by (simp_all add: normalized_def)

lemma clamp_segment_simps [simp]:
  "60 \<le> rec_segment_secs (clamp_segment r)" "rec_retention_days (clamp_segment r) = rec_retention_days r"
  "rec_max_storage_mb (clamp_segment r) = rec_max_storage_mb r"
  by (simp_all add: clamp_segment_def)

lemma checks_valid:
  "first_error (camera_checks (cf_camera c) @ substream_checks (cf_camera c) @ server_checks c) = None \<and>
   first_error (gb28181_checks (default_transport (cf_gb28181 c))) = None \<and>
   first_error (storage_checks (normalized c)) = None \<longleftrightarrow> config_valid (normalized c)"
proof -
  have split3: "first_error (camera_checks (cf_camera c) @ substream_checks (cf_camera c) @ server_checks c) = None \<longleftrightarrow>
      first_error (camera_checks (cf_camera c) @ substream_checks (cf_camera c)) = None \<and> first_error (server_checks c) = None"
    unfolding append_assoc [symmetric] by (simp only: first_error_None list_all_append)
  show ?thesis
    unfolding split3 server_checks_pass gb28181_checks_pass storage_checks_pass config_valid_def
      camera_checks_pass [symmetric] normalized_simps
    using clamp_segment_simps(1) [of "cf_recording c"] unfolding clamp_segment_simps(2,3) by blast
qed

lemma validate_normalized: "validate c =
   (case first_error (camera_checks (cf_camera c) @ substream_checks (cf_camera c) @ server_checks c) of
      Some err \<Rightarrow> Inl err
    | None \<Rightarrow> (case first_error (gb28181_checks (default_transport (cf_gb28181 c))) of
        Some err \<Rightarrow> Inl err
      | None \<Rightarrow> (case first_error (storage_checks (normalized c)) of Some err \<Rightarrow> Inl err | None \<Rightarrow> Inr (normalized c))))"
  unfolding validate_def normalized_def Let_def by (simp split: option.split)

lemma validate_iff: "validate c = Inr c' \<longleftrightarrow> c' = normalized c \<and> config_valid (normalized c)"
  unfolding validate_normalized checks_valid [symmetric] by (auto split: option.splits)

lemma normalized_idem [simp]: "normalized (normalized c) = normalized c"
  by (simp add: normalized_def default_transport_def clamp_segment_def)

section \<open>The substream of a loaded configuration\<close>

text \<open>The options that \<open>cmd/server/main.go\<close> passes, and when it creates the pipeline.\<close>

definition substream_supported :: "camera_config \<Rightarrow> bool" where
  "substream_supported c \<longleftrightarrow>
     cam_mode c = ''v4l2'' \<or> cam_mode c = ''rpicamvid'' \<and> (cam_rotation c = 90 \<or> cam_rotation c = 270)"

definition substream_options_of :: "camera_config \<Rightarrow> sub_options" where
  "substream_options_of c =
     (let (w, h) = effective_dims c in
      \<lparr>so_src_w = w, so_src_h = h, so_width = sub_width (cam_substream c), so_height = sub_height (cam_substream c),
       so_fps = effective_fps (cam_substream c) (cam_fps c), so_ffmpeg = (cam_ffmpeg_bin c \<noteq> ''''),
       so_main_fps = cam_fps c\<rparr>)"

lemma unat_of_int_small: "0 \<le> x \<Longrightarrow> x < 2 ^ 32 \<Longrightarrow> unat (of_int x :: 32 word) = nat x"
proof -
  assume "0 \<le> x" "x < 2 ^ 32"
  moreover from \<open>0 \<le> x\<close> obtain n where "x = int n" using nonneg_int_cases by blast
  ultimately show ?thesis by (simp add: unat_of_nat)
qed

lemma camera_valid_sub_ok:
  assumes "camera_valid c" "sub_enabled (cam_substream c)" "cam_width c * cam_height c < 2 ^ 32"
  shows "sub_ok (substream_options_of c)"
proof -
  obtain w h where d: "effective_dims c = (w, h)" by fastforce
  let ?sw = "sub_width (cam_substream c)" and ?sh = "sub_height (cam_substream c)"
  have v: "0 < ?sw" "0 < ?sh" "even ?sw" "even ?sh" "?sw \<le> w" "?sh \<le> h"
    using assms(1,2) d by (auto simp: camera_valid_def)
  have two: "2 \<le> x" if "0 < x" "even x" for x :: int using that by presburger
  have s: "2 \<le> ?sw" "2 \<le> ?sh" using two v(1-4) by blast+
  have wh: "w * h = cam_width c * cam_height c"
    using d by (auto simp: effective_dims_def mult.commute split: if_splits)
  have "w * 1 \<le> w * h" "1 * h \<le> w * h"
    using v s by (intro mult_left_mono mult_right_mono; simp)+
  then have lt: "w < 2 ^ 32" "h < 2 ^ 32" "?sw < 2 ^ 32" "?sh < 2 ^ 32"
    using assms(3) wh v(5,6) by simp_all
  have "nat w * nat h < 2 ^ 32"
    using assms(3) wh v s by (simp add: nat_mult_distrib [symmetric] nat_less_iff)
  moreover have "2 \<le> nat w" "2 \<le> nat h" "nat ?sw \<le> nat w" "nat ?sh \<le> nat h" using v s by linarith+
  ultimately show ?thesis
    using v s lt by (simp add: sub_ok_def downscale_ok_def substream_options_of_def d unat_of_int_small)
qed

section \<open>Properties\<close>

lemma load_valid: "load file unmarshal e cpuinfo ids = Inr c \<Longrightarrow> config_valid c"
  unfolding load_def Let_def by (auto simp: validate_iff simp del: o_apply split: option.split_asm sum.split_asm)


text \<open>Whatever the file, the environment and the board say, loading gives an error or a valid
  configuration that validation leaves as it is; an explicit serial number is kept.\<close>

theorem loaded_config_valid:
  assumes "load file unmarshal e cpuinfo ids = Inr c"
  shows "config_valid c \<and> validate c = Inr c \<and>
    (\<exists>doc c0. file = Some doc \<and> unmarshal doc default_config = Some c0 \<and>
       dev_serial_number (cf_device c) =
         (let s = dev_serial_number (cf_device (apply_env_overrides e c0)) in
          if s = '''' then detect_device_serial cpuinfo ids else s))"
proof -
  obtain doc c0 where f: "file = Some doc" "unmarshal doc default_config = Some c0"
    using assms by (auto simp: load_def split: option.splits)
  let ?c1 = "apply_env_overrides e c0" and ?d = "detect_device_serial cpuinfo ids"
  let ?c2 = "if dev_serial_number (cf_device ?c1) = '''' \<and> ?d \<noteq> ''''
      then (cf_device_update \<circ> dev_serial_number_update) (\<lambda>_. ?d) ?c1 else ?c1"
  have v: "validate ?c2 = Inr c" using assms unfolding load_def f Let_def option.case by (simp only: split: sum.splits) auto
  then have c: "c = normalized ?c2" "config_valid c" unfolding validate_iff by auto
  moreover have "validate c = Inr c" using c validate_iff [of c c] by simp
  moreover have "cf_device c = cf_device ?c2" unfolding c(1) by (simp add: normalized_def)
  ultimately show ?thesis using f by (auto simp: Let_def)
qed

lemma default_valid: "config_valid default_config" "normalized default_config = default_config"
  by (simp_all add: config_valid_def camera_valid_def default_config_def default_camera_def default_gb28181_def second_ns_def
    f64_between_def ieee_key_def effective_dims_def normalized_def default_transport_def clamp_segment_def)

lemma no_env: "(\<And>n. env_vars e n = None) \<Longrightarrow> apply_env_overrides e c = c"
proof -
  assume none: "\<And>n. env_vars e n = None"
  have one: "override_with p n u e c = c" for p n and u :: "('v \<Rightarrow> 'v) \<Rightarrow> config \<Rightarrow> config" and c
    by (simp add: override_with_def none)
  have "f e c = c" if "f \<in> set env_overrides" for f c
    using that
    by (auto simp: env_overrides_def camera_overrides_def rtsp_overrides_def onvif_overrides_def web_overrides_def
      metrics_overrides_def device_overrides_def logging_snapshot_overrides_def rtmp_hls_overrides_def
      gb28181_overrides_def recording_overrides_def ai_overrides_def
      override_string_def override_int_def override_float_def override_float32_def override_uint64_def
      override_bool_def override_string_slice_def override_duration_def one)
  then have "fold (\<lambda>f. f e) fs c = c" if "set fs \<subseteq> set env_overrides" for fs
    using that by (induction fs arbitrary: c) auto
  then show ?thesis by (simp add: apply_env_overrides_def)
qed

definition empty_env :: env where
  "empty_env = \<lparr>env_vars = (\<lambda>_. None), env_float = (\<lambda>_. None), env_float32 = (\<lambda>_. None), env_duration = (\<lambda>_. None)\<rparr>"

theorem loaded_config_valid_witness:
  "\<exists>c. load (Some ''web: {}'') (\<lambda>_. Some) empty_env None [None, None] = Inr c \<and> config_valid c"
proof -
  have "validate default_config = Inr default_config"
    using validate_iff [of default_config default_config] default_valid by simp
  moreover have "apply_env_overrides empty_env default_config = default_config"
    by (rule no_env) (simp add: empty_env_def)
  moreover have "detect_device_serial None [None, None] = ''''" by (simp add: detect_device_serial_def)
  ultimately have l: "load (Some ''web: {}'') (\<lambda>_. Some) empty_env None [None, None] = Inr default_config"
    by (simp add: load_def Let_def)
  show ?thesis using loaded_config_valid [OF l] l by blast
qed

text \<open>The substream that the server builds from a loaded configuration runs without panics: validation
  guarantees even, positive sub dimensions within the rotated capture dimensions, which is what the
  downscaler needs (as long as a frame has fewer than 2^32 pixels).\<close>

theorem loaded_substream_never_panics:
  assumes "load file unmarshal e cpuinfo ids = Inr c"
    and "sub_enabled (cam_substream (cf_camera c))" "substream_supported (cf_camera c)"
    and "cam_width (cf_camera c) * cam_height (cf_camera c) < 2 ^ 32"
    and "new_substream (substream_options_of (cf_camera c)) probe m2m_opens ffmpeg_opens = Some p"
  shows "\<exists>p'. sub_run es p = Some p' \<and> (sp_disabled p' \<or> sp_enc p' \<noteq> None)"
proof -
  have "config_valid c" using assms(1) by (rule load_valid)
  then have "sub_ok (substream_options_of (cf_camera c))"
    using camera_valid_sub_ok assms(2,4) by (simp add: config_valid_def)
  then have "sub_wf p" using new_substream_wf assms(5) by blast
  then obtain p' where "sub_run es p = Some p'" "sub_wf p'" using sub_run_wf by blast
  then show ?thesis by (auto simp: sub_wf_def)
qed

definition sub_doc :: "config \<Rightarrow> config" where
  "sub_doc = cf_camera_update (\<lambda>c. c\<lparr>cam_mode := ''v4l2'', cam_substream := (cam_substream c)\<lparr>sub_enabled := True\<rparr>\<rparr>)"

theorem loaded_substream_never_panics_witness:
  "\<exists>c p. load (Some '''') (\<lambda>_ d. Some (sub_doc d)) empty_env None [] = Inr c \<and>
     new_substream (substream_options_of (cf_camera c)) None False True = Some p \<and>
     (\<exists>p'. sub_run [Round True True] p = Some p')"
proof -
  let ?c = "sub_doc default_config"
  have v: "validate ?c = Inr ?c"
    unfolding validate_iff
    by (simp add: config_valid_def camera_valid_def sub_doc_def default_config_def default_camera_def default_gb28181_def
      second_ns_def f64_between_def ieee_key_def effective_dims_def normalized_def default_transport_def clamp_segment_def)
  have "apply_env_overrides empty_env ?c = ?c" by (rule no_env) (simp add: empty_env_def)
  moreover have "detect_device_serial None [] = ''''" by (simp add: detect_device_serial_def)
  ultimately have l: "load (Some '''') (\<lambda>_ d. Some (sub_doc d)) empty_env None [] = Inr ?c"
    using v by (simp add: load_def Let_def)
  have s: "sub_enabled (cam_substream (cf_camera ?c))" "substream_supported (cf_camera ?c)"
    "cam_width (cf_camera ?c) * cam_height (cf_camera ?c) < 2 ^ 32" "cam_ffmpeg_bin (cf_camera ?c) \<noteq> ''''"
    by (simp_all add: sub_doc_def default_config_def default_camera_def substream_supported_def)
  then obtain p where p: "new_substream (substream_options_of (cf_camera ?c)) None False True = Some p"
    by (simp add: new_substream_def Let_def case_prod_beta substream_options_of_def)
  from loaded_substream_never_panics [OF l s(1-3) p, of "[Round True True]"] l p show ?thesis by blast
qed

section \<open>What loading does not do\<close>

text \<open>A NaN is outside no range, so it passes every check of a floating-point field.\<close>

theorem nan_is_accepted:
  "\<exists>c. validate ((cf_camera_update \<circ> cam_brightness_update) (\<lambda>_. 0x7FF8000000000000) default_config) = Inr c \<and>
     ieee_nan 0x7FF0000000000000 (cam_brightness (cf_camera c))"
  unfolding validate_iff
  by (simp add: config_valid_def camera_valid_def default_config_def default_camera_def default_gb28181_def
      second_ns_def f64_between_def ieee_key_def ieee_nan_def effective_dims_def normalized_def default_transport_def clamp_segment_def)

text \<open>Some fields have no environment variable: whatever the environment, they keep the file's value.\<close>

lemma override_with_keeps:
  "(\<And>f c. p (u f c) = p c) \<Longrightarrow> p (override_with v n u e c) = p c"
  by (simp add: override_with_def split: option.splits)

theorem rotation_has_no_override:
  "cam_rotation (cf_camera (apply_env_overrides e c)) = cam_rotation (cf_camera c) \<and>
   cam_hflip (cf_camera (apply_env_overrides e c)) = cam_hflip (cf_camera c) \<and>
   cam_rtsp_url (cf_camera (apply_env_overrides e c)) = cam_rtsp_url (cf_camera c)"
proof -
  define p where "p c = (cam_rotation (cf_camera c), cam_hflip (cf_camera c), cam_rtsp_url (cf_camera c))" for c :: config
  note keep = override_with_keeps [where p = p]
  have "p (f e c) = p c" if "f \<in> set env_overrides" for f c
    using that
    by (auto simp: env_overrides_def camera_overrides_def rtsp_overrides_def onvif_overrides_def web_overrides_def
      metrics_overrides_def device_overrides_def logging_snapshot_overrides_def rtmp_hls_overrides_def
      gb28181_overrides_def recording_overrides_def ai_overrides_def
      override_string_def override_int_def override_float_def override_float32_def override_uint64_def
      override_bool_def override_string_slice_def override_duration_def intro!: keep) (simp_all add: p_def)
  then have "p (fold (\<lambda>f. f e) fs c) = p c" if "set fs \<subseteq> set env_overrides" for fs
    using that by (induction fs arbitrary: c) auto
  then have "p (apply_env_overrides e c) = p c" by (simp add: apply_env_overrides_def)
  then show ?thesis by (simp add: p_def)
qed

end
