(* ===== verification/Amf.thy ===== *)
theory Amf
  imports Ieee
begin

text \<open>
  AMF0 encoding and decoding of \<open>internal/rtmp/amf.go\<close>. A \<open>float64\<close> is its IEEE 754 bit
  pattern (a 64-bit word), which is what \<open>math.Float64bits\<close> and \<open>Float64frombits\<close> move; the
  two operations the program performs on the numbers (equality of transaction identifiers and
  the conversion to \<open>uint32\<close>) are defined on the bit patterns.
\<close>

section \<open>Errors\<close>

datatype rtmp_error =
    UnexpectedEOF
  | AMFTypeError
  | HandshakeVersion byte
  | ReadEOF

section \<open>Writer\<close>

text \<open>The writer is its buffer; every operation appends.\<close>

definition write_utf8 :: "bytes \<Rightarrow> bytes \<Rightarrow> bytes" where
  "write_utf8 w s = w @ be16 (of_nat (length s)) @ s"

definition write_number :: "bytes \<Rightarrow> float64 \<Rightarrow> bytes" where
  "write_number w v = w @ [0x00] @ be64 v"

definition write_bool :: "bytes \<Rightarrow> bool \<Rightarrow> bytes" where
  "write_bool w v = w @ [0x01] @ (if v then [0x01] else [0x00])"

definition write_string :: "bytes \<Rightarrow> bytes \<Rightarrow> bytes" where
  "write_string w s = write_utf8 (w @ [0x02]) s"

definition write_null :: "bytes \<Rightarrow> bytes" where
  "write_null w = w @ [0x05]"

definition write_object_start :: "bytes \<Rightarrow> bytes" where
  "write_object_start w = w @ [0x03]"

definition write_object_end :: "bytes \<Rightarrow> bytes" where
  "write_object_end w = w @ [0x00, 0x00, 0x09]"

text \<open>The dynamic types \<open>writeObjectEntry\<close> distinguishes; any other value is written as null.\<close>

datatype go_value = GoFloat float64 | GoString bytes | GoBool bool | GoNil | GoOther

definition write_object_entry :: "bytes \<Rightarrow> bytes \<Rightarrow> go_value \<Rightarrow> bytes" where
  "write_object_entry w key v =
     (let w' = write_utf8 w key in
      case v of GoFloat x \<Rightarrow> write_number w' x
              | GoString s \<Rightarrow> write_string w' s
              | GoBool b \<Rightarrow> write_bool w' b
              | GoNil \<Rightarrow> write_null w'
              | GoOther \<Rightarrow> write_null w')"

section \<open>Reader\<close>

record amf_reader =
  rd_data :: bytes
  rd_pos :: nat

definition new_amf_reader :: "bytes \<Rightarrow> amf_reader" where
  "new_amf_reader d = \<lparr>rd_data = d, rd_pos = 0\<rparr>"

definition available :: "amf_reader \<Rightarrow> int" where
  "available r = int (length (rd_data r)) - int (rd_pos r)"

definition advance :: "nat \<Rightarrow> amf_reader \<Rightarrow> amf_reader" where
  "advance n r = r\<lparr>rd_pos := rd_pos r + n\<rparr>"

definition read_marker :: "amf_reader \<Rightarrow> rtmp_error + byte \<times> amf_reader" where
  "read_marker r =
     (if length (rd_data r) \<le> rd_pos r then Inl UnexpectedEOF
      else Inr (rd_data r ! rd_pos r, advance 1 r))"

definition read_utf8 :: "amf_reader \<Rightarrow> rtmp_error + bytes \<times> amf_reader" where
  "read_utf8 r =
     (let d = rd_data r; p = rd_pos r in
      if length d < p + 2 then Inl UnexpectedEOF
      else let n = unat (from_be16 (d ! p) (d ! (p + 1))) in
        if length d < p + 2 + n then Inl UnexpectedEOF
        else Inr (take n (drop (p + 2) d), advance (2 + n) r))"

definition read_string :: "amf_reader \<Rightarrow> rtmp_error + bytes \<times> amf_reader" where
  "read_string r =
     (case read_marker r of
        Inl e \<Rightarrow> Inl e
      | Inr (m, r') \<Rightarrow> if m \<noteq> 0x02 then Inl AMFTypeError else read_utf8 r')"

definition get_be64 :: "bytes \<Rightarrow> float64" where
  "get_be64 d = from_be64 (from_be32 (d ! 0) (d ! 1) (d ! 2) (d ! 3))
                          (from_be32 (d ! 4) (d ! 5) (d ! 6) (d ! 7))"

definition read_number :: "amf_reader \<Rightarrow> rtmp_error + float64 \<times> amf_reader" where
  "read_number r =
     (case read_marker r of
        Inl e \<Rightarrow> Inl e
      | Inr (m, r') \<Rightarrow>
          if m \<noteq> 0x00 then Inl AMFTypeError
          else if length (rd_data r') < rd_pos r' + 8 then Inl UnexpectedEOF
          else Inr (get_be64 (drop (rd_pos r') (rd_data r')), advance 8 r'))"

definition skip_utf8 :: "amf_reader \<Rightarrow> rtmp_error + amf_reader" where
  "skip_utf8 r =
     (let d = rd_data r; p = rd_pos r in
      if length d < p + 2 then Inl UnexpectedEOF
      else let n = unat (from_be16 (d ! p) (d ! (p + 1))) in
        if length d < p + 2 + n then Inl UnexpectedEOF else Inr (advance (2 + n) r))"

text \<open>
  \<open>skipValue\<close> recurses through nested objects and loops over an object's fields. The fuel
  counts calls; \<open>None\<close> (fuel exhausted) is shown impossible below when the fuel exceeds the
  number of bytes left.
\<close>

fun skip_value :: "nat \<Rightarrow> amf_reader \<Rightarrow> (rtmp_error + amf_reader) option"
  and skip_fields :: "nat \<Rightarrow> amf_reader \<Rightarrow> (rtmp_error + amf_reader) option" where
  "skip_value 0 r = None"
| "skip_value (Suc f) r =
     (case read_marker r of
        Inl e \<Rightarrow> Some (Inl e)
      | Inr (m, r') \<Rightarrow>
          if m = 0x00 then
            (if length (rd_data r') < rd_pos r' + 8 then Some (Inl UnexpectedEOF) else Some (Inr (advance 8 r')))
          else if m = 0x01 then
            (if length (rd_data r') < rd_pos r' + 1 then Some (Inl UnexpectedEOF) else Some (Inr (advance 1 r')))
          else if m = 0x02 then Some (skip_utf8 r')
          else if m = 0x03 then skip_fields f r'
          else if m = 0x05 then Some (Inr r')
          else Some (Inl AMFTypeError))"
| "skip_fields 0 r = None"
| "skip_fields (Suc f) r =
     (let d = rd_data r; p = rd_pos r in
      if length d < p + 3 then Some (Inl UnexpectedEOF)
      else if d ! p = 0 \<and> d ! (p + 1) = 0 \<and> d ! (p + 2) = 0x09 then Some (Inr (advance 3 r))
      else (case skip_utf8 r of
              Inl e \<Rightarrow> Some (Inl e)
            | Inr r1 \<Rightarrow> (case skip_value f r1 of
                None \<Rightarrow> None
              | Some (Inl e) \<Rightarrow> Some (Inl e)
              | Some (Inr r2) \<Rightarrow> skip_fields f r2)))"

definition bytes_left :: "amf_reader \<Rightarrow> nat" where
  "bytes_left r = length (rd_data r) - rd_pos r"

section \<open>Commands\<close>

definition parse_command :: "bytes \<Rightarrow> rtmp_error + bytes \<times> float64 \<times> bytes" where
  "parse_command d =
     (case read_string (new_amf_reader d) of
        Inl e \<Rightarrow> Inl e
      | Inr (cmd, r) \<Rightarrow>
          (case read_number r of
             Inl e \<Rightarrow> Inl e
           | Inr (txn, r') \<Rightarrow>
               Inr (cmd, txn, if 0 < available r' then drop (rd_pos r') (rd_data r') else [])))"

text \<open>The number that follows the properties in \<open>parseStreamID\<close>.\<close>

definition stream_id_number :: "(float64 \<Rightarrow> 32 word) \<Rightarrow> amf_reader \<Rightarrow> rtmp_error + 32 word" where
  "stream_id_number oor r =
     (if available r < 1 then Inl UnexpectedEOF
      else case read_marker r of
        Inl e \<Rightarrow> Inl e
      | Inr (m, r') \<Rightarrow>
          if m \<noteq> 0x00 then Inl AMFTypeError
          else if length (rd_data r') < rd_pos r' + 8 then Inl UnexpectedEOF
          else Inr (f64_to_u32 oor (get_be64 (drop (rd_pos r') (rd_data r')))))"

text \<open>
  \<open>parseStreamID\<close>. Its inlined loop over the properties object is the loop of \<open>skipValue\<close>.
\<close>

definition parse_stream_id :: "(float64 \<Rightarrow> 32 word) \<Rightarrow> bytes \<Rightarrow> (rtmp_error + 32 word) option" where
  "parse_stream_id oor d =
     (case read_marker (new_amf_reader d) of
        Inl e \<Rightarrow> Some (Inl e)
      | Inr (m, r) \<Rightarrow>
          if m = 0x05 then Some (stream_id_number oor r)
          else if m = 0x03 then
            (case skip_fields (Suc (length d)) r of
               None \<Rightarrow> None
             | Some (Inl e) \<Rightarrow> Some (Inl e)
             | Some (Inr r') \<Rightarrow> Some (stream_id_number oor r'))
          else Some (Inl AMFTypeError))"

section \<open>Reading back what was written\<close>

definition at :: "bytes \<Rightarrow> bytes \<Rightarrow> amf_reader" where
  "at pre rest = \<lparr>rd_data = pre @ rest, rd_pos = length pre\<rparr>"

lemma at_simps [simp]:
  "rd_data (at pre rest) = pre @ rest" "rd_pos (at pre rest) = length pre"
  "bytes_left (at pre rest) = length rest" "available (at pre rest) = int (length rest)"
  by (simp_all add: at_def bytes_left_def available_def)

lemma new_reader_at: "new_amf_reader d = at [] d"
  by (simp add: new_amf_reader_def at_def)

lemma advance_at: "n = length xs \<Longrightarrow> advance n (at pre (xs @ rest)) = at (pre @ xs) rest"
  by (simp add: advance_def at_def)

lemma read_marker_at [wire]: "read_marker (at pre (b # rest)) = Inr (b, at (pre @ [b]) rest)"
  using advance_at [of 1 "[b]" pre rest] by (simp add: read_marker_def nth_append)

lemma be16_at [wire]:
  "from_be16 ((pre @ be16 v @ rest) ! length pre) ((pre @ be16 v @ rest) ! Suc (length pre)) = v"
  by (simp add: be16_def nth_append from_be16_parts)

lemma unat_len16: "n < 2 ^ 16 \<Longrightarrow> unat (of_nat n :: 16 word) = n"
  by (simp add: unat_of_nat_lt)

lemma utf8_at [wire]:
  assumes "length s < 2 ^ 16"
  shows "read_utf8 (at pre (write_utf8 [] s @ rest)) = Inr (s, at (pre @ write_utf8 [] s) rest)"
    and "skip_utf8 (at pre (write_utf8 [] s @ rest)) = Inr (at (pre @ write_utf8 [] s) rest)"
proof -
  let ?b = "be16 (of_nat (length s))"
  have n: "unat (from_be16 ((pre @ ?b @ s @ rest) ! length pre) ((pre @ ?b @ s @ rest) ! Suc (length pre)))
      = length s"
    unfolding be16_at using assms by (simp add: unat_len16)
  have adv: "advance (2 + length s) (at pre ((?b @ s) @ rest)) = at (pre @ ?b @ s) rest"
    by (rule advance_at) simp
  show "read_utf8 (at pre (write_utf8 [] s @ rest)) = Inr (s, at (pre @ write_utf8 [] s) rest)"
    using n adv by (simp add: read_utf8_def write_utf8_def Let_def)
  show "skip_utf8 (at pre (write_utf8 [] s @ rest)) = Inr (at (pre @ write_utf8 [] s) rest)"
    using n adv by (simp add: skip_utf8_def write_utf8_def Let_def)
qed

lemma write_utf8_app: "write_utf8 w s = w @ write_utf8 [] s"
  by (simp add: write_utf8_def)

lemma write_string_at [wire]:
  "length s < 2 ^ 16 \<Longrightarrow>
   read_string (at pre (write_string [] s @ rest)) = Inr (s, at (pre @ write_string [] s) rest)"
  using utf8_at(1) [of s "pre @ [2]" rest]
  by (simp add: write_string_def write_utf8_app [of "[2]"] read_string_def read_marker_at)

lemma get_be64_app [wire]: "get_be64 (be64 v @ rest) = v"
  by (simp add: get_be64_def be64_def be32_def from_be32_parts from_be64_parts)

lemma write_number_at [wire]:
  "read_number (at pre (write_number [] v @ rest)) = Inr (v, at (pre @ write_number [] v) rest)"
  using advance_at [of 8 "be64 v" "pre @ [0]" rest]
  by (simp add: write_number_def read_number_def read_marker_at get_be64_app)

definition amf_string_dec :: "bytes \<Rightarrow> (bytes \<times> bytes) option" where
  "amf_string_dec bs = (case read_string (new_amf_reader bs) of
      Inl _ \<Rightarrow> None | Inr (s, r) \<Rightarrow> Some (s, drop (rd_pos r) (rd_data r)))"

definition amf_number_dec :: "bytes \<Rightarrow> (float64 \<times> bytes) option" where
  "amf_number_dec bs = (case read_number (new_amf_reader bs) of
      Inl _ \<Rightarrow> None | Inr (v, r) \<Rightarrow> Some (v, drop (rd_pos r) (rd_data r)))"

interpretation amf_strings: prefix_codec "write_string []" amf_string_dec "\<lambda>s. length s < 2 ^ 16"
proof
  fix s rest :: bytes assume "length s < 2 ^ 16"
  then show "amf_string_dec (write_string [] s @ rest) = Some (s, rest)"
    using write_string_at [of s "[]" rest] by (simp add: amf_string_dec_def new_reader_at)
qed (simp add: write_string_def write_utf8_def)

interpretation amf_numbers: prefix_codec "write_number []" amf_number_dec "\<lambda>_. True"
proof
  fix v :: float64 and rest :: bytes
  show "amf_number_dec (write_number [] v @ rest) = Some (v, rest)"
    using write_number_at [of "[]" v rest] by (simp add: amf_number_dec_def new_reader_at)
qed (simp add: write_number_def)

lemma parse_command_written:
  assumes "length cmd < 2 ^ 16"
  shows "parse_command (write_number (write_string [] cmd) txn @ rest) = Inr (cmd, txn, rest)"
proof -
  have w: "write_number (write_string [] cmd) txn @ rest = write_string [] cmd @ (write_number [] txn @ rest)"
    by (simp add: write_number_def)
  have "read_string (at [] (write_string [] cmd @ (write_number [] txn @ rest)))
      = Inr (cmd, at (write_string [] cmd) (write_number [] txn @ rest))"
    using write_string_at [OF assms, of "[]"] by simp
  moreover have "read_number (at (write_string [] cmd) (write_number [] txn @ rest))
      = Inr (txn, at (write_string [] cmd @ write_number [] txn) rest)"
    by (rule write_number_at)
  ultimately show ?thesis by (simp add: parse_command_def new_reader_at w)
qed

section \<open>skipValue returns, and consumes exactly one value\<close>

lemma skip_utf8_left: "skip_utf8 r = Inr r' \<Longrightarrow> bytes_left r' + 2 \<le> bytes_left r"
  by (auto simp: skip_utf8_def Let_def bytes_left_def advance_def split: if_splits)

lemma read_marker_left: "read_marker r = Inr (m, r') \<Longrightarrow> bytes_left r' + 1 = bytes_left r"
  by (auto simp: read_marker_def bytes_left_def advance_def split: if_splits)

lemma advance_left: "bytes_left (advance n r) = bytes_left r - n"
  by (simp add: bytes_left_def advance_def)

lemma skip_enough:
  "(bytes_left r < f \<longrightarrow> (\<exists>x. skip_value f r = Some x \<and> (\<forall>r'. x = Inr r' \<longrightarrow> bytes_left r' < bytes_left r))) \<and>
   (bytes_left r < f \<longrightarrow> (\<exists>x. skip_fields f r = Some x \<and> (\<forall>r'. x = Inr r' \<longrightarrow> bytes_left r' \<le> bytes_left r)))"
proof (induction f arbitrary: r)
  case (Suc f)
  have val: "\<exists>x. skip_value (Suc f) r = Some x \<and> (\<forall>r'. x = Inr r' \<longrightarrow> bytes_left r' < bytes_left r)"
    if left: "bytes_left r < Suc f"
  proof (cases "read_marker r")
    case (Inr mr)
    obtain m r1 where mr: "mr = (m, r1)" by (cases mr)
    have r1: "bytes_left r1 + 1 = bytes_left r" using read_marker_left Inr mr by blast
    then obtain x where "skip_fields f r1 = Some x" "\<forall>r'. x = Inr r' \<longrightarrow> bytes_left r' \<le> bytes_left r1"
      using Suc.IH [of r1] left by auto
    then show ?thesis
      using Inr mr r1 by (auto simp: advance_left dest!: skip_utf8_left)
  qed simp
  have fld: "\<exists>x. skip_fields (Suc f) r = Some x \<and> (\<forall>r'. x = Inr r' \<longrightarrow> bytes_left r' \<le> bytes_left r)"
    if left: "bytes_left r < Suc f"
  proof (cases "skip_utf8 r")
    case (Inr r1)
    then have r1: "bytes_left r1 + 2 \<le> bytes_left r" by (rule skip_utf8_left)
    then obtain x where x: "skip_value f r1 = Some x" "\<forall>r'. x = Inr r' \<longrightarrow> bytes_left r' < bytes_left r1"
      using Suc.IH [of r1] left by auto
    show ?thesis
    proof (cases x)
      case (Inr r2)
      then have "bytes_left r2 < f" using x r1 left by auto
      then obtain y where "skip_fields f r2 = Some y" "\<forall>r'. y = Inr r' \<longrightarrow> bytes_left r' \<le> bytes_left r2"
        using Suc.IH [of r2] by auto
      then show ?thesis using Inr x r1 \<open>skip_utf8 r = Inr r1\<close> by (auto simp: Let_def advance_left)
    qed (use x Inr in \<open>auto simp: Let_def advance_left\<close>)
  qed (auto simp: Let_def advance_left)
  show ?case using val fld by blast
qed simp

text \<open>The values a peer can send, and their encoding by the writer's operations.\<close>

datatype amf = ANum float64 | ABool bool | AStr bytes | ANull | AObj "(bytes \<times> amf) list"

fun amf_enc :: "amf \<Rightarrow> bytes" where
  "amf_enc (ANum v) = write_number [] v"
| "amf_enc (ABool b) = write_bool [] b"
| "amf_enc (AStr s) = write_string [] s"
| "amf_enc ANull = write_null []"
| "amf_enc (AObj fs) =
     write_object_end (write_object_start [] @ concat (map (\<lambda>(k, v). write_utf8 [] k @ amf_enc v) fs))"

fun amf_ok :: "amf \<Rightarrow> bool" where
  "amf_ok (AStr s) = (length s < 2 ^ 16)"
| "amf_ok (AObj fs) = list_all (\<lambda>(k, v). length k < 2 ^ 16 \<and> amf_ok v) fs"
| "amf_ok _ = True"

definition enc_fields :: "(bytes \<times> amf) list \<Rightarrow> bytes" where
  "enc_fields fs = concat (map (\<lambda>(k, v). write_utf8 [] k @ amf_enc v) fs) @ [0, 0, 9]"

lemma enc_fields_simps:
  "enc_fields [] = [0, 0, 9]"
  "enc_fields ((k, v) # fs) = write_utf8 [] k @ amf_enc v @ enc_fields fs"
  by (simp_all add: enc_fields_def)

lemma amf_enc_obj: "amf_enc (AObj fs) = 0x03 # enc_fields fs"
  by (simp add: write_object_start_def write_object_end_def enc_fields_def)

lemma amf_enc_hd: "\<exists>m bs. amf_enc v = m # bs \<and> m \<noteq> 9"
  by (cases v) (simp_all add: write_number_def write_bool_def write_string_def write_utf8_def
      write_null_def amf_enc_obj del: amf_enc.simps(5))

text \<open>A field is never mistaken for the end-of-object marker.\<close>

lemma field_not_end:
  assumes "length k < 2 ^ 16"
  shows "\<exists>a b c bs. write_utf8 [] k @ amf_enc v = a # b # c # bs \<and> \<not> (a = 0 \<and> b = 0 \<and> c = 9)"
proof (cases k)
  case Nil
  then show ?thesis using amf_enc_hd [of v] by (auto simp: write_utf8_def be16_def)
next
  case (Cons x xs)
  let ?n = "of_nat (length k) :: 16 word"
  have "?n \<noteq> 0"
    using assms Cons unat_len16 [of "length k"] by (metis length_0_conv list.distinct(1) unat_0)
  then have "\<not> (ucast (drop_bit 8 ?n) = (0 :: byte) \<and> ucast ?n = (0 :: byte))"
    using from_be16_parts [of ?n] by (auto simp: from_be16_def)
  then show ?thesis using Cons by (auto simp: write_utf8_def be16_def)
qed

lemma skip_fields_field:
  assumes "length k < 2 ^ 16"
    and "skip_value f (at (pre @ write_utf8 [] k) (amf_enc v @ rest)) =
         Some (Inr (at (pre @ write_utf8 [] k @ amf_enc v) rest))"
  shows "skip_fields (Suc f) (at pre (write_utf8 [] k @ amf_enc v @ rest)) =
         skip_fields f (at (pre @ write_utf8 [] k @ amf_enc v) rest)"
proof -
  obtain a b c bs where hd: "write_utf8 [] k @ amf_enc v = a # b # c # bs" "\<not> (a = 0 \<and> b = 0 \<and> c = 9)"
    using field_not_end [OF assms(1)] by blast
  then have hd': "write_utf8 [] k @ amf_enc v @ rest = a # b # c # bs @ rest" by (metis append_Cons append_assoc)
  have sk: "skip_utf8 (at pre (write_utf8 [] k @ (amf_enc v @ rest))) = Inr (at (pre @ write_utf8 [] k) (amf_enc v @ rest))"
    using utf8_at(2) [OF assms(1)] .
  show ?thesis
    using hd(2) sk assms(2) unfolding skip_fields.simps hd' by (auto simp: Let_def nth_append)
qed

lemma skip_object_start:
  "skip_value (Suc f) (at pre (0x03 # bs)) = skip_fields f (at (pre @ [0x03]) bs)"
  by (simp add: read_marker_at)

lemma skip_enc:
  "(amf_ok v \<longrightarrow> length (amf_enc v @ rest) < f \<longrightarrow>
      skip_value f (at pre (amf_enc v @ rest)) = Some (Inr (at (pre @ amf_enc v) rest))) \<and>
   (amf_ok (AObj fs) \<longrightarrow> length (enc_fields fs @ rest) < f \<longrightarrow>
      skip_fields f (at pre (enc_fields fs @ rest)) = Some (Inr (at (pre @ enc_fields fs) rest)))"
proof (induction f arbitrary: v fs pre rest)
  case (Suc f)
  have val: "skip_value (Suc f) (at pre (amf_enc v @ rest)) = Some (Inr (at (pre @ amf_enc v) rest))"
    if ok: "amf_ok v" and len: "length (amf_enc v @ rest) < Suc f"
  proof (cases v)
    case (ANum x)
    then show ?thesis using advance_at [of 8 "be64 x" "pre @ [0]" rest]
      by (simp add: write_number_def read_marker_at)
  next
    case (ABool b)
    then show ?thesis using advance_at [of 1 "[if b then 1 else 0]" "pre @ [1]" rest]
      by (cases b) (simp_all add: write_bool_def read_marker_at)
  next
    case (AStr s)
    then show ?thesis using utf8_at(2) [of s "pre @ [2]" rest] ok
      by (simp add: write_string_def write_utf8_app [of "[2]"] read_marker_at)
  next
    case ANull
    then show ?thesis by (simp add: write_null_def read_marker_at)
  next
    case (AObj gs)
    have "length (enc_fields gs @ rest) < f" using len AObj amf_enc_obj [of gs] by simp
    then have "skip_fields f (at (pre @ [3]) (enc_fields gs @ rest)) = Some (Inr (at ((pre @ [3]) @ enc_fields gs) rest))"
      using Suc.IH ok AObj by blast
    then show ?thesis unfolding AObj amf_enc_obj append_Cons skip_object_start by simp
  qed
  have fld: "skip_fields (Suc f) (at pre (enc_fields fs @ rest)) = Some (Inr (at (pre @ enc_fields fs) rest))"
    if ok: "amf_ok (AObj fs)" and len: "length (enc_fields fs @ rest) < Suc f"
  proof (cases fs)
    case Nil
    then show ?thesis using advance_at [of 3 "[0, 0, 9]" pre rest] by (simp add: enc_fields_simps nth_append)
  next
    case (Cons kv gs)
    obtain k v where kv: "kv = (k, v)" by (cases kv)
    let ?pre = "pre @ write_utf8 [] k @ amf_enc v"
    have k: "length k < 2 ^ 16" and v: "amf_ok v" and gs: "amf_ok (AObj gs)" using ok Cons kv by simp_all
    have lens: "length (amf_enc v @ enc_fields gs @ rest) < f" "length (enc_fields gs @ rest) < f"
      using len Cons kv by (simp_all add: enc_fields_simps write_utf8_def)
    have "skip_value f (at (pre @ write_utf8 [] k) (amf_enc v @ (enc_fields gs @ rest))) =
         Some (Inr (at ((pre @ write_utf8 [] k) @ amf_enc v) (enc_fields gs @ rest)))"
      using Suc.IH v lens(1) by blast
    then have "skip_fields (Suc f) (at pre (write_utf8 [] k @ amf_enc v @ (enc_fields gs @ rest))) =
         skip_fields f (at ?pre (enc_fields gs @ rest))"
      by (intro skip_fields_field [OF k]) simp
    moreover have "skip_fields f (at ?pre (enc_fields gs @ rest)) = Some (Inr (at (?pre @ enc_fields gs) rest))"
      using Suc.IH gs lens(2) by blast
    ultimately show ?thesis by (simp add: Cons kv enc_fields_simps)
  qed
  show ?case using val fld by blast
qed simp

section \<open>Stream identifiers survive the conversion to a float and back\<close>

lemma ilog2_bounds: "0 < n \<Longrightarrow> 2 ^ ilog2 n \<le> n \<and> n < 2 ^ Suc (ilog2 n)"
proof (induction n rule: ilog2.induct)
  case (1 n)
  show ?case
  proof (cases "n < 2")
    case True
    with 1 show ?thesis by (simp add: ilog2.simps)
  next
    case False
    then have "2 ^ ilog2 (n div 2) \<le> n div 2 \<and> n div 2 < 2 ^ Suc (ilog2 (n div 2))"
      using 1 by simp
    then show ?thesis using False by (subst ilog2.simps, subst (2) ilog2.simps) auto
  qed
qed

lemma f64_trunc_of_nat:
  assumes "n < 2 ^ 53"
  shows "f64_trunc (f64_of_nat n) = Some (int n)"
proof (cases "n = 0")
  case True
  then show ?thesis by (simp add: f64_of_nat_def f64_trunc_def f64_exp_def f64_frac_def Let_def)
next
  case False
  define e where "e = ilog2 n"
  have b: "2 ^ e \<le> n" "n < 2 ^ Suc e" using ilog2_bounds False by (auto simp: e_def)
  have e: "e \<le> 52"
  proof (rule ccontr)
    assume "\<not> e \<le> 52"
    then have "(2::nat) ^ 53 \<le> 2 ^ e" by (intro power_increasing) auto
    then show False using b assms by simp
  qed
  define m where "m = n * 2 ^ (52 - e)"
  have split: "(2::nat) ^ e * 2 ^ (52 - e) = 2 ^ 52" using e by (simp flip: power_add)
  have "m < 2 ^ Suc e * 2 ^ (52 - e)" using b(2) by (simp add: m_def)
  then have m: "2 ^ 52 \<le> m" "m < 2 ^ 53"
    using mult_le_mono1 [OF b(1), of "2 ^ (52 - e)"] split by (simp_all add: m_def mult.assoc)
  define w where "w = (1023 + e) * 2 ^ 52 + (m - 2 ^ 52)"
  have w: "w < 2 ^ 63" "w mod 2 ^ 52 = m - 2 ^ 52" "w div 2 ^ 52 = 1023 + e"
  proof -
    define k where "k = m - 2 ^ 52"
    have k: "k < 2 ^ 52" "w = k + (1023 + e) * 2 ^ 52" using m by (auto simp: k_def w_def)
    have "(1023 + e) * 2 ^ 52 \<le> 1075 * (2 ^ 52 :: nat)" using e by (intro mult_right_mono) auto
    then show "w < 2 ^ 63" using k by simp
    show "w mod 2 ^ 52 = m - 2 ^ 52" unfolding k(2) using k(1) by (simp only: mod_mult_self1 mod_less k_def)
    show "w div 2 ^ 52 = 1023 + e" unfolding k(2) using k(1) by (subst div_mult_self1) auto
  qed
  have u: "unat (f64_of_nat n) = w"
    using False w(1) unat_of_nat_lt [where 'a = 64, of w] by (simp add: f64_of_nat_def Let_def e_def m_def w_def)
  have pos: "\<not> bit (f64_of_nat n) 63"
  proof -
    have "bit (f64_of_nat n) 63 = bit (unat (f64_of_nat n)) 63" by (simp add: bit_unsigned_iff)
    then show ?thesis using w(1) by (simp add: u bit_iff_odd)
  qed
  have "m div 2 ^ (52 - e) = n" by (simp add: m_def)
  then show ?thesis
    using e m u w pos by (auto simp: f64_trunc_def f64_exp_def f64_frac_def Let_def)
qed

lemma f64_to_u32_of_nat: "n < 2 ^ 32 \<Longrightarrow> f64_to_u32 oor (f64_of_nat n) = of_nat n"
  by (simp add: f64_to_u32_def f64_trunc_of_nat)

lemma stream_id_number_at:
  "n < 2 ^ 32 \<Longrightarrow>
   stream_id_number oor (at pre (write_number [] (f64_of_nat n) @ rest)) = Inr (of_nat n)"
  by (simp add: stream_id_number_def write_number_def read_marker_at get_be64_app f64_to_u32_of_nat)

lemma parse_stream_id_null:
  "n < 2 ^ 32 \<Longrightarrow>
   parse_stream_id oor (amf_enc ANull @ write_number [] (f64_of_nat n) @ rest) = Some (Inr (of_nat n))"
  using stream_id_number_at [of n oor "[5]" rest]
  by (simp add: parse_stream_id_def write_null_def new_reader_at read_marker_at)

lemma parse_stream_id_object:
  assumes "amf_ok (AObj fs)" and "n < 2 ^ 32"
  shows "parse_stream_id oor (amf_enc (AObj fs) @ write_number [] (f64_of_nat n) @ rest) = Some (Inr (of_nat n))"
proof -
  let ?tail = "write_number [] (f64_of_nat n) @ rest"
  let ?d = "amf_enc (AObj fs) @ ?tail"
  have d: "?d = 0x03 # (enc_fields fs @ ?tail)" by (simp only: amf_enc_obj append_Cons)
  have m: "read_marker (new_amf_reader ?d) = Inr (0x03, at [0x03] (enc_fields fs @ ?tail))"
    unfolding d new_reader_at read_marker_at by simp
  have "skip_fields (Suc (length ?d)) (at [0x03] (enc_fields fs @ ?tail)) =
      Some (Inr (at ([0x03] @ enc_fields fs) ?tail))"
  proof -
    have "length (enc_fields fs @ ?tail) < Suc (length ?d)" unfolding d by simp
    then show ?thesis using skip_enc assms(1) by blast
  qed
  then show ?thesis
    using stream_id_number_at [OF assms(2)] unfolding parse_stream_id_def m by simp
qed

lemma parse_stream_id_returns: "\<exists>x. parse_stream_id oor d = Some x"
proof (cases "read_marker (new_amf_reader d)")
  case (Inr mr)
  obtain m r where mr: "mr = (m, r)" by (cases mr)
  have "bytes_left r < Suc (length d)"
    using read_marker_left [of "new_amf_reader d" m r] Inr mr by (simp add: new_reader_at)
  then obtain x where "skip_fields (Suc (length d)) r = Some x" using skip_enough by blast
  then show ?thesis using Inr mr by (cases x) (auto simp: parse_stream_id_def)
qed (simp add: parse_stream_id_def)

end
