(* ===== verification/Flv.thy ===== *)
theory Flv
  imports H264
begin

text \<open>
  FLV tags and AVC payloads of \<open>internal/rtmp/flv.go\<close>: video tags, the AVC decoder
  configuration record, length-prefixed (AVCC) units, and the splitter \<open>annexBToAVCC\<close>.
  A length-prefixed unit is an instance of the codec interface, so a payload splits back
  into exactly the units that went in.
\<close>

section \<open>Tags and payloads\<close>

definition make_flv_video_tag :: "32 word \<Rightarrow> bytes \<Rightarrow> bytes" where
  "make_flv_video_tag ts body =
     [0x09] @ be24 (of_nat (length body)) @ be24 ts @ [ucast (drop_bit 24 ts)] @ [0, 0, 0] @ body"

datatype flv_error = SPSTooShort nat | PPSTooShort nat

definition make_avc_sequence_header :: "bytes \<Rightarrow> bytes \<Rightarrow> flv_error + bytes" where
  "make_avc_sequence_header sps pps =
     (if length sps < 4 then Inl (SPSTooShort (length sps))
      else if length pps < 1 then Inl (PPSTooShort (length pps))
      else Inr ([0x01, sps ! 1, sps ! 2, sps ! 3, 0xFF, 0xE1] @
                be16 (of_nat (length sps)) @ sps @ [0x01] @ be16 (of_nat (length pps)) @ pps))"

definition frame_type_key :: byte where "frame_type_key = 0x10"
definition frame_type_inter :: byte where "frame_type_inter = 0x20"
definition codec_id_avc :: byte where "codec_id_avc = 7"
definition avc_seq_header :: byte where "avc_seq_header = 0"
definition avc_nalu :: byte where "avc_nalu = 1"

definition avcc_unit :: "bytes \<Rightarrow> bytes" where
  "avcc_unit n = be32 (of_nat (length n)) @ n"

definition make_avc_nalu :: "byte \<Rightarrow> bytes list \<Rightarrow> bytes" where
  "make_avc_nalu frame_type raw =
     [frame_type OR codec_id_avc, avc_nalu, 0, 0, 0] @ concat (map avcc_unit raw)"

definition h264_avcc_body :: "bool \<Rightarrow> bytes list \<Rightarrow> bytes \<Rightarrow> bytes \<Rightarrow> flv_error + bool \<times> bytes" where
  "h264_avcc_body keyframe raw sps pps =
     (if keyframe \<and> 0 < length sps \<and> 0 < length pps then
        (case make_avc_sequence_header sps pps of
           Inl e \<Rightarrow> Inl e
         | Inr seq \<Rightarrow> Inr (True, (make_avc_nalu frame_type_key [seq])[1 := avc_seq_header]))
      else Inr (False, make_avc_nalu (if keyframe then frame_type_key else frame_type_inter) raw))"

section \<open>annexBToAVCC\<close>

text \<open>\<open>None\<close> is a panic of \<open>data[start:i]\<close>.\<close>

definition emit_piece :: "bytes \<Rightarrow> nat \<Rightarrow> nat \<Rightarrow> bytes list option \<Rightarrow> bytes list option" where
  "emit_piece d start i rest =
     (if start < i then (case slice d start i of None \<Rightarrow> None | Some p \<Rightarrow> map_option (Cons p) rest) else rest)"

function avcc_split :: "bytes \<Rightarrow> nat \<Rightarrow> nat \<Rightarrow> bytes list option" where
  "avcc_split d i start =
     (if i + 3 < length d then
        (if d ! i = 0 \<and> d ! (i + 1) = 0 \<and> d ! (i + 2) = 1
         then emit_piece d start i (avcc_split d (i + 3) (i + 3))
         else if i + 4 < length d \<and> d ! i = 0 \<and> d ! (i + 1) = 0 \<and> d ! (i + 2) = 0 \<and> d ! (i + 3) = 1
         then emit_piece d start i (avcc_split d (i + 4) (i + 4))
         else avcc_split d (i + 1) start)
      else if start < length d then Some [drop start d] else Some [])"
  by pat_completeness auto
termination
  by (relation "measure (\<lambda>(d, i, start). length d - i)") auto

declare avcc_split.simps [simp del]

definition annexb_to_avcc :: "bytes \<Rightarrow> bytes list option" where
  "annexb_to_avcc d = avcc_split d 0 0"

section \<open>Splitting a length-prefixed payload\<close>

definition avcc_dec :: "bytes \<Rightarrow> (bytes \<times> bytes) option" where
  "avcc_dec bs =
     (if length bs < 4 then None
      else let n = unat (from_be32 (bs ! 0) (bs ! 1) (bs ! 2) (bs ! 3)) in
        if length bs < 4 + n then None else Some (take n (drop 4 bs), drop (4 + n) bs))"

lemma be32_head [wire]:
  "from_be32 ((be32 v @ rest) ! 0) ((be32 v @ rest) ! 1) ((be32 v @ rest) ! 2) ((be32 v @ rest) ! 3) = v"
  by (simp add: be32_def from_be32_parts)

interpretation avcc: prefix_codec avcc_unit avcc_dec "\<lambda>n. length n < 2 ^ 32"
proof
  fix n rest :: bytes assume n: "length n < 2 ^ 32"
  have "from_be32 ((avcc_unit n @ rest) ! 0) ((avcc_unit n @ rest) ! 1) ((avcc_unit n @ rest) ! 2)
      ((avcc_unit n @ rest) ! 3) = of_nat (length n)"
    by (simp only: avcc_unit_def append_assoc be32_head)
  then show "avcc_dec (avcc_unit n @ rest) = Some (n, rest)"
    using n by (simp add: avcc_dec_def Let_def unat_of_nat_lt) (simp add: avcc_unit_def)
qed (simp add: avcc_unit_def be32_def)

lemma avc_payload_units:
  "\<forall>n\<in>set ns. length n < 2 ^ 32 \<Longrightarrow>
   decode_all avcc_dec (length ns) (drop 5 (make_avc_nalu ft ns)) = Some ns"
  by (simp add: make_avc_nalu_def avcc.decode_all_enc)

section \<open>annexBToAVCC recovers the framed units\<close>

lemma avcc_walk:
  assumes "n \<noteq> []" "no_start_code n" "\<forall>m\<in>set ns. m \<noteq> [] \<and> no_start_code m" "k \<le> length n"
  shows "avcc_split (pre @ n @ annexb ns) (length pre + k) (length pre) = Some (n # ns)"
  using assms
proof (induction ns arbitrary: pre n k)
  case Nil
  then show ?case
  proof (induction "length n - k" arbitrary: k)
    case 0
    then show ?case by (subst avcc_split.simps) auto
  next
    case (Suc x)
    then have k: "k < length n" by simp
    have no: "\<not> sc_at n k" "k + 3 < length n \<Longrightarrow> \<not> (n ! (k + 1) = 0 \<and> n ! (k + 2) = 0 \<and> n ! (k + 3) = 1)"
      using no_start_codeD [OF Suc.prems(2), of k] no_start_codeD [OF Suc.prems(2), of "k + 1"]
      by (auto simp: sc_at_def numeral_eq_Suc)
    have IH: "avcc_split (pre @ n @ annexb []) (length pre + (k + 1)) (length pre) = Some [n]"
      using Suc k by (intro Suc.hyps(1)) auto
    show ?case
      using no IH Suc.prems(1)
      by (subst avcc_split.simps) (auto simp: sc_at_def nth_append emit_piece_def add.assoc)
  qed
next
  case (Cons m ms)
  let ?d = "pre @ n @ annexb (m # ms)"
  have last: "avcc_split ?d (length pre + length n) (length pre) = Some (n # m # ms)"
  proof -
    have d: "?d = (pre @ n @ [0, 0, 0, 1]) @ m @ annexb ms" by simp
    have "avcc_split ?d (length (pre @ n @ [0, 0, 0, 1]) + 0) (length (pre @ n @ [0, 0, 0, 1])) = Some (m # ms)"
      unfolding d using Cons.prems by (intro Cons.IH) auto
    moreover have "length (pre @ n @ [0, 0, 0, 1]) = length pre + length n + 4" by simp
    ultimately have next': "avcc_split ?d (length pre + length n + 4) (length pre + length n + 4) = Some (m # ms)"
      by (simp only: add_0_right)
    have sl: "slice ?d (length pre) (length pre + length n) = Some n" by (simp add: slice_def)
    have m: "0 < length m" using Cons.prems by simp
    show ?thesis
      using next' sl m Cons.prems(1)
      by (subst avcc_split.simps) (simp add: nth_append emit_piece_def del: annexb_simps, simp add: nth_append)
  qed
  from Cons.prems(4) show ?case
  proof (induction "length n - k" arbitrary: k)
    case 0
    then show ?case using last by simp
  next
    case (Suc x)
    then have k: "k < length n" by simp
    have no: "\<not> sc_at (n @ annexb (m # ms)) k" using Cons.prems k by (intro clean_in_stream) auto
    have no1: "\<not> sc_at (n @ annexb (m # ms)) (k + 1)"
    proof (cases "k + 1 < length n")
      case True
      then show ?thesis using Cons.prems by (intro clean_in_stream) auto
    next
      case False
      then have "k + 1 = length n" using k by simp
      then show ?thesis by (simp add: sc_at_def nth_append)
    qed
    have IH: "avcc_split ?d (length pre + (k + 1)) (length pre) = Some (n # m # ms)"
      using Suc k by (intro Suc.hyps(1)) auto
    have len: "length pre + k + 3 < length ?d" using k by simp
    let ?i = "length pre + k"
    have "\<not> sc_at ?d ?i" "\<not> sc_at ?d (length pre + (k + 1))"
      unfolding sc_at_append using no no1 by auto
    then have t: "\<not> (?d ! ?i = 0 \<and> ?d ! (?i + 1) = 0 \<and> ?d ! (?i + 2) = 1)"
      "?i + 4 < length ?d \<Longrightarrow> \<not> (?d ! (?i + 1) = 0 \<and> ?d ! (?i + 2) = 0 \<and> ?d ! (?i + 3) = 1)"
      using len by (auto simp: sc_at_def numeral_eq_Suc simp del: annexb_simps)
    have "avcc_split ?d ?i (length pre) = avcc_split ?d (?i + 1) (length pre)"
      using t len by (subst avcc_split.simps) (auto simp del: annexb_simps)
    then show ?case using IH by (simp only: add.assoc)
  qed
qed

lemma annexb_to_avcc_annexb:
  assumes "\<forall>n\<in>set ns. n \<noteq> [] \<and> no_start_code n"
  shows "annexb_to_avcc (annexb ns) = Some ns"
proof (cases ns)
  case (Cons m ms)
  have m: "0 < length m" using assms Cons by simp
  have "avcc_split ([0, 0, 0, 1] @ m @ annexb ms) (length [0, 0, 0, 1 :: byte] + 0) (length [0, 0, 0, 1 :: byte]) =
      Some (m # ms)"
    using assms Cons by (intro avcc_walk) auto
  then have "avcc_split (annexb ns) 4 4 = Some (m # ms)" using Cons by (simp add: numeral_eq_Suc)
  then show ?thesis using m Cons
    by (simp add: annexb_to_avcc_def, subst avcc_split.simps) (simp add: emit_piece_def)
qed (simp add: annexb_to_avcc_def avcc_split.simps)

end
