(* ===== verification/RtmpChunk.thy ===== *)
theory RtmpChunk
  imports Amf
begin

text \<open>
  The RTMP chunk layer of \<open>internal/rtmp/push.go\<close>: \<open>makeChunkHeader\<close>,
  \<open>writeRawMessage\<close> and \<open>readMessage\<close>. The bytes a writer emits and a reader consumes are
  lists; an I/O error of the underlying connection is the end of the list (\<open>ReadEOF\<close>).
  The lemmas show that the reader never panics and always returns, and that a reader that uses the
  writer's chunk size recovers the message exactly, whatever follows on the connection.
\<close>

section \<open>Writing\<close>

text \<open>\<open>makeChunkHeader\<close>; the fields of a 24-bit length or timestamp are the low 24 bits.\<close>

definition basic_header :: "nat \<Rightarrow> byte \<Rightarrow> bytes" where
  "basic_header csid f =
     (if csid < 64 then [push_bit 6 f OR of_nat csid]
      else if csid < 320 then [push_bit 6 f, of_nat (csid - 64)]
      else [push_bit 6 f OR 1, of_nat (csid - 64), of_nat ((csid - 64) div 256)])"

definition make_chunk_header :: "nat \<Rightarrow> byte \<Rightarrow> 32 word \<Rightarrow> nat \<Rightarrow> byte \<Rightarrow> 32 word \<Rightarrow> bytes" where
  "make_chunk_header csid f ts msg_len msg_type stream_id =
     (let hdr = basic_header csid f;
          ext_ts = (if 0xFFFFFF \<le> ts then ts else 0);
          ts_field = (if 0xFFFFFF \<le> ts then 0xFFFFFF else ts);
          msg_hdr = (if f = 0 then be24 ts_field @ be24 (of_nat msg_len) @ [msg_type] @ le32 stream_id
                     else if f = 1 then be24 ts_field @ be24 (of_nat msg_len) @ [msg_type]
                     else if f = 2 then be24 ts_field
                     else [])
      in if f = 3 then hdr else hdr @ msg_hdr @ (if 0 < ext_ts then be32 ext_ts else []))"

text \<open>The chunks after the first one, each behind a type 3 header.\<close>

function more_chunks :: "nat \<Rightarrow> bytes \<Rightarrow> bytes \<Rightarrow> bytes" where
  "more_chunks cs hdr d =
     (if d = [] \<or> cs = 0 then [] else hdr @ take cs d @ more_chunks cs hdr (drop cs d))"
  by pat_completeness auto
termination
  by (relation "measure (\<lambda>(cs, hdr, d). length d)") auto

declare more_chunks.simps [simp del]

text \<open>
  \<open>writeRawMessage\<close>. With a chunk size of 0 the loop of the source would never end
  (\<open>None\<close>); the client always uses 128.
\<close>

definition write_raw_message :: "nat \<Rightarrow> nat \<Rightarrow> byte \<Rightarrow> 32 word \<Rightarrow> 32 word \<Rightarrow> bytes \<Rightarrow> bytes option" where
  "write_raw_message cs csid msg_type stream_id ts d =
     (if d = [] then Some []
      else if cs = 0 then None
      else Some (make_chunk_header csid 0 ts (length d) msg_type stream_id @ take cs d @
                 more_chunks cs (make_chunk_header csid 3 0 0 0 0) (drop cs d)))"

section \<open>Reading\<close>

record rtmp_message =
  msg_csid :: nat
  msg_type :: byte
  msg_stream :: "32 word"
  msg_ts :: "32 word"
  msg_data :: bytes

record chunk_state =
  st_type :: byte
  st_stream :: "32 word"
  st_ts :: "32 word"
  st_len :: nat
  st_data :: bytes
  st_received :: nat

definition fresh_state :: chunk_state where
  "fresh_state = \<lparr>st_type = 0, st_stream = 0, st_ts = 0, st_len = 0, st_data = [], st_received = 0\<rparr>"

definition read_full :: "nat \<Rightarrow> bytes \<Rightarrow> rtmp_error + bytes \<times> bytes" where
  "read_full n bs = (if length bs < n then Inl ReadEOF else Inr (take n bs, drop n bs))"

fun read_basic_header :: "bytes \<Rightarrow> rtmp_error + byte \<times> nat \<times> bytes" where
  "read_basic_header [] = Inl ReadEOF"
| "read_basic_header (b # bs) =
     (let f = drop_bit 6 b AND 3; c = unat (b AND 0x3F) in
      if c = 0 then (case bs of [] \<Rightarrow> Inl ReadEOF | b2 # bs' \<Rightarrow> Inr (f, 64 + unat b2, bs'))
      else if c = 1 then
        (case bs of b2 # b3 # bs' \<Rightarrow> Inr (f, 64 + unat b2 + unat b3 * 256, bs') | _ \<Rightarrow> Inl ReadEOF)
      else Inr (f, c, bs))"

text \<open>The 24-bit timestamp field, replaced by the extended timestamp when it is all ones.\<close>

definition read_ext_ts :: "32 word \<Rightarrow> bytes \<Rightarrow> rtmp_error + 32 word \<times> bytes" where
  "read_ext_ts t bs =
     (if t = 0xFFFFFF
      then (case read_full 4 bs of Inl e \<Rightarrow> Inl e
            | Inr (x, r) \<Rightarrow> Inr (from_be32 (x ! 0) (x ! 1) (x ! 2) (x ! 3), r))
      else Inr (t, bs))"

definition header_len :: "bytes \<Rightarrow> nat" where
  "header_len h = unat (from_be24 (h ! 3) (h ! 4) (h ! 5))"

definition read_message_header :: "byte \<Rightarrow> chunk_state \<Rightarrow> bytes \<Rightarrow> rtmp_error + chunk_state \<times> bytes" where
  "read_message_header f st bs =
     (if f = 0 then
        (case read_full 11 bs of Inl e \<Rightarrow> Inl e
         | Inr (h, r) \<Rightarrow>
             (case read_ext_ts (from_be24 (h ! 0) (h ! 1) (h ! 2)) r of Inl e \<Rightarrow> Inl e
              | Inr (t, r') \<Rightarrow>
                  Inr (\<lparr>st_type = h ! 6, st_stream = from_be32 (h ! 10) (h ! 9) (h ! 8) (h ! 7), st_ts = t,
                        st_len = header_len h, st_data = replicate (header_len h) 0, st_received = 0\<rparr>, r')))
      else if f = 1 then
        (case read_full 7 bs of Inl e \<Rightarrow> Inl e
         | Inr (h, r) \<Rightarrow>
             (case read_ext_ts (from_be24 (h ! 0) (h ! 1) (h ! 2)) r of Inl e \<Rightarrow> Inl e
              | Inr (t, r') \<Rightarrow>
                  Inr (st\<lparr>st_type := h ! 6, st_ts := st_ts st + t, st_len := header_len h,
                          st_data := replicate (header_len h) 0, st_received := 0\<rparr>, r')))
      else if f = 2 then
        (case read_full 3 bs of Inl e \<Rightarrow> Inl e
         | Inr (h, r) \<Rightarrow>
             (case read_ext_ts (from_be24 (h ! 0) (h ! 1) (h ! 2)) r of Inl e \<Rightarrow> Inl e
              | Inr (t, r') \<Rightarrow> Inr (st\<lparr>st_ts := st_ts st + t\<rparr>, r')))
      else Inr (st, bs))"

text \<open>
  One iteration of the loop of \<open>readMessage\<close>. \<open>None\<close> is a panic of
  \<open>state.data[received:received+toRead]\<close>; a finished message is on the left of the inner sum, the
  states to go on with on its right.
\<close>

type_synonym states = "nat \<Rightarrow> chunk_state option"

definition chunk_iter :: "nat \<Rightarrow> states \<Rightarrow> bytes \<Rightarrow> (rtmp_error + (rtmp_message + states) \<times> bytes) option" where
  "chunk_iter cs sts bs =
     (case read_basic_header bs of Inl e \<Rightarrow> Some (Inl e)
      | Inr (f, csid, r) \<Rightarrow>
        (case read_message_header f (case sts csid of None \<Rightarrow> fresh_state | Some s \<Rightarrow> s) r of
           Inl e \<Rightarrow> Some (Inl e)
         | Inr (st, r') \<Rightarrow>
             let to_read = min cs (st_len st - st_received st) in
             (case slice (st_data st) (st_received st) (st_received st + to_read) of
                None \<Rightarrow> None
              | Some _ \<Rightarrow>
                (case read_full to_read r' of Inl e \<Rightarrow> Some (Inl e)
                 | Inr (x, r'') \<Rightarrow>
                     let got = st_received st + to_read;
                         st' = st\<lparr>st_data := take (st_received st) (st_data st) @ x @ drop got (st_data st),
                                  st_received := got\<rparr>
                     in Some (Inr (if st_len st \<le> got
                          then Inl \<lparr>msg_csid = csid, msg_type = st_type st, msg_stream = st_stream st,
                                    msg_ts = st_ts st, msg_data = st_data st'\<rparr>
                          else Inr (sts(csid \<mapsto> st')), r''))))))"

lemma read_full_rest: "read_full n bs = Inr (x, r) \<Longrightarrow> bs = x @ r \<and> length x = n"
  by (auto simp: read_full_def split: if_splits)

lemma read_ext_ts_shorter: "read_ext_ts t bs = Inr (u, r) \<Longrightarrow> length r \<le> length bs"
  by (auto simp: read_ext_ts_def dest!: read_full_rest split: if_splits sum.splits)

lemma read_basic_header_shorter: "read_basic_header bs = Inr (f, c, r) \<Longrightarrow> length r < length bs"
  by (cases bs) (auto simp: Let_def split: if_splits list.splits)

lemma read_message_header_shorter:
  "read_message_header f st bs = Inr (st', r) \<Longrightarrow> length r \<le> length bs"
  by (auto simp: read_message_header_def dest!: read_full_rest read_ext_ts_shorter
      split: if_splits sum.splits prod.splits)

lemma chunk_iter_shorter:
  "chunk_iter cs sts bs = Some (Inr (x, r)) \<Longrightarrow> length r < length bs"
  by (auto simp: chunk_iter_def Let_def split: sum.splits prod.splits option.splits
      dest!: read_basic_header_shorter read_message_header_shorter read_full_rest)

function read_loop :: "nat \<Rightarrow> states \<Rightarrow> bytes \<Rightarrow> (rtmp_error + rtmp_message \<times> bytes) option" where
  "read_loop cs sts bs =
     (case chunk_iter cs sts bs of
        None \<Rightarrow> None
      | Some (Inl e) \<Rightarrow> Some (Inl e)
      | Some (Inr (Inl m, r)) \<Rightarrow> Some (Inr (m, r))
      | Some (Inr (Inr sts', r)) \<Rightarrow> read_loop cs sts' r)"
  by pat_completeness auto
termination
  by (relation "measure (\<lambda>(cs, sts, bs). length bs)") (auto dest: chunk_iter_shorter)

declare read_loop.simps [simp del]

definition read_message :: "nat \<Rightarrow> bytes \<Rightarrow> (rtmp_error + rtmp_message \<times> bytes) option" where
  "read_message cs bs = read_loop cs Map.empty bs"

section \<open>The reader never panics\<close>

definition state_ok :: "chunk_state \<Rightarrow> bool" where
  "state_ok s \<longleftrightarrow> st_received s \<le> st_len s \<and> length (st_data s) = st_len s"

definition states_ok :: "states \<Rightarrow> bool" where
  "states_ok sts \<longleftrightarrow> (\<forall>c s. sts c = Some s \<longrightarrow> state_ok s)"

lemma read_message_header_ok:
  "read_message_header f st bs = Inr (st', r) \<Longrightarrow> state_ok st \<Longrightarrow> state_ok st'"
  by (auto simp: read_message_header_def state_ok_def split: if_splits sum.splits prod.splits)

lemma chunk_iter_ok:
  assumes "states_ok sts"
  shows "\<exists>x. chunk_iter cs sts bs = Some x \<and> (\<forall>sts' r. x = Inr (Inr sts', r) \<longrightarrow> states_ok sts')"
proof (cases "read_basic_header bs")
  case (Inr p)
  obtain f c r where p: "p = (f, c, r)" by (cases p)
  define s where "s = (case sts c of None \<Rightarrow> fresh_state | Some s \<Rightarrow> s)"
  have s: "state_ok s"
    using assms by (auto simp: s_def states_ok_def fresh_state_def state_ok_def split: option.splits)
  show ?thesis
  proof (cases "read_message_header f s r")
    case (Inr q)
    obtain st r' where q: "q = (st, r')" by (cases q)
    then have st: "state_ok st" using read_message_header_ok Inr s by blast
    have sl: "slice (st_data st) (st_received st) (st_received st + min cs (st_len st - st_received st)) \<noteq> None"
      using st by (auto simp: slice_None_iff state_ok_def)
    show ?thesis
      using \<open>read_basic_header bs = Inr p\<close> p Inr q sl st assms
      by (auto simp: chunk_iter_def s_def [symmetric] Let_def states_ok_def state_ok_def
          dest!: read_full_rest split: sum.splits option.splits)
  qed (use Inr p in \<open>simp add: chunk_iter_def s_def\<close>)
qed (simp add: chunk_iter_def)

lemma read_loop_total: "states_ok sts \<Longrightarrow> \<exists>x. read_loop cs sts bs = Some x"
proof (induction cs sts bs rule: read_loop.induct)
  case (1 cs sts bs)
  obtain x where x: "chunk_iter cs sts bs = Some x" "\<forall>sts' r. x = Inr (Inr sts', r) \<longrightarrow> states_ok sts'"
    using chunk_iter_ok [OF "1.prems"] by blast
  then show ?case
    using "1.IH" [of x] by (subst read_loop.simps) (auto split: sum.splits prod.splits)
qed

lemma read_message_total: "\<exists>x. read_message cs bs = Some x"
  by (simp add: read_message_def read_loop_total states_ok_def)

section \<open>A message that was written is read back\<close>

lemma header_byte:
  assumes "f < 4" "n < 64"
  shows "drop_bit 6 (push_bit 6 f OR of_nat n) AND 3 = (f :: byte)"
    "unat ((push_bit 6 f OR of_nat n) AND 0x3F :: byte) = n"
proof -
  have "f AND mask 2 = f" using assms(1) by (intro less_mask_eq) simp
  then have f: "k < 2" if "bit f k" for k using that by (metis bit_and_iff bit_mask_iff)
  have "take_bit 6 n = n" using assms(2) by (simp add: take_bit_nat_eq_self)
  then have n: "k < 6" if "bit n k" for k using that by (metis bit_take_bit_iff)
  have three: "(3 :: byte) = mask 2" and m6: "(0x3F :: byte) = mask 6"
    by (simp_all add: mask_eq_exp_minus_1)
  show "drop_bit 6 (push_bit 6 f OR of_nat n) AND 3 = f"
    unfolding three by (rule bit_word_eqI) (auto simp: bit_simps dest: f n)
  have "(push_bit 6 f OR of_nat n) AND 0x3F = (of_nat n :: byte)"
    unfolding m6 by (rule bit_word_eqI) (auto simp: bit_simps dest: f n)
  then show "unat ((push_bit 6 f OR of_nat n) AND 0x3F :: byte) = n"
    using assms(2) by (simp add: unat_of_nat)
qed

lemma read_basic_header_written [wire]:
  assumes "2 \<le> csid" "csid < 65600" "f < 4"
  shows "read_basic_header (basic_header csid f @ rest) = Inr (f, csid, rest)"
proof -
  consider "csid < 64" | "64 \<le> csid" "csid < 320" | "320 \<le> csid" by linarith
  then show ?thesis
  proof cases
    case 1
    then show ?thesis using assms header_byte [of f csid] by (simp add: basic_header_def Let_def)
  next
    case 2
    then show ?thesis using header_byte [of f 0] assms
      by (simp add: basic_header_def Let_def unat_of_nat del: of_nat_diff)
  next
    case 3
    have a: "(csid - 64) div 256 < 256" using assms by linarith
    have "64 + (csid - 64) mod 256 + (csid - 64) div 256 * 256 = csid" 
      using 3 by simp
    then show ?thesis using 3 a header_byte [of f 1] assms
      by (simp add: basic_header_def Let_def unat_of_nat del: of_nat_diff)
  qed
qed


lemma read_full_app [wire]: "n = length x \<Longrightarrow> read_full n (x @ r) = Inr (x, r)"
  by (simp add: read_full_def)

lemma be24_len: "n < 2 ^ 24 \<Longrightarrow> (of_nat n :: 32 word) < 2 ^ 24"
  by (simp add: word_less_nat_alt unat_of_nat)

lemma read_ext_written:
  "read_ext_ts (if 0xFFFFFF \<le> ts then 0xFFFFFF else ts)
     ((if 0 < (if 0xFFFFFF \<le> ts then ts else 0) then be32 ts else []) @ rest) = Inr (ts, rest)"
proof (cases "0xFFFFFF \<le> ts")
  case True
  then have "ts \<noteq> 0" by auto
  then have "0 < ts" by (simp add: word_gt_0)
  then show ?thesis using True
    by (simp add: read_ext_ts_def read_full_def be32_def from_be32_parts)
qed (auto simp: read_ext_ts_def)

lemma read_message_header_written [wire]:
  assumes "n < 2 ^ 24"
  shows "read_message_header 0 st
     (be24 (if 0xFFFFFF \<le> ts then 0xFFFFFF else ts) @ be24 (of_nat n) @ [ty] @ le32 sid @
      (if 0 < (if 0xFFFFFF \<le> ts then ts else 0) then be32 ts else []) @ rest) =
     Inr (\<lparr>st_type = ty, st_stream = sid, st_ts = ts, st_len = n, st_data = replicate n 0,
           st_received = 0\<rparr>, rest)"
proof -
  define t where "t = (if 0xFFFFFF \<le> ts then 0xFFFFFF else ts)"
  define h where "h = be24 t @ be24 (of_nat n) @ [ty] @ le32 sid"
  define e where "e = (if 0 < (if 0xFFFFFF \<le> ts then ts else 0) then be32 ts else []) @ rest"
  have t: "t < 2 ^ 24" by (auto simp: t_def word_less_nat_alt word_le_nat_alt)
  have h1: "from_be24 (h ! 0) (h ! 1) (h ! 2) = t"
    using t by (simp add: h_def be24_def from_be24_parts)
  have h2: "header_len h = n"
    using assms be24_len [OF assms] by (simp add: h_def header_len_def be24_def from_be24_parts unat_of_nat)
  have h3: "h ! 6 = ty" "from_be32 (h ! 10) (h ! 9) (h ! 8) (h ! 7) = sid"
    by (simp_all add: h_def be24_def le32_def be32_def from_be32_parts)
  have "read_full 11 (h @ e) = Inr (h, e)" by (rule read_full_app) (simp add: h_def)
  moreover have "read_ext_ts t e = Inr (ts, rest)"
    unfolding t_def e_def by (rule read_ext_written)
  ultimately have "read_message_header 0 st (h @ e) =
     Inr (\<lparr>st_type = ty, st_stream = sid, st_ts = ts, st_len = n, st_data = replicate n 0,
           st_received = 0\<rparr>, rest)"
    by (simp add: read_message_header_def h1 [unfolded One_nat_def] h2 h3)
  then show ?thesis by (simp add: h_def e_def t_def)
qed

lemma chunk_iter_step:
  assumes "read_basic_header bs = Inr (f, c, r)"
    and "read_message_header f (case sts c of None \<Rightarrow> fresh_state | Some s \<Rightarrow> s) r = Inr (st, x @ rest)"
    and "length x = min cs (st_len st - st_received st)"
    and "st_data st = pre @ d" "st_received st = length pre" "st_len st = length pre + length d"
  shows "chunk_iter cs sts bs = Some (Inr (
     if length d \<le> cs then Inl \<lparr>msg_csid = c, msg_type = st_type st, msg_stream = st_stream st,
         msg_ts = st_ts st, msg_data = pre @ x @ drop (length x) d\<rparr>
     else Inr (sts(c \<mapsto> st\<lparr>st_data := pre @ x @ drop (length x) d, st_received := length pre + length x\<rparr>)), rest))"
  using assms by (auto simp: chunk_iter_def Let_def read_full_app min_def split: option.splits)

lemma make_chunk_header_0:
  "make_chunk_header csid 0 ts n ty sid = basic_header csid 0 @
     be24 (if 0xFFFFFF \<le> ts then 0xFFFFFF else ts) @ be24 (of_nat n) @ [ty] @ le32 sid @
     (if 0 < (if 0xFFFFFF \<le> ts then ts else 0) then be32 ts else [])"
  by (simp add: make_chunk_header_def Let_def)

lemma make_chunk_header_3: "make_chunk_header csid 3 ts n ty sid = basic_header csid 3"
  by (simp add: make_chunk_header_def Let_def)

lemma chunk_iter_first:
  assumes "2 \<le> csid" "csid < 65600" "length d < 2 ^ 24" "length x = min cs (length d)"
  shows "chunk_iter cs Map.empty (make_chunk_header csid 0 ts (length d) ty sid @ x @ rest) =
     Some (Inr (if length d \<le> cs
       then Inl \<lparr>msg_csid = csid, msg_type = ty, msg_stream = sid, msg_ts = ts, msg_data = x\<rparr>
       else Inr [csid \<mapsto> \<lparr>st_type = ty, st_stream = sid, st_ts = ts, st_len = length d,
                          st_data = x @ replicate (length d - length x) 0, st_received = length x\<rparr>], rest))"
proof -
  let ?st = "\<lparr>st_type = ty, st_stream = sid, st_ts = ts, st_len = length d,
              st_data = replicate (length d) 0, st_received = 0\<rparr>"
  have "chunk_iter cs Map.empty (make_chunk_header csid 0 ts (length d) ty sid @ x @ rest) =
     Some (Inr (if length (replicate (length d) (0::byte)) \<le> cs
       then Inl \<lparr>msg_csid = csid, msg_type = st_type ?st, msg_stream = st_stream ?st, msg_ts = st_ts ?st,
                 msg_data = [] @ x @ drop (length x) (replicate (length d) 0)\<rparr>
       else Inr [csid \<mapsto> ?st\<lparr>st_data := [] @ x @ drop (length x) (replicate (length d) 0),
                           st_received := length ([] :: bytes) + length x\<rparr>], rest))"
  proof (rule chunk_iter_step)
    show "read_basic_header (make_chunk_header csid 0 ts (length d) ty sid @ x @ rest) =
      Inr (0, csid, be24 (if 0xFFFFFF \<le> ts then 0xFFFFFF else ts) @ be24 (of_nat (length d)) @ [ty] @ le32 sid @
      (if 0 < (if 0xFFFFFF \<le> ts then ts else 0) then be32 ts else []) @ x @ rest)"
      unfolding make_chunk_header_0 append.assoc using assms by (intro read_basic_header_written) auto
  qed (use assms in \<open>simp_all add: read_message_header_written del: append_Cons append.simps\<close>)
  then show ?thesis using assms(4) by simp
qed

lemma read_continuation:
  assumes "2 \<le> csid" "csid < 65600" "0 < cs"
  shows "d \<noteq> [] \<Longrightarrow>
    read_loop cs (sts(csid \<mapsto> \<lparr>st_type = ty, st_stream = sid, st_ts = ts, st_len = length pre + length d,
                      st_data = pre @ replicate (length d) 0, st_received = length pre\<rparr>))
       (more_chunks cs (make_chunk_header csid 3 0 0 0 0) d @ rest) =
    Some (Inr (\<lparr>msg_csid = csid, msg_type = ty, msg_stream = sid, msg_ts = ts, msg_data = pre @ d\<rparr>, rest))"
proof (induction "length d" arbitrary: d pre sts rule: less_induct)
  case less
  let ?hdr = "make_chunk_header csid 3 0 0 0 0"
  let ?st = "\<lparr>st_type = ty, st_stream = sid, st_ts = ts, st_len = length pre + length d,
              st_data = pre @ replicate (length d) 0, st_received = length pre\<rparr>"
  have bs: "more_chunks cs ?hdr d = ?hdr @ take cs d @ more_chunks cs ?hdr (drop cs d)"
    using less.prems assms(3) by (subst more_chunks.simps) simp
  have it: "chunk_iter cs (sts(csid \<mapsto> ?st)) (more_chunks cs ?hdr d @ rest) =
    Some (Inr (if length (replicate (length d) (0::byte)) \<le> cs
      then Inl \<lparr>msg_csid = csid, msg_type = st_type ?st, msg_stream = st_stream ?st, msg_ts = st_ts ?st,
                msg_data = pre @ take cs d @ drop (length (take cs d)) (replicate (length d) 0)\<rparr>
      else Inr (sts(csid \<mapsto> ?st, csid \<mapsto> ?st\<lparr>st_data := pre @ take cs d @
                drop (length (take cs d)) (replicate (length d) 0), st_received := length pre + length (take cs d)\<rparr>)),
      more_chunks cs ?hdr (drop cs d) @ rest))"
    using assms by (intro chunk_iter_step [where f = 3])
      (simp_all add: bs [unfolded make_chunk_header_3] make_chunk_header_3 read_basic_header_written read_message_header_def min.commute)
  show ?case
  proof (cases "length d \<le> cs")
    case True
    then show ?thesis using it by (subst read_loop.simps) (simp add: more_chunks.simps)
  next
    case False
    have "drop cs d \<noteq> []" "length (drop cs d) < length d" using False assms(3) by auto
    note IH = less.hyps [OF this(2,1), of sts "pre @ take cs d"]
    have "length pre + length d = length (pre @ take cs d) + length (drop cs d)" by simp
    then show ?thesis using it IH False by (subst read_loop.simps) (simp add: min_def)
  qed
qed

lemma read_message_written:
  assumes "2 \<le> csid" "csid < 65600" "0 < cs" "d \<noteq> []" "length d < 2 ^ 24"
    and w: "write_raw_message cs csid ty sid ts d = Some bs"
  shows "read_message cs (bs @ rest) =
    Some (Inr (\<lparr>msg_csid = csid, msg_type = ty, msg_stream = sid, msg_ts = ts, msg_data = d\<rparr>, rest))"
proof -
  let ?more = "more_chunks cs (make_chunk_header csid 3 0 0 0 0) (drop cs d)"
  have bs: "bs = make_chunk_header csid 0 ts (length d) ty sid @ take cs d @ ?more"
    using assms by (auto simp: write_raw_message_def)
  have it: "chunk_iter cs Map.empty (bs @ rest) =
    Some (Inr (if length d \<le> cs
       then Inl \<lparr>msg_csid = csid, msg_type = ty, msg_stream = sid, msg_ts = ts, msg_data = take cs d\<rparr>
       else Inr [csid \<mapsto> \<lparr>st_type = ty, st_stream = sid, st_ts = ts, st_len = length d,
          st_data = take cs d @ replicate (length d - length (take cs d)) 0, st_received = length (take cs d)\<rparr>],
       ?more @ rest))"
    using chunk_iter_first [of csid d "take cs d" cs ts ty sid "?more @ rest"] assms
    by (simp add: bs min.commute)
  show ?thesis
  proof (cases "length d \<le> cs")
    case True
    then show ?thesis using it by (simp add: read_message_def read_loop.simps more_chunks.simps)
  next
    case False
    then have ne: "drop cs d \<noteq> []" by simp
    from read_continuation [OF assms(1-3) ne, of Map.empty ty sid ts "take cs d" rest]
    show ?thesis using it False unfolding read_message_def
      by (subst read_loop.simps) (simp add: min_def)
  qed
qed

lemma more_chunks_longer: "0 < cs \<Longrightarrow> length d \<le> length (more_chunks cs hdr d)"
proof (induction cs hdr d rule: more_chunks.induct)
  case (1 cs hdr d)
  then show ?case by (cases "d = []") (force simp: more_chunks.simps [of cs hdr d])+
qed

text \<open>
  A reader whose chunk size is at least the message's length, as after the announcement of a
  larger chunk size, takes the header byte of the second chunk for payload.
\<close>

lemma read_message_bigger_chunks:
  assumes "2 \<le> csid" "csid < 64" "0 < cs" "cs < length d" "length d \<le> cs'" "length d < 2 ^ 24"
    and w: "write_raw_message cs csid ty sid ts d = Some bs"
  shows "\<exists>m r. read_message cs' bs = Some (Inr (m, r)) \<and> length (msg_data m) = length d \<and>
    take cs (msg_data m) = take cs d \<and> msg_data m ! cs = 0xC0 OR of_nat csid"
proof -
  let ?more = "more_chunks cs (make_chunk_header csid 3 0 0 0 0) (drop cs d)"
  let ?body = "take cs d @ ?more"
  have bs: "bs = make_chunk_header csid 0 ts (length d) ty sid @ ?body"
    using assms by (auto simp: write_raw_message_def split: if_splits)
  define x where "x = take (length d) ?body"
  have bl: "length d \<le> length ?body" using more_chunks_longer [of cs "drop cs d" "make_chunk_header csid 3 0 0 0 0"] assms(3,4) by simp
  have xl: "length x = length d" using bl by (simp add: x_def)
  have xb: "?body = x @ drop (length d) ?body" unfolding x_def by (rule append_take_drop_id [symmetric])
  have hdr: "make_chunk_header csid 3 0 0 0 0 = [0xC0 OR of_nat csid]"
    using assms(2) by (simp add: make_chunk_header_3 basic_header_def push_bit_eq_mult)
  have more: "?more = (0xC0 OR of_nat csid) # take cs (drop cs d) @
      more_chunks cs [0xC0 OR of_nat csid] (drop cs (drop cs d))"
    using assms(3,4) by (subst more_chunks.simps) (simp add: hdr)
  have x: "take cs x = take cs d" "x ! cs = 0xC0 OR of_nat csid"
    using assms(3,4) more by (simp_all add: x_def nth_append)
  have "chunk_iter cs' Map.empty bs =
    Some (Inr (Inl \<lparr>msg_csid = csid, msg_type = ty, msg_stream = sid, msg_ts = ts, msg_data = x\<rparr>,
       drop (length d) ?body))"
    using chunk_iter_first [of csid d x cs' ts ty sid "drop (length d) ?body"] assms(1,2,5,6) xl xb
    by (simp add: bs)
  then show ?thesis using x xl by (simp add: read_message_def read_loop.simps)
qed

end
