(* ===== verification/RtmpPush.thy ===== *)
theory RtmpPush
  imports RtmpChunk Flv AuHub
begin

text \<open>
  The push client of \<open>internal/rtmp/push.go\<close>: the URL, the handshake and the command exchange
  of one session, the conversion of access units to video messages, the push loop and the
  reconnection loop. The connection is a buffered writer in front of a peer that accepts a
  given number of bytes before writes fail, and the list of bytes the peer sends.
\<close>

section \<open>The buffered writer (bufio.Writer)\<close>

text \<open>
  \<open>bw_room\<close> is how many more bytes the connection accepts before it fails; the error is sticky.
\<close>

record bufw =
  bw_sent :: bytes
  bw_buf :: bytes
  bw_err :: bool
  bw_room :: nat

definition buf_size :: nat where "buf_size = 4096"

definition new_writer :: "nat \<Rightarrow> bufw" where
  "new_writer room = \<lparr>bw_sent = [], bw_buf = [], bw_err = False, bw_room = room\<rparr>"

definition conn_write :: "bytes \<Rightarrow> bufw \<Rightarrow> bufw" where
  "conn_write xs w =
     (if length xs \<le> bw_room w
      then w\<lparr>bw_sent := bw_sent w @ xs, bw_room := bw_room w - length xs\<rparr>
      else w\<lparr>bw_sent := bw_sent w @ take (bw_room w) xs, bw_room := 0, bw_err := True\<rparr>)"

definition bw_flush :: "bufw \<Rightarrow> bufw" where
  "bw_flush w =
     (if bw_err w \<or> bw_buf w = [] then w
      else let w' = conn_write (bw_buf w) w
           in if bw_err w' then w'\<lparr>bw_buf := drop (bw_room w) (bw_buf w)\<rparr> else w'\<lparr>bw_buf := []\<rparr>)"

function bw_write :: "bytes \<Rightarrow> bufw \<Rightarrow> bufw" where
  "bw_write xs w =
     (if bw_err w then w
      else if length xs + length (bw_buf w) \<le> buf_size then w\<lparr>bw_buf := bw_buf w @ xs\<rparr>
      else if bw_buf w = [] then conn_write xs w
      else let n = buf_size - length (bw_buf w)
           in bw_write (drop n xs) (bw_flush (w\<lparr>bw_buf := bw_buf w @ take n xs\<rparr>)))"
  by pat_completeness auto
termination
  by (relation "measure (\<lambda>(xs, w). if bw_err w then 0 else Suc (length xs + length (bw_buf w)))")
    (auto simp: bw_flush_def conn_write_def Let_def length_greater_0_conv [symmetric]
      simp del: length_greater_0_conv)

declare bw_write.simps [simp del]

section \<open>Errors of a session\<close>

datatype session_error =
    DialError
  | RandomError
  | WriteError
  | Rtmp rtmp_error

text \<open>A step of the session: \<open>None\<close> is a panic.\<close>

definition andthen :: "(session_error + 'a) option \<Rightarrow> ('a \<Rightarrow> (session_error + 'b) option) \<Rightarrow> (session_error + 'b) option"
where
  "andthen m k = (case m of None \<Rightarrow> None | Some (Inl e) \<Rightarrow> Some (Inl e) | Some (Inr x) \<Rightarrow> k x)"

lemma andthen_simps [simp]:
  "andthen (Some (Inr x)) k = k x" "andthen (Some (Inl e)) k = Some (Inl e)" "andthen None k = None"
  by (simp_all add: andthen_def)

definition checked :: "bufw \<Rightarrow> (session_error + bufw) option" where
  "checked w = Some (if bw_err w then Inl WriteError else Inr w)"

definition lift_read :: "(rtmp_error + 'a) option \<Rightarrow> (session_error + 'a) option" where
  "lift_read m = map_option (\<lambda>r. case r of Inl e \<Rightarrow> Inl (Rtmp e) | Inr x \<Rightarrow> Inr x) m"

section \<open>Addresses (net.SplitHostPort, net.JoinHostPort)\<close>

definition chr_index :: "char \<Rightarrow> string \<Rightarrow> nat option" where
  "chr_index c s = (let n = length (takeWhile (\<lambda>x. x \<noteq> c) s) in if n < length s then Some n else None)"

definition chr_last_index :: "char \<Rightarrow> string \<Rightarrow> nat option" where
  "chr_last_index c s = map_option (\<lambda>n. length s - 1 - n) (chr_index c (rev s))"

definition split_host_port :: "string \<Rightarrow> (string \<times> string) option" where
  "split_host_port hp =
     (case chr_last_index (CHR '':'') hp of
        None \<Rightarrow> None
      | Some i \<Rightarrow>
          let tail_ok = (\<lambda>j k. CHR ''['' \<notin> set (drop j hp) \<and> CHR '']'' \<notin> set (drop k hp)) in
          if hd hp = CHR ''['' then
            (case chr_index (CHR '']'') hp of
               None \<Rightarrow> None
             | Some e \<Rightarrow>
                 if e + 1 = i \<and> e + 1 \<noteq> length hp \<and> tail_ok 1 (e + 1)
                 then Some (take (e - 1) (drop 1 hp), drop (i + 1) hp) else None)
          else if CHR '':'' \<notin> set (take i hp) \<and> tail_ok 0 0 then Some (take i hp, drop (i + 1) hp)
          else None)"

definition join_host_port :: "string \<Rightarrow> string \<Rightarrow> string" where
  "join_host_port host port =
     (if CHR '':'' \<in> set host then ''['' @ host @ '']:'' @ port else host @ '':'' @ port)"

definition strip_scheme :: "string \<Rightarrow> string" where
  "strip_scheme s =
     (if take 7 s = ''rtmp://'' then drop 7 s else if take 8 s = ''rtmps://'' then drop 8 s else s)"

text \<open>\<open>strings.SplitN(s, c, 2)\<close>\<close>

definition split_two :: "char \<Rightarrow> string \<Rightarrow> string list" where
  "split_two c s = (case chr_index c s of None \<Rightarrow> [s] | Some i \<Rightarrow> [take i s, drop (i + 1) s])"

definition parse_rtmp_url :: "string \<Rightarrow> string \<times> string \<times> string" where
  "parse_rtmp_url raw =
     (let rest = strip_scheme raw;
          (host_port, path) = (case chr_index (CHR ''/'') rest of
             Some i \<Rightarrow> (take i rest, drop (i + 1) rest) | None \<Rightarrow> (rest, ''''));
          (host, port) = (case split_host_port host_port of Some hp \<Rightarrow> hp | None \<Rightarrow> (host_port, ''1935''));
          parts = split_two (CHR ''/'') path;
          app = (if 0 < length parts then parts ! 0 else '''');
          key = (if 1 < length parts then parts ! 1 else '''')
      in (join_host_port host port, if app = '''' then ''live'' else app, if key = '''' then ''stream'' else key))"

section \<open>The client\<close>

record config =
  cfg_url :: string
  cfg_max_retries :: int

record push =
  p_cfg :: config
  p_conn :: bool
  p_sps :: bytes
  p_pps :: bytes
  p_chunk_size :: nat
  p_has_base :: bool
  p_base_time :: int

definition default_chunk_size :: nat where "default_chunk_size = 128"
definition preferred_chunk_size :: "32 word" where "preferred_chunk_size = 4096"

definition new_push :: "config \<Rightarrow> push" where
  "new_push cfg =
     \<lparr>p_cfg = (if cfg_max_retries cfg = 0 then cfg\<lparr>cfg_max_retries := 10\<rparr> else cfg),
      p_conn = False, p_sps = [], p_pps = [], p_chunk_size = default_chunk_size,
      p_has_base = False, p_base_time = 0\<rparr>"

definition close_conn :: "push \<Rightarrow> push" where
  "close_conn p = (if p_conn p then p\<lparr>p_conn := False\<rparr> else p)"

section \<open>Writing messages\<close>

text \<open>
  The \<open>Write\<close> calls of \<open>writeRawMessage\<close>, in order. A chunk size of 0, with which the source
  would loop, does not occur: the field is 128 from \<open>New\<close> on.
\<close>

function chunk_writes :: "nat \<Rightarrow> bytes \<Rightarrow> bytes \<Rightarrow> bytes list" where
  "chunk_writes cs hdr d =
     (if d = [] \<or> cs = 0 then [] else hdr # take cs d # chunk_writes cs hdr (drop cs d))"
  by pat_completeness auto
termination
  by (relation "measure (\<lambda>(cs, hdr, d). length d)") auto

declare chunk_writes.simps [simp del]

definition raw_message_writes :: "nat \<Rightarrow> nat \<Rightarrow> byte \<Rightarrow> 32 word \<Rightarrow> 32 word \<Rightarrow> bytes \<Rightarrow> bytes list" where
  "raw_message_writes cs csid ty sid ts d =
     (if d = [] then []
      else make_chunk_header csid 0 ts (length d) ty sid # take cs d #
           chunk_writes cs (make_chunk_header csid 3 0 0 0 0) (drop cs d))"

definition send_message :: "push \<Rightarrow> nat \<Rightarrow> byte \<Rightarrow> 32 word \<Rightarrow> 32 word \<Rightarrow> bytes \<Rightarrow> bufw \<Rightarrow> bufw" where
  "send_message p csid ty sid ts d w = fold bw_write (raw_message_writes (p_chunk_size p) csid ty sid ts d) w"

definition set_chunk_size_payload :: "32 word \<Rightarrow> bytes" where
  "set_chunk_size_payload n = be32 n"

definition write_set_chunk_size :: "push \<Rightarrow> 32 word \<Rightarrow> bufw \<Rightarrow> bufw" where
  "write_set_chunk_size p n w = send_message p 2 0x01 0 0 (set_chunk_size_payload n) w"

definition tc_url :: "string \<Rightarrow> string \<Rightarrow> string" where
  "tc_url app addr = ''rtmp://'' @ hd (split_two (CHR '':'') addr) @ ''/'' @ app"

definition connect_payload :: "string \<Rightarrow> string \<Rightarrow> bytes" where
  "connect_payload app addr =
     (let w = write_string [] (str_bytes ''connect'');
          w = write_number w (f64_of_nat 1);
          w = write_object_start w;
          w = write_object_entry w (str_bytes ''app'') (GoString (str_bytes app));
          w = write_object_entry w (str_bytes ''flashVer'') (GoString (str_bytes ''WIN.0,0,0,0''));
          w = write_object_entry w (str_bytes ''tcUrl'') (GoString (str_bytes (tc_url app addr)));
          w = write_object_entry w (str_bytes ''fpad'') (GoBool False);
          w = write_object_entry w (str_bytes ''capabilities'') (GoFloat (f64_of_nat 15));
          w = write_object_entry w (str_bytes ''audioCodecs'') (GoFloat (f64_of_nat 0));
          w = write_object_entry w (str_bytes ''videoCodecs'') (GoFloat (f64_of_nat 0x80));
          w = write_object_entry w (str_bytes ''videoFunction'') (GoFloat (f64_of_nat 1));
          w = write_object_end w;
          w = write_object_start w
      in write_object_end w)"

definition write_connect :: "push \<Rightarrow> string \<Rightarrow> string \<Rightarrow> bufw \<Rightarrow> bufw" where
  "write_connect p app addr w = send_message p 3 0x14 0 0 (connect_payload app addr) w"

definition create_stream_payload :: bytes where
  "create_stream_payload =
     write_null (write_number (write_string [] (str_bytes ''createStream'')) (f64_of_nat 2))"

definition write_create_stream :: "push \<Rightarrow> bufw \<Rightarrow> bufw" where
  "write_create_stream p w = send_message p 3 0x14 0 0 create_stream_payload w"

definition publish_payload :: "string \<Rightarrow> bytes" where
  "publish_payload key =
     write_string (write_string (write_null (write_number (write_string [] (str_bytes ''publish'')) (f64_of_nat 0)))
       (str_bytes key)) (str_bytes ''live'')"

definition write_publish :: "push \<Rightarrow> string \<Rightarrow> bufw \<Rightarrow> bufw" where
  "write_publish p key w = send_message p 3 0x14 0 0 (publish_payload key) w"

definition write_data_message :: "push \<Rightarrow> byte \<Rightarrow> 32 word \<Rightarrow> 32 word \<Rightarrow> bytes \<Rightarrow> bufw \<Rightarrow> bufw" where
  "write_data_message p ty sid ts d w = send_message p 6 ty sid ts d w"

section \<open>The handshake\<close>

text \<open>\<open>rnd\<close> is what \<open>crypto/rand\<close> puts into the last 1528 bytes, \<open>None\<close> its error.\<close>

definition do_handshake :: "32 word \<Rightarrow> bytes option \<Rightarrow> bytes \<Rightarrow> bufw \<Rightarrow> (session_error + bytes \<times> bufw) option" where
  "do_handshake now rnd inp w =
     andthen (checked (bw_write [0x03] w)) (\<lambda>w.
     (case rnd of None \<Rightarrow> Some (Inl RandomError) | Some random \<Rightarrow>
      let c1 = be32 now @ [0, 0, 0, 0] @ random in
      andthen (checked (bw_write c1 w)) (\<lambda>w.
      andthen (checked (bw_flush w)) (\<lambda>w.
      andthen (lift_read (Some (read_full 1 inp))) (\<lambda>(s0, inp).
      if s0 ! 0 \<noteq> 0x03 then Some (Inl (Rtmp (HandshakeVersion (s0 ! 0))))
      else
      andthen (lift_read (Some (read_full 1536 inp))) (\<lambda>(s1, inp).
      let c2 = take 4 s1 @ take 4 c1 @ drop 8 s1 in
      andthen (checked (bw_write c2 w)) (\<lambda>w.
      andthen (checked (bw_flush w)) (\<lambda>w.
      andthen (lift_read (Some (read_full 1536 inp))) (\<lambda>(s2, inp).
      Some (Inr (inp, w)))))))))))"

section \<open>Waiting for a command\<close>

lemma read_loop_shorter: "read_loop cs sts bs = Some (Inr (m, r)) \<Longrightarrow> length r < length bs"
proof (induction cs sts bs rule: read_loop.induct)
  case (1 cs sts bs)
  obtain x r' where it: "chunk_iter cs sts bs = Some (Inr (x, r'))"
    using "1.prems" by (subst (asm) read_loop.simps) (auto split: option.splits sum.splits)
  show ?case
  proof (cases x)
    case (Inl a)
    then show ?thesis using it "1.prems" chunk_iter_shorter [OF it] by (simp add: read_loop.simps)
  next
    case (Inr b)
    have "read_loop cs b r' = Some (Inr (m, r))"
      using "1.prems" it Inr by (simp add: read_loop.simps [of cs sts])
    from "1.IH" [OF it refl refl Inr this] show ?thesis using chunk_iter_shorter [OF it] by simp
  qed
qed

function wait_command :: "nat \<Rightarrow> bytes \<Rightarrow> bytes \<Rightarrow> float64 \<Rightarrow> (rtmp_error + bytes \<times> bytes) option" where
  "wait_command cs inp cmd txn =
     (case read_message cs inp of
        None \<Rightarrow> None
      | Some (Inl e) \<Rightarrow> Some (Inl e)
      | Some (Inr (m, r)) \<Rightarrow>
          if msg_type m = 0x14
          then (case parse_command (msg_data m) of
                  Inl _ \<Rightarrow> wait_command cs r cmd txn
                | Inr (c, t, rest) \<Rightarrow>
                    if c = cmd \<and> f64_eq t txn then Some (Inr (rest, r)) else wait_command cs r cmd txn)
          else wait_command cs r cmd txn)"
  by pat_completeness auto
termination
  by (relation "measure (\<lambda>(cs, inp, cmd, txn). length inp)")
    (auto simp: read_message_def dest: read_loop_shorter)

declare wait_command.simps [simp del]

section \<open>Access units to video messages\<close>

definition take_parameter_sets :: "nalu list \<Rightarrow> push \<Rightarrow> push" where
  "take_parameter_sets ns p =
     foldl (\<lambda>p n. let p = (if is_sps n then p\<lparr>p_sps := nal_data n\<rparr> else p)
                  in if is_pps n then p\<lparr>p_pps := nal_data n\<rparr> else p) p ns"

definition seq_header_body :: "bytes \<Rightarrow> bytes" where
  "seq_header_body hdr = [frame_type_key OR codec_id_avc, avc_seq_header, 0, 0, 0] @ hdr"

definition with_base_time :: "access_unit \<Rightarrow> push \<Rightarrow> push" where
  "with_base_time au p = (if p_has_base p then p else p\<lparr>p_base_time := au_time au, p_has_base := True\<rparr>)"

definition ts_ms :: "access_unit \<Rightarrow> push \<Rightarrow> 32 word" where
  "ts_ms au p = of_int (go_div (time_sub (au_time au) (p_base_time p)) 1000000)"

text \<open>
  The sequence header of a key frame: the writer, whether the function returns early, and
  \<open>seqHeaderSent\<close>, which is set even when \<open>makeAVCSequenceHeader\<close> refuses the parameter sets.
\<close>

definition send_seq_header :: "access_unit \<Rightarrow> 32 word \<Rightarrow> push \<Rightarrow> bufw \<Rightarrow> bool \<Rightarrow> bufw \<times> bool \<times> bool" where
  "send_seq_header au stream p w seq_sent =
     (if au_key au \<and> 0 < length (p_sps p) \<and> 0 < length (p_pps p)
      then (case make_avc_sequence_header (p_sps p) (p_pps p) of
              Inl _ \<Rightarrow> (w, False, True)
            | Inr hdr \<Rightarrow>
                let tag = make_flv_video_tag (ts_ms au p) (seq_header_body hdr);
                    w' = write_data_message p 0x09 stream (ts_ms au p) (drop 11 tag) w
                in if bw_err w' then (w', True, seq_sent) else (w', False, True))
      else (w, False, seq_sent))"

definition send_nalus :: "access_unit \<Rightarrow> 32 word \<Rightarrow> push \<Rightarrow> bufw \<Rightarrow> bufw" where
  "send_nalus au stream p w =
     (let frame_type = (if au_key au then frame_type_key else frame_type_inter);
          body = make_avc_nalu frame_type (map nal_data (au_nalus au));
          tag = make_flv_video_tag (ts_ms au p) body
      in write_data_message p 0x09 stream (ts_ms au p) (drop 11 tag) w)"

definition process_au :: "access_unit \<Rightarrow> 32 word \<Rightarrow> push \<Rightarrow> bufw \<Rightarrow> bool \<Rightarrow> push \<times> bufw \<times> bool" where
  "process_au au stream p w seq_sent =
     (let p = take_parameter_sets (au_nalus au) p in
      if \<not> au_key au \<and> \<not> seq_sent then (p, w, seq_sent)
      else
        let p = with_base_time au p;
            (w, failed, seq_sent) = send_seq_header au stream p w seq_sent
        in if failed then (p, w, seq_sent) else (p, send_nalus au stream p w, seq_sent))"

section \<open>The push loop\<close>

datatype push_event = AuArrives access_unit | CtxDone | ChannelClosed

text \<open>
  The loop over what its \<open>select\<close> receives, and whether it has returned; the deferred flush
  runs on return.
\<close>

fun push_loop :: "32 word \<Rightarrow> push_event list \<Rightarrow> push \<Rightarrow> bufw \<Rightarrow> bool \<Rightarrow> push \<times> bufw \<times> bool \<times> bool" where
  "push_loop stream [] p w seq_sent = (p, w, seq_sent, False)"
| "push_loop stream (CtxDone # es) p w seq_sent = (p, bw_flush w, seq_sent, True)"
| "push_loop stream (ChannelClosed # es) p w seq_sent = (p, bw_flush w, seq_sent, True)"
| "push_loop stream (AuArrives au # es) p w seq_sent =
     (let (p, w, seq_sent) = process_au au stream p w seq_sent in push_loop stream es p w seq_sent)"

section \<open>One session\<close>

text \<open>Everything of \<open>connectAndPush\<close> up to the push loop, on an open connection.\<close>

definition session_setup ::
  "(float64 \<Rightarrow> 32 word) \<Rightarrow> 32 word \<Rightarrow> bytes option \<Rightarrow> push \<Rightarrow> bytes \<Rightarrow> bufw \<Rightarrow>
   (session_error + bytes \<times> bufw \<times> 32 word) option" where
  "session_setup oor now rnd p inp w =
     (let (addr, app, key) = parse_rtmp_url (cfg_url (p_cfg p)); cs = p_chunk_size p in
      andthen (do_handshake now rnd inp w) (\<lambda>(inp, w).
      andthen (checked (write_set_chunk_size p preferred_chunk_size w)) (\<lambda>w.
      andthen (checked (write_connect p app addr w)) (\<lambda>w.
      andthen (checked (bw_flush w)) (\<lambda>w.
      andthen (lift_read (wait_command cs inp (str_bytes ''_result'') (f64_of_nat 1))) (\<lambda>(_, inp).
      andthen (checked (write_create_stream p w)) (\<lambda>w.
      andthen (checked (bw_flush w)) (\<lambda>w.
      andthen (lift_read (wait_command cs inp (str_bytes ''_result'') (f64_of_nat 2))) (\<lambda>(resp, inp).
      andthen (lift_read (parse_stream_id oor resp)) (\<lambda>stream.
      andthen (checked (write_publish p key w)) (\<lambda>w.
      andthen (checked (bw_flush w)) (\<lambda>w.
      andthen (lift_read (wait_command cs inp (str_bytes ''onStatus'') (f64_of_nat 0))) (\<lambda>(_, inp).
      Some (Inr (inp, w, stream)))))))))))))))"

datatype session_result =
    SessionFailed session_error
  | SessionPushing bufw
  | SessionEnded bufw

text \<open>
  \<open>dial\<close> is the peer when the connection opens: the bytes it will send and how many it accepts.
\<close>

definition connect_and_push ::
  "(float64 \<Rightarrow> 32 word) \<Rightarrow> 32 word \<Rightarrow> bytes option \<Rightarrow> (bytes \<times> nat) option \<Rightarrow> push_event list \<Rightarrow> push \<Rightarrow>
   (push \<times> session_result) option" where
  "connect_and_push oor now rnd dial es p =
     (case dial of
        None \<Rightarrow> Some (p, SessionFailed DialError)
      | Some (inp, room) \<Rightarrow>
          let p = p\<lparr>p_conn := True, p_chunk_size := default_chunk_size, p_has_base := False\<rparr> in
          (case session_setup oor now rnd p inp (new_writer room) of
             None \<Rightarrow> None
           | Some (Inl e) \<Rightarrow> Some (close_conn p, SessionFailed e)
           | Some (Inr (_, w, stream)) \<Rightarrow>
               let (p, w, _, returned) = push_loop stream es p w False
               in Some (if returned then (close_conn p, SessionEnded w) else (p, SessionPushing w))))"

section \<open>The reconnection loop\<close>

text \<open>When the context is cancelled relative to one round of the loop of \<open>run\<close>.\<close>

datatype round = CancelledBefore | CancelledInSession | CancelledInBackoff | Disconnected

definition second :: int where "second = 1000000000"

definition max_backoff :: int where "max_backoff = 30 * second"

text \<open>The sessions started, the delays waited, and whether the loop has returned.\<close>

fun run_loop :: "int \<Rightarrow> int \<Rightarrow> int \<Rightarrow> round list \<Rightarrow> nat \<times> int list \<times> bool" where
  "run_loop max_retries backoff retries [] = (0, [], False)"
| "run_loop max_retries backoff retries (r # rs) =
     (if r = CancelledBefore then (0, [], True)
      else if r = CancelledInSession then (1, [], True)
      else if 0 < max_retries \<and> max_retries \<le> retries + 1 then (1, [], True)
      else if r = CancelledInBackoff then (1, [], True)
      else let (n, ds, fin) = run_loop max_retries (min (backoff * 2) max_backoff) (retries + 1) rs
           in (n + 1, backoff # ds, fin))"

definition push_run :: "config \<Rightarrow> round list \<Rightarrow> nat \<times> int list \<times> bool" where
  "push_run cfg rs = run_loop (cfg_max_retries (p_cfg (new_push cfg))) second 0 rs"

section \<open>Writers that do not fail\<close>

text \<open>
  \<open>healthy n w out\<close>: nothing has failed, \<open>out\<close> has been written (part of it may still be
  buffered) and the connection accepts \<open>n\<close> bytes in all.
\<close>

definition healthy :: "nat \<Rightarrow> bufw \<Rightarrow> bytes \<Rightarrow> bool" where
  "healthy n w out \<longleftrightarrow>
     \<not> bw_err w \<and> bw_sent w @ bw_buf w = out \<and> bw_room w + length (bw_sent w) = n"

lemma healthy_new: "healthy n (new_writer n) []"
  by (simp add: healthy_def new_writer_def)

lemma healthy_ok: "healthy n w out \<Longrightarrow> \<not> bw_err w"
  by (simp add: healthy_def)

lemma healthy_flush:
  "healthy n w out \<Longrightarrow> length out \<le> n \<Longrightarrow> healthy n (bw_flush w) out \<and> bw_buf (bw_flush w) = []"
  by (auto simp: healthy_def bw_flush_def conn_write_def Let_def)

lemma healthy_write: "healthy n w out \<Longrightarrow> length (out @ xs) \<le> n \<Longrightarrow> healthy n (bw_write xs w) (out @ xs)"
proof (induction xs w arbitrary: out rule: bw_write.induct)
  case (1 xs w)
  show ?case
  proof (cases "length xs + length (bw_buf w) \<le> buf_size \<or> bw_buf w = []")
    case True
    then show ?thesis using "1.prems"
      by (auto simp: bw_write.simps [of xs w] healthy_def conn_write_def)
  next
    case False
    let ?n = "buf_size - length (bw_buf w)"
    let ?w = "w\<lparr>bw_buf := bw_buf w @ take ?n xs\<rparr>"
    have eq: "bw_write xs w = bw_write (drop ?n xs) (bw_flush ?w)"
      using False healthy_ok [OF "1.prems"(1)] by (subst bw_write.simps) (simp add: Let_def)
    have "healthy n ?w (out @ take ?n xs)" using "1.prems" by (auto simp: healthy_def)
    then have "healthy n (bw_flush ?w) (out @ take ?n xs)"
      using "1.prems" by (intro healthy_flush [THEN conjunct1]) auto
    then have "healthy n (bw_write (drop ?n xs) (bw_flush ?w)) ((out @ take ?n xs) @ drop ?n xs)"
      using "1.prems" False healthy_ok [OF "1.prems"(1)] by (intro "1.IH") auto
    then show ?thesis by (simp add: eq)
  qed
qed

lemma healthy_writes:
  "healthy n w out \<Longrightarrow> length (out @ concat xss) \<le> n \<Longrightarrow> healthy n (fold bw_write xss w) (out @ concat xss)"
proof (induction xss arbitrary: w out)
  case (Cons xs xss)
  have "healthy n (bw_write xs w) (out @ xs)" using Cons.prems by (intro healthy_write) auto
  from Cons.IH [OF this] Cons.prems show ?case by simp
qed simp

lemma concat_chunk_writes: "concat (chunk_writes cs hdr d) = more_chunks cs hdr d"
proof (induction cs hdr d rule: chunk_writes.induct)
  case (1 cs hdr d)
  then show ?case
    by (cases "d = [] \<or> cs = 0") (auto simp: chunk_writes.simps [of cs hdr d] more_chunks.simps [of cs hdr d])
qed

text \<open>The bytes of a message on the wire.\<close>

definition wire_message :: "nat \<Rightarrow> nat \<Rightarrow> byte \<Rightarrow> 32 word \<Rightarrow> 32 word \<Rightarrow> bytes \<Rightarrow> bytes" where
  "wire_message cs csid ty sid ts d = concat (raw_message_writes cs csid ty sid ts d)"

lemma wire_message_raw:
  "0 < cs \<Longrightarrow> write_raw_message cs csid ty sid ts d = Some (wire_message cs csid ty sid ts d)"
  by (simp add: wire_message_def raw_message_writes_def write_raw_message_def concat_chunk_writes)

lemma healthy_send:
  "healthy n w out \<Longrightarrow> length (out @ wire_message (p_chunk_size p) csid ty sid ts d) \<le> n \<Longrightarrow>
   healthy n (send_message p csid ty sid ts d w) (out @ wire_message (p_chunk_size p) csid ty sid ts d)"
  unfolding wire_message_def send_message_def by (rule healthy_writes)

section \<open>Messages as a codec\<close>

definition enc_message :: "nat \<Rightarrow> rtmp_message \<Rightarrow> bytes" where
  "enc_message cs m = wire_message cs (msg_csid m) (RtmpChunk.msg_type m) (msg_stream m) (msg_ts m) (msg_data m)"

definition dec_message :: "nat \<Rightarrow> bytes \<Rightarrow> (rtmp_message \<times> bytes) option" where
  "dec_message cs bs = (case read_message cs bs of Some (Inr x) \<Rightarrow> Some x | _ \<Rightarrow> None)"

definition message_ok :: "rtmp_message \<Rightarrow> bool" where
  "message_ok m \<longleftrightarrow> 2 \<le> msg_csid m \<and> msg_csid m < 65600 \<and> msg_data m \<noteq> [] \<and> length (msg_data m) < 2 ^ 24"

lemma read_enc_message:
  "message_ok m \<Longrightarrow> 0 < cs \<Longrightarrow> read_message cs (enc_message cs m @ rest) = Some (Inr (m, rest))"
  unfolding message_ok_def enc_message_def
  by (subst read_message_written [OF _ _ _ _ _ wire_message_raw]) auto

lemma basic_header_nonempty [simp]: "basic_header csid f \<noteq> []"
  by (simp add: basic_header_def)

interpretation rtmp_messages: prefix_codec "enc_message default_chunk_size" "dec_message default_chunk_size" message_ok
proof
  fix m and rest :: bytes assume ok: "message_ok m"
  then show "dec_message default_chunk_size (enc_message default_chunk_size m @ rest) = Some (m, rest)"
    by (simp add: dec_message_def read_enc_message default_chunk_size_def)
  show "enc_message default_chunk_size m \<noteq> []"
    using ok by (simp add: enc_message_def wire_message_def raw_message_writes_def message_ok_def make_chunk_header_0)
qed

section \<open>Waiting for a command\<close>




lemma wait_command_total: "\<exists>x. wait_command cs inp cmd txn = Some x"
proof (induction cs inp cmd txn rule: wait_command.induct)
  case (1 cs inp cmd txn)
  obtain x where "read_message cs inp = Some x" using read_message_total by blast
  then show ?case using "1.IH"
    by (subst wait_command.simps) (fastforce split: sum.splits prod.splits)
qed

section \<open>A session never panics\<close>

lemma andthen_total: "\<exists>x. m = Some x \<Longrightarrow> (\<And>y. \<exists>x. k y = Some x) \<Longrightarrow> \<exists>x. andthen m k = Some x"
  by (auto simp: andthen_def split: sum.splits option.splits)

lemma lift_read_total: "\<exists>x. m = Some x \<Longrightarrow> \<exists>x. lift_read m = Some x"
  by (auto simp: lift_read_def)

lemma checked_total: "\<exists>x. checked w = Some x"
  by (simp add: checked_def)

lemmas session_total = andthen_total lift_read_total checked_total wait_command_total parse_stream_id_returns

lemma do_handshake_total: "\<exists>x. do_handshake now rnd inp w = Some x"
  by (cases rnd) (auto simp: do_handshake_def Let_def split: prod.splits intro!: session_total)

lemma session_setup_total: "\<exists>x. session_setup oor now rnd p inp w = Some x"
  unfolding session_setup_def Let_def
  by (auto split: prod.splits intro!: session_total do_handshake_total)

section \<open>A whole session against a conforming server\<close>










lemma send_message_ok:
  assumes "healthy n w out" "p_chunk_size p = default_chunk_size"
    "length (out @ wire_message default_chunk_size csid ty sid ts d) \<le> n"
  shows "healthy n (send_message p csid ty sid ts d w) (out @ wire_message default_chunk_size csid ty sid ts d)"
  using healthy_send [OF assms(1), of p csid ty sid ts d] assms by simp


section \<open>Access units on the wire, and the two loops\<close>

lemma drop_flv_tag: "drop 11 (make_flv_video_tag ts body) = body"
  by (simp add: make_flv_video_tag_def be24_def)

text \<open>The video payloads an access unit is sent as.\<close>

definition au_payloads :: "access_unit \<Rightarrow> push \<Rightarrow> bool \<Rightarrow> bytes list" where
  "au_payloads au p seq_sent =
     (let p = take_parameter_sets (au_nalus au) p in
      if \<not> au_key au \<and> \<not> seq_sent then []
      else (if au_key au \<and> 4 \<le> length (p_sps p) \<and> p_pps p \<noteq> []
            then [seq_header_body (projr (make_avc_sequence_header (p_sps p) (p_pps p)))] else []) @
           [make_avc_nalu (if au_key au then frame_type_key else frame_type_inter) (map nal_data (au_nalus au))])"

lemma take_parameter_sets_frame [simp]:
  "p_chunk_size (take_parameter_sets ns p) = p_chunk_size p"
  "p_has_base (take_parameter_sets ns p) = p_has_base p"
  "p_base_time (take_parameter_sets ns p) = p_base_time p"
  "p_conn (take_parameter_sets ns p) = p_conn p"
  "p_cfg (take_parameter_sets ns p) = p_cfg p"
  unfolding take_parameter_sets_def by (induction ns arbitrary: p) (simp_all add: Let_def)

lemma with_base_time_frame [simp]:
  "p_chunk_size (with_base_time au p) = p_chunk_size p" "p_sps (with_base_time au p) = p_sps p"
  "p_pps (with_base_time au p) = p_pps p" "p_has_base (with_base_time au p)"
  by (simp_all add: with_base_time_def)

definition au_ts :: "access_unit \<Rightarrow> push \<Rightarrow> 32 word" where
  "au_ts au p = ts_ms au (with_base_time au (take_parameter_sets (au_nalus au) p))"

lemma sequence_header_Inr:
  "4 \<le> length sps \<Longrightarrow> pps \<noteq> [] \<Longrightarrow>
   make_avc_sequence_header sps pps = Inr (projr (make_avc_sequence_header sps pps))"
  by (cases pps) (simp_all add: make_avc_sequence_header_def)

definition video_message :: "32 word \<Rightarrow> 32 word \<Rightarrow> bytes \<Rightarrow> bytes" where
  "video_message stream ts d = wire_message default_chunk_size 6 0x09 stream ts d"

lemma healthy_video:
  "healthy n w out \<Longrightarrow> p_chunk_size p = default_chunk_size \<Longrightarrow> length (out @ video_message stream ts d) \<le> n \<Longrightarrow>
   healthy n (write_data_message p 9 stream ts d w) (out @ video_message stream ts d)"
  unfolding video_message_def write_data_message_def by (rule send_message_ok)

lemma send_nalus_video:
  assumes "healthy n w out" "p_chunk_size p = default_chunk_size"
    and "d = make_avc_nalu (if au_key au then frame_type_key else frame_type_inter) (map nal_data (au_nalus au))"
    and "length (out @ video_message stream (ts_ms au p) d) \<le> n"
  shows "healthy n (send_nalus au stream p w) (out @ video_message stream (ts_ms au p) d)"
  using healthy_video [OF assms(1,2,4)] assms(3) by (simp add: send_nalus_def Let_def drop_flv_tag)

lemma send_seq_header_video:
  assumes h: "healthy n w out" "p_chunk_size p = default_chunk_size"
    and ds: "ds = (if au_key au \<and> 4 \<le> length (p_sps p) \<and> p_pps p \<noteq> []
            then [seq_header_body (projr (make_avc_sequence_header (p_sps p) (p_pps p)))] else [])"
    and len: "length (out @ concat (map (video_message stream (ts_ms au p)) ds)) \<le> n"
  shows "\<exists>w' sent'. send_seq_header au stream p w sent = (w', False, sent') \<and>
    healthy n w' (out @ concat (map (video_message stream (ts_ms au p)) ds))"
proof (cases "au_key au \<and> 4 \<le> length (p_sps p) \<and> p_pps p \<noteq> []")
  case True
  let ?hdr = "projr (make_avc_sequence_header (p_sps p) (p_pps p))"
  have "healthy n (write_data_message p 9 stream (ts_ms au p) (seq_header_body ?hdr) w)
      (out @ video_message stream (ts_ms au p) (seq_header_body ?hdr))"
    using len ds True by (intro healthy_video h) simp
  moreover have "p_sps p \<noteq> []" using True by auto
  moreover have "make_avc_sequence_header (p_sps p) (p_pps p) = Inr ?hdr"
    using True by (intro sequence_header_Inr) auto
  ultimately show ?thesis
    using True ds healthy_ok
    by (auto simp: send_seq_header_def Let_def drop_flv_tag split: sum.splits)
next
  case False
  then have "\<not> (au_key au \<and> 0 < length (p_sps p) \<and> 0 < length (p_pps p)) \<or>
      make_avc_sequence_header (p_sps p) (p_pps p) = Inl (SPSTooShort (length (p_sps p)))"
    by (auto simp: make_avc_sequence_header_def)
  then show ?thesis using False h(1) ds by (auto simp: send_seq_header_def)
qed

lemma process_au_sends:
  assumes h: "healthy n w out" and cs: "p_chunk_size p = default_chunk_size"
    and len: "length (out @ concat (map (video_message stream (au_ts au p)) (au_payloads au p sent))) \<le> n"
    and r: "process_au au stream p w sent = (p', w', sent')"
  shows "healthy n w' (out @ concat (map (video_message stream (au_ts au p)) (au_payloads au p sent)))"
proof (cases "\<not> au_key au \<and> \<not> sent")
  case True
  then show ?thesis using h r by (simp add: process_au_def au_payloads_def)
next
  case send: False
  define q where "q = with_base_time au (take_parameter_sets (au_nalus au) p)"
  have q: "p_chunk_size q = default_chunk_size" "au_ts au p = ts_ms au q"
    using cs by (simp_all add: q_def au_ts_def)
  define hs where "hs = (if au_key au \<and> 4 \<le> length (p_sps q) \<and> p_pps q \<noteq> []
            then [seq_header_body (projr (make_avc_sequence_header (p_sps q) (p_pps q)))] else [])"
  define d where "d = make_avc_nalu (if au_key au then frame_type_key else frame_type_inter) (map nal_data (au_nalus au))"
  have pay: "au_payloads au p sent = hs @ [d]"
    using send by (auto simp: au_payloads_def Let_def hs_def d_def q_def)
  have len1: "length (out @ concat (map (video_message stream (ts_ms au q)) hs)) \<le> n"
    using len pay q(2) by simp
  obtain w1 s1 where w1: "send_seq_header au stream q w sent = (w1, False, s1)"
    "healthy n w1 (out @ concat (map (video_message stream (ts_ms au q)) hs))"
    using send_seq_header_video [OF h q(1) hs_def len1] by blast
  have "healthy n (send_nalus au stream q w1)
      ((out @ concat (map (video_message stream (ts_ms au q)) hs)) @ video_message stream (ts_ms au q) d)"
    using len pay q(2) by (intro send_nalus_video w1 q d_def) simp
  moreover have "w' = send_nalus au stream q w1"
    using r send w1(1) by (auto simp: process_au_def Let_def q_def)
  ultimately show ?thesis by (simp add: pay q(2))
qed

text \<open>The messages a peer with the same chunk size reads from the bytes of an access unit.\<close>

lemma video_messages_read:
  assumes "\<forall>d\<in>set ds. d \<noteq> [] \<and> length d < 2 ^ 24"
  shows "decode_all (dec_message default_chunk_size) (length ds) (concat (map (video_message stream ts) ds)) =
    Some (map (\<lambda>d. \<lparr>msg_csid = 6, msg_type = 0x09, msg_stream = stream, msg_ts = ts, msg_data = d\<rparr>) ds)"
proof -
  let ?m = "\<lambda>d. \<lparr>msg_csid = 6, msg_type = 0x09, msg_stream = stream, msg_ts = ts, msg_data = d\<rparr>"
  have "video_message stream ts = (\<lambda>d. enc_message default_chunk_size (?m d))"
    by (simp add: enc_message_def video_message_def fun_eq_iff)
  moreover have "\<forall>m\<in>set (map ?m ds). message_ok m" using assms by (auto simp: message_ok_def)
  ultimately show ?thesis using rtmp_messages.decode_all_enc [of "map ?m ds" "length ds"]
    by (simp add: comp_def)
qed

section \<open>The push loop\<close>

lemma push_loop_ignores_errors:
  "\<forall>e\<in>set es. \<exists>au. e = AuArrives au \<Longrightarrow> \<exists>p' w' sent'. push_loop stream es p w sent = (p', w', sent', False)"
  by (induction es arbitrary: p w sent) (auto split: prod.splits)

section \<open>The reconnection loop\<close>

lemma saturating_double:
  "0 \<le> m \<Longrightarrow> 1 \<le> k \<Longrightarrow> min (min b m * k) m = min (b * k) (m :: int)"
proof (cases "b \<le> m")
  case False
  assume "0 \<le> m" "1 \<le> k"
  then have "m \<le> m * k" "m * k \<le> b * k" using False by (simp_all add: mult_le_cancel_left1 mult_right_mono)
  then show ?thesis using False by simp
qed simp

lemma run_loop_delays:
  "run_loop m b k rs = (n, ds, fin) \<Longrightarrow> 0 < b \<Longrightarrow> b \<le> max_backoff \<Longrightarrow>
   \<forall>i<length ds. ds ! i = min (b * 2 ^ i) max_backoff"
proof (induction m b k rs arbitrary: n ds fin rule: run_loop.induct)
  case (2 m b k r rs)
  show ?case
  proof (cases "r \<noteq> Disconnected \<or> 0 < m \<and> m \<le> k + 1")
    case True
    then have "ds = []" using "2.prems"(1) by (cases r) (auto split: if_splits)
    then show ?thesis by simp
  next
    case False
    obtain n' ds' fin' where r': "run_loop m (min (b * 2) max_backoff) (k + 1) rs = (n', ds', fin')"
      by (metis surj_pair)
    have ds: "ds = b # ds'" using "2.prems"(1) r' False by (auto split: if_splits)
    have IH: "\<forall>i<length ds'. ds' ! i = min (min (b * 2) max_backoff * 2 ^ i) max_backoff"
      using False "2.prems" r' by (intro "2.IH") (auto simp: max_backoff_def second_def)
    have "min (min (b * 2) max_backoff * 2 ^ i) max_backoff = min (b * 2 ^ Suc i) max_backoff" for i
      using saturating_double [of max_backoff "2 ^ i" "b * 2"]
      by (simp add: max_backoff_def second_def mult.assoc)
    then show ?thesis using IH "2.prems"(3) by (auto simp: ds nth_Cons split: nat.splits)
  qed
qed simp

lemma run_loop_gives_up:
  "run_loop m b k rs = (n, ds, fin) \<Longrightarrow> 0 < m \<Longrightarrow> 0 \<le> k \<Longrightarrow> k < m \<Longrightarrow> int n \<le> m - k \<and> length ds \<le> n"
proof (induction m b k rs arbitrary: n ds fin rule: run_loop.induct)
  case (2 m b k r rs)
  show ?case
  proof (cases "r \<noteq> Disconnected \<or> m \<le> k + 1")
    case True
    then show ?thesis using "2.prems" by (cases r) (auto split: if_splits)
  next
    case False
    obtain n' ds' fin' where r': "run_loop m (min (b * 2) max_backoff) (k + 1) rs = (n', ds', fin')"
      by (metis surj_pair)
    have "int n' \<le> m - (k + 1) \<and> length ds' \<le> n'"
      using False "2.prems" r' by (intro "2.IH") auto
    then show ?thesis using "2.prems"(1) r' False by (auto split: if_splits)
  qed
qed simp

lemma run_loop_exhausts:
  "0 < m \<Longrightarrow> 0 \<le> k \<Longrightarrow> k < m \<Longrightarrow> m - k \<le> int j \<Longrightarrow>
   \<exists>ds. run_loop m b k (replicate j Disconnected) = (nat (m - k), ds, True) \<and> length ds + 1 = nat (m - k)"
proof (induction j arbitrary: b k)
  case (Suc j)
  show ?case
  proof (cases "m \<le> k + 1")
    case False
    then have "\<exists>ds. run_loop m (min (b * 2) max_backoff) (k + 1) (replicate j Disconnected) =
        (nat (m - (k + 1)), ds, True) \<and> length ds + 1 = nat (m - (k + 1))"
      using Suc.prems by (intro Suc.IH) auto
    then show ?thesis using False Suc.prems by auto
  qed (use Suc.prems in auto)
qed simp

lemma bw_failed:
  "bw_err w \<Longrightarrow> bw_err (bw_write d w) \<and> bw_sent (bw_write d w) = bw_sent w"
  "bw_err w \<Longrightarrow> bw_err (bw_flush w) \<and> bw_sent (bw_flush w) = bw_sent w"
  by (simp_all add: bw_write.simps bw_flush_def)

lemma writes_failed: "bw_err w \<Longrightarrow> bw_err (fold bw_write ds w) \<and> bw_sent (fold bw_write ds w) = bw_sent w"
  by (induction ds arbitrary: w) (simp_all add: bw_failed)

lemma process_au_failed:
  assumes "process_au au stream p w sent = (p', w', sent')" "bw_err w"
  shows "bw_err w' \<and> bw_sent w' = bw_sent w"
proof -
  have m: "bw_err (write_data_message q ty st ts d w) \<and> bw_sent (write_data_message q ty st ts d w) = bw_sent w" for q ty st ts d
    using writes_failed [OF assms(2)] assms(2) by (simp add: write_data_message_def send_message_def)
  show ?thesis using assms
    by (auto simp: process_au_def Let_def send_nalus_def send_seq_header_def m split: if_splits sum.splits prod.splits)
qed

section \<open>Properties\<close>

text \<open>C3: What \<open>writeRawMessage\<close> puts on the wire, \<open>readMessage\<close> with the same chunk size reads back: the same
  stream, type, timestamp and data, and it leaves the bytes behind it unread.\<close>

theorem message_round_trip:
  assumes "2 \<le> csid" "csid < 65600" "0 < cs" "d \<noteq> []" "length d < 2 ^ 24"
    and "write_raw_message cs csid ty sid ts d = Some bs"
  shows "read_message cs (bs @ rest) =
    Some (Inr (\<lparr>msg_csid = csid, msg_type = ty, msg_stream = sid, msg_ts = ts, msg_data = d\<rparr>, rest))"
  by (rule read_message_written [OF assms])

theorem message_round_trip_witness:
  "read_message 128 (wire_message 128 70 9 1 0x01000000 (replicate 200 7) @ [1, 2]) =
    Some (Inr (\<lparr>msg_csid = 70, msg_type = 9, msg_stream = 1, msg_ts = 0x01000000, msg_data = replicate 200 7\<rparr>, [1, 2]))"
  by (rule message_round_trip [OF _ _ _ _ _ wire_message_raw]) auto

text \<open>The session announces chunks of 4096 bytes and keeps writing chunks of 128. A reader that follows the
  announcement takes the header byte of the second chunk for a data byte: the payload it gets is wrong
  from its byte 128 on.\<close>

theorem announced_chunk_size_corrupts:
  assumes "128 < length d" "length d \<le> 4096"
  shows "\<exists>m r. read_message (unat preferred_chunk_size) (video_message stream ts d) = Some (Inr (m, r)) \<and>
    length (msg_data m) = length d \<and> take 128 (msg_data m) = take 128 d \<and> msg_data m ! 128 = 0xC6"
  unfolding video_message_def
  using read_message_bigger_chunks [of 6 default_chunk_size d "unat preferred_chunk_size" 9 stream ts, OF _ _ _ _ _ _ wire_message_raw] assms
  by (simp add: default_chunk_size_def preferred_chunk_size_def)

theorem announced_chunk_size_corrupts_witness:
  "\<exists>m r. read_message 4096 (video_message 1 0 (replicate 129 7)) = Some (Inr (m, r)) \<and> msg_data m ! 128 = 0xC6 \<and>
    msg_data m \<noteq> replicate 129 7"
  using announced_chunk_size_corrupts [of "replicate 129 7" 1 0]
  by (force simp: preferred_chunk_size_def dest: arg_cong [of _ _ "\<lambda>d. d ! 128"])












text \<open>C19: An access unit that is not dropped goes out as whole messages on the video chunk stream, all with its
  timestamp; a peer with the same chunk size reads them back, and the payload of the last one splits into
  exactly the units of the access unit, in order.\<close>

theorem access_unit_delivered:
  assumes "healthy n w out" "p_chunk_size p = default_chunk_size"
    and "process_au au stream p w sent = (p', w', sent')"
    and "au_key au \<or> sent" "\<forall>u\<in>set (au_nalus au). length (nal_data u) < 2 ^ 32"
    and "\<forall>d\<in>set (au_payloads au p sent). length d < 2 ^ 24"
    and "length (out @ concat (map (video_message stream (au_ts au p)) (au_payloads au p sent))) \<le> n"
  shows "\<exists>bs k ms. healthy n w' (out @ bs) \<and> decode_all (dec_message default_chunk_size) k bs = Some ms \<and> ms \<noteq> [] \<and>
     (\<forall>m\<in>set ms. RtmpChunk.msg_type m = 9 \<and> msg_stream m = stream \<and> msg_ts m = au_ts au p) \<and>
     decode_all avcc_dec (length (au_nalus au)) (drop 5 (msg_data (last ms))) = Some (map nal_data (au_nalus au))"
proof -
  let ?ds = "au_payloads au p sent"
  let ?bs = "concat (map (video_message stream (au_ts au p)) ?ds)"
  let ?ms = "map (\<lambda>d. \<lparr>msg_csid = 6, msg_type = 0x09, msg_stream = stream, msg_ts = au_ts au p, msg_data = d\<rparr>) ?ds"
  obtain xs where xs: "?ds = xs @ [make_avc_nalu (if au_key au then frame_type_key else frame_type_inter) (map nal_data (au_nalus au))]"
      "\<forall>d\<in>set xs. d \<noteq> []"
    using assms(4) by (cases "au_key au") (auto simp: au_payloads_def Let_def seq_header_body_def)
  have ne: "\<forall>d\<in>set ?ds. d \<noteq> [] \<and> length d < 2 ^ 24"
    using assms(6) xs(2) unfolding xs(1) by (auto simp: make_avc_nalu_def)
  have "healthy n w' (out @ ?bs)" by (rule process_au_sends [OF assms(1,2,7,3)])
  moreover have "decode_all (dec_message default_chunk_size) (length ?ds) ?bs = Some ?ms" by (rule video_messages_read [OF ne])
  moreover have "?ms \<noteq> []" using xs by simp
  moreover have "msg_data (last ?ms) = make_avc_nalu (if au_key au then frame_type_key else frame_type_inter) (map nal_data (au_nalus au))"
    using xs by simp
  moreover have "decode_all avcc_dec (length (au_nalus au)) (drop 5 (make_avc_nalu ft (map nal_data (au_nalus au)))) =
      Some (map nal_data (au_nalus au))" for ft
    using avc_payload_units [of "map nal_data (au_nalus au)" ft] assms(5) by simp
  ultimately show ?thesis by (intro exI [of _ ?bs] exI [of _ "length ?ds"] exI [of _ ?ms]) simp
qed

theorem access_unit_delivered_witness:
  "\<exists>n p' w' sent' bs. process_au \<lparr>au_nalus = [nalu_of [0x65, 1, 2]], au_time = 5, au_key = True\<rparr> 1
      (new_push \<lparr>cfg_url = [], cfg_max_retries = 0\<rparr>) (new_writer n) False = (p', w', sent') \<and>
    healthy n w' ([] @ bs) \<and> bs \<noteq> []"
proof -
  let ?au = "\<lparr>au_nalus = [nalu_of [0x65, 1, 2]], au_time = 5, au_key = True\<rparr>"
  let ?p = "new_push \<lparr>cfg_url = [], cfg_max_retries = 0\<rparr>"
  obtain n where n: "length ([] @ concat (map (video_message 1 (au_ts ?au ?p)) (au_payloads ?au ?p False))) = n" by blast
  obtain p' w' sent' where r: "process_au ?au 1 ?p (new_writer n) False = (p', w', sent')" by (metis surj_pair)
  have len: "\<forall>d\<in>set (au_payloads ?au ?p False). length d < 2 ^ 24"
    by (simp add: au_payloads_def take_parameter_sets_def new_push_def nalu_of_def mk_nalu_def
        make_avc_nalu_def avcc_unit_def be32_def)
  have cs: "p_chunk_size ?p = default_chunk_size" by (simp add: new_push_def)
  from access_unit_delivered [OF healthy_new [of n] cs r _ _ len] n
  obtain bs k ms where "healthy n w' ([] @ bs)" "decode_all (dec_message default_chunk_size) k bs = Some ms" "ms \<noteq> []"
    by (auto simp: nalu_of_def mk_nalu_def)
  moreover from this have "bs \<noteq> []" by (cases k) (auto simp: dec_message_def)
  ultimately show ?thesis using r by blast
qed

text \<open>The push loop returns only when it is cancelled or the hub closes its channel: after every write
  has failed it still takes one access unit after the other, so no reconnection follows.\<close>

theorem push_loop_survives_lost_connection:
  assumes "bw_err w" "\<forall>e\<in>set es. \<exists>au. e = AuArrives au"
  shows "\<exists>p' w' sent'. push_loop stream es p w sent = (p', w', sent', False) \<and> bw_sent w' = bw_sent w"
  using assms
proof (induction es arbitrary: p w sent)
  case (Cons e es)
  then obtain au p1 w1 s1 where e: "e = AuArrives au" "process_au au stream p w sent = (p1, w1, s1)"
    by (metis list.set_intros(1) surj_pair)
  have "bw_err w1 \<and> bw_sent w1 = bw_sent w" using process_au_failed [OF e(2) Cons.prems(1)] .
  then show ?case using Cons.IH [of w1 p1 s1] Cons.prems(2) e by simp
qed simp

theorem push_loop_survives_lost_connection_witness:
  "\<exists>p' w' sent'. push_loop 1 [AuArrives \<lparr>au_nalus = [], au_time = 0, au_key = True\<rparr>] (new_push \<lparr>cfg_url = [], cfg_max_retries = 0\<rparr>)
     ((new_writer 0)\<lparr>bw_err := True\<rparr>) False = (p', w', sent', False)"
  using push_loop_survives_lost_connection [of "(new_writer 0)\<lparr>bw_err := True\<rparr>" "[AuArrives \<lparr>au_nalus = [], au_time = 0, au_key = True\<rparr>]"]
  by fastforce

text \<open>The delays between sessions start at one second and double up to 30 seconds; with the default limit, ten sessions
  that end in a disconnection (even after hours of pushing) are the last: the loop returns after nine delays.\<close>

theorem reconnection_schedule:
  "push_run \<lparr>cfg_url = url, cfg_max_retries = 0\<rparr> (replicate (10 + j) Disconnected) =
     (10, map (\<lambda>i. min (second * 2 ^ i) (30 * second)) [0..<9], True)"
proof -
  have "\<exists>ds. push_run \<lparr>cfg_url = url, cfg_max_retries = 0\<rparr> (replicate (10 + j) Disconnected) = (10, ds, True) \<and> length ds = 9"
    using run_loop_exhausts [of 10 0 "10 + j" second] by (auto simp: push_run_def new_push_def)
  then obtain ds where ds: "push_run \<lparr>cfg_url = url, cfg_max_retries = 0\<rparr> (replicate (10 + j) Disconnected) = (10, ds, True)" "length ds = 9"
    by blast
  have "\<forall>i<length ds. ds ! i = min (second * 2 ^ i) max_backoff"
    using ds(1) unfolding push_run_def
    by (rule run_loop_delays) (simp_all add: second_def max_backoff_def)
  then have "ds = map (\<lambda>i. min (second * 2 ^ i) (30 * second)) [0..<9]"
    using ds(2) by (intro nth_equalityI) (auto simp: max_backoff_def)
  then show ?thesis using ds by simp
qed

end
