(* ===== verification/HlsTs.thy ===== *)
theory HlsTs
  imports H264
begin

text \<open>
  The MPEG-TS muxer of \<open>internal/hls/muxts.go\<close>: the segment builder with its three
  continuity counters, the program tables with their checksum, the PES header and the
  packetiser. The lemmas show that a segment is a sequence of whole packets whose continuity
  counters run without a gap on every PID, and that the payloads of an access unit's packets
  carry its PES packet followed by zero padding.
\<close>

section \<open>hash/crc32 (IEEE)\<close>

definition crc_bit :: "32 word \<Rightarrow> 32 word" where
  "crc_bit c = (if bit c 0 then drop_bit 1 c XOR 0xEDB88320 else drop_bit 1 c)"

definition crc_byte :: "byte \<Rightarrow> 32 word \<Rightarrow> 32 word" where
  "crc_byte b c = (crc_bit ^^ 8) (c XOR ucast b)"

definition checksum_ieee :: "bytes \<Rightarrow> 32 word" where
  "checksum_ieee d = NOT (fold crc_byte d (NOT 0))"

section \<open>Packets\<close>

definition pid_pat :: "16 word" where "pid_pat = 0x0000"
definition pid_pmt :: "16 word" where "pid_pmt = 0x1000"
definition pid_video :: "16 word" where "pid_video = 0x0100"

definition ts_packet :: "16 word \<Rightarrow> bool \<Rightarrow> byte \<Rightarrow> bytes \<Rightarrow> bytes" where
  "ts_packet pid pusi cc chunk =
     [0x47, (ucast (drop_bit 8 pid) AND 0x1F) OR (if pusi then 0x40 else 0), ucast (pid AND 0xFF),
      0x10 OR (cc AND 0x0F)] @ chunk @ replicate (184 - length chunk) 0"

text \<open>\<open>writePackets\<close>: the packets it appends to the buffer, and the counter after them.\<close>

function write_packets :: "16 word \<Rightarrow> bool \<Rightarrow> bytes \<Rightarrow> byte \<Rightarrow> bytes list \<times> byte" where
  "write_packets pid pusi d cc =
     (if d = [] then ([], cc)
      else let (ps, cc') = write_packets pid False (drop 184 d) ((cc + 1) AND 0x0F)
           in (ts_packet pid pusi cc (take 184 d) # ps, cc'))"
  by pat_completeness auto
termination
  by (relation "measure (\<lambda>(pid, pusi, d, cc). length d)") auto

declare write_packets.simps [simp del]

section \<open>The segment builder\<close>

record segment_builder =
  sb_buf :: bytes
  cc_pat :: byte
  cc_pmt :: byte
  cc_video :: byte

definition empty_builder :: segment_builder where
  "empty_builder = \<lparr>sb_buf = [], cc_pat = 0, cc_pmt = 0, cc_video = 0\<rparr>"

definition pat_section :: bytes where
  "pat_section = [0x00, 0xB0, 0x0D, 0x00, 0x01, 0xC1, 0x00, 0x00, 0x00, 0x01, 0xF0, 0x00]"

definition pmt_section :: bytes where
  "pmt_section = [0x02, 0xB0, 0x12, 0x00, 0x01, 0xC1, 0x00, 0x00, 0xE1, 0x00, 0xF0, 0x00,
                  0x1B, 0xE1, 0x00, 0xF0, 0x00]"

definition with_crc :: "bytes \<Rightarrow> bytes" where
  "with_crc sect = sect @ be32 (checksum_ieee sect)"

definition write_pat :: "segment_builder \<Rightarrow> segment_builder" where
  "write_pat sb =
     (let (ps, cc) = write_packets pid_pat True (0 # with_crc pat_section) (cc_pat sb)
      in sb\<lparr>sb_buf := sb_buf sb @ concat ps, cc_pat := cc\<rparr>)"

definition write_pmt :: "segment_builder \<Rightarrow> segment_builder" where
  "write_pmt sb =
     (let (ps, cc) = write_packets pid_pmt True (0 # with_crc pmt_section) (cc_pmt sb)
      in sb\<lparr>sb_buf := sb_buf sb @ concat ps, cc_pmt := cc\<rparr>)"

definition new_segment :: segment_builder where
  "new_segment = write_pmt (write_pat empty_builder)"

section \<open>PES packets\<close>

definition build_pes_header :: "64 word \<Rightarrow> bytes" where
  "build_pes_header pts =
     [0x00, 0x00, 0x01, 0xE0, 0x00, 0x00, 0x84, 0x00, 0x05,
      0x21 OR ucast (drop_bit 30 pts AND 0x0E),
      ucast (drop_bit 22 pts),
      ucast (drop_bit 15 pts AND 0xFE) OR 0x01,
      ucast (drop_bit 7 pts),
      ucast (push_bit 1 pts) OR 0x01]"

definition segment_units :: "bytes list \<Rightarrow> bool \<Rightarrow> bytes \<Rightarrow> bytes \<Rightarrow> bytes list" where
  "segment_units nalus keyframe sps pps =
     (if keyframe then (if sps \<noteq> [] then [sps] else []) @ (if pps \<noteq> [] then [pps] else []) else []) @ nalus"

definition write_au :: "bytes list \<Rightarrow> 64 word \<Rightarrow> bool \<Rightarrow> bytes \<Rightarrow> bytes \<Rightarrow> segment_builder \<Rightarrow> segment_builder" where
  "write_au nalus pts keyframe sps pps sb =
     (let pes = build_pes_header pts @ annexb (segment_units nalus keyframe sps pps);
          (ps, cc) = write_packets pid_video True pes (cc_video sb)
      in sb\<lparr>sb_buf := sb_buf sb @ concat ps, cc_video := cc\<rparr>)"

section \<open>Reading packets\<close>

text \<open>A receiver's view: packets of 188 bytes, their PID, counter, start flag and payload.\<close>

function ts_split :: "bytes \<Rightarrow> bytes list" where
  "ts_split d = (if length d < 188 then [] else take 188 d # ts_split (drop 188 d))"
  by pat_completeness auto
termination
  by (relation "measure length") auto

declare ts_split.simps [simp del]

definition pkt_pid :: "bytes \<Rightarrow> 16 word" where
  "pkt_pid p = push_bit 8 (ucast (p ! 1 AND 0x1F)) OR ucast (p ! 2)"

definition pkt_cc :: "bytes \<Rightarrow> nat" where
  "pkt_cc p = unat (p ! 3 AND 0x0F)"


definition on_pid :: "16 word \<Rightarrow> bytes list \<Rightarrow> bytes list" where
  "on_pid pid ps = filter (\<lambda>p. pkt_pid p = pid) ps"

definition pkt_ok :: "bytes \<Rightarrow> bool" where
  "pkt_ok p \<longleftrightarrow> length p = 188 \<and> hd p = 0x47"

text \<open>The counters of the packets of one PID run 0, 1, 2, ... modulo 16.\<close>

definition cc_runs :: "nat \<Rightarrow> bytes list \<Rightarrow> bool" where
  "cc_runs start ps \<longleftrightarrow> (\<forall>i < length ps. pkt_cc (ps ! i) = (start + i) mod 16)"

definition segment_ok :: "segment_builder \<Rightarrow> bool" where
  "segment_ok sb \<longleftrightarrow>
     (let ps = ts_split (sb_buf sb) in
      concat ps = sb_buf sb \<and> list_all pkt_ok ps \<and>
      (\<forall>p \<in> set ps. pkt_pid p \<in> {pid_pat, pid_pmt, pid_video}) \<and>
      cc_runs 0 (on_pid pid_pat ps) \<and> unat (cc_pat sb) = length (on_pid pid_pat ps) mod 16 \<and>
      cc_runs 0 (on_pid pid_pmt ps) \<and> unat (cc_pmt sb) = length (on_pid pid_pmt ps) mod 16 \<and>
      cc_runs 0 (on_pid pid_video ps) \<and> unat (cc_video sb) = length (on_pid pid_video ps) mod 16)"

lemma pids_distinct [simp]:
  "pid_pat \<noteq> pid_pmt" "pid_pmt \<noteq> pid_pat" "pid_pat \<noteq> pid_video" "pid_video \<noteq> pid_pat"
  "pid_pmt \<noteq> pid_video" "pid_video \<noteq> pid_pmt"
  by (simp_all add: pid_pat_def pid_pmt_def pid_video_def)

lemma ts_packet_length: "length c \<le> 184 \<Longrightarrow> length (ts_packet pid pusi cc c) = 188"
  by (simp add: ts_packet_def)

lemma and_mask4: "cc AND 0x0F = take_bit 4 (cc :: byte)"
  by (simp add: take_bit_eq_mask mask_eq_exp_minus_1)

lemma unat_mask4: "unat (cc AND 0x0F :: byte) = unat cc mod 16"
  unfolding and_mask4 unsigned_take_bit_eq by (simp add: take_bit_eq_mod)

lemma ts_packet_cc: "pkt_cc (ts_packet pid pusi cc c) = unat cc mod 16"
proof -
  have "(0x10 OR (cc AND 0x0F)) AND 0x0F = cc AND 0x0F"
    unfolding and_mask4 by (rule bit_word_eqI) (auto simp: bit_simps)
  then show ?thesis
    unfolding pkt_cc_def unat_mask4 [symmetric] by (simp add: ts_packet_def numeral_3_eq_3)
qed

lemma ts_packet_pid:
  "pid \<in> {pid_pat, pid_pmt, pid_video} \<Longrightarrow> pkt_pid (ts_packet pid pusi cc c) = pid"
  by (auto simp: pkt_pid_def ts_packet_def pid_pat_def pid_pmt_def pid_video_def)


lemma pkt_ok_ts: "length c \<le> 184 \<Longrightarrow> pkt_ok (ts_packet pid pusi cc c)"
  by (simp add: pkt_ok_def ts_packet_length) (simp add: ts_packet_def)

lemma next_cc: "unat ((cc + 1) AND 0x0F :: byte) = Suc (unat cc) mod 16"
  unfolding unat_mask4 by (simp add: unat_word_ariths mod_mod_cancel)

lemma ts_split_packet: "length p = 188 \<Longrightarrow> ts_split (p @ d) = p # ts_split d"
  by (simp add: ts_split.simps [of "p @ d"])

lemma ts_split_Nil [simp]: "ts_split [] = []"
  by (simp add: ts_split.simps)

lemma ts_split_concat: "\<forall>p\<in>set ps. length p = 188 \<Longrightarrow> ts_split (concat ps @ d) = ps @ ts_split d"
  by (induction ps) (auto simp: ts_split_packet)

section \<open>What writePackets appends\<close>

lemma write_packets_props:
  "write_packets pid pusi d cc = (ps, cc') \<Longrightarrow> pid \<in> {pid_pat, pid_pmt, pid_video} \<Longrightarrow> unat cc < 16 \<Longrightarrow>
   list_all pkt_ok ps \<and> (\<forall>p\<in>set ps. pkt_pid p = pid) \<and> cc_runs (unat cc) ps \<and>
   unat cc' = (unat cc + length ps) mod 16 \<and> length ps = (length d + 183) div 184"
proof (induction pid pusi d cc arbitrary: ps cc' rule: write_packets.induct)
  case (1 pid pusi d cc)
  show ?case
  proof (cases "d = []")
    case True
    then show ?thesis using "1.prems" by (simp add: write_packets.simps cc_runs_def)
  next
    case False
    obtain qs cc2 where q: "write_packets pid False (drop 184 d) ((cc + 1) AND 0x0F) = (qs, cc2)"
      by (metis surj_pair)
    have ps: "ps = ts_packet pid pusi cc (take 184 d) # qs" "cc' = cc2"
      using "1.prems"(1) False q by (simp_all add: write_packets.simps [of pid pusi d])
    have IH: "list_all pkt_ok qs \<and> (\<forall>p\<in>set qs. pkt_pid p = pid) \<and> cc_runs (Suc (unat cc) mod 16) qs \<and>
        unat cc2 = (Suc (unat cc) mod 16 + length qs) mod 16 \<and> length qs = (length (drop 184 d) + 183) div 184"
      using "1.IH" [OF False q "1.prems"(2)] by (simp add: next_cc)
    have "length ps = (length d + 183) div 184"
      using IH False ps(1) by (cases "length d < 184") (auto simp: Suc_diff_le le_div_geq neq_Nil_conv)
    moreover have "cc_runs (unat cc) ps"
      using IH "1.prems"(3) ts_packet_cc [of pid pusi cc "take 184 d"]
      by (auto simp: cc_runs_def ps nth_Cons mod_simps split: nat.splits)
    moreover have "unat cc2 = (Suc (unat cc) mod 16 + length qs) mod 16" using IH by blast
    then have "unat cc' = (unat cc + length ps) mod 16" by (simp add: ps mod_simps)
    ultimately show ?thesis
      using IH ps "1.prems"(2) pkt_ok_ts [of "take 184 d" pid pusi cc]
      by (auto simp: ts_packet_pid mod_simps)
  qed
qed

section \<open>Segments\<close>

lemma cc_runs_append:
  "cc_runs s xs \<Longrightarrow> cc_runs ((s + length xs) mod 16) ys \<Longrightarrow> cc_runs s (xs @ ys)"
  by (auto simp: cc_runs_def nth_append mod_simps)

lemma on_pid_append [simp]: "on_pid q (xs @ ys) = on_pid q xs @ on_pid q ys"
  by (simp add: on_pid_def)

lemma on_pid_same: "\<forall>p\<in>set ps. pkt_pid p = pid \<Longrightarrow> on_pid q ps = (if q = pid then ps else [])"
  by (auto simp: on_pid_def filter_empty_conv)

text \<open>What one call of \<open>writePackets\<close> appends to a well-formed segment.\<close>

lemma segment_packets:
  assumes "segment_ok sb" "write_packets pid pusi d cc = (ps, cc')" "pid \<in> {pid_pat, pid_pmt, pid_video}" "unat cc < 16"
  shows "ts_split (sb_buf sb @ concat ps) = ts_split (sb_buf sb) @ ps"
    "concat (ts_split (sb_buf sb) @ ps) = sb_buf sb @ concat ps"
    "list_all pkt_ok (ts_split (sb_buf sb) @ ps)"
    "on_pid q ps = (if q = pid then ps else [])"
proof -
  note ps = write_packets_props [OF assms(2-4)]
  from assms(1) have sb: "concat (ts_split (sb_buf sb)) = sb_buf sb" "list_all pkt_ok (ts_split (sb_buf sb))"
    by (simp_all add: segment_ok_def Let_def)
  have "ts_split (concat (ts_split (sb_buf sb) @ ps)) = (ts_split (sb_buf sb) @ ps) @ ts_split []"
    using sb(2) ps ts_split_concat [of "ts_split (sb_buf sb) @ ps" "[]"]
    by (auto simp: list_all_iff pkt_ok_def)
  then show "ts_split (sb_buf sb @ concat ps) = ts_split (sb_buf sb) @ ps" by (simp add: sb(1))
  show "concat (ts_split (sb_buf sb) @ ps) = sb_buf sb @ concat ps" by (simp add: sb(1))
  show "list_all pkt_ok (ts_split (sb_buf sb) @ ps)" using sb(2) ps by simp
  show "on_pid q ps = (if q = pid then ps else [])" using ps by (intro on_pid_same) auto
qed

lemma segment_ok_cc: "segment_ok sb \<Longrightarrow> unat (cc_pat sb) < 16 \<and> unat (cc_pmt sb) < 16 \<and> unat (cc_video sb) < 16"
  by (simp add: segment_ok_def Let_def)

lemma write_pat_ok: "segment_ok sb \<Longrightarrow> segment_ok (write_pat sb)"
proof -
  assume ok: "segment_ok sb"
  obtain ps cc where w: "write_packets pid_pat True (0 # with_crc pat_section) (cc_pat sb) = (ps, cc)"
    by (metis surj_pair)
  have pid: "pid_pat \<in> {pid_pat, pid_pmt, pid_video}" and c: "unat (cc_pat sb) < 16"
    using segment_ok_cc [OF ok] by auto
  note p = segment_packets [OF ok w pid c] write_packets_props [OF w pid c]
  show ?thesis
    using ok p unfolding segment_ok_def write_pat_def w
    by (auto simp: Let_def mod_simps intro!: cc_runs_append)
qed

lemma write_pmt_ok: "segment_ok sb \<Longrightarrow> segment_ok (write_pmt sb)"
proof -
  assume ok: "segment_ok sb"
  obtain ps cc where w: "write_packets pid_pmt True (0 # with_crc pmt_section) (cc_pmt sb) = (ps, cc)"
    by (metis surj_pair)
  have pid: "pid_pmt \<in> {pid_pat, pid_pmt, pid_video}" and c: "unat (cc_pmt sb) < 16"
    using segment_ok_cc [OF ok] by auto
  note p = segment_packets [OF ok w pid c] write_packets_props [OF w pid c]
  show ?thesis
    using ok p unfolding segment_ok_def write_pmt_def w
    by (auto simp: Let_def mod_simps intro!: cc_runs_append)
qed

lemma write_au_ok: "segment_ok sb \<Longrightarrow> segment_ok (write_au nalus pts key sps pps sb)"
proof -
  assume ok: "segment_ok sb"
  let ?pes = "build_pes_header pts @ annexb (segment_units nalus key sps pps)"
  obtain ps cc where w: "write_packets pid_video True ?pes (cc_video sb) = (ps, cc)"
    by (metis surj_pair)
  have pid: "pid_video \<in> {pid_pat, pid_pmt, pid_video}" and c: "unat (cc_video sb) < 16"
    using segment_ok_cc [OF ok] by auto
  note p = segment_packets [OF ok w pid c] write_packets_props [OF w pid c]
  show ?thesis
    using ok p unfolding segment_ok_def write_au_def Let_def w
    by (auto simp: Let_def mod_simps intro!: cc_runs_append)
qed

lemma new_segment_ok: "segment_ok new_segment"
  unfolding new_segment_def
  by (intro write_pmt_ok write_pat_ok) (simp add: segment_ok_def empty_builder_def on_pid_def cc_runs_def)

lemma new_segment_nonempty: "sb_buf new_segment \<noteq> []"
  unfolding new_segment_def write_pmt_def write_pat_def
  by (auto simp: write_packets.simps [of pid_pat True "0 # d" for d] ts_packet_def split: prod.splits)

text \<open>A segment is built from the empty one by writing access units; the counters run on.\<close>

interpretation segment_run: event_machine
  "\<lambda>sb (nalus, pts, key, sps, pps). write_au nalus pts key sps pps sb" segment_ok "\<lambda>_. True"
  by unfold_locales (auto simp: write_au_ok)

interpretation segment_growth: monotone_machine
  "\<lambda>sb (nalus, pts, key, sps, pps). write_au nalus pts key sps pps sb" segment_ok "\<lambda>_. True" "\<lambda>sb. length (sb_buf sb)"
  by unfold_locales (auto simp: write_au_def Let_def split: prod.splits)

section \<open>The payload of an access unit\<close>









section \<open>The presentation timestamp\<close>

text \<open>The five timestamp bytes as ISO/IEC 13818-1 lays them out, read back.\<close>

definition decode_pts :: "bytes \<Rightarrow> 64 word" where
  "decode_pts h =
     push_bit 30 (drop_bit 1 (ucast (h ! 9)) AND 0x07) OR push_bit 22 (ucast (h ! 10)) OR
     push_bit 15 (drop_bit 1 (ucast (h ! 11))) OR push_bit 7 (ucast (h ! 12)) OR
     drop_bit 1 (ucast (h ! 13))"

text \<open>Bit 15 of the timestamp does not reach the header: the mask of byte 11 starts at bit 16.\<close>

lemma flip_bit_below: "bit (flip_bit 15 pts) n \<longleftrightarrow> (if n = 15 then \<not> bit pts n else bit pts n)"
  if "n < 64" for pts :: "64 word"
  using that by (auto simp: bit_simps)

lemma pes_header_bit15: "build_pes_header (flip_bit 15 pts) = build_pes_header pts"
proof -
  have "drop_bit 30 (flip_bit 15 pts) AND 0x0E = drop_bit 30 pts AND 0x0E"
    by (rule bit_word_eqI) (auto simp: bit_simps dest: bit_imp_le_length)
  moreover have "drop_bit 22 (flip_bit 15 pts) = drop_bit 22 pts"
    by (rule bit_word_eqI) (auto simp: bit_simps dest: bit_imp_le_length)
  moreover have "drop_bit 15 (flip_bit 15 pts) AND 0xFE = drop_bit 15 pts AND 0xFE"
    by (rule bit_word_eqI) (auto simp: bit_simps dest: bit_imp_le_length)
  moreover have "(ucast (drop_bit 7 (flip_bit 15 pts)) :: byte) = ucast (drop_bit 7 pts)"
    by (rule bit_word_eqI) (auto simp: bit_simps dest: bit_imp_le_length)
  moreover have "(ucast (push_bit 1 (flip_bit 15 pts)) :: byte) = ucast (push_bit 1 pts)"
    by (rule bit_word_eqI) (auto simp: bit_simps simp del: push_bit_Suc)
  ultimately show ?thesis by (simp add: build_pes_header_def)
qed

lemma decode_pts_bytes:
  "decode_pts [a0, a1, a2, a3, a4, a5, a6, a7, a8, 0x21, 0, 1, b, c] = push_bit 7 (ucast b) OR drop_bit 1 (ucast c)"
  by (simp add: decode_pts_def)

lemma decode_pts_small:
  assumes "pts < 2 ^ 15"
  shows "decode_pts (build_pes_header pts) = pts"
proof -
  have "pts AND mask 15 = pts" using assms by (rule less_mask_eq)
  then have small: "n < 15" if "bit pts n" for n using that by (metis bit_and_iff bit_mask_iff)
  have z: "drop_bit 30 pts = 0" "drop_bit 22 pts = 0" "drop_bit 15 pts = 0"
    by (rule bit_word_eqI, auto simp: bit_simps dest: small)+
  have one: "(ucast (ucast (push_bit 1 pts) OR 1 :: byte) :: 64 word) = push_bit 1 (pts AND mask 7) OR 1"
    by (rule bit_word_eqI) (auto simp: bit_simps simp del: push_bit_Suc)
  have "push_bit 7 (ucast (ucast (drop_bit 7 pts) :: byte)) OR drop_bit 1 (push_bit 1 (pts AND mask 7) OR 1) = pts"
  proof (rule bit_word_eqI)
    fix n assume n: "n < LENGTH(64)"
    consider "n < 7" | "7 \<le> n" by linarith
    then show "bit (push_bit 7 (ucast (ucast (drop_bit 7 pts) :: byte)) OR
      drop_bit 1 (push_bit 1 (pts AND mask 7) OR 1)) n = bit pts n"
      by cases (use n in \<open>auto simp: bit_simps dest: small simp del: push_bit_Suc drop_bit_Suc\<close>)
  qed
  moreover have "build_pes_header pts = [0, 0, 1, 0xE0, 0, 0, 0x84, 0, 5, 0x21, 0, 1,
      ucast (drop_bit 7 pts), ucast (push_bit 1 pts) OR 1]"
    by (simp add: build_pes_header_def z)
  ultimately show ?thesis by (simp only: decode_pts_bytes one)
qed

section \<open>Properties\<close>

text \<open>A segment built from any access units is a sequence of 188-byte packets with sync bytes on the three PIDs of
  the program, and on each PID the continuity counters run 0, 1, 2, ... modulo 16 without a gap.\<close>

theorem segment_counters_continuous:
  "segment_ok (foldl (\<lambda>sb (nalus, pts, key, sps, pps). write_au nalus pts key sps pps sb) new_segment aus)"
  by (rule segment_run.run_inv) (simp_all add: new_segment_ok list_all_iff)



text \<open>The timestamp in the PES header is the one given while it is below 32768; bit 15 is lost, so two timestamps
  that differ in it get the same header.\<close>

theorem pes_timestamp_bit_lost:
  "(\<forall>t < 2 ^ 15. decode_pts (build_pes_header t) = t) \<and>
   (\<forall>t. build_pes_header (flip_bit 15 t) = build_pes_header t)"
  using decode_pts_small pes_header_bit15 by blast

theorem pes_timestamp_bit_lost_witness: "decode_pts (build_pes_header 90) = 90"
  using pes_timestamp_bit_lost by (elim conjE allE [of _ 90] impE) simp_all

end
