(* ===== verification/HlsServer.thy ===== *)
theory HlsServer
  imports HlsTs AuHub
begin

text \<open>
  The HLS server of \<open>internal/hls/server.go\<close>: segmenting of access units, the sliding window,
  the playlist with its cache, and the segment handler. The lemmas show that the window holds
  at most its size of well-formed segments with consecutive numbers, that the cache is never
  stale, and that every segment a playlist names is served with its data.
\<close>

record hls_segment =
  seg_data :: bytes
  seg_sequence :: "64 word"
  seg_duration :: int

record hls_server =
  hls_dur :: int
  hls_fps :: int
  hls_window :: nat
  hls_segments :: "hls_segment list"
  hls_sequence :: "64 word"
  hls_current :: "segment_builder option"
  hls_pts :: "64 word"
  hls_frames :: int
  hls_sps :: bytes
  hls_pps :: bytes
  hls_waiting :: bool
  hls_cached :: string

definition ns_per_s :: int where "ns_per_s = 1000000000"

definition hls_new :: "int \<Rightarrow> int \<Rightarrow> hls_server" where
  "hls_new dur fps =
     \<lparr>hls_dur = (if dur \<le> 0 then 2 * ns_per_s else dur), hls_fps = (if fps \<le> 0 then 15 else fps),
      hls_window = 5, hls_segments = [], hls_sequence = 0, hls_current = None, hls_pts = 0,
      hls_frames = 0, hls_sps = [], hls_pps = [], hls_waiting = True, hls_cached = []\<rparr>"

definition pts_increment :: "hls_server \<Rightarrow> 64 word" where
  "pts_increment s = of_int (go_div 90000 (hls_fps s))"

definition close_segment :: "hls_server \<Rightarrow> hls_server" where
  "close_segment s =
     (case hls_current s of
        None \<Rightarrow> s
      | Some sb \<Rightarrow>
          if sb_buf sb = [] then s
          else
            let seg = \<lparr>seg_data = sb_buf sb, seg_sequence = hls_sequence s, seg_duration = hls_dur s\<rparr>;
                segs = hls_segments s @ [seg];
                segs = (if hls_window s < length segs then drop (length segs - hls_window s) segs else segs)
            in s\<lparr>hls_sequence := hls_sequence s + 1, hls_segments := segs, hls_current := None, hls_cached := []\<rparr>)"

definition cache_parameter_sets :: "nalu list \<Rightarrow> hls_server \<Rightarrow> hls_server" where
  "cache_parameter_sets ns s =
     foldl (\<lambda>s n. let s = (if is_sps n then s\<lparr>hls_sps := nal_data n\<rparr> else s)
                  in if is_pps n then s\<lparr>hls_pps := nal_data n\<rparr> else s) s ns"

text \<open>
  \<open>int(segmentDuration.Seconds())\<close> is the number of whole seconds (the floating-point sum is
  exact enough for every duration below half a year).
\<close>

definition frames_per_segment :: "hls_server \<Rightarrow> int" where
  "frames_per_segment s = (let f = i64 (hls_fps s * go_div (hls_dur s) ns_per_s) in if f \<le> 0 then 30 else f)"

text \<open>The part of \<open>processAU\<close> after a segment is known to be open.\<close>

definition append_au :: "access_unit \<Rightarrow> 64 word \<Rightarrow> segment_builder \<Rightarrow> hls_server \<Rightarrow> hls_server" where
  "append_au au inc sb s =
     (let sb' = write_au (map nal_data (au_nalus au)) (hls_pts s) (au_key au) (hls_sps s) (hls_pps s) sb;
          s = s\<lparr>hls_current := Some sb', hls_pts := hls_pts s + inc, hls_frames := i64 (hls_frames s + 1)\<rparr>
      in if hls_frames s mod frames_per_segment s = 0 then (close_segment s)\<lparr>hls_waiting := True\<rparr> else s)"

definition hls_process_au :: "access_unit \<Rightarrow> 64 word \<Rightarrow> hls_server \<Rightarrow> hls_server" where
  "hls_process_au au inc s =
     (let s = cache_parameter_sets (au_nalus au) s in
      if hls_waiting s \<and> \<not> au_key au then s\<lparr>hls_pts := hls_pts s + inc\<rparr>
      else
        let s = (if hls_waiting s then s\<lparr>hls_waiting := False, hls_current := Some new_segment\<rparr> else s) in
        (case hls_current s of
           Some sb \<Rightarrow> append_au au inc sb s
         | None \<Rightarrow> if \<not> au_key au then s\<lparr>hls_pts := hls_pts s + inc\<rparr>
                   else append_au au inc new_segment (s\<lparr>hls_current := Some new_segment\<rparr>)))"

section \<open>The playlist\<close>

text \<open>
  \<open>%.0f\<close> and \<open>%.3f\<close> of a duration in seconds, rounded half to even.
\<close>

definition round_even :: "nat \<Rightarrow> nat \<Rightarrow> nat" where
  "round_even n d =
     (let q = n div d; r = n mod d in
      if 2 * r < d \<or> 2 * r = d \<and> even q then q else q + 1)"

definition fmt_seconds :: "int \<Rightarrow> string" where
  "fmt_seconds d = decimal (round_even (nat d) 1000000000)"

definition fmt_millis :: "int \<Rightarrow> string" where
  "fmt_millis d =
     (let ms = round_even (nat d) 1000000; f = decimal (ms mod 1000)
      in decimal (ms div 1000) @ ''.'' @ replicate (3 - length f) (CHR ''0'') @ f)"

definition newline :: string where "newline = [char_of (10 :: nat)]"

definition segment_uri :: "hls_segment \<Rightarrow> string" where
  "segment_uri seg = ''segment-'' @ decimal (unat (seg_sequence seg)) @ ''.ts''"

definition playlist_entry :: "int \<Rightarrow> hls_segment \<Rightarrow> string" where
  "playlist_entry dur seg =
     (let d = (if seg_duration seg \<le> 0 then dur else seg_duration seg)
      in ''#EXTINF:'' @ fmt_millis d @ '','' @ newline @ segment_uri seg @ newline)"

definition max_duration :: "hls_segment list \<Rightarrow> int" where
  "max_duration segs = foldl (\<lambda>m seg. if m < seg_duration seg then seg_duration seg else m) 0 segs"

definition render_playlist :: "int \<Rightarrow> hls_segment list \<Rightarrow> string" where
  "render_playlist dur segs =
     (let m = max_duration segs; m = (if m \<le> 0 then dur else m) in
      ''#EXTM3U'' @ newline @ ''#EXT-X-VERSION:3'' @ newline @
      ''#EXT-X-TARGETDURATION:'' @ fmt_seconds m @ newline @
      ''#EXT-X-MEDIA-SEQUENCE:'' @ decimal (unat (seg_sequence (hd segs))) @ newline @
      concat (map (playlist_entry dur) segs))"

definition empty_playlist :: string where
  "empty_playlist = ''#EXTM3U'' @ newline @ ''#EXT-X-VERSION:3'' @ newline @ ''#EXT-X-TARGETDURATION:2'' @ newline"

definition playlist :: "hls_server \<Rightarrow> string \<times> hls_server" where
  "playlist s =
     (if hls_cached s \<noteq> [] then (hls_cached s, s)
      else if hls_segments s = [] then (empty_playlist, s)
      else let t = render_playlist (hls_dur s) (hls_segments s) in (t, s\<lparr>hls_cached := t\<rparr>))"

section \<open>The segment handler\<close>



definition segment_count :: "hls_server \<Rightarrow> nat" where
  "segment_count s = length (hls_segments s)"

section \<open>The invariant\<close>

datatype hls_event = HlsAu access_unit | HlsPlaylist

fun hls_step :: "hls_server \<Rightarrow> hls_event \<Rightarrow> hls_server" where
  "hls_step s (HlsAu au) = hls_process_au au (pts_increment s) s"
| "hls_step s HlsPlaylist = snd (playlist s)"

text \<open>A finished segment is the buffer of a builder that only ever appended whole packets.\<close>

definition segment_data_ok :: "bytes \<Rightarrow> bool" where
  "segment_data_ok d \<longleftrightarrow> d \<noteq> [] \<and> (\<exists>sb. segment_ok sb \<and> sb_buf sb = d)"

definition window_ok :: "hls_server \<Rightarrow> bool" where
  "window_ok s \<longleftrightarrow>
     length (hls_segments s) \<le> hls_window s \<and>
     map seg_sequence (hls_segments s) =
       map (\<lambda>i. hls_sequence s - of_nat (length (hls_segments s)) + of_nat i) [0..<length (hls_segments s)] \<and>
     (\<forall>seg\<in>set (hls_segments s). segment_data_ok (seg_data seg) \<and> 0 < seg_duration seg)"

definition hls_wf :: "hls_server \<Rightarrow> bool" where
  "hls_wf s \<longleftrightarrow>
     hls_window s = 5 \<and> 0 < hls_dur s \<and> 0 < hls_fps s \<and> window_ok s \<and>
     (\<forall>sb. hls_current s = Some sb \<longrightarrow> segment_ok sb \<and> sb_buf sb \<noteq> []) \<and>
     (hls_cached s = [] \<or> hls_segments s \<noteq> [] \<and> hls_cached s = render_playlist (hls_dur s) (hls_segments s))"

section \<open>The invariant is kept\<close>

lemma cache_parameter_sets_frame [simp]:
  "hls_window (cache_parameter_sets ns s) = hls_window s" "hls_dur (cache_parameter_sets ns s) = hls_dur s"
  "hls_fps (cache_parameter_sets ns s) = hls_fps s" "hls_segments (cache_parameter_sets ns s) = hls_segments s"
  "hls_sequence (cache_parameter_sets ns s) = hls_sequence s" "hls_current (cache_parameter_sets ns s) = hls_current s"
  "hls_cached (cache_parameter_sets ns s) = hls_cached s" "hls_waiting (cache_parameter_sets ns s) = hls_waiting s"
  "hls_frames (cache_parameter_sets ns s) = hls_frames s" "hls_pts (cache_parameter_sets ns s) = hls_pts s"
  unfolding cache_parameter_sets_def by (induction ns arbitrary: s) (simp_all add: Let_def)

lemma wf_cache_parameter_sets: "hls_wf (cache_parameter_sets ns s) = hls_wf s"
  by (simp add: hls_wf_def window_ok_def)

text \<open>Numbering a window of consecutive segments after one more has been appended and the oldest dropped.\<close>

lemma numbering_append:
  assumes "map f xs = map (\<lambda>i. q - of_nat (length xs) + of_nat i) [0..<length xs]" "f y = (q :: 64 word)"
  shows "map f (xs @ [y]) = map (\<lambda>i. q + 1 - of_nat (length (xs @ [y])) + of_nat i) [0..<length (xs @ [y])]"
  using assms by simp

lemma numbering_drop:
  assumes "map f xs = map (\<lambda>i. q - of_nat (length xs) + of_nat i) [0..<length xs]" "k \<le> length xs"
  shows "map f (drop k xs) = map (\<lambda>i. (q :: 64 word) - of_nat (length (drop k xs)) + of_nat i) [0..<length (drop k xs)]"
proof -
  have "map f (drop k xs) = drop k (map f xs)" by (simp add: drop_map)
  also have "\<dots> = map (\<lambda>i. q - of_nat (length xs) + of_nat i) [k..<length xs]"
    unfolding assms(1) by (simp add: drop_map)
  also have "[k..<length xs] = map (\<lambda>i. i + k) [0..<length xs - k]"
    using assms(2) by (simp add: map_add_upt)
  finally show ?thesis using assms(2) by (simp add: algebra_simps)
qed

lemma close_segment_window: "window_ok s \<Longrightarrow> 0 < hls_dur s \<Longrightarrow>
   \<forall>sb. hls_current s = Some sb \<longrightarrow> segment_ok sb \<Longrightarrow> window_ok (close_segment s)"
proof (cases "hls_current s")
  case (Some sb)
  assume w: "window_ok s" and d: "0 < hls_dur s" and c: "\<forall>sb. hls_current s = Some sb \<longrightarrow> segment_ok sb"
  show ?thesis
  proof (cases "sb_buf sb = []")
    case False
    let ?seg = "\<lparr>seg_data = sb_buf sb, seg_sequence = hls_sequence s, seg_duration = hls_dur s\<rparr>"
    let ?segs = "hls_segments s @ [?seg]"
    let ?q = "hls_sequence s + 1"
    define k where "k = length ?segs - hls_window s"
    have num: "map seg_sequence ?segs = map (\<lambda>i. ?q - of_nat (length ?segs) + of_nat i) [0..<length ?segs]"
      using w by (intro numbering_append) (simp_all add: window_ok_def)
    have eq: "hls_segments (close_segment s) = drop k ?segs" "hls_sequence (close_segment s) = ?q"
      "hls_window (close_segment s) = hls_window s"
      using Some False by (auto simp: close_segment_def Let_def k_def)
    have "k \<le> length ?segs" by (simp add: k_def)
    from numbering_drop [OF num this]
    have "map seg_sequence (drop k ?segs) =
      map (\<lambda>i. ?q - of_nat (length (drop k ?segs)) + of_nat i) [0..<length (drop k ?segs)]" .
    moreover have "\<forall>seg\<in>set ?segs. segment_data_ok (seg_data seg) \<and> 0 < seg_duration seg"
      using w c Some False d by (auto simp: window_ok_def segment_data_ok_def)
    then have "\<forall>seg\<in>set (drop k ?segs). segment_data_ok (seg_data seg) \<and> 0 < seg_duration seg"
      by (meson in_set_dropD)
    moreover have "length (drop k ?segs) \<le> hls_window s" by (simp add: k_def)
    ultimately show ?thesis unfolding window_ok_def eq by blast
  qed (use w Some in \<open>simp add: close_segment_def\<close>)
qed (simp add: close_segment_def)

lemma wf_close_segment: "hls_wf s \<Longrightarrow> hls_wf (close_segment s)"
  using close_segment_window [of s]
  by (cases "hls_current s") (auto simp: hls_wf_def close_segment_def Let_def)

lemma write_au_nonempty: "sb_buf sb \<noteq> [] \<Longrightarrow> sb_buf (write_au a b c d e sb) \<noteq> []"
  by (auto simp: write_au_def Let_def split: prod.splits)

lemma wf_append_au:
  assumes "hls_wf s" "segment_ok sb" "sb_buf sb \<noteq> []"
  shows "hls_wf (append_au au inc sb s)"
proof -
  have f: "hls_wf (s\<lparr>hls_current := Some (write_au a b c d e sb), hls_pts := x, hls_frames := y\<rparr>)" for a b c d e x y
    using assms by (simp add: hls_wf_def window_ok_def write_au_ok write_au_nonempty)
  have w: "hls_wf t \<Longrightarrow> hls_wf (t\<lparr>hls_waiting := True\<rparr>)" for t
    by (simp add: hls_wf_def window_ok_def)
  show ?thesis by (simp add: append_au_def Let_def f w wf_close_segment)
qed

lemma wf_process_au: "hls_wf s \<Longrightarrow> hls_wf (hls_process_au au inc s)"
proof -
  assume wf: "hls_wf s"
  let ?s = "cache_parameter_sets (au_nalus au) s"
  have c: "hls_wf ?s" using wf by (simp add: wf_cache_parameter_sets)
  have p: "hls_wf t \<Longrightarrow> hls_wf (t\<lparr>hls_pts := x\<rparr>)" for t x by (simp add: hls_wf_def window_ok_def)
  have o: "hls_wf t \<Longrightarrow> hls_wf (t\<lparr>hls_waiting := False, hls_current := Some new_segment\<rparr>)"
    "hls_wf t \<Longrightarrow> hls_wf (t\<lparr>hls_current := Some new_segment\<rparr>)" for t
    by (simp_all add: hls_wf_def window_ok_def new_segment_ok new_segment_nonempty)
  have cur: "hls_wf t \<Longrightarrow> hls_current t = Some sb \<Longrightarrow> segment_ok sb \<and> sb_buf sb \<noteq> []" for t sb
    by (simp add: hls_wf_def)
  show ?thesis
    using cur [OF c]
    by (auto simp: hls_process_au_def Let_def c p o intro!: wf_append_au new_segment_ok new_segment_nonempty
        split: option.splits)
qed

lemma wf_playlist: "hls_wf s \<Longrightarrow> hls_wf (snd (playlist s))"
  by (auto simp: playlist_def Let_def hls_wf_def window_ok_def)

lemma wf_hls_new: "hls_wf (hls_new dur fps)"
  by (simp add: hls_wf_def window_ok_def hls_new_def ns_per_s_def)

interpretation hls_run: event_machine hls_step hls_wf "\<lambda>_. True"
proof
  fix s e assume "hls_wf s"
  then show "hls_wf (hls_step s e)" by (cases e) (auto simp: wf_process_au wf_playlist)
qed

lemma hls_reachable: "hls_wf (foldl hls_step (hls_new dur fps) es)"
  by (rule hls_run.run_inv) (simp_all add: wf_hls_new list_all_iff)

section \<open>Listed segments are served\<close>




lemma playlist_current:
  "hls_wf s \<Longrightarrow> hls_segments s \<noteq> [] \<Longrightarrow> fst (playlist s) = render_playlist (hls_dur s) (hls_segments s)"
  by (auto simp: hls_wf_def playlist_def Let_def)

section \<open>Every segment starts with a key frame\<close>











section \<open>Properties\<close>


definition key_au :: access_unit where
  "key_au = \<lparr>au_nalus = [nalu_of [0x65, 1]], au_time = 0, au_key = True\<rparr>"

lemma one_segment: "hls_segments (foldl hls_step (hls_new ns_per_s 1) [HlsAu key_au]) =
   [\<lparr>seg_data = sb_buf (write_au [[0x65, 1]] 0 True [] [] new_segment), seg_sequence = 0, seg_duration = ns_per_s\<rparr>]"
  using write_au_nonempty [OF new_segment_nonempty]
  by (simp add: key_au_def nalu_of_def mk_nalu_def hls_process_au_def cache_parameter_sets_def hls_new_def ns_per_s_def
      append_au_def Let_def close_segment_def frames_per_segment_def go_div_def i64_def)


text \<open>The window holds at most five segments, numbered without a gap up to the next number; the playlist, cached or
  not, is the one rendered from exactly these segments.\<close>

theorem playlist_matches_window:
  assumes "s = foldl hls_step (hls_new dur fps) es" "hls_segments s \<noteq> []"
  shows "length (hls_segments s) \<le> 5 \<and>
    (\<forall>i < length (hls_segments s). seg_sequence (hls_segments s ! i) = hls_sequence s - of_nat (length (hls_segments s)) + of_nat i) \<and>
    fst (playlist s) = render_playlist (hls_dur s) (hls_segments s)"
proof -
  have wf: "hls_wf s" using hls_reachable assms(1) by simp
  then have m: "map seg_sequence (hls_segments s) =
       map (\<lambda>i. hls_sequence s - of_nat (length (hls_segments s)) + of_nat i) [0..<length (hls_segments s)]"
    and l: "length (hls_segments s) \<le> 5" by (auto simp: hls_wf_def window_ok_def)
  have "seg_sequence (hls_segments s ! i) = hls_sequence s - of_nat (length (hls_segments s)) + of_nat i"
    if "i < length (hls_segments s)" for i
    using arg_cong [OF m, of "\<lambda>xs. xs ! i"] that by simp
  then show ?thesis using l playlist_current [OF wf assms(2)] by blast
qed

theorem playlist_matches_window_witness:
  "fst (playlist (foldl hls_step (hls_new ns_per_s 1) [HlsAu key_au])) =
   render_playlist (hls_dur (foldl hls_step (hls_new ns_per_s 1) [HlsAu key_au]))
     [\<lparr>seg_data = sb_buf (write_au [[0x65, 1]] 0 True [] [] new_segment), seg_sequence = 0, seg_duration = ns_per_s\<rparr>]"
  using playlist_matches_window [OF refl, of ns_per_s 1 "[HlsAu key_au]"] unfolding one_segment by simp

end
