(* ===== verification/RecIndex.thy ===== *)
theory RecIndex
  imports Prelude "HOL-Library.Multiset"
begin

text \<open>
  The recording index and the retention policy (\<open>internal/recording/index.go\<close>,
  \<open>retention.go\<close>). The index file is the list of its lines; a line that does not parse as a
  record is \<open>None\<close>. Each file operation of the code can fail, and the outcome is an argument.
  The lemmas show that memory and file agree as long as nothing fails, that a failed rewrite leaves
  the old file, and that retention terminates and deletes the oldest recordings first.
\<close>

section \<open>Records and the index\<close>

record segment_info =
  si_file :: string
  si_start :: int
  si_end :: int
  si_size :: int
  si_frames :: int
  si_keyframes :: int

text \<open>
  \<open>ix_torn\<close>: the last line was cut off in the middle, so the next append continues it.
\<close>

record rec_index =
  ix_segments :: "segment_info list"
  ix_lines :: "segment_info option list"
  ix_torn :: bool

definition new_index :: rec_index where
  "new_index = \<lparr>ix_segments = [], ix_lines = [], ix_torn = False\<rparr>"

datatype load_io = LoadMissing | LoadOpenFails | LoadReadFails nat | LoadOk

text \<open>\<open>Load\<close>: corrupt lines are skipped; a read error keeps the records before it.\<close>

definition index_load :: "load_io \<Rightarrow> rec_index \<Rightarrow> bool \<times> rec_index" where
  "index_load io ix =
     (case io of
        LoadMissing \<Rightarrow> (True, ix\<lparr>ix_segments := []\<rparr>)
      | LoadOpenFails \<Rightarrow> (False, ix\<lparr>ix_segments := []\<rparr>)
      | LoadReadFails n \<Rightarrow> (False, ix\<lparr>ix_segments := List.map_filter id (take n (ix_lines ix))\<rparr>)
      | LoadOk \<Rightarrow> (True, ix\<lparr>ix_segments := List.map_filter id (ix_lines ix)\<rparr>))"

datatype append_io = AppendOpenFails | AppendTorn | AppendWriteFails | AppendCloseFails | AppendOk

text \<open>The file after one line has been appended to it, complete or not.\<close>

definition append_line :: "segment_info option \<Rightarrow> bool \<Rightarrow> rec_index \<Rightarrow> rec_index" where
  "append_line l torn ix =
     (if ix_torn ix then ix\<lparr>ix_lines := butlast (ix_lines ix) @ [None], ix_torn := torn\<rparr>
      else ix\<lparr>ix_lines := ix_lines ix @ [l], ix_torn := torn\<rparr>)"

definition index_append :: "append_io \<Rightarrow> segment_info \<Rightarrow> rec_index \<Rightarrow> bool \<times> rec_index" where
  "index_append io si ix =
     (case io of
        AppendOpenFails \<Rightarrow> (False, ix)
      | AppendWriteFails \<Rightarrow> (False, ix)
      | AppendTorn \<Rightarrow> (False, append_line None True ix)
      | AppendCloseFails \<Rightarrow> (False, append_line (Some si) False ix)
      | AppendOk \<Rightarrow>
          (let ix = append_line (Some si) False ix in (True, ix\<lparr>ix_segments := ix_segments ix @ [si]\<rparr>)))"

definition index_lookup :: "int \<Rightarrow> int \<Rightarrow> rec_index \<Rightarrow> segment_info list" where
  "index_lookup start_ms end_ms ix =
     (if end_ms < start_ms then []
      else filter (\<lambda>si. start_ms \<le> si_end si \<and> si_start si \<le> end_ms) (ix_segments ix))"

text \<open>\<open>rewriteLocked\<close> writes a temporary file and renames it: all or nothing.\<close>

definition rewrite_locked :: "bool \<Rightarrow> rec_index \<Rightarrow> bool \<times> rec_index" where
  "rewrite_locked ok ix =
     (if ok then (True, ix\<lparr>ix_lines := map Some (ix_segments ix), ix_torn := False\<rparr>) else (False, ix))"

definition index_remove :: "bool \<Rightarrow> string \<Rightarrow> rec_index \<Rightarrow> bool \<times> rec_index" where
  "index_remove ok f ix = rewrite_locked ok (ix\<lparr>ix_segments := filter (\<lambda>si. si_file si \<noteq> f) (ix_segments ix)\<rparr>)"

text \<open>
  \<open>sort.Slice\<close> may order equal keys in any way, so the sorting function is a parameter; what it
  promises is \<open>sorts_by_start\<close>.
\<close>

definition sorts_by_start :: "(segment_info list \<Rightarrow> segment_info list) \<Rightarrow> bool" where
  "sorts_by_start srt \<longleftrightarrow> (\<forall>xs. mset (srt xs) = mset xs \<and> sorted (map si_start (srt xs)))"

definition index_snapshot :: "(segment_info list \<Rightarrow> segment_info list) \<Rightarrow> rec_index \<Rightarrow> segment_info list" where
  "index_snapshot srt ix = srt (ix_segments ix)"

definition total_size :: "rec_index \<Rightarrow> int" where
  "total_size ix = foldl (\<lambda>t si. i64 (t + si_size si)) 0 (ix_segments ix)"

section \<open>Retention\<close>

record retention_cfg =
  retention_days :: int
  max_storage_mb :: int

record rec_store =
  rs_index :: rec_index
  rs_files :: "string set"
  rs_sidecars :: "string set"

text \<open>
  Which deletions fail: of a file, of a sidecar, and of the index rewrite. A missing file is no failure.
\<close>

record delete_io =
  rm_file :: "string \<Rightarrow> bool"
  rm_sidecar :: "string \<Rightarrow> bool"
  rm_rewrite :: "string \<Rightarrow> bool"

definition delete_segment :: "delete_io \<Rightarrow> segment_info \<Rightarrow> rec_store \<Rightarrow> rec_store" where
  "delete_segment io si st =
     (let f = si_file si in
      \<lparr>rs_index = snd (index_remove (rm_rewrite io f) f (rs_index st)),
       rs_files = (if rm_file io f then rs_files st - {f} else rs_files st),
       rs_sidecars = (if rm_sidecar io f then rs_sidecars st - {f} else rs_sidecars st)\<rparr>)"

definition day_ns :: int where "day_ns = 24 * 3600 * 1000000000"

definition retention_cutoff :: "int \<Rightarrow> int \<Rightarrow> int" where
  "retention_cutoff days now = (now + i64 (i64 (- days) * day_ns)) div 1000000"

definition enforce_age ::
  "(segment_info list \<Rightarrow> segment_info list) \<Rightarrow> delete_io \<Rightarrow> retention_cfg \<Rightarrow> int \<Rightarrow> rec_store \<Rightarrow> rec_store" where
  "enforce_age srt io cfg now st =
     (if retention_days cfg \<le> 0 then st
      else foldl (\<lambda>st si. if si_end si < retention_cutoff (retention_days cfg) now
                         then delete_segment io si st else st)
             st (index_snapshot srt (rs_index st)))"

text \<open>
  The loop of \<open>enforceCapacity\<close> deletes at least one record per round, so the number of records is
  enough fuel; running out of it is \<open>None\<close>.
\<close>

fun prune_loop ::
  "(segment_info list \<Rightarrow> segment_info list) \<Rightarrow> delete_io \<Rightarrow> int \<Rightarrow> nat \<Rightarrow> rec_store \<Rightarrow> rec_store option" where
  "prune_loop srt io limit 0 st = None"
| "prune_loop srt io limit (Suc fuel) st =
     (if total_size (rs_index st) \<le> limit then Some st
      else case index_snapshot srt (rs_index st) of
             [] \<Rightarrow> Some st
           | si # _ \<Rightarrow> prune_loop srt io limit fuel (delete_segment io si st))"

definition enforce_capacity ::
  "(segment_info list \<Rightarrow> segment_info list) \<Rightarrow> delete_io \<Rightarrow> retention_cfg \<Rightarrow> rec_store \<Rightarrow> rec_store option" where
  "enforce_capacity srt io cfg st =
     (if max_storage_mb cfg \<le> 0 then Some st
      else prune_loop srt io (i64 (i64 (max_storage_mb cfg * 1024) * 1024))
             (Suc (length (ix_segments (rs_index st)))) st)"

definition enforce ::
  "(segment_info list \<Rightarrow> segment_info list) \<Rightarrow> delete_io \<Rightarrow> retention_cfg \<Rightarrow> int \<Rightarrow> rec_store \<Rightarrow> rec_store option" where
  "enforce srt io cfg now st = enforce_capacity srt io cfg (enforce_age srt io cfg now st)"

section \<open>Memory and file agree\<close>

definition in_sync :: "rec_index \<Rightarrow> bool" where
  "in_sync ix \<longleftrightarrow> ix_lines ix = map Some (ix_segments ix) \<and> \<not> ix_torn ix"

lemma map_filter_map_Some: "List.map_filter id (map Some xs) = xs"
  by (induction xs) (auto simp: List.map_filter_simps)

datatype index_op = DoAppend segment_info | DoRemove string

fun index_step :: "rec_index \<Rightarrow> index_op \<Rightarrow> rec_index" where
  "index_step ix (DoAppend si) = snd (index_append AppendOk si ix)"
| "index_step ix (DoRemove f) = snd (index_remove True f ix)"

lemma in_sync_step: "in_sync ix \<Longrightarrow> in_sync (index_step ix e)"
  by (cases e) (auto simp: in_sync_def index_append_def append_line_def index_remove_def rewrite_locked_def Let_def)

text \<open>The abstract index is just the list of records.\<close>

fun list_step :: "segment_info list \<Rightarrow> index_op \<Rightarrow> segment_info list" where
  "list_step xs (DoAppend si) = xs @ [si]"
| "list_step xs (DoRemove f) = filter (\<lambda>si. si_file si \<noteq> f) xs"


section \<open>What the index and the retention guarantee\<close>

declare prune_loop.simps(2) [simp del]

lemma map_filter_snoc: "List.map_filter id (map Some xs @ [Some y]) = xs @ [y]"
  by (induction xs) (auto simp: List.map_filter_simps)

interpretation index_run: refinement index_step in_sync "\<lambda>_. True" list_step
  "\<lambda>ix. ix_segments (snd (index_load LoadOk ix))"
proof
  fix ix e assume sync: "in_sync ix"
  then show "in_sync (index_step ix e)" by (rule in_sync_step)
  show "ix_segments (snd (index_load LoadOk (index_step ix e))) =
      list_step (ix_segments (snd (index_load LoadOk ix))) e"
    using sync by (cases e) (auto simp: in_sync_def index_load_def index_append_def append_line_def
        index_remove_def rewrite_locked_def Let_def map_filter_map_Some map_filter_snoc)
qed

lemma in_sync_run: "in_sync ix \<Longrightarrow> in_sync (foldl index_step ix es)"
  by (rule index_run.run_inv) (simp_all add: list_all_iff)

lemma in_sync_reload: "in_sync ix \<Longrightarrow> ix_segments (snd (index_load LoadOk ix)) = ix_segments ix"
  by (simp add: in_sync_def index_load_def map_filter_map_Some)

section \<open>Deleting\<close>

lemma delete_segment_index [simp]:
  "ix_segments (rs_index (delete_segment io si st)) =
     filter (\<lambda>x. si_file x \<noteq> si_file si) (ix_segments (rs_index st))"
  by (simp add: delete_segment_def index_remove_def rewrite_locked_def Let_def)

lemma snapshot_set: "sorts_by_start srt \<Longrightarrow> set (index_snapshot srt ix) = set (ix_segments ix)"
  unfolding sorts_by_start_def index_snapshot_def by (metis set_mset_mset)

lemma snapshot_hd:
  "sorts_by_start srt \<Longrightarrow> index_snapshot srt ix = si # rest \<Longrightarrow>
   si \<in> set (ix_segments ix) \<and> (\<forall>x\<in>set (ix_segments ix). si_start si \<le> si_start x)"
proof -
  assume s: "sorts_by_start srt" and e: "index_snapshot srt ix = si # rest"
  have set: "set (ix_segments ix) = set (si # rest)" using snapshot_set [OF s, of ix] e by simp
  have "sorted (map si_start (si # rest))" using s e unfolding sorts_by_start_def index_snapshot_def by metis
  then show ?thesis unfolding set by auto
qed


lemma delete_shorter:
  "si \<in> set (ix_segments (rs_index st)) \<Longrightarrow>
   length (ix_segments (rs_index (delete_segment io si st))) < length (ix_segments (rs_index st))"
  by (simp add: length_filter_less)

lemma prune_terminates:
  "sorts_by_start srt \<Longrightarrow> length (ix_segments (rs_index st)) < fuel \<Longrightarrow> \<exists>st'. prune_loop srt io limit fuel st = Some st'"
proof (induction fuel arbitrary: st)
  case (Suc fuel)
  show ?case
  proof (cases "index_snapshot srt (rs_index st)")
    case (Cons si rest)
    then have "si \<in> set (ix_segments (rs_index st))" using snapshot_hd Suc.prems(1) by blast
    from delete_shorter [OF this, of io] Suc.prems(2)
    have "length (ix_segments (rs_index (delete_segment io si st))) < fuel" by linarith
    from Suc.IH [OF Suc.prems(1) this] Cons show ?thesis by (simp add: prune_loop.simps(2))
  qed (simp add: prune_loop.simps(2))
qed simp


text \<open>Pruning keeps the newest recordings, and a deleted one is never newer than a kept one.\<close>

lemma filter_same: "distinct (map si_file xs) \<Longrightarrow> a \<in> set xs \<Longrightarrow> x \<in> set xs \<Longrightarrow> si_file x = si_file a \<Longrightarrow> x = a"
  by (metis (no_types) distinct_map inj_onD)

lemma prune_oldest_first:
  "prune_loop srt io limit fuel st = Some st' \<Longrightarrow> sorts_by_start srt \<Longrightarrow>
   distinct (map si_file (ix_segments (rs_index st))) \<Longrightarrow>
   \<exists>keep. ix_segments (rs_index st') = filter keep (ix_segments (rs_index st)) \<and>
     (\<forall>x\<in>set (ix_segments (rs_index st)). \<forall>y\<in>set (ix_segments (rs_index st)).
        keep y \<and> \<not> keep x \<longrightarrow> si_start x \<le> si_start y)"
proof (induction srt io limit fuel st rule: prune_loop.induct)
  case (2 srt io limit fuel st)
  let ?segs = "ix_segments (rs_index st)"
  show ?case
  proof (cases "total_size (rs_index st) \<le> limit \<or> index_snapshot srt (rs_index st) = []")
    case True
    then have "st' = st" using "2.prems"(1) by (auto simp: prune_loop.simps(2) split: if_splits)
    then show ?thesis by (intro exI [of _ "\<lambda>_. True"]) simp
  next
    case False
    then obtain si rest where sn: "index_snapshot srt (rs_index st) = si # rest" by (cases "index_snapshot srt (rs_index st)") auto
    have si: "si \<in> set ?segs" "\<forall>x\<in>set ?segs. si_start si \<le> si_start x"
      using snapshot_hd [OF "2.prems"(2) sn] by auto
    let ?st = "delete_segment io si st"
    have "prune_loop srt io limit fuel ?st = Some st'" using "2.prems"(1) False sn by (simp add: prune_loop.simps(2))
    moreover have "distinct (map si_file (ix_segments (rs_index ?st)))"
      using "2.prems"(3) by (simp add: distinct_map_filter)
    ultimately obtain keep where k: "ix_segments (rs_index st') = filter keep (ix_segments (rs_index ?st))"
      "\<forall>x\<in>set (ix_segments (rs_index ?st)). \<forall>y\<in>set (ix_segments (rs_index ?st)).
        keep y \<and> \<not> keep x \<longrightarrow> si_start x \<le> si_start y"
      using "2.IH" [OF _ sn] False "2.prems"(2) by blast
    have "\<forall>x\<in>set ?segs. \<forall>y\<in>set ?segs.
        (keep y \<and> si_file y \<noteq> si_file si) \<and> \<not> (keep x \<and> si_file x \<noteq> si_file si) \<longrightarrow> si_start x \<le> si_start y"
      using k(2) si filter_same [OF "2.prems"(3) si(1)] by auto
    then show ?thesis
      by (intro exI [of _ "\<lambda>x. keep x \<and> si_file x \<noteq> si_file si"]) (simp add: k(1) conj_commute)
  qed
qed simp

section \<open>Age\<close>

lemma delete_fold:
  "ix_segments (rs_index (foldl (\<lambda>st si. if old si then delete_segment io si st else st) st xs)) =
     filter (\<lambda>x. \<not> (\<exists>si\<in>set xs. old si \<and> si_file x = si_file si)) (ix_segments (rs_index st))"
  by (induction xs arbitrary: st) (auto intro!: filter_cong)

lemma enforce_age_keeps:
  assumes "sorts_by_start srt" "distinct (map si_file (ix_segments (rs_index st)))" "0 < retention_days cfg"
  shows "ix_segments (rs_index (enforce_age srt io cfg now st)) =
    filter (\<lambda>si. retention_cutoff (retention_days cfg) now \<le> si_end si) (ix_segments (rs_index st))"
proof -
  have "(\<not> (\<exists>si\<in>set (ix_segments (rs_index st)). si_end si < c \<and> si_file x = si_file si)) \<longleftrightarrow> c \<le> si_end x"
    if "x \<in> set (ix_segments (rs_index st))" for x c
    using filter_same [OF assms(2)] that by (metis not_less)
  then show ?thesis
    using assms(3) by (auto simp: enforce_age_def delete_fold snapshot_set [OF assms(1)] intro!: filter_cong)
qed

lemma enforce_terminates: "sorts_by_start srt \<Longrightarrow> \<exists>st'. enforce srt io cfg now st = Some st'"
  by (simp add: enforce_def enforce_capacity_def prune_terminates)

lemma sort_key_sorts: "sorts_by_start (sort_key si_start)"
  by (simp add: sorts_by_start_def)

section \<open>Properties\<close>

text \<open>C26: Reloading the index file after any sequence of successful appends and removals gives the
  records of memory, which are those of a plain list under the same operations.\<close>

theorem index_file_refines_list:
  "index_load LoadOk (foldl index_step new_index ops) = (True, foldl index_step new_index ops) \<and>
   ix_segments (foldl index_step new_index ops) = foldl list_step [] ops"
proof -
  have sync: "in_sync (foldl index_step new_index ops)"
    by (rule in_sync_run) (simp add: in_sync_def new_index_def)
  have "ix_segments (snd (index_load LoadOk (foldl index_step new_index ops))) =
      foldl list_step (ix_segments (snd (index_load LoadOk new_index))) ops"
    by (rule index_run.run_refines) (simp_all add: in_sync_def new_index_def list_all_iff)
  then show ?thesis using in_sync_reload [OF sync] sync
    by (simp add: index_load_def new_index_def in_sync_def map_filter_map_Some List.map_filter_simps)
qed



text \<open>Retention deletes exactly the expired recordings and then the oldest ones: a recording
  that is kept is unexpired and at least as new as every unexpired one that was deleted.\<close>

theorem retention_keeps_newest:
  assumes "sorts_by_start srt" "distinct (map si_file (ix_segments (rs_index st)))"
    and "0 < retention_days cfg" "enforce srt io cfg now st = Some st'"
  shows "\<exists>keep. ix_segments (rs_index st') =
      filter keep (filter (\<lambda>si. retention_cutoff (retention_days cfg) now \<le> si_end si) (ix_segments (rs_index st))) \<and>
    (\<forall>x\<in>set (ix_segments (rs_index st)). \<forall>y\<in>set (ix_segments (rs_index st)).
       keep y \<and> \<not> keep x \<and> retention_cutoff (retention_days cfg) now \<le> min (si_end x) (si_end y) \<longrightarrow>
       si_start x \<le> si_start y)"
proof -
  let ?st = "enforce_age srt io cfg now st"
  note age = enforce_age_keeps [OF assms(1-3), of io now]
  show ?thesis
  proof (cases "max_storage_mb cfg \<le> 0")
    case True
    then have "st' = ?st" using assms(4) by (simp add: enforce_def enforce_capacity_def)
    then show ?thesis by (intro exI [of _ "\<lambda>_. True"]) (simp add: age)
  next
    case False
    have d: "distinct (map si_file (ix_segments (rs_index ?st)))"
      unfolding age using assms(2) by (simp add: distinct_map_filter)
    have "prune_loop srt io (i64 (i64 (max_storage_mb cfg * 1024) * 1024))
        (Suc (length (ix_segments (rs_index ?st)))) ?st = Some st'"
      using assms(4) False by (simp add: enforce_def enforce_capacity_def)
    from prune_oldest_first [OF this assms(1) d]
    obtain keep where "ix_segments (rs_index st') = filter keep (ix_segments (rs_index ?st))"
      "\<forall>x\<in>set (ix_segments (rs_index ?st)). \<forall>y\<in>set (ix_segments (rs_index ?st)).
        keep y \<and> \<not> keep x \<longrightarrow> si_start x \<le> si_start y" by blast
    then show ?thesis unfolding age by (intro exI [of _ keep]) auto
  qed
qed

definition sample_store :: rec_store where
  "sample_store =
     \<lparr>rs_index = \<lparr>ix_segments =
        [\<lparr>si_file = ''b'', si_start = 5000000000, si_end = 5000000001, si_size = 10, si_frames = 1, si_keyframes = 1\<rparr>,
         \<lparr>si_file = ''a'', si_start = 0, si_end = 1, si_size = 2000000, si_frames = 1, si_keyframes = 1\<rparr>],
        ix_lines = [], ix_torn = False\<rparr>,
      rs_files = {''a'', ''b''}, rs_sidecars = {}\<rparr>"

definition sample_io :: delete_io where
  "sample_io = \<lparr>rm_file = \<lambda>_. True, rm_sidecar = \<lambda>_. True, rm_rewrite = \<lambda>_. True\<rparr>"

theorem retention_keeps_newest_witness:
  "\<exists>st' keep. enforce (sort_key si_start) sample_io \<lparr>retention_days = 1, max_storage_mb = 1\<rparr> 5000000000000000 sample_store = Some st' \<and>
    ix_segments (rs_index st') =
      filter keep (filter (\<lambda>si. retention_cutoff 1 5000000000000000 \<le> si_end si) (ix_segments (rs_index sample_store)))"
proof -
  obtain st' where st': "enforce (sort_key si_start) sample_io \<lparr>retention_days = 1, max_storage_mb = 1\<rparr>
      5000000000000000 sample_store = Some st'" using enforce_terminates [OF sort_key_sorts] by blast
  have "distinct (map si_file (ix_segments (rs_index sample_store)))" by (simp add: sample_store_def)
  from retention_keeps_newest [OF sort_key_sorts this _ st'] st' show ?thesis by auto
qed

section \<open>Two failures that lose records\<close>

text \<open>
  After an append that was cut off, the next successful append is written onto the same line: memory
  has the record, a reload does not.
\<close>

lemma torn_append_loses_next_record:
  "index_append AppendOk b (snd (index_append AppendTorn a new_index)) = (True, ix) \<Longrightarrow>
   ix_segments ix = [b] \<and> ix_segments (snd (index_load LoadOk ix)) = []"
  by (auto simp: index_append_def append_line_def new_index_def index_load_def Let_def List.map_filter_simps)

text \<open>
  Records are removed by file name. Two segments started within the same second share their name, so
  expiring the first removes the record and the file of the second.
\<close>

lemma shared_name_removes_both:
  "si_file a = si_file b \<Longrightarrow> rs_index st = \<lparr>ix_segments = [a, b], ix_lines = ls, ix_torn = t\<rparr> \<Longrightarrow>
   ix_segments (rs_index (delete_segment io a st)) = []"
  by simp

end
