(* ===== verification/RecWriter.thy ===== *)
theory RecWriter
  imports RecIndex AuHub
begin

text \<open>
  The recorder (\<open>internal/recording/writer.go\<close>): the bounded queue between the hub and the disk, and
  the segment state machine driven by access units. Segment files and sidecars are maps from the
  relative path to the appended contents; which file operations fail is an argument, and the path
  is an arbitrary function of the time (its format depends on the local time zone).
\<close>

section \<open>The queue\<close>

definition queue_capacity :: nat where "queue_capacity = 600"

record writer_queue =
  wq_items :: "access_unit list"
  wq_dropped :: "64 word"

fun drop_first_nonkey :: "access_unit list \<Rightarrow> access_unit list option" where
  "drop_first_nonkey [] = None"
| "drop_first_nonkey (q # qs) = (if \<not> au_key q then Some qs else map_option (Cons q) (drop_first_nonkey qs))"

definition queue_push :: "access_unit \<Rightarrow> writer_queue \<Rightarrow> writer_queue" where
  "queue_push au w =
     (let w1 = (if queue_capacity \<le> length (wq_items w)
                then (case drop_first_nonkey (wq_items w) of
                        Some qs \<Rightarrow> w\<lparr>wq_items := qs, wq_dropped := wq_dropped w + 1\<rparr> | None \<Rightarrow> w)
                else w);
          w2 = (if queue_capacity \<le> length (wq_items w) \<and> queue_capacity \<le> length (wq_items w1)
                then w1\<lparr>wq_items := tl (wq_items w1), wq_dropped := wq_dropped w1 + 1\<rparr> else w1)
      in w2\<lparr>wq_items := wq_items w2 @ [au]\<rparr>)"

definition queue_pop :: "writer_queue \<Rightarrow> access_unit option \<times> writer_queue" where
  "queue_pop w = (case wq_items w of [] \<Rightarrow> (None, w) | au # qs \<Rightarrow> (Some au, w\<lparr>wq_items := qs\<rparr>))"

section \<open>Segments\<close>

datatype disk_op = MkDir | OpenSeg | OpenSide | WriteSeg nat | WriteSide | CloseSeg | CloseSide

text \<open>\<open>w_open\<close> is \<open>segFile != nil\<close>; \<open>w_roll_at\<close> is \<open>None\<close> for the zero time.\<close>

record rec_writer =
  w_segment_secs :: int
  w_index :: rec_index
  w_files :: "string \<Rightarrow> bytes option"
  w_sidecars :: "string \<Rightarrow> int list option"
  w_open :: bool
  w_rel :: string
  w_start :: int
  w_start_ms :: int
  w_last_ms :: int
  w_frames :: int
  w_keyframes :: int
  w_bytes :: int
  w_roll_at :: "int option"
  w_active :: bool
  w_paused :: bool

definition unix_ms :: "int \<Rightarrow> int" where "unix_ms t = t div 1000000"

definition new_rec_writer :: "int \<Rightarrow> rec_writer" where
  "new_rec_writer secs =
     \<lparr>w_segment_secs = secs, w_index = new_index, w_files = Map.empty, w_sidecars = Map.empty,
      w_open = False, w_rel = '''', w_start = 0, w_start_ms = 0, w_last_ms = 0, w_frames = 0,
      w_keyframes = 0, w_bytes = 0, w_roll_at = None, w_active = False, w_paused = False\<rparr>"

text \<open>\<open>O_CREATE\<close> and \<open>O_APPEND\<close>: an existing file keeps its contents.\<close>

definition create_file :: "string \<Rightarrow> (string \<Rightarrow> 'a list option) \<Rightarrow> (string \<Rightarrow> 'a list option)" where
  "create_file f fs = (case fs f of None \<Rightarrow> fs(f \<mapsto> []) | Some _ \<Rightarrow> fs)"

definition append_file :: "string \<Rightarrow> 'a list \<Rightarrow> (string \<Rightarrow> 'a list option) \<Rightarrow> (string \<Rightarrow> 'a list option)" where
  "append_file f xs fs = (case fs f of None \<Rightarrow> fs | Some ys \<Rightarrow> fs(f \<mapsto> ys @ xs))"

definition open_segment_locked ::
  "(disk_op \<Rightarrow> bool) \<Rightarrow> (int \<Rightarrow> string) \<Rightarrow> access_unit \<Rightarrow> rec_writer \<Rightarrow> bool \<times> rec_writer" where
  "open_segment_locked ok path au w =
     (let now = au_time au; rel = path now in
      if \<not> ok MkDir then (False, w)
      else if \<not> ok OpenSeg then (False, w)
      else if \<not> ok OpenSide then (False, w\<lparr>w_files := create_file rel (w_files w)\<rparr>)
      else (True, w\<lparr>w_files := create_file rel (w_files w), w_sidecars := create_file rel (w_sidecars w),
             w_open := True, w_rel := rel, w_start := now, w_start_ms := unix_ms now, w_last_ms := unix_ms now,
             w_frames := 0, w_keyframes := 0, w_bytes := 0,
             w_roll_at := Some (now + i64 (w_segment_secs w * 1000000000)), w_active := True\<rparr>))"

definition segment_record :: "rec_writer \<Rightarrow> segment_info" where
  "segment_record w =
     \<lparr>si_file = w_rel w, si_start = w_start_ms w, si_end = w_last_ms w, si_size = w_bytes w,
      si_frames = w_frames w, si_keyframes = w_keyframes w\<rparr>"

definition close_segment_locked :: "(disk_op \<Rightarrow> bool) \<Rightarrow> append_io \<Rightarrow> rec_writer \<Rightarrow> bool \<times> rec_writer" where
  "close_segment_locked ok io w =
     (if \<not> w_open w then (True, w)
      else if \<not> ok CloseSeg then (False, w)
      else if \<not> ok CloseSide then (False, w)
      else (True, w\<lparr>w_index := snd (index_append io (segment_record w) (w_index w)),
                    w_open := False, w_rel := '''', w_active := False\<rparr>))"

text \<open>
  The loop over the NAL units; the \<open>k\<close>-th write of the call may fail, which ends the whole handler
  (the flag of the result).
\<close>

fun write_nalus :: "(disk_op \<Rightarrow> bool) \<Rightarrow> nat \<Rightarrow> nalu list \<Rightarrow> rec_writer \<Rightarrow> bool \<times> rec_writer" where
  "write_nalus ok k [] w = (True, w)"
| "write_nalus ok k (n # ns) w =
     (if \<not> ok (WriteSeg k) then (False, w)
      else
        let w = w\<lparr>w_files := append_file (w_rel w) [0, 0, 0, 1] (w_files w)\<rparr> in
        if \<not> ok (WriteSeg (k + 1)) then (False, w)
        else write_nalus ok (k + 2) ns
               (w\<lparr>w_files := append_file (w_rel w) (nal_data n) (w_files w),
                  w_bytes := i64 (w_bytes w + int (4 + length (nal_data n)))\<rparr>))"

definition write_frame :: "(disk_op \<Rightarrow> bool) \<Rightarrow> access_unit \<Rightarrow> rec_writer \<Rightarrow> rec_writer" where
  "write_frame ok au w =
     (let (fine, w) = write_nalus ok 0 (au_nalus au) w in
      if \<not> fine then w
      else
        let pts = go_div (time_sub (au_time au) (w_start w)) 1000000;
            w = (if ok WriteSide then w\<lparr>w_sidecars := append_file (w_rel w) [pts] (w_sidecars w)\<rparr> else w)
        in w\<lparr>w_frames := w_frames w + 1, w_last_ms := unix_ms (au_time au),
             w_keyframes := (if au_key au then w_keyframes w + 1 else w_keyframes w)\<rparr>)"

text \<open>
  \<open>handleAU\<close>. The two \<open>openSegmentLocked\<close> calls of one handler see the same disk (\<open>ok\<close>).
\<close>

definition rolls :: "access_unit \<Rightarrow> rec_writer \<Rightarrow> bool" where
  "rolls au w \<longleftrightarrow> au_key au \<and> (case w_roll_at w of None \<Rightarrow> False | Some t \<Rightarrow> t \<le> au_time au)"

definition handle_au ::
  "(disk_op \<Rightarrow> bool) \<Rightarrow> append_io \<Rightarrow> (int \<Rightarrow> string) \<Rightarrow> access_unit \<Rightarrow> rec_writer \<Rightarrow> rec_writer" where
  "handle_au ok io path au w =
     (if w_paused w then w
      else
        let (opened, w) = (if w_open w then (True, w) else open_segment_locked ok path au w) in
        if \<not> opened then w
        else
          let (fine, w) =
            (if rolls au w
             then open_segment_locked ok path au (snd (close_segment_locked ok io w))
             else (True, w))
          in if \<not> fine then w else write_frame ok au w)"

definition set_paused :: "(disk_op \<Rightarrow> bool) \<Rightarrow> append_io \<Rightarrow> bool \<Rightarrow> rec_writer \<Rightarrow> rec_writer" where
  "set_paused ok io paused w =
     (if w_paused w = paused then w
      else
        let w = w\<lparr>w_paused := paused\<rparr> in
        if paused \<and> w_open w then snd (close_segment_locked ok io w) else w)"

definition stop_writer :: "(disk_op \<Rightarrow> bool) \<Rightarrow> append_io \<Rightarrow> rec_writer \<Rightarrow> rec_writer" where
  "stop_writer ok io w = snd (close_segment_locked ok io w)"

section \<open>The queue drops as little as possible\<close>

lemma drop_first_nonkey_spec:
  "drop_first_nonkey qs = None \<longleftrightarrow> list_all au_key qs"
  "drop_first_nonkey qs = Some rs \<Longrightarrow>
     \<exists>xs q ys. qs = xs @ q # ys \<and> list_all au_key xs \<and> \<not> au_key q \<and> rs = xs @ ys"
proof -
  show "drop_first_nonkey qs = None \<longleftrightarrow> list_all au_key qs" by (induction qs) auto
  show "drop_first_nonkey qs = Some rs \<Longrightarrow>
     \<exists>xs q ys. qs = xs @ q # ys \<and> list_all au_key xs \<and> \<not> au_key q \<and> rs = xs @ ys"
  proof (induction qs arbitrary: rs)
    case (Cons q qs)
    show ?case
    proof (cases "au_key q")
      case True
      then obtain rs' where r: "drop_first_nonkey qs = Some rs'" "rs = q # rs'" using Cons.prems by auto
      then obtain xs p ys where "qs = xs @ p # ys" "list_all au_key xs" "\<not> au_key p" "rs' = xs @ ys"
        using Cons.IH by blast
      then show ?thesis using True r by (intro exI [of _ "q # xs"]) auto
    next
      case False
      then show ?thesis using Cons.prems by (intro exI [of _ "[]"]) auto
    qed
  qed simp
qed

lemma queue_push_bounded: "length (wq_items w) \<le> queue_capacity \<Longrightarrow> length (wq_items (queue_push au w)) \<le> queue_capacity"
proof -
  assume l: "length (wq_items w) \<le> queue_capacity"
  have q: "0 < queue_capacity" by (simp add: queue_capacity_def)
  show ?thesis
  proof (cases "drop_first_nonkey (wq_items w)")
    case None
    then show ?thesis using l q by (auto simp: queue_push_def Let_def)
  next
    case (Some rs)
    then obtain xs p ys where "wq_items w = xs @ p # ys" "rs = xs @ ys" using drop_first_nonkey_spec by blast
    then show ?thesis using l q Some by (auto simp: queue_push_def Let_def)
  qed
qed

datatype queue_event = Push access_unit | Pop

fun queue_step :: "writer_queue \<Rightarrow> queue_event \<Rightarrow> writer_queue" where
  "queue_step w (Push au) = queue_push au w"
| "queue_step w Pop = snd (queue_pop w)"

interpretation queue_run: event_machine queue_step "\<lambda>w. length (wq_items w) \<le> queue_capacity" "\<lambda>_. True"
proof
  fix w :: writer_queue and e assume "length (wq_items w) \<le> queue_capacity"
  then show "length (wq_items (queue_step w e)) \<le> queue_capacity"
    by (cases e) (auto simp: queue_push_bounded queue_pop_def split: list.splits)
qed

end
