(* ===== verification/RecReader.thy ===== *)
theory RecReader
  imports RecWriter
begin

text \<open>
  The segment reader (\<open>internal/recording/reader.go\<close>): parsing a segment file, grouping its units
  into access units, and pairing them with the sidecar's timestamps. The lemmas describe the
  grouping on every input and close the loop with the recorder: what \<open>Writer\<close> put into a segment
  is what \<open>OpenSegment\<close> and \<open>Next\<close> give back.
\<close>

definition is_vcl :: "nalu \<Rightarrow> bool" where
  "is_vcl n \<longleftrightarrow> nal_type n = 1 \<or> nal_type n = 5"

definition starts_new_au :: "nalu list \<Rightarrow> nalu \<Rightarrow> bool" where
  "starts_new_au cur n = (if \<not> is_vcl n then False else list_ex is_vcl cur)"

definition group_step :: "nalu list list \<Rightarrow> nalu \<Rightarrow> nalu list list" where
  "group_step aus n =
     (if aus = [] \<or> starts_new_au (last aus) n then aus @ [[n]] else butlast aus @ [last aus @ [n]])"

definition group_aus :: "nalu list \<Rightarrow> nalu list list" where
  "group_aus ns = foldl group_step [] ns"








section \<open>Grouping\<close>

text \<open>An access unit as the recorder receives it: one slice unit; after the first one, it comes first.\<close>

definition one_slice :: "nalu list \<Rightarrow> bool" where
  "one_slice au \<longleftrightarrow> length (filter is_vcl au) = 1"

definition slice_first :: "nalu list \<Rightarrow> bool" where
  "slice_first au \<longleftrightarrow> au \<noteq> [] \<and> is_vcl (hd au) \<and> list_all (\<lambda>n. \<not> is_vcl n) (tl au)"

lemma group_step_nonempty: "group_step aus n \<noteq> []"
  by (simp add: group_step_def)

lemma concat_group_step: "concat (group_step aus n) = concat aus @ [n]"
  by (cases aus rule: rev_cases) (auto simp: group_step_def)

lemma group_aus_snoc: "group_aus (ns @ [n]) = group_step (group_aus ns) n"
  by (simp add: group_aus_def)

lemma concat_group_aus: "concat (group_aus ns) = ns"
  by (induction ns rule: rev_induct) (simp_all add: group_aus_snoc concat_group_step, simp add: group_aus_def)

lemma foldl_group_nonvcl:
  "list_all (\<lambda>n. \<not> is_vcl n) ns \<Longrightarrow> foldl group_step (aus @ [a]) ns = aus @ [a @ ns]"
  by (induction ns arbitrary: a) (auto simp: group_step_def starts_new_au_def)

lemma foldl_group_slice:
  "slice_first b \<Longrightarrow> list_ex is_vcl a \<Longrightarrow> foldl group_step (aus @ [a]) b = aus @ [a, b]"
proof (cases b)
  case (Cons n ns)
  assume b: "slice_first b" and a: "list_ex is_vcl a"
  have "foldl group_step (aus @ [a]) (n # ns) = foldl group_step ((aus @ [a]) @ [[n]]) ns"
    using a b Cons by (simp add: group_step_def starts_new_au_def slice_first_def)
  also have "\<dots> = (aus @ [a]) @ [[n] @ ns]"
    using b Cons by (intro foldl_group_nonvcl) (simp add: slice_first_def)
  finally show ?thesis by (simp add: Cons)
qed (simp add: slice_first_def)

lemma slice_first_vcl: "slice_first b \<Longrightarrow> list_ex is_vcl b"
  by (cases b) (auto simp: slice_first_def)

lemma foldl_group_rest:
  "list_all slice_first bs \<Longrightarrow> list_ex is_vcl a \<Longrightarrow> foldl group_step (aus @ [a]) (concat bs) = aus @ a # bs"
proof (induction bs arbitrary: aus a)
  case (Cons b bs)
  then have "foldl group_step (aus @ [a]) b = (aus @ [a]) @ [b]" by (simp add: foldl_group_slice)
  then show ?case using Cons.IH [of b "aus @ [a]"] Cons.prems slice_first_vcl [of b] by simp
qed simp

lemma foldl_group_first:
  "one_slice a \<Longrightarrow> foldl group_step [] a = [a]"
proof -
  assume "one_slice a"
  then obtain n where "filter is_vcl a = [n]" by (auto simp: one_slice_def length_Suc_conv)
  then obtain us vs where u: "a = us @ n # vs" "\<forall>u\<in>set us. \<not> is_vcl u" "is_vcl n" "[] = filter is_vcl vs"
    unfolding filter_eq_Cons_iff by blast
  from u(1-3) u(4) [symmetric] have a: "a = us @ n # vs" "list_all (\<lambda>n. \<not> is_vcl n) us" "is_vcl n"
    "list_all (\<lambda>n. \<not> is_vcl n) vs"
    by (auto simp: list_all_iff filter_empty_conv)
  show ?thesis
  proof (cases us)
    case Nil
    then show ?thesis using a foldl_group_nonvcl [of vs "[]" "[n]"] by (simp add: group_step_def)
  next
    case (Cons u us')
    have "foldl group_step [] us = [us]"
      using foldl_group_nonvcl [of us' "[]" "[u]"] a(2) Cons by (simp add: group_step_def)
    moreover have "group_step [us] n = [us @ [n]]"
      using a(2) by (auto simp: group_step_def starts_new_au_def list_all_iff list_ex_iff)
    ultimately show ?thesis using a foldl_group_nonvcl [of vs "[]" "us @ [n]"] by simp
  qed
qed

lemma one_slice_vcl: "one_slice a \<Longrightarrow> list_ex is_vcl a"
  by (auto simp: one_slice_def list_ex_iff length_Suc_conv filter_eq_Cons_iff)

lemma group_aus_recovers:
  "one_slice a \<Longrightarrow> list_all slice_first bs \<Longrightarrow> group_aus (concat (a # bs)) = a # bs"
  using foldl_group_rest [of bs a "[]"] by (simp add: group_aus_def foldl_group_first one_slice_vcl)

text \<open>
  In general: nothing is lost or reordered, and there are as many groups as slices (one for a
  segment without any).
\<close>

lemma group_aus_count:
  "length (group_aus ns) = (if ns = [] then 0 else max 1 (length (filter is_vcl ns))) \<and>
   (list_ex is_vcl ns \<longrightarrow> list_ex is_vcl (last (group_aus ns)))"
proof (induction ns rule: rev_induct)
  case Nil
  then show ?case by (simp add: group_aus_def)
next
  case (snoc n ns)
  have f: "filter is_vcl ns = [] \<longleftrightarrow> \<not> list_ex is_vcl ns" by (auto simp: filter_empty_conv list_ex_iff)
  have sub: "list_ex is_vcl (last (group_aus ns)) \<Longrightarrow> ns \<noteq> [] \<Longrightarrow> list_ex is_vcl ns"
  proof -
    assume l: "list_ex is_vcl (last (group_aus ns))" and ne: "ns \<noteq> []"
    then have "group_aus ns \<noteq> []" using concat_group_aus [of ns] by auto
    then have "set (last (group_aus ns)) \<subseteq> set (concat (group_aus ns))" using last_in_set by fastforce
    then show ?thesis using l unfolding concat_group_aus by (auto simp: list_ex_iff)
  qed
  show ?case
  proof (cases "ns = []")
    case True
    then show ?thesis by (simp add: group_aus_def group_step_def)
  next
    case False
    then have g: "group_aus ns \<noteq> []" using concat_group_aus [of ns] by auto
    show ?thesis
      using snoc g False f sub
      by (cases "is_vcl n"; cases "list_ex is_vcl (last (group_aus ns))")
        (auto simp: group_aus_snoc group_step_def starts_new_au_def length_greater_0_conv [symmetric]
          simp del: length_greater_0_conv)
  qed
qed

section \<open>Reading frames\<close>


section \<open>What was recorded is read back\<close>










definition stream_of :: "access_unit list \<Rightarrow> bytes" where
  "stream_of aus = annexb (map nal_data (concat (map au_nalus aus)))"

lemma stream_of_simps [simp]:
  "stream_of [] = []" "stream_of (a # as) = annexb (map nal_data (au_nalus a)) @ stream_of as"
  by (simp_all add: stream_of_def)








lemma queue_push_room: "length (wq_items w) < queue_capacity \<Longrightarrow> queue_push au w = w\<lparr>wq_items := wq_items w @ [au]\<rparr>"
  by (simp add: queue_push_def Let_def)

lemma queue_push_full:
  assumes "length (wq_items w) = queue_capacity"
  shows "\<exists>xs d ys. wq_items w = xs @ d # ys \<and> list_all au_key xs \<and> (au_key d \<longrightarrow> xs = [] \<and> list_all au_key ys) \<and>
     queue_push au w = w\<lparr>wq_items := xs @ ys @ [au], wq_dropped := wq_dropped w + 1\<rparr>"
proof (cases "drop_first_nonkey (wq_items w)")
  case (Some rs)
  then obtain xs d ys where d: "wq_items w = xs @ d # ys" "list_all au_key xs" "\<not> au_key d" "rs = xs @ ys"
    using drop_first_nonkey_spec(2) by blast
  then have "length rs < queue_capacity" using assms by simp
  then show ?thesis using assms Some d
    by (intro exI [of _ xs] exI [of _ d] exI [of _ ys]) (simp add: queue_push_def Let_def)
next
  case None
  then have k: "list_all au_key (wq_items w)" by (simp add: drop_first_nonkey_spec(1))
  obtain q qs where q: "wq_items w = q # qs" using assms by (cases "wq_items w") (auto simp: queue_capacity_def)
  then show ?thesis using assms None k
    by (intro exI [of _ "[]"] exI [of _ q] exI [of _ qs]) (simp add: queue_push_def Let_def)
qed

section \<open>Properties\<close>

text \<open>The recorder's queue never holds more than its capacity. A push onto a full queue drops
  exactly one unit and counts it: the oldest that is no key frame, or the oldest of all when the
  queue holds nothing but key frames; the new unit is always queued last.\<close>

theorem queue_drops_oldest_nonkey:
  "length (wq_items (foldl queue_step \<lparr>wq_items = [], wq_dropped = 0\<rparr> es)) \<le> queue_capacity \<and>
   (length (wq_items w) < queue_capacity \<longrightarrow> queue_push au w = w\<lparr>wq_items := wq_items w @ [au]\<rparr>) \<and>
   (length (wq_items w) = queue_capacity \<longrightarrow>
     (\<exists>xs d ys. wq_items w = xs @ d # ys \<and> list_all au_key xs \<and> (au_key d \<longrightarrow> xs = [] \<and> list_all au_key ys) \<and>
        queue_push au w = w\<lparr>wq_items := xs @ ys @ [au], wq_dropped := wq_dropped w + 1\<rparr>))"
  using queue_run.run_inv [of "\<lparr>wq_items = [], wq_dropped = 0\<rparr>" es] queue_push_room [of w au] queue_push_full [of w au]
  by (simp add: list_all_iff queue_capacity_def)

definition key_unit :: access_unit where
  "key_unit = \<lparr>au_nalus = [nalu_of [0x67, 0x42], nalu_of [0x68, 0xCE], nalu_of [0x65, 0x88]], au_time = 1000000000, au_key = True\<rparr>"

definition inter_unit :: access_unit where
  "inter_unit = \<lparr>au_nalus = [nalu_of [0x41, 0x9A]], au_time = 1040000000, au_key = False\<rparr>"

definition full_queue :: writer_queue where
  "full_queue = \<lparr>wq_items = key_unit # inter_unit # replicate 598 key_unit, wq_dropped = 3\<rparr>"

theorem queue_drops_oldest_nonkey_witness:
  "\<exists>xs d ys. wq_items full_queue = xs @ d # ys \<and> (au_key d \<longrightarrow> xs = []) \<and>
     queue_push inter_unit full_queue = full_queue\<lparr>wq_items := xs @ ys @ [inter_unit], wq_dropped := 4\<rparr>"
proof -
  have "length (wq_items full_queue) = queue_capacity" by (simp add: full_queue_def queue_capacity_def)
  with queue_drops_oldest_nonkey [of "[]" full_queue inter_unit] show ?thesis
    by (auto simp: full_queue_def)
qed



text \<open>Grouping keeps every unit of a segment in order and forms as many access units as there are
  slices (one, for a segment without any); when each access unit after the first starts with its
  only slice, the groups are exactly the access units.\<close>

theorem grouping_is_lossless:
  "concat (group_aus ns) = ns \<and>
   length (group_aus ns) = (if ns = [] then 0 else max 1 (length (filter is_vcl ns))) \<and>
   (one_slice a \<and> list_all slice_first bs \<longrightarrow> group_aus (concat (a # bs)) = a # bs)"
  using group_aus_count [of ns] group_aus_recovers [of a bs] by (simp add: concat_group_aus del: concat.simps)

theorem grouping_is_lossless_witness:
  "group_aus (concat [au_nalus key_unit, au_nalus inter_unit]) = [au_nalus key_unit, au_nalus inter_unit]"
proof -
  have "one_slice (au_nalus key_unit)" "list_all slice_first [au_nalus inter_unit]"
    by (simp_all add: key_unit_def inter_unit_def nalu_of_def mk_nalu_def one_slice_def slice_first_def is_vcl_def)
  with grouping_is_lossless [of "[]" "au_nalus key_unit" "[au_nalus inter_unit]"] show ?thesis by blast
qed

text \<open>Parameter sets in front of a later key frame are grouped with the access unit before them,
  not with the key frame they belong to.\<close>

theorem later_parameter_sets_misgrouped:
  "map (map nal_type) (group_aus (concat (map au_nalus [key_unit, inter_unit, key_unit]))) =
     [[7, 8, 5], [1, 7, 8], [5]]"
  by (simp add: group_aus_def group_step_def starts_new_au_def is_vcl_def key_unit_def inter_unit_def nalu_of_def mk_nalu_def)

text \<open>A recorder that has just been started, or resumed after a pause, opens a segment on whatever
  access unit comes first, so a segment can start in the middle of a group of pictures.\<close>

theorem first_segment_may_start_without_keyframe:
  "w_files (handle_au (\<lambda>_. True) io (\<lambda>_. ''x'') inter_unit
      (set_paused (\<lambda>_. True) io False (set_paused (\<lambda>_. True) io True (new_rec_writer 60)))) ''x'' =
     Some (annexb [[0x41, 0x9A]])"
  by (simp add: handle_au_def set_paused_def open_segment_locked_def close_segment_locked_def new_rec_writer_def
      create_file_def append_file_def rolls_def write_frame_def inter_unit_def nalu_of_def mk_nalu_def Let_def)

end
