(* ===== verification/Fmp4.thy ===== *)
theory Fmp4
  imports Flv
begin

text \<open>
  The fragmented MP4 muxer of \<open>internal/web/fmp4.go\<close>: boxes, the initialization segment and
  one media fragment per access unit. A box is an instance of the codec interface, so the lemmas can
  say what a demuxer reads: the sequence of boxes at every level, the sample's offset, size and time
  stamp, and the units inside the sample.
\<close>

section \<open>Boxes\<close>

definition mp4_box :: "string \<Rightarrow> bytes \<Rightarrow> bytes" where
  "mp4_box ty payload = be32 (of_nat (8 + length payload)) @ str_bytes ty @ payload"

definition mp4_full_box :: "string \<Rightarrow> byte \<Rightarrow> 32 word \<Rightarrow> bytes \<Rightarrow> bytes" where
  "mp4_full_box ty version flags payload =
     be32 (of_nat (12 + length payload)) @ str_bytes ty @ [version] @ be24 flags @ payload"

definition zeros :: "nat \<Rightarrow> bytes" where "zeros n = replicate n 0"

definition fmp4_matrix :: bytes where
  "fmp4_matrix =
     [0x00, 0x01, 0x00, 0x00] @ zeros 12 @ [0x00, 0x01, 0x00, 0x00] @ zeros 12 @ [0x40, 0x00, 0x00, 0x00]"

section \<open>The initialization segment\<close>

definition ftyp_box :: bytes where
  "ftyp_box = mp4_box ''ftyp'' (str_bytes ''iso5'' @ be32 512 @ str_bytes ''iso5avc1mp42'')"

text \<open>The caller's \<open>sps[1]\<close>, \<open>sps[2]\<close> and \<open>sps[3]\<close> panic (\<open>None\<close>) on a shorter SPS.\<close>

definition avcc_box :: "bytes \<Rightarrow> bytes \<Rightarrow> bytes option" where
  "avcc_box sps pps =
     (if length sps < 4 then None
      else Some (mp4_box ''avcC'' ([1, sps ! 1, sps ! 2, sps ! 3, 0xFF, 0xE1] @
        be16 (of_nat (length sps)) @ sps @ [1] @ be16 (of_nat (length pps)) @ pps)))"

definition avc1_box :: "bytes \<Rightarrow> 32 word \<Rightarrow> 32 word \<Rightarrow> bytes" where
  "avc1_box avcc width height =
     mp4_box ''avc1'' (zeros 6 @ be16 1 @ zeros 16 @ be16 (ucast width) @ be16 (ucast height) @
       be32 0x00480000 @ be32 0x00480000 @ be32 0 @ be16 1 @ zeros 32 @ be16 0x0018 @ [0xFF, 0xFF] @ avcc)"

definition stbl_box :: "bytes \<Rightarrow> bytes" where
  "stbl_box avc1 =
     mp4_box ''stbl'' (mp4_full_box ''stsd'' 0 0 (be32 1 @ avc1) @ mp4_full_box ''stts'' 0 0 (zeros 4) @
       mp4_full_box ''stsc'' 0 0 (zeros 4) @ mp4_full_box ''stsz'' 0 0 (zeros 8) @
       mp4_full_box ''stco'' 0 0 (zeros 4))"

definition minf_box :: "bytes \<Rightarrow> bytes" where
  "minf_box stbl =
     mp4_box ''minf'' (mp4_full_box ''vmhd'' 0 1 (zeros 8) @
       mp4_box ''dinf'' (mp4_box ''dref'' (be32 1 @ mp4_full_box ''url '' 0 1 [])) @ stbl)"

definition mdhd_box :: bytes where
  "mdhd_box = mp4_full_box ''mdhd'' 0 0 (be32 0 @ be32 0 @ be32 90000 @ be32 0 @ be16 0x55C4 @ be16 0)"

definition hdlr_box :: bytes where
  "hdlr_box = mp4_full_box ''hdlr'' 0 0 (be32 0 @ str_bytes ''vide'' @ zeros 12 @ str_bytes ''VideoHandler'' @ [0])"

definition tkhd_box :: "32 word \<Rightarrow> 32 word \<Rightarrow> bytes" where
  "tkhd_box width height =
     mp4_full_box ''tkhd'' 0 7 (be32 0 @ be32 0 @ be32 1 @ be32 0 @ be32 0 @ zeros 8 @ be16 0 @ be16 0 @ be16 0 @
       [0, 0] @ fmp4_matrix @ be32 (push_bit 16 width) @ be32 (push_bit 16 height))"

definition trak_box :: "bytes \<Rightarrow> 32 word \<Rightarrow> 32 word \<Rightarrow> bytes" where
  "trak_box stbl width height =
     mp4_box ''trak'' (tkhd_box width height @ mp4_box ''mdia'' (mdhd_box @ hdlr_box @ minf_box stbl))"

definition mvhd_box :: bytes where
  "mvhd_box =
     mp4_full_box ''mvhd'' 0 0 (be32 0 @ be32 0 @ be32 90000 @ be32 0 @ be32 0x00010000 @ be16 0x0100 @ zeros 10 @
       fmp4_matrix @ zeros 24 @ be32 2)"

definition mvex_box :: bytes where
  "mvex_box =
     mp4_box ''mvex'' (mp4_full_box ''trex'' 0 0 (be32 1 @ be32 1 @ be32 0 @ be32 0 @ be32 0x02000000))"

definition build_init_segment :: "bytes \<Rightarrow> bytes \<Rightarrow> 32 word \<Rightarrow> 32 word \<Rightarrow> bytes option" where
  "build_init_segment sps pps width height =
     (case avcc_box sps pps of
        None \<Rightarrow> None
      | Some avcc \<Rightarrow>
          Some (ftyp_box @
            mp4_box ''moov'' (mvhd_box @ trak_box (stbl_box (avc1_box avcc width height)) width height @ mvex_box)))"

section \<open>Media fragments\<close>

text \<open>Access unit delimiters (type 9) are left out of the sample; an empty unit is kept.\<close>

definition is_aud :: "bytes \<Rightarrow> bool" where
  "is_aud n \<longleftrightarrow> 0 < length n \<and> n ! 0 AND 0x1F = 9"

definition sample_data :: "bytes list \<Rightarrow> bytes" where
  "sample_data nalus = concat (map avcc_unit (filter (\<lambda>n. \<not> is_aud n) nalus))"

definition trun_box :: "32 word \<Rightarrow> 32 word \<Rightarrow> bool \<Rightarrow> bytes" where
  "trun_box duration sample_size is_key =
     mp4_full_box ''trun'' 0 0x000701 (be32 1 @ be32 (100 + 8) @ be32 duration @ be32 sample_size @
       be32 (if is_key then 0x02000000 else 0x01010000))"

definition moof_box :: "32 word \<Rightarrow> 64 word \<Rightarrow> 32 word \<Rightarrow> 32 word \<Rightarrow> bool \<Rightarrow> bytes" where
  "moof_box sequence timestamp duration sample_size is_key =
     mp4_box ''moof'' (mp4_full_box ''mfhd'' 0 0 (be32 sequence) @
       mp4_box ''traf'' (mp4_full_box ''tfhd'' 0 0x020000 (be32 1) @ mp4_full_box ''tfdt'' 1 0 (be64 timestamp) @
         trun_box duration sample_size is_key))"

definition build_media_segment :: "bytes list \<Rightarrow> 32 word \<Rightarrow> 64 word \<Rightarrow> 32 word \<Rightarrow> bool \<Rightarrow> bytes" where
  "build_media_segment nalus sequence timestamp duration is_key =
     (let d = sample_data nalus
      in moof_box sequence timestamp duration (of_nat (length d)) is_key @ mp4_box ''mdat'' d)"

section \<open>What a demuxer reads\<close>

definition read_box :: "bytes \<Rightarrow> ((bytes \<times> bytes) \<times> bytes) option" where
  "read_box bs =
     (if length bs < 8 then None
      else let n = unat (from_be32 (bs ! 0) (bs ! 1) (bs ! 2) (bs ! 3)) in
        if n < 8 \<or> length bs < n then None
        else Some ((take 4 (drop 4 bs), take (n - 8) (drop 8 bs)), drop n bs))"

definition box_bytes :: "bytes \<times> bytes \<Rightarrow> bytes" where
  "box_bytes b = be32 (of_nat (8 + length (snd b))) @ fst b @ snd b"

definition box_ok :: "bytes \<times> bytes \<Rightarrow> bool" where
  "box_ok b \<longleftrightarrow> length (fst b) = 4 \<and> 8 + length (snd b) < 2 ^ 32"

lemma read_box_bytes: "box_ok b \<Longrightarrow> read_box (box_bytes b @ rest) = Some (b, rest)"
proof -
  assume ok: "box_ok b"
  obtain ty p where b: "b = (ty, p)" by (cases b)
  have n: "unat (of_nat (8 + length p) :: 32 word) = 8 + length p"
    using ok by (intro unat_of_nat_lt) (simp add: b box_ok_def)
  have f: "from_be32 ((box_bytes b @ rest) ! 0) ((box_bytes b @ rest) ! 1) ((box_bytes b @ rest) ! 2)
      ((box_bytes b @ rest) ! 3) = of_nat (8 + length p)"
    by (simp only: box_bytes_def b fst_conv snd_conv append_assoc be32_head)
  have d: "drop 4 (box_bytes b @ rest) = ty @ p @ rest" by (simp add: box_bytes_def b)
  then have "drop 8 (box_bytes b @ rest) = drop 4 (ty @ p @ rest)"
    by (metis drop_drop numeral_plus_numeral semiring_norm(2,6))
  then have e: "drop 8 (box_bytes b @ rest) = p @ rest" using ok by (simp add: b box_ok_def)
  have g: "drop (8 + length p) (box_bytes b @ rest) = rest"
    by (metis add.commute drop_drop e append_eq_conv_conj)
  have l: "length (box_bytes b @ rest) = 8 + length p + length rest"
    using ok by (simp add: box_bytes_def b box_ok_def)
  have a: "n < 8 \<longleftrightarrow> n \<le> 7" for n :: nat by auto
  show ?thesis
    unfolding read_box_def Let_def f n d e g l using ok by (simp add: b box_ok_def)
qed

interpretation mp4: prefix_codec box_bytes read_box box_ok
  by unfold_locales (rule read_box_bytes, assumption, simp add: box_bytes_def be32_def)

lemma mp4_box_bytes: "mp4_box ty p = box_bytes (str_bytes ty, p)"
  by (simp add: mp4_box_def box_bytes_def)

text \<open>The payload a demuxer sees in a full box starts with version and flags.\<close>

lemma mp4_full_box_bytes: "mp4_full_box ty v f p = box_bytes (str_bytes ty, v # be24 f @ p)"
  by (simp add: mp4_full_box_def box_bytes_def)

definition boxes :: "bytes \<Rightarrow> (bytes \<times> bytes) list option" where
  "boxes bs = decode_all read_box (length bs) bs"

lemma concat_box_length: "length bs \<le> length (concat (map box_bytes bs))"
  by (induction bs) (auto simp: box_bytes_def)

lemma boxes_of: "\<forall>b\<in>set bs. box_ok b \<Longrightarrow> boxes (concat (map box_bytes bs)) = Some bs"
  unfolding boxes_def by (rule mp4.decode_all_enc) (auto simp: concat_box_length)

lemma moof_length: "length (moof_box sq ts du sz k) = 100"
  by (simp add: moof_box_def mp4_box_def mp4_full_box_def trun_box_def)

lemma sample_units:
  "\<forall>n\<in>set nalus. length n < 2 ^ 32 \<Longrightarrow>
   decode_all avcc_dec (length nalus) (sample_data nalus) = Some (filter (\<lambda>n. \<not> is_aud n) nalus)"
  unfolding sample_data_def by (rule avcc.decode_all_enc) auto

lemma be24_flags: "be24 0 = [0, 0, 0]" "be24 0x020000 = [2, 0, 0]" "be24 0x000701 = [0, 7, 1]"
  by (simp_all add: be24_def)

lemma box_ok_small: "length ty = 4 \<Longrightarrow> length p < 4000 \<Longrightarrow> box_ok (ty, p)"
  by (simp add: box_ok_def)

lemma boxes_pair: "box_ok a \<Longrightarrow> box_ok b \<Longrightarrow> boxes (box_bytes a @ box_bytes b) = Some [a, b]"
  using boxes_of [of "[a, b]"] by simp

lemma boxes_triple: "box_ok a \<Longrightarrow> box_ok b \<Longrightarrow> box_ok c \<Longrightarrow> boxes (box_bytes a @ box_bytes b @ box_bytes c) = Some [a, b, c]"
  using boxes_of [of "[a, b, c]"] by simp

section \<open>Properties\<close>

text \<open>C18: A fragment is exactly a \<open>moof\<close> and an \<open>mdat\<close> box. The data offset of its \<open>trun\<close>
  (108) points at the first byte of the sample, the sample size is the size of the \<open>mdat\<close> payload,
  sequence number, decode time and duration are the arguments, and the sample splits into
  exactly the units that are no access unit delimiters, in order.\<close>

theorem media_segment_demuxes:
  assumes "length (sample_data nalus) + 8 < 2 ^ 32" "\<forall>n\<in>set nalus. length n < 2 ^ 32"
    and seg_def: "seg = build_media_segment nalus sq ts du key"
  shows "\<exists>moof traf. boxes seg = Some [(str_bytes ''moof'', moof), (str_bytes ''mdat'', sample_data nalus)] \<and>
    drop 108 seg = sample_data nalus \<and>
    boxes moof = Some [(str_bytes ''mfhd'', [0, 0, 0, 0] @ be32 sq), (str_bytes ''traf'', traf)] \<and>
    boxes traf = Some [(str_bytes ''tfhd'', [0, 2, 0, 0] @ be32 1), (str_bytes ''tfdt'', [1, 0, 0, 0] @ be64 ts),
      (str_bytes ''trun'', [0, 0, 7, 1] @ be32 1 @ be32 108 @ be32 du @ be32 (of_nat (length (sample_data nalus))) @
        be32 (if key then 0x02000000 else 0x01010000))] \<and>
    decode_all avcc_dec (length nalus) (sample_data nalus) = Some (filter (\<lambda>n. \<not> is_aud n) nalus)"
proof -
  let ?n = "of_nat (length (sample_data nalus)) :: 32 word"
  let ?tfhd = "(str_bytes ''tfhd'', [0, 2, 0, 0] @ be32 1)"
  let ?tfdt = "(str_bytes ''tfdt'', [1, 0, 0, 0] @ be64 ts)"
  let ?trun = "(str_bytes ''trun'', [0, 0, 7, 1] @ be32 1 @ be32 108 @ be32 du @ be32 ?n @
        be32 (if key then 0x02000000 else 0x01010000))"
  let ?traf = "(str_bytes ''traf'', box_bytes ?tfhd @ box_bytes ?tfdt @ box_bytes ?trun)"
  let ?mfhd = "(str_bytes ''mfhd'', [0, 0, 0, 0] @ be32 sq)"
  let ?moof = "(str_bytes ''moof'', box_bytes ?mfhd @ box_bytes ?traf)"
  let ?mdat = "(str_bytes ''mdat'', sample_data nalus)"
  have moof: "moof_box sq ts du ?n key = box_bytes ?moof"
    by (simp add: moof_box_def trun_box_def mp4_box_bytes mp4_full_box_bytes be24_flags)
  have seg: "seg = box_bytes ?moof @ box_bytes ?mdat"
    by (simp only: seg_def build_media_segment_def Let_def moof mp4_box_bytes)
  have ok: "box_ok ?tfhd" "box_ok ?tfdt" "box_ok ?trun" "box_ok ?mfhd" "box_ok ?traf" "box_ok ?moof"
    by (rule box_ok_small; simp add: box_bytes_def)+
  have mdat: "box_ok ?mdat" using assms(1) by (simp add: box_ok_def)
  have "length (box_bytes ?moof) = 100" unfolding moof [symmetric] by (rule moof_length)
  then have off: "drop 108 seg = sample_data nalus"
    unfolding seg by (simp add: box_bytes_def)
  show ?thesis
    using boxes_pair [OF ok(6) mdat] boxes_pair [OF ok(4,5)] boxes_triple [OF ok(1-3)] off sample_units [OF assms(2)]
    unfolding seg by (intro exI conjI) simp_all
qed

theorem media_segment_demuxes_witness:
  "drop 108 (build_media_segment [[9, 0xF0], [0x65, 1, 2]] 7 90000 6000 True) = sample_data [[9, 0xF0], [0x65, 1, 2]] \<and>
   decode_all avcc_dec (length [[9, 0xF0], [0x65, 1, 2 :: byte]]) (sample_data [[9, 0xF0], [0x65, 1, 2]]) =
     Some (filter (\<lambda>n. \<not> is_aud n) [[9, 0xF0], [0x65, 1, 2]])"
proof -
  have l: "length (sample_data [[9, 0xF0], [0x65, 1, 2]]) + 8 < 2 ^ 32"
    by (simp add: sample_data_def avcc_unit_def)
  have u: "\<forall>n\<in>set [[9, 0xF0], [0x65, 1, 2 :: byte]]. length n < 2 ^ 32" by simp
  from media_segment_demuxes [OF l u refl, of 7 90000 6000 True] show ?thesis by blast
qed

text \<open>The initialization segment exists exactly for an SPS of at least four bytes (the muxer panics on
  a shorter one), and is then an \<open>ftyp\<close> and a \<open>moov\<close> box whose sample entry carries the
  profile, level and both parameter sets.\<close>

theorem init_segment_boxes:
  assumes "length sps < 1000" "length pps < 1000"
  shows "(build_init_segment sps pps width height = None \<longleftrightarrow> length sps < 4) \<and>
    (4 \<le> length sps \<longrightarrow>
      (\<exists>init ftyp moov avcc. build_init_segment sps pps width height = Some init \<and>
        boxes init = Some [(str_bytes ''ftyp'', ftyp), (str_bytes ''moov'', moov)] \<and>
        boxes moov = Some [(str_bytes ''mvhd'', drop 8 mvhd_box),
          (str_bytes ''trak'', drop 8 (trak_box (stbl_box (avc1_box avcc width height)) width height)),
          (str_bytes ''mvex'', drop 8 mvex_box)] \<and>
        boxes avcc = Some [(str_bytes ''avcC'', [1, sps ! 1, sps ! 2, sps ! 3, 0xFF, 0xE1] @
          be16 (of_nat (length sps)) @ sps @ [1] @ be16 (of_nat (length pps)) @ pps)]))"
proof (cases "length sps < 4")
  case True
  then show ?thesis by (simp add: build_init_segment_def avcc_box_def)
next
  case False
  let ?conf = "[1, sps ! 1, sps ! 2, sps ! 3, 0xFF, 0xE1] @ be16 (of_nat (length sps)) @ sps @ [1] @
      be16 (of_nat (length pps)) @ pps"
  define avcc where "avcc = mp4_box ''avcC'' ?conf"
  have a: "avcc_box sps pps = Some avcc" using False by (simp add: avcc_box_def avcc_def)
  have box: "boxes avcc = Some [(str_bytes ''avcC'', ?conf)]"
    unfolding avcc_def mp4_box_bytes using boxes_of [of "[(str_bytes ''avcC'', ?conf)]"] assms
    by (simp add: box_ok_small)
  have len: "length avcc < 2100" using assms by (simp add: avcc_def mp4_box_def)
  let ?trak = "trak_box (stbl_box (avc1_box avcc width height)) width height"
  have d8: "mp4_box ty p = box_bytes (str_bytes ty, drop 8 (mp4_box ty p))" if "length ty = 4" for ty p
    using that by (simp add: mp4_box_def box_bytes_def)
  have f8: "mp4_full_box ty v f p = box_bytes (str_bytes ty, drop 8 (mp4_full_box ty v f p))" if "length ty = 4" for ty v f p
    using that by (simp add: mp4_full_box_def box_bytes_def)
  have mvhd: "mvhd_box = box_bytes (str_bytes ''mvhd'', drop 8 mvhd_box)" unfolding mvhd_box_def by (rule f8) simp
  have mvex: "mvex_box = box_bytes (str_bytes ''mvex'', drop 8 mvex_box)" unfolding mvex_box_def by (rule d8) simp
  have trak: "?trak = box_bytes (str_bytes ''trak'', drop 8 ?trak)" unfolding trak_box_def by (rule d8) simp
  have lens: "length mvhd_box = 108" "length mvex_box = 40" "length ?trak < 3000"
    using len
    by (simp_all add: mvhd_box_def mvex_box_def trak_box_def tkhd_box_def mdhd_box_def hdlr_box_def minf_box_def
        stbl_box_def avc1_box_def mp4_box_def mp4_full_box_def fmp4_matrix_def zeros_def)
  have ok: "box_ok (str_bytes ''mvhd'', drop 8 mvhd_box)" "box_ok (str_bytes ''trak'', drop 8 ?trak)"
    "box_ok (str_bytes ''mvex'', drop 8 mvex_box)"
    using lens by (simp_all add: box_ok_small)
  let ?moov = "mvhd_box @ ?trak @ mvex_box"
  let ?ftyp = "str_bytes ''iso5'' @ be32 512 @ str_bytes ''iso5avc1mp42''"
  have moov: "boxes ?moov = Some [(str_bytes ''mvhd'', drop 8 mvhd_box), (str_bytes ''trak'', drop 8 ?trak),
      (str_bytes ''mvex'', drop 8 mvex_box)]"
    using boxes_triple [OF ok] unfolding mvhd [symmetric] mvex [symmetric] trak [symmetric] .
  have ftyp: "box_ok (str_bytes ''ftyp'', ?ftyp)" "box_ok (str_bytes ''moov'', ?moov)"
    using lens by (simp_all add: box_ok_small)
  have init: "build_init_segment sps pps width height =
      Some (box_bytes (str_bytes ''ftyp'', ?ftyp) @ box_bytes (str_bytes ''moov'', ?moov))"
    by (simp add: build_init_segment_def a ftyp_box_def mp4_box_bytes)
  show ?thesis
    using False init boxes_pair [OF ftyp] moov box by auto
qed

theorem init_segment_boxes_witness:
  "\<exists>init. build_init_segment [0x67, 0x42, 0, 0x1E] [0x68, 0xCE] 1280 720 = Some init"
  using init_segment_boxes [of "[0x67, 0x42, 0, 0x1E]" "[0x68, 0xCE]" 1280 720] by auto

end
