(* ===== verification/MseStream.thy ===== *)
theory MseStream
  imports Fmp4 AuHub
begin

text \<open>
  Live streaming for media source extensions (\<open>internal/web/stream_mse.go\<close>): the media clock
  shared by all connections, one connection's timeline, the realignment after lost units, and the
  body of \<open>streamMSE\<close> for one unit taken from the hub's channel. The clock is a 64-bit number
  with its wrap-around; a panic of the muxer is \<open>None\<close>.
\<close>

section \<open>The shared clock and a connection's timeline\<close>

definition seed_clock :: "nat \<Rightarrow> nat \<times> nat" where
  "seed_clock f = (let f' = (f + 90) mod 2 ^ 64 in (f', f'))"

definition publish_clock :: "nat \<Rightarrow> nat \<Rightarrow> nat" where
  "publish_clock ticks f = (if f < ticks then ticks else f)"

text \<open>\<open>None\<close> is the zero time: no frame yet.\<close>

record timeline =
  tl_prev :: "int option"
  tl_clock :: nat

definition new_timeline :: "nat \<Rightarrow> timeline \<times> nat" where
  "new_timeline f = (let (c, f') = seed_clock f in (\<lparr>tl_prev = None, tl_clock = c\<rparr>, f'))"

definition interval_ticks :: "int \<Rightarrow> int \<Rightarrow> nat" where
  "interval_ticks prev now =
     (let us = go_div (i64 (go_div (time_sub now prev) 1000 * 90)) 1000
      in nat (if us < 90 then 90 else if 18000 < us then 18000 else us))"

text \<open>The frame's time stamp and duration, the timeline and the shared clock after it.\<close>

definition timeline_next :: "int \<Rightarrow> timeline \<Rightarrow> nat \<Rightarrow> (nat \<times> nat) \<times> timeline \<times> nat" where
  "timeline_next now tml f =
     (let ticks = (case tl_prev tml of None \<Rightarrow> 6000 | Some prev \<Rightarrow> interval_ticks prev now);
          c = (tl_clock tml + ticks) mod 2 ^ 64
      in ((c, ticks), \<lparr>tl_prev = Some now, tl_clock = c\<rparr>, publish_clock c f))"

section \<open>Realignment\<close>

record realign =
  need_key :: bool
  seen_drops :: "64 word"

definition rt_allow :: "bool \<Rightarrow> 64 word \<Rightarrow> bool \<Rightarrow> realign \<Rightarrow> bool \<times> realign" where
  "rt_allow key drops drained rt =
     (let rt = (if drops \<noteq> seen_drops rt then rt\<lparr>seen_drops := drops, need_key := True\<rparr> else rt);
          rt = (if drained then rt\<lparr>need_key := True\<rparr> else rt)
      in if need_key rt \<and> \<not> key then (False, rt) else (True, rt\<lparr>need_key := False\<rparr>))"

text \<open>Fast-forward through the units that are waiting in the channel.\<close>

fun fast_forward :: "access_unit \<Rightarrow> bool \<Rightarrow> access_unit list \<Rightarrow> access_unit \<times> bool \<times> access_unit list" where
  "fast_forward au drained q =
     (if 2 < length q
      then (case q of [] \<Rightarrow> (au, drained, q)
            | c # q' \<Rightarrow> if au_key c then (c, False, q') else fast_forward c True q')
      else (au, drained, q))"

declare fast_forward.simps [simp del]

section \<open>One connection\<close>

record mse_conn =
  mc_sps :: "bytes option"
  mc_pps :: "bytes option"
  mc_init :: bool
  mc_rt :: realign
  mc_seq :: "32 word"
  mc_tl :: timeline

definition mse_open :: "64 word \<Rightarrow> nat \<Rightarrow> mse_conn \<times> nat" where
  "mse_open drops f =
     (let (tml, f') = new_timeline f
      in (\<lparr>mc_sps = None, mc_pps = None, mc_init = False, mc_rt = \<lparr>need_key = False, seen_drops = drops\<rparr>,
           mc_seq = 0, mc_tl = tml\<rparr>, f'))"

definition mse_cache :: "nalu list \<Rightarrow> mse_conn \<Rightarrow> mse_conn" where
  "mse_cache ns c =
     foldl (\<lambda>c n. let c = (if is_sps n then c\<lparr>mc_sps := Some (nal_data n)\<rparr> else c)
                  in if is_pps n then c\<lparr>mc_pps := Some (nal_data n)\<rparr> else c) c ns"

text \<open>What the environment provides to one round: the time, the drop counter, the capture size, and which writes succeed.\<close>

record mse_env =
  env_now :: int
  env_drops :: "64 word"
  env_width :: "32 word"
  env_height :: "32 word"
  env_init_ok :: bool
  env_seg_ok :: bool

text \<open>The result of a round: the chunks written, whether the loop goes on, the connection and the shared clock.\<close>

type_synonym mse_result = "bytes list \<times> bool \<times> mse_conn \<times> nat"

definition mse_send :: "mse_env \<Rightarrow> access_unit \<Rightarrow> bytes list \<Rightarrow> mse_conn \<Rightarrow> nat \<Rightarrow> mse_result" where
  "mse_send env au out c f =
     (let ((ts, du), tml, f') = timeline_next (env_now env) (mc_tl c) f;
          seg = build_media_segment (map nal_data (au_nalus au)) (mc_seq c) (of_nat ts) (of_nat du) (au_key au)
      in (if env_seg_ok env then out @ [seg] else out, env_seg_ok env,
          c\<lparr>mc_tl := tml, mc_seq := mc_seq c + 1\<rparr>, f'))"

definition mse_unit :: "mse_env \<Rightarrow> access_unit \<Rightarrow> bool \<Rightarrow> mse_conn \<Rightarrow> nat \<Rightarrow> mse_result option" where
  "mse_unit env au drained c f =
     (let c = mse_cache (au_nalus au) c in
      if \<not> mc_init c then
        (case (mc_sps c, mc_pps c) of
           (Some sps, Some pps) \<Rightarrow>
             if \<not> au_key au then Some ([], True, c, f)
             else
               (case build_init_segment sps pps (env_width env) (env_height env) of
                  None \<Rightarrow> None
                | Some init \<Rightarrow>
                    if env_init_ok env then Some (mse_send env au [init] (c\<lparr>mc_init := True\<rparr>) f)
                    else Some ([], False, c, f))
         | _ \<Rightarrow> Some ([], True, c, f))
      else
        (let (pass, rt) = rt_allow (au_key au) (env_drops env) drained (mc_rt c); c = c\<lparr>mc_rt := rt\<rparr>
         in if pass then Some (mse_send env au [] c f) else Some ([], True, c, f)))"

text \<open>A round: the received unit, the channel behind it, then the unit that is landed on.\<close>

definition mse_round ::
  "mse_env \<Rightarrow> access_unit \<Rightarrow> access_unit list \<Rightarrow> mse_conn \<Rightarrow> nat \<Rightarrow> (access_unit list \<times> mse_result) option" where
  "mse_round env au q c f =
     (let (au, drained, q) = fast_forward au False q
      in map_option (Pair q) (mse_unit env au drained c f))"

section \<open>The clock over all connections\<close>

datatype clock_event = Connect | Frame nat int

text \<open>The shared clock, the connections' timelines, and every time stamp handed out.\<close>

record clock_world =
  cw_floor :: nat
  cw_conns :: "timeline list"
  cw_log :: "nat list"

fun clock_step :: "clock_world \<Rightarrow> clock_event \<Rightarrow> clock_world" where
  "clock_step w Connect =
     (let (tml, f) = new_timeline (cw_floor w) in w\<lparr>cw_floor := f, cw_conns := cw_conns w @ [tml]\<rparr>)"
| "clock_step w (Frame k now) =
     (if k < length (cw_conns w)
      then let ((ts, du), tml, f) = timeline_next now (cw_conns w ! k) (cw_floor w)
           in w\<lparr>cw_floor := f, cw_conns := (cw_conns w)[k := tml], cw_log := cw_log w @ [ts]\<rparr>
      else w)"

definition clock_start :: clock_world where
  "clock_start = \<lparr>cw_floor = 0, cw_conns = [], cw_log = []\<rparr>"

definition clock_wf :: "nat \<Rightarrow> clock_world \<Rightarrow> bool" where
  "clock_wf b w \<longleftrightarrow> cw_floor w \<le> b \<and> (\<forall>tml\<in>set (cw_conns w). tl_clock tml \<le> cw_floor w) \<and>
     (\<forall>t\<in>set (cw_log w). t \<le> cw_floor w)"

lemma interval_ticks_range [bounds]: "90 \<le> interval_ticks p n" "interval_ticks p n \<le> 18000"
  by (auto simp: interval_ticks_def Let_def)

lemma timeline_next_ticks:
  assumes "timeline_next now tml f = ((ts, du), tml', f')" "tl_clock tml + 18000 < 2 ^ 64"
  shows "90 \<le> du" "du \<le> 18000" "ts = tl_clock tml + du" "tl_clock tml' = ts" "f' = max ts f" "tl_prev tml' = Some now"
proof -
  define d where "d = (case tl_prev tml of None \<Rightarrow> 6000 | Some prev \<Rightarrow> interval_ticks prev now)"
  have d: "90 \<le> d" "d \<le> 18000" by (auto simp: d_def interval_ticks_range split: option.splits)
  have m: "(tl_clock tml + d) mod 2 ^ 64 = tl_clock tml + d" using assms(2) d by simp
  have e: "ts = tl_clock tml + d" "du = d" "tml' = \<lparr>tl_prev = Some now, tl_clock = tl_clock tml + d\<rparr>"
    "f' = publish_clock (tl_clock tml + d) f"
    using assms(1) unfolding timeline_next_def d_def [symmetric] Let_def m by auto
  show "90 \<le> du" "du \<le> 18000" "ts = tl_clock tml + du" "tl_clock tml' = ts" "f' = max ts f" "tl_prev tml' = Some now"
    using d by (simp_all add: e publish_clock_def max_def)
qed

lemma clock_step_wf:
  assumes "clock_wf b w" "b + 18000 < 2 ^ 64"
  shows "clock_wf (b + 18000) (clock_step w e)"
proof (cases e)
  case Connect
  then show ?thesis
    using assms by (auto simp: clock_wf_def new_timeline_def seed_clock_def Let_def)
next
  case (Frame k now)
  show ?thesis
  proof (cases "k < length (cw_conns w)")
    case True
    obtain ts du tml f where n: "timeline_next now (cw_conns w ! k) (cw_floor w) = ((ts, du), tml, f)"
      by (metis surj_pair)
    have c: "tl_clock (cw_conns w ! k) \<le> cw_floor w" "cw_floor w \<le> b"
      using assms(1) True by (auto simp: clock_wf_def)
    then have "tl_clock (cw_conns w ! k) + 18000 < 2 ^ 64" using assms(2) by linarith
    note t = timeline_next_ticks [OF n this]
    have "f \<le> b + 18000" "cw_floor w \<le> f" "ts \<le> f" using t c by auto
    then show ?thesis
      using assms(1) True n t(4) Frame
      by (auto simp: clock_wf_def set_update_memI dest!: set_update_subset_insert [THEN subsetD] intro: le_trans)
  next
    case False
    then show ?thesis using assms(1) Frame by (auto simp: clock_wf_def)
  qed
qed

lemma clock_run_wf:
  "18000 * length es < 2 ^ 64 \<Longrightarrow> clock_wf (18000 * length es) (foldl clock_step clock_start es)"
proof (induction es rule: rev_induct)
  case Nil
  then show ?case by (simp add: clock_wf_def clock_start_def)
next
  case (snoc e es)
  then have "clock_wf (18000 * length es + 18000) (clock_step (foldl clock_step clock_start es) e)"
    by (intro clock_step_wf) auto
  then show ?case by (simp add: add.commute)
qed

section \<open>The tracker over a sequence of units\<close>

fun rt_run :: "realign \<Rightarrow> (bool \<times> 64 word \<times> bool) list \<Rightarrow> bool list" where
  "rt_run rt [] = []"
| "rt_run rt ((key, drops, drained) # us) = (let (ok, rt') = rt_allow key drops drained rt in ok # rt_run rt' us)"

lemma rt_blocked: "need_key rt \<Longrightarrow> \<exists>rt'. rt_allow False drops drained rt = (False, rt') \<and> need_key rt'"
  by (simp add: rt_allow_def Let_def)

lemma rt_loss: "drops \<noteq> seen_drops rt \<or> drained \<Longrightarrow> \<exists>rt'. rt_allow False drops drained rt = (False, rt') \<and> need_key rt'"
  by (auto simp: rt_allow_def Let_def)

lemma rt_key: "fst (rt_allow True drops drained rt)"
  by (simp add: rt_allow_def Let_def)

lemma rt_run_blocked:
  "need_key rt \<Longrightarrow> list_all (\<lambda>(key, _). \<not> key) us \<Longrightarrow>
   rt_run rt (us @ [(True, d, dr)]) = replicate (length us) False @ [True]"
proof (induction us arbitrary: rt)
  case Nil
  show ?case using rt_key [of d dr rt] by (cases "rt_allow True d dr rt") simp
next
  case (Cons u us)
  obtain drops drained where u: "u = (False, drops, drained)" using Cons.prems by (cases u) auto
  obtain rt' where "rt_allow False drops drained rt = (False, rt')" "need_key rt'"
    using rt_blocked Cons.prems by blast
  then show ?case using Cons u by simp
qed

lemma fast_forward_spec:
  "fast_forward au drained q = (au', dr, rest) \<Longrightarrow>
   \<exists>skipped. au # q = skipped @ au' # rest \<and>
     (skipped = [] \<longrightarrow> au' = au \<and> dr = drained) \<and>
     (skipped \<noteq> [] \<longrightarrow> dr = (\<not> au_key au') \<and> list_all (\<lambda>u. \<not> au_key u) (tl skipped)) \<and>
     (length rest \<le> 2 \<or> au_key au' \<and> skipped \<noteq> [])"
proof (induction au drained q rule: fast_forward.induct)
  case (1 au drained q)
  show ?case
  proof (cases "2 < length q")
    case False
    then show ?thesis using "1.prems" by (simp add: fast_forward.simps [of au drained q])
  next
    case True
    then obtain c q' where q: "q = c # q'" by (cases q) auto
    show ?thesis
    proof (cases "au_key c")
      case key: True
      then have "au' = c" "dr = False" "rest = q'"
        using "1.prems" True q by (simp_all add: fast_forward.simps [of au drained "c # q'"])
      then show ?thesis using key q by (intro exI [of _ "[au]"]) simp
    next
      case key: False
      then have "fast_forward c True q' = (au', dr, rest)"
        using "1.prems" True q by (simp add: fast_forward.simps [of au drained "c # q'"])
      from "1.IH" [OF True q key this] obtain sk where sk: "c # q' = sk @ au' # rest"
        "sk = [] \<longrightarrow> au' = c \<and> dr = True"
        "sk \<noteq> [] \<longrightarrow> dr = (\<not> au_key au') \<and> list_all (\<lambda>u. \<not> au_key u) (tl sk)"
        "length rest \<le> 2 \<or> au_key au' \<and> sk \<noteq> []" by blast
      have "list_all (\<lambda>u. \<not> au_key u) sk" using sk(1,3) key by (cases sk) auto
      then show ?thesis using sk q key by (intro exI [of _ "au # sk"]) (cases sk; auto)
    qed
  qed
qed

section \<open>Properties\<close>

text \<open>C14: The media clock never goes back, over any interleaving of connections and frames (short of
  2^64 ticks): a new connection starts past every time stamp any connection has sent, and a
  connection's next frame is stamped 1 to 200 ms after its previous one.\<close>

theorem clock_never_goes_back:
  assumes "18000 * (length es + 1) < 2 ^ 64" "w = foldl clock_step clock_start es"
  shows "(\<forall>t\<in>set (cw_log w). t < tl_clock (fst (new_timeline (cw_floor w)))) \<and>
    (k < length (cw_conns w) \<longrightarrow>
      (\<exists>du tml f. timeline_next now (cw_conns w ! k) (cw_floor w) =
          ((tl_clock (cw_conns w ! k) + du, du), tml, f) \<and> 90 \<le> du \<and> du \<le> 18000 \<and>
          tl_clock tml = tl_clock (cw_conns w ! k) + du \<and> cw_floor w \<le> f))"
proof -
  have wf: "clock_wf (18000 * length es) w" unfolding assms(2) using assms(1) by (intro clock_run_wf) simp
  have "tl_clock (fst (new_timeline (cw_floor w))) = cw_floor w + 90"
    using wf assms(1) by (simp add: new_timeline_def seed_clock_def Let_def clock_wf_def)
  then have "\<forall>t\<in>set (cw_log w). t < tl_clock (fst (new_timeline (cw_floor w)))"
    using wf by (auto simp: clock_wf_def)
  moreover have "\<exists>du tml f. timeline_next now (cw_conns w ! k) (cw_floor w) =
          ((tl_clock (cw_conns w ! k) + du, du), tml, f) \<and> 90 \<le> du \<and> du \<le> 18000 \<and>
          tl_clock tml = tl_clock (cw_conns w ! k) + du \<and> cw_floor w \<le> f" if k: "k < length (cw_conns w)"
  proof -
    obtain ts du tml f where n: "timeline_next now (cw_conns w ! k) (cw_floor w) = ((ts, du), tml, f)"
      by (metis surj_pair)
    have "tl_clock (cw_conns w ! k) \<le> cw_floor w" "cw_floor w \<le> 18000 * length es"
      using wf k by (auto simp: clock_wf_def)
    then have "tl_clock (cw_conns w ! k) + 18000 < 2 ^ 64" using assms(1) by simp
    from timeline_next_ticks [OF n this] n show ?thesis by auto
  qed
  ultimately show ?thesis by blast
qed

theorem clock_never_goes_back_witness:
  "list_all (\<lambda>t. t < tl_clock (fst (new_timeline (cw_floor (foldl clock_step clock_start [Connect, Frame 0 5, Connect, Frame 1 9])))))
     (cw_log (foldl clock_step clock_start [Connect, Frame 0 5, Connect, Frame 1 9]))"
  using clock_never_goes_back [of "[Connect, Frame 0 5, Connect, Frame 1 9]", OF _ refl] unfolding list_all_iff by simp

text \<open>Once a loss is observed (the drop counter has moved, or the backlog was skipped), no dependent
  frame is sent until a key frame comes, and that key frame is sent.\<close>

theorem loss_blocks_until_keyframe:
  assumes "drops \<noteq> seen_drops rt \<or> drained" "list_all (\<lambda>(key, _). \<not> key) us"
  shows "rt_run rt ((False, drops, drained) # us @ [(True, d, dr)]) = replicate (Suc (length us)) False @ [True]"
proof -
  obtain rt' where "rt_allow False drops drained rt = (False, rt')" "need_key rt'"
    using rt_loss [OF assms(1)] by blast
  then show ?thesis using rt_run_blocked [of rt' us d dr] assms(2) by simp
qed

theorem loss_blocks_until_keyframe_witness:
  "rt_run \<lparr>need_key = False, seen_drops = 3\<rparr> [(False, 4, False), (False, 4, False), (True, 4, False)] = [False, False, True]"
  using loss_blocks_until_keyframe [of 4 "\<lparr>need_key = False, seen_drops = 3\<rparr>" False "[(False, 4, False)]" 4 False]
  by simp

text \<open>Fast-forwarding skips a prefix of the waiting units and lands on the last but two or on the first
  key frame; the loss flag is set exactly when something was skipped and no key frame was landed on.\<close>

theorem fast_forward_lands:
  assumes "fast_forward au False q = (au', dr, rest)"
  shows "\<exists>skipped. au # q = skipped @ au' # rest \<and> dr = (skipped \<noteq> [] \<and> \<not> au_key au') \<and>
     list_all (\<lambda>u. \<not> au_key u) (tl skipped) \<and> (length rest \<le> 2 \<or> au_key au')"
proof -
  obtain sk where sk: "au # q = sk @ au' # rest" "sk = [] \<longrightarrow> au' = au \<and> dr = False"
    "sk \<noteq> [] \<longrightarrow> dr = (\<not> au_key au') \<and> list_all (\<lambda>u. \<not> au_key u) (tl sk)"
    "length rest \<le> 2 \<or> au_key au' \<and> sk \<noteq> []"
    using fast_forward_spec [OF assms] by blast
  then show ?thesis by (intro exI [of _ sk]) (cases sk; auto)
qed

theorem fast_forward_lands_witness:
  "\<exists>skipped. replicate 5 \<lparr>au_nalus = [], au_time = 0, au_key = False\<rparr> =
     skipped @ \<lparr>au_nalus = [], au_time = 0, au_key = False\<rparr> # replicate 2 \<lparr>au_nalus = [], au_time = 0, au_key = False\<rparr>"
proof -
  let ?u = "\<lparr>au_nalus = [], au_time = 0, au_key = False\<rparr>"
  have "fast_forward ?u False [?u, ?u, ?u, ?u] = (?u, True, [?u, ?u])"
    by (simp add: fast_forward.simps)
  from fast_forward_lands [OF this] show ?thesis by (auto simp: numeral_eq_Suc)
qed

text \<open>The time stamp of a frame advances by the frame's own duration, that is by the interval before
  it; consecutive samples therefore leave a gap or overlap whenever two intervals differ.\<close>

theorem timeline_not_gapless:
  assumes "timeline_next t1 tml f = ((ts1, du1), tml1, f1)" "timeline_next t2 tml1 f' = ((ts2, du2), tml2, f2)"
    and "tl_clock tml + 36000 < 2 ^ 64"
  shows "int ts2 - int (ts1 + du1) = int du2 - int du1"
proof -
  have a: "tl_clock tml + 18000 < 2 ^ 64" using assms(3) by simp
  note t1 = timeline_next_ticks [OF assms(1) a]
  have "tl_clock tml1 + 18000 < 2 ^ 64" using t1 assms(3) by simp
  note t2 = timeline_next_ticks [OF assms(2) this]
  show ?thesis using t1 t2 by simp
qed

theorem timeline_not_gapless_witness:
  "\<exists>ts1 du1 ts2 du2. fst (timeline_next 40000000 \<lparr>tl_prev = Some 0, tl_clock = 90\<rparr> 90) = (ts1, du1) \<and>
     fst (timeline_next 100000000 (fst (snd (timeline_next 40000000 \<lparr>tl_prev = Some 0, tl_clock = 90\<rparr> 90))) 0) = (ts2, du2) \<and>
     ts2 = ts1 + du1 + 1800"
proof -
  let ?t0 = "\<lparr>tl_prev = Some 0, tl_clock = 90\<rparr>"
  obtain ts1 du1 t1 f1 where n1: "timeline_next 40000000 ?t0 90 = ((ts1, du1), t1, f1)" by (metis surj_pair)
  obtain ts2 du2 t2 f2 where n2: "timeline_next 100000000 t1 0 = ((ts2, du2), t2, f2)" by (metis surj_pair)
  have "du1 = 3600" "tl_prev t1 = Some 40000000"
    using n1 by (auto simp: timeline_next_def interval_ticks_def time_sub_def go_div_def Let_def)
  moreover have "du2 = 5400"
    using n2 \<open>tl_prev t1 = Some 40000000\<close> by (auto simp: timeline_next_def interval_ticks_def time_sub_def go_div_def Let_def)
  moreover have "int ts2 - int (ts1 + du1) = int du2 - int du1"
    using timeline_not_gapless [OF n1 n2] by simp
  ultimately have "ts2 = ts1 + du1 + 1800" by linarith
  then show ?thesis using n1 n2 by simp
qed

definition sample_unit :: "bool \<Rightarrow> int \<Rightarrow> access_unit" where
  "sample_unit key t = \<lparr>au_nalus = [], au_time = t, au_key = key\<rparr>"

text \<open>A loss can go unnoticed. The counter is compared when a unit is taken from the channel, not where
  the gap is in the stream: when the last unit queued before the gap is a key frame, it clears the
  loss, and the first frame behind the gap is sent although its reference was dropped.\<close>

theorem loss_behind_keyframe_unnoticed:
  "let h0 = snd (hub_subscribe (new_hub_with_size 1));
       h1 = hub_write (sample_unit False 2) (hub_write (sample_unit True 1) h0);
       (got1, h2) = hub_recv 0 h1;
       (ok1, rt) = rt_allow True (dropped (sub_chan (hub_heap h2 ! 0))) False \<lparr>need_key = False, seen_drops = 0\<rparr>;
       (got2, h3) = hub_recv 0 (hub_write (sample_unit False 3) h2)
   in got1 = Some (sample_unit True 1) \<and> ok1 \<and> dropped (sub_chan (hub_heap h2 ! 0)) = 1 \<and>
      got2 = Some (sample_unit False 3) \<and> fst (rt_allow False (dropped (sub_chan (hub_heap h3 ! 0))) False rt)"
  by (simp add: hub_subscribe_def new_hub_with_size_def hub_write_def hub_deliver_def hub_recv_def recv_def offer_def
      new_chan_def rt_allow_def sample_unit_def Let_def)

end
