(* ===== verification/WebAuth.thy ===== *)
theory WebAuth
  imports Prelude
begin

text \<open>
  Session authentication of the web interface (\<open>internal/web/auth.go\<close>): the session store and
  its copy on disk, the login rate limiter, the middleware with its CSRF check, and the handlers
  for setup, login, logout, reset and the sign-in probe. Times are nanoseconds; the random tokens,
  the decoded request body (\<open>None\<close> when it does not parse) and the outcome of a disk write
  are arguments.
\<close>

section \<open>The session store\<close>

record session =
  ss_user :: string
  ss_csrf :: string
  ss_created :: int
  ss_expires :: int

type_synonym sessions = "string \<Rightarrow> session option"

text \<open>\<open>st_disk\<close> is the persisted copy; \<open>st_path\<close> says whether there is a file at all.\<close>

record session_store =
  st_sessions :: sessions
  st_path :: bool
  st_disk :: "sessions option"

definition minute :: int where "minute = 60 * 1000000000"
definition session_ttl :: int where "session_ttl = 24 * 60 * minute"

definition new_session_store :: session_store where
  "new_session_store = \<lparr>st_sessions = Map.empty, st_path = False, st_disk = None\<rparr>"

definition prune_expired :: "int \<Rightarrow> sessions \<Rightarrow> sessions" where
  "prune_expired now ss = (\<lambda>t. case ss t of None \<Rightarrow> None | Some s \<Rightarrow> if ss_expires s < now then None else Some s)"

text \<open>\<open>NewSessionStoreAt\<close>; a missing or corrupt file is \<open>None\<close>.\<close>

definition new_session_store_at :: "int \<Rightarrow> sessions option \<Rightarrow> session_store" where
  "new_session_store_at now disk =
     \<lparr>st_sessions = (case disk of None \<Rightarrow> Map.empty | Some ss \<Rightarrow> prune_expired now ss),
      st_path = True, st_disk = disk\<rparr>"

definition persist_locked :: "bool \<Rightarrow> session_store \<Rightarrow> session_store" where
  "persist_locked ok st = (if \<not> st_path st then st else if ok then st\<lparr>st_disk := Some (st_sessions st)\<rparr> else st)"

text \<open>The random source gives the two tokens, or fails.\<close>

definition store_create ::
  "bool \<Rightarrow> int \<Rightarrow> (string \<times> string) option \<Rightarrow> string \<Rightarrow> session_store \<Rightarrow> (string \<times> string) option \<times> session_store" where
  "store_create ok now rnd user st =
     (case rnd of
        None \<Rightarrow> (None, st)
      | Some (token, csrf) \<Rightarrow>
          (Some (token, csrf),
           persist_locked ok (st\<lparr>st_sessions := (st_sessions st)(token \<mapsto>
             \<lparr>ss_user = user, ss_csrf = csrf, ss_created = now, ss_expires = now + session_ttl\<rparr>)\<rparr>)))"

datatype auth_error = MissingToken | InvalidToken | TokenExpired

definition store_validate :: "int \<Rightarrow> string \<Rightarrow> session_store \<Rightarrow> (auth_error + string \<times> string) \<times> session_store" where
  "store_validate now token st =
     (if token = [] then (Inl MissingToken, st)
      else case st_sessions st token of
             None \<Rightarrow> (Inl InvalidToken, st)
           | Some s \<Rightarrow>
               if ss_expires s < now
               then (Inl TokenExpired, st\<lparr>st_sessions := (st_sessions st)(token := None)\<rparr>)
               else (Inr (ss_user s, ss_csrf s), st))"

definition store_logout :: "bool \<Rightarrow> string \<Rightarrow> session_store \<Rightarrow> session_store" where
  "store_logout ok token st =
     (if token = [] then st else persist_locked ok (st\<lparr>st_sessions := (st_sessions st)(token := None)\<rparr>))"

definition store_clear :: "bool \<Rightarrow> session_store \<Rightarrow> session_store" where
  "store_clear ok st = persist_locked ok (st\<lparr>st_sessions := Map.empty\<rparr>)"

definition store_cleanup :: "int \<Rightarrow> session_store \<Rightarrow> session_store" where
  "store_cleanup now st = st\<lparr>st_sessions := prune_expired now (st_sessions st)\<rparr>"

section \<open>The login rate limiter\<close>

text \<open>\<open>rl_blocked\<close> is \<open>None\<close> for the zero time.\<close>

record rate_entry =
  rl_count :: nat
  rl_start :: int
  rl_blocked :: "int option"

type_synonym limiter = "string \<Rightarrow> rate_entry option"

definition max_login_attempts :: nat where "max_login_attempts = 10"
definition login_window :: int where "login_window = minute"
definition login_block :: int where "login_block = 5 * minute"

definition limiter_allow :: "int \<Rightarrow> string \<Rightarrow> limiter \<Rightarrow> bool \<times> limiter" where
  "limiter_allow now ip l =
     (case l ip of
        None \<Rightarrow> (True, l)
      | Some e \<Rightarrow>
          (case rl_blocked e of
             Some b \<Rightarrow> if now < b then (False, l) else (True, l(ip := None))
           | None \<Rightarrow>
               if login_window < time_sub now (rl_start e) then (True, l(ip := None))
               else (rl_count e < max_login_attempts, l)))"

definition record_failure :: "int \<Rightarrow> string \<Rightarrow> limiter \<Rightarrow> limiter" where
  "record_failure now ip l =
     (case l ip of
        None \<Rightarrow> l(ip \<mapsto> \<lparr>rl_count = 1, rl_start = now, rl_blocked = None\<rparr>)
      | Some e \<Rightarrow>
          if (case rl_blocked e of Some b \<Rightarrow> now < b | None \<Rightarrow> False) then l
          else if login_window < time_sub now (rl_start e)
          then l(ip \<mapsto> \<lparr>rl_count = 1, rl_start = now, rl_blocked = None\<rparr>)
          else
            let e = e\<lparr>rl_count := rl_count e + 1\<rparr>;
                e = (if max_login_attempts \<le> rl_count e then e\<lparr>rl_blocked := Some (now + login_block)\<rparr> else e)
            in l(ip \<mapsto> e))"

definition record_success :: "string \<Rightarrow> limiter \<Rightarrow> limiter" where
  "record_success ip l = l(ip := None)"

section \<open>The server's authentication state\<close>

record web_auth =
  wa_user :: string
  wa_pass :: string
  wa_store :: session_store
  wa_limiter :: limiter

text \<open>A reply: a status, or a status with the two cookies, or the user name of the probe.\<close>

datatype auth_reply = Reply nat | SignedIn string string | Me string

record auth_env =
  ae_now :: int
  ae_rnd :: "(string \<times> string) option"
  ae_persist :: bool

definition configured :: "web_auth \<Rightarrow> bool" where
  "configured s \<longleftrightarrow> wa_pass s \<noteq> []"

definition credentials_equal :: "string \<Rightarrow> string \<Rightarrow> web_auth \<Rightarrow> bool" where
  "credentials_equal user pass s \<longleftrightarrow> user = wa_user s \<and> pass = wa_pass s"

definition is_write_method :: "string \<Rightarrow> bool" where
  "is_write_method m \<longleftrightarrow> m \<in> {''POST'', ''PUT'', ''DELETE'', ''PATCH''}"

definition csrf_exempt :: "string \<Rightarrow> bool" where
  "csrf_exempt p \<longleftrightarrow> p \<in> {''/api/auth/login'', ''/api/auth/setup'', ''/api/auth/logout''}"

record request =
  rq_method :: string
  rq_path :: string
  rq_session :: string
  rq_csrf :: string
  rq_ip :: string

text \<open>The middleware: whether the wrapped handler runs.\<close>

definition auth_required :: "auth_env \<Rightarrow> request \<Rightarrow> web_auth \<Rightarrow> bool \<times> web_auth" where
  "auth_required env rq s =
     (let (res, st) = store_validate (ae_now env) (rq_session rq) (wa_store s); s = s\<lparr>wa_store := st\<rparr> in
      case res of
        Inl _ \<Rightarrow> (False, s)
      | Inr (_, csrf) \<Rightarrow>
          if is_write_method (rq_method rq) \<and> \<not> csrf_exempt (rq_path rq) \<and> rq_csrf rq \<noteq> csrf
          then (False, s) else (True, s))"

definition issue :: "auth_env \<Rightarrow> string \<Rightarrow> web_auth \<Rightarrow> auth_reply \<times> web_auth" where
  "issue env user s =
     (let (res, st) = store_create (ae_persist env) (ae_now env) (ae_rnd env) user (wa_store s); s = s\<lparr>wa_store := st\<rparr> in
      case res of None \<Rightarrow> (Reply 500, s) | Some (token, csrf) \<Rightarrow> (SignedIn token csrf, s))"

definition handle_me :: "auth_env \<Rightarrow> request \<Rightarrow> web_auth \<Rightarrow> auth_reply \<times> web_auth" where
  "handle_me env rq s =
     (if \<not> configured s then (Reply 503, s)
      else
        let (res, st) = store_validate (ae_now env) (rq_session rq) (wa_store s); s = s\<lparr>wa_store := st\<rparr> in
        case res of Inr (user, _) \<Rightarrow> (Me user, s) | Inl _ \<Rightarrow> (Reply 401, s))"

definition handle_setup :: "auth_env \<Rightarrow> (string \<times> string) option \<Rightarrow> web_auth \<Rightarrow> auth_reply \<times> web_auth" where
  "handle_setup env body s =
     (if configured s then (Reply 400, s)
      else case body of
             None \<Rightarrow> (Reply 400, s)
           | Some (user, pass) \<Rightarrow>
               if user = [] \<or> length pass < 8 then (Reply 400, s)
               else issue env user (s\<lparr>wa_user := user, wa_pass := pass\<rparr>))"

definition handle_login :: "auth_env \<Rightarrow> request \<Rightarrow> (string \<times> string) option \<Rightarrow> web_auth \<Rightarrow> auth_reply \<times> web_auth" where
  "handle_login env rq body s =
     (if \<not> configured s then (Reply 503, s)
      else case body of
             None \<Rightarrow> (Reply 400, s)
           | Some (user, pass) \<Rightarrow>
               let user = (if user = [] then (if wa_user s \<noteq> [] then wa_user s else ''admin'') else user) in
               if pass = [] then (Reply 400, s)
               else
                 let (allowed, l) = limiter_allow (ae_now env) (rq_ip rq) (wa_limiter s); s = s\<lparr>wa_limiter := l\<rparr> in
                 if \<not> allowed then (Reply 429, s)
                 else if \<not> credentials_equal user pass s
                 then (Reply 401, s\<lparr>wa_limiter := record_failure (ae_now env) (rq_ip rq) (wa_limiter s)\<rparr>)
                 else issue env (wa_user s) (s\<lparr>wa_limiter := record_success (rq_ip rq) (wa_limiter s)\<rparr>))"

definition handle_logout :: "auth_env \<Rightarrow> request \<Rightarrow> web_auth \<Rightarrow> auth_reply \<times> web_auth" where
  "handle_logout env rq s =
     (if rq_session rq = [] then (Reply 204, s)
      else
        let (res, st) = store_validate (ae_now env) (rq_session rq) (wa_store s) in
        case res of
          Inl _ \<Rightarrow> (Reply 204, s\<lparr>wa_store := st\<rparr>)
        | Inr _ \<Rightarrow> (Reply 204, s\<lparr>wa_store := store_logout (ae_persist env) (rq_session rq) st\<rparr>))"

text \<open>The body of a reset: the old and the new password.\<close>

definition handle_reset :: "auth_env \<Rightarrow> (string \<times> string) option \<Rightarrow> web_auth \<Rightarrow> auth_reply \<times> web_auth" where
  "handle_reset env body s =
     (case body of
        None \<Rightarrow> (Reply 400, s)
      | Some (old, new) \<Rightarrow>
          if length new < 8 then (Reply 400, s)
          else if old \<noteq> wa_pass s then (Reply 401, s)
          else issue env (wa_user s) (s\<lparr>wa_pass := new, wa_store := store_clear (ae_persist env) (wa_store s)\<rparr>))"

section \<open>Runs\<close>

datatype auth_event =
    Setup "(string \<times> string) option"
  | Login request "(string \<times> string) option"
  | Logout request
  | Reset request "(string \<times> string) option"
  | Probe request
  | Guarded request
  | Cleanup

text \<open>
  One request. A reset is behind the middleware. \<open>SignedIn\<close> is the only reply that issues a
  session; \<open>Guarded\<close> is any other handler behind the middleware, answered with 200 or 401.
\<close>

fun auth_step :: "auth_env \<times> auth_event \<Rightarrow> web_auth \<Rightarrow> auth_reply \<times> web_auth" where
  "auth_step (env, Setup body) s = handle_setup env body s"
| "auth_step (env, Login rq body) s = handle_login env rq body s"
| "auth_step (env, Logout rq) s = handle_logout env rq s"
| "auth_step (env, Reset rq body) s =
     (let (pass, s) = auth_required env rq s in if pass then handle_reset env body s else (Reply 401, s))"
| "auth_step (env, Probe rq) s = handle_me env rq s"
| "auth_step (env, Guarded rq) s = (let (pass, s) = auth_required env rq s in (Reply (if pass then 200 else 401), s))"
| "auth_step (env, Cleanup) s = (Reply 200, s\<lparr>wa_store := store_cleanup (ae_now env) (wa_store s)\<rparr>)"

section \<open>What the handlers guarantee\<close>

lemma persist_sessions [simp]: "st_sessions (persist_locked ok st) = st_sessions st"
  by (simp add: persist_locked_def)

lemma validate_sessions:
  "st_sessions (snd (store_validate now t st)) =
     (if t \<noteq> [] \<and> (\<exists>s. st_sessions st t = Some s \<and> ss_expires s < now) then (st_sessions st)(t := None) else st_sessions st)"
  by (auto simp: store_validate_def split: option.splits)

lemma validate_ok:
  "fst (store_validate now t st) = Inr (u, c) \<longleftrightarrow>
   t \<noteq> [] \<and> (\<exists>s. st_sessions st t = Some s \<and> now \<le> ss_expires s \<and> ss_user s = u \<and> ss_csrf s = c)"
  by (auto simp: store_validate_def split: option.splits)

lemma auth_required_passes:
  "fst (auth_required env rq s) \<longleftrightarrow>
     rq_session rq \<noteq> [] \<and> (\<exists>ss. st_sessions (wa_store s) (rq_session rq) = Some ss \<and> ae_now env \<le> ss_expires ss \<and>
       (is_write_method (rq_method rq) \<and> \<not> csrf_exempt (rq_path rq) \<longrightarrow> rq_csrf rq = ss_csrf ss))"
  by (auto simp: auth_required_def Let_def store_validate_def split: option.splits)

lemma auth_required_frame:
  "wa_user (snd (auth_required env rq s)) = wa_user s" "wa_pass (snd (auth_required env rq s)) = wa_pass s"
  "wa_limiter (snd (auth_required env rq s)) = wa_limiter s"
  "wa_store (snd (auth_required env rq s)) = snd (store_validate (ae_now env) (rq_session rq) (wa_store s))"
  by (auto simp: auth_required_def Let_def split: prod.splits sum.splits)

lemma issue_cases:
  "issue env user s = (case ae_rnd env of None \<Rightarrow> (Reply 500, s)
     | Some (t, c) \<Rightarrow> (SignedIn t c, s\<lparr>wa_store := persist_locked (ae_persist env) ((wa_store s)\<lparr>st_sessions :=
         (st_sessions (wa_store s))(t \<mapsto> \<lparr>ss_user = user, ss_csrf = c, ss_created = ae_now env,
           ss_expires = ae_now env + session_ttl\<rparr>)\<rparr>)\<rparr>))"
  by (simp add: issue_def store_create_def split: option.splits)

section \<open>Who is signed in\<close>

text \<open>
  The log of issued tokens: a reset starts it afresh, a logout removes its token. \<open>env_ok\<close>: the random
  source never gives an empty token.
\<close>

definition log_after :: "auth_env \<Rightarrow> auth_reply \<Rightarrow> (string \<times> int) list \<Rightarrow> (string \<times> int) list" where
  "log_after env r log = (case r of SignedIn t c \<Rightarrow> (t, ae_now env) # log | _ \<Rightarrow> log)"

fun log_step :: "auth_env \<times> auth_event \<Rightarrow> auth_reply \<Rightarrow> (string \<times> int) list \<Rightarrow> (string \<times> int) list" where
  "log_step (env, Logout rq) r log = filter (\<lambda>(t, _). t \<noteq> rq_session rq) log"
| "log_step (env, Reset rq body) r log = (case r of SignedIn t c \<Rightarrow> [(t, ae_now env)] | _ \<Rightarrow> log)"
| "log_step (env, ev) r log = log_after env r log"

definition logged_step :: "web_auth \<times> (string \<times> int) list \<Rightarrow> auth_env \<times> auth_event \<Rightarrow> web_auth \<times> (string \<times> int) list" where
  "logged_step = (\<lambda>(s, log) e. let (r, s') = auth_step e s in (s', log_step e r log))"

definition env_ok :: "auth_env \<times> auth_event \<Rightarrow> bool" where
  "env_ok e \<longleftrightarrow> (\<forall>t c. ae_rnd (fst e) = Some (t, c) \<longrightarrow> t \<noteq> [])"

definition log_wf :: "web_auth \<times> (string \<times> int) list \<Rightarrow> bool" where
  "log_wf = (\<lambda>(s, log). st_sessions (wa_store s) [] = None \<and> (\<forall>t ss. st_sessions (wa_store s) t = Some ss \<longrightarrow>
     ss_expires ss = ss_created ss + session_ttl \<and> (t, ss_created ss) \<in> set log))"

lemma log_wf_subset:
  "log_wf (s, log) \<Longrightarrow> set log \<subseteq> set log' \<Longrightarrow>
   (\<And>t ss. st_sessions (wa_store s') t = Some ss \<Longrightarrow> st_sessions (wa_store s) t = Some ss) \<Longrightarrow> log_wf (s', log')"
  unfolding log_wf_def by (cases "st_sessions (wa_store s') []") fastforce+

lemma log_wf_validate:
  "log_wf (s, log) \<Longrightarrow> wa_store s' = snd (store_validate now t (wa_store s)) \<Longrightarrow> log_wf (s', log)"
  by (erule log_wf_subset) (auto simp: validate_sessions split: if_splits)

lemma log_wf_store: "log_wf (s, log) \<Longrightarrow> wa_store s' = wa_store s \<Longrightarrow> log_wf (s', log)"
  by (simp add: log_wf_def)

lemma log_wf_issue:
  "log_wf (s, log) \<Longrightarrow> env_ok (env, ev) \<Longrightarrow> issue env user s = (r, s') \<Longrightarrow> log_wf (s', log_after env r log)"
  by (auto simp: issue_cases log_wf_def env_ok_def log_after_def split: option.splits if_splits)

lemma setup_wf:
  "handle_setup env body s = (r, s') \<Longrightarrow> log_wf (s, log) \<Longrightarrow> env_ok (env, ev) \<Longrightarrow> log_wf (s', log_after env r log)"
proof -
  assume h: "handle_setup env body s = (r, s')" and wf: "log_wf (s, log)" and ok: "env_ok (env, ev)"
  have "r = Reply 400 \<and> s' = s \<or> (\<exists>u p. issue env u (s\<lparr>wa_user := u, wa_pass := p\<rparr>) = (r, s'))"
    using h by (auto simp: handle_setup_def split: if_splits option.splits)
  then show ?thesis
  proof (elim disjE exE conjE)
    fix u p assume "issue env u (s\<lparr>wa_user := u, wa_pass := p\<rparr>) = (r, s')"
    then show ?thesis by (rule log_wf_issue [OF log_wf_store [OF wf] ok, rotated]) simp
  next
    assume "r = Reply 400" "s' = s"
    then show ?thesis using wf by (simp add: log_after_def)
  qed
qed

lemma login_wf:
  "handle_login env rq body s = (r, s') \<Longrightarrow> log_wf (s, log) \<Longrightarrow> env_ok (env, ev) \<Longrightarrow> log_wf (s', log_after env r log)"
proof -
  assume h: "handle_login env rq body s = (r, s')" and wf: "log_wf (s, log)" and ok: "env_ok (env, ev)"
  have "(\<exists>k. r = Reply k) \<and> wa_store s' = wa_store s \<or>
      (\<exists>l. issue env (wa_user s) (s\<lparr>wa_limiter := l\<rparr>) = (r, s'))"
    using h by (auto simp: handle_login_def Let_def split: if_splits option.splits prod.splits)
  then show ?thesis
  proof (elim disjE exE conjE)
    fix l assume "issue env (wa_user s) (s\<lparr>wa_limiter := l\<rparr>) = (r, s')"
    then show ?thesis by (rule log_wf_issue [OF log_wf_store [OF wf] ok, rotated]) simp
  next
    fix k assume "r = Reply k" "wa_store s' = wa_store s"
    then show ?thesis using log_wf_store [OF wf] by (simp add: log_after_def)
  qed
qed

lemma logout_wf:
  "handle_logout env rq s = (r, s') \<Longrightarrow> log_wf (s, log) \<Longrightarrow> log_wf (s', filter (\<lambda>(t, _). t \<noteq> rq_session rq) log)"
  by (auto simp: handle_logout_def Let_def log_wf_def store_validate_def store_logout_def
      split: if_splits option.splits prod.splits sum.splits)

lemma reset_wf:
  "handle_reset env body s = (r, s') \<Longrightarrow> log_wf (s, log) \<Longrightarrow> env_ok (env, ev) \<Longrightarrow>
   log_wf (s', case r of SignedIn t c \<Rightarrow> [(t, ae_now env)] | _ \<Rightarrow> log)"
proof -
  assume h: "handle_reset env body s = (r, s')" and wf: "log_wf (s, log)" and ok: "env_ok (env, ev)"
  have "(\<exists>k. r = Reply k) \<and> s' = s \<or>
      (\<exists>p. issue env (wa_user s) (s\<lparr>wa_pass := p, wa_store := store_clear (ae_persist env) (wa_store s)\<rparr>) = (r, s'))"
    using h by (auto simp: handle_reset_def split: if_splits option.splits)
  then show ?thesis
  proof (elim disjE exE conjE)
    fix p assume i: "issue env (wa_user s) (s\<lparr>wa_pass := p, wa_store := store_clear (ae_persist env) (wa_store s)\<rparr>) = (r, s')"
    have "log_wf (s\<lparr>wa_pass := p, wa_store := store_clear (ae_persist env) (wa_store s)\<rparr>, [])"
      by (simp add: log_wf_def store_clear_def)
    from log_wf_issue [OF this ok i] have w: "log_wf (s', log_after env r [])" .
    show ?thesis
    proof (cases r)
      case (SignedIn t c)
      then show ?thesis using w by (simp add: log_after_def)
    qed (use w in \<open>auto simp: log_after_def elim!: log_wf_subset\<close>)
  next
    fix k assume "r = Reply k" "s' = s"
    then show ?thesis using wf by simp
  qed
qed

lemma me_wf: "handle_me env rq s = (r, s') \<Longrightarrow> log_wf (s, log) \<Longrightarrow> log_wf (s', log_after env r log)"
proof -
  assume h: "handle_me env rq s = (r, s')" and wf: "log_wf (s, log)"
  have "(\<exists>k. r = Reply k) \<or> (\<exists>u. r = Me u)"
    using h by (auto simp: handle_me_def Let_def split: if_splits prod.splits sum.splits)
  moreover have "wa_store s' = wa_store s \<or> wa_store s' = snd (store_validate (ae_now env) (rq_session rq) (wa_store s))"
    using h by (auto simp: handle_me_def Let_def split: if_splits prod.splits sum.splits)
  ultimately show ?thesis
    using log_wf_store [OF wf] log_wf_validate [OF wf] by (auto simp: log_after_def)
qed

lemma required_wf: "log_wf (s, log) \<Longrightarrow> log_wf (snd (auth_required env rq s), log)"
  by (rule log_wf_validate) (auto simp: auth_required_frame)

lemma logged_step_wf: "log_wf x \<Longrightarrow> env_ok e \<Longrightarrow> log_wf (logged_step x e)"
proof -
  assume wf0: "log_wf x" and ok0: "env_ok e"
  obtain s log where x: "x = (s, log)" by (cases x)
  obtain env ev where e: "e = (env, ev)" by (cases e)
  have wf: "log_wf (s, log)" and ok: "env_ok (env, ev)" using wf0 ok0 x e by auto
  obtain r s' where st: "auth_step e s = (r, s')" by (cases "auth_step e s")
  have "log_wf (s', log_step e r log)"
  proof (cases ev)
    case (Setup body)
    then show ?thesis using setup_wf [OF _ wf ok] st e by simp
  next
    case (Login rq body)
    then show ?thesis using login_wf [OF _ wf ok] st e by simp
  next
    case (Logout rq)
    then show ?thesis using logout_wf [OF _ wf] st e by simp
  next
    case (Reset rq body)
    obtain pass s1 where a: "auth_required env rq s = (pass, s1)" by (cases "auth_required env rq s")
    then have w1: "log_wf (s1, log)" using required_wf [OF wf, of env rq] by simp
    show ?thesis using Reset st e a reset_wf [OF _ w1 ok, of body] w1 by (auto split: if_splits)
  next
    case (Probe rq)
    then show ?thesis using me_wf [OF _ wf] st e by simp
  next
    case (Guarded rq)
    then show ?thesis using required_wf [OF wf, of env rq] st e by (auto simp: log_after_def split: prod.splits)
  next
    case Cleanup
    have "log_wf (s\<lparr>wa_store := store_cleanup (ae_now env) (wa_store s)\<rparr>, log)"
      using wf by (auto simp: log_wf_def store_cleanup_def prune_expired_def split: option.splits if_splits)
    then show ?thesis using Cleanup st e by (auto simp: log_after_def)
  qed
  then show ?thesis by (simp add: logged_step_def x st)
qed

interpretation auth_run: event_machine logged_step log_wf env_ok
  by unfold_locales (rule logged_step_wf)

lemma signed_in_only_by_credentials:
  assumes "auth_step (env, ev) s = (SignedIn t c, s')"
  shows "(case ev of
      Setup b \<Rightarrow> \<not> configured s \<and> (\<exists>u p. b = Some (u, p) \<and> u \<noteq> [] \<and> 8 \<le> length p)
    | Login rq b \<Rightarrow> configured s \<and> (\<exists>u. b = Some (u, wa_pass s) \<and> (u = wa_user s \<or> u = []))
    | Reset rq b \<Rightarrow> fst (auth_required env rq s) \<and> (\<exists>p. b = Some (wa_pass s, p) \<and> 8 \<le> length p)
    | _ \<Rightarrow> False) \<and> ae_rnd env = Some (t, c)"
proof (cases ev)
  case (Login rq b)
  then show ?thesis using assms
    by (auto simp: handle_login_def Let_def issue_cases credentials_equal_def split: if_splits option.splits prod.splits)
next
  case (Reset rq b)
  then show ?thesis using assms auth_required_frame(2) [of env rq s]
    by (auto simp: handle_reset_def issue_cases split: if_splits option.splits prod.splits)
qed (use assms in \<open>auto simp: handle_setup_def handle_logout_def handle_me_def Let_def issue_cases
      split: if_splits option.splits prod.splits sum.splits\<close>)

section \<open>Lockout\<close>

definition fail_all :: "string \<Rightarrow> int list \<Rightarrow> limiter \<Rightarrow> limiter" where
  "fail_all ip ts l = foldl (\<lambda>l t. record_failure t ip l) l ts"

lemma time_sub_id: "- (2 ^ 62) \<le> a \<Longrightarrow> a < 2 ^ 62 \<Longrightarrow> - (2 ^ 62) \<le> b \<Longrightarrow> b < 2 ^ 62 \<Longrightarrow> time_sub a b = a - b"
  by (simp add: time_sub_def)

lemma failures_in_window:
  assumes "l ip = None" "\<forall>t\<in>set (t0 # ts). t0 \<le> t \<and> t \<le> t0 + login_window \<and> - (2 ^ 62) \<le> t \<and> t < 2 ^ 62"
    and "length ts < 9"
  shows "fail_all ip (t0 # ts) l ip = Some \<lparr>rl_count = Suc (length ts), rl_start = t0, rl_blocked = None\<rparr>"
  using assms(2,3)
proof (induction ts rule: rev_induct)
  case Nil
  then show ?case using assms(1) by (simp add: fail_all_def record_failure_def)
next
  case (snoc t ts)
  then have "fail_all ip (t0 # ts) l ip = Some \<lparr>rl_count = Suc (length ts), rl_start = t0, rl_blocked = None\<rparr>" by simp
  moreover have "time_sub t t0 = t - t0" using snoc.prems by (intro time_sub_id) auto
  moreover have "\<not> login_window < t - t0" using snoc.prems by auto
  ultimately show ?case
    using snoc.prems(2) by (simp add: fail_all_def record_failure_def max_login_attempts_def Let_def)
qed

lemma allowed_in_window:
  assumes "l ip = Some \<lparr>rl_count = n, rl_start = t0, rl_blocked = None\<rparr>" "n < 10"
  shows "fst (limiter_allow now ip l)"
  using assms by (simp add: limiter_allow_def max_login_attempts_def)

lemma locked_out:
  assumes "l ip = None" "\<forall>t\<in>set (t0 # ts @ [t]). t0 \<le> t \<and> t \<le> t0 + login_window \<and> - (2 ^ 62) \<le> t \<and> t < 2 ^ 62"
    and "length ts = 8"
  shows "fail_all ip (t0 # ts @ [t]) l ip = Some \<lparr>rl_count = 10, rl_start = t0, rl_blocked = Some (t + login_block)\<rparr>"
proof -
  have "fail_all ip (t0 # ts) l ip = Some \<lparr>rl_count = Suc (length ts), rl_start = t0, rl_blocked = None\<rparr>"
    using assms by (intro failures_in_window) auto
  moreover have "time_sub t t0 = t - t0" using assms(2) by (intro time_sub_id) auto
  moreover have "\<not> login_window < t - t0" using assms(2) by auto
  ultimately show ?thesis
    using assms(3) by (simp add: fail_all_def record_failure_def max_login_attempts_def Let_def)
qed

section \<open>Properties\<close>

text \<open>C1: A request passes the middleware only with a token that was issued at most 24 hours ago and has
  been neither logged out nor revoked by a password reset since, over any sequence of requests to
  a server started without sessions.\<close>

theorem only_issued_sessions_pass:
  assumes "wa_store s0 = new_session_store" "list_all env_ok es"
    and "foldl logged_step (s0, []) es = (s, log)" "fst (auth_required env rq s)"
  shows "\<exists>t0. (rq_session rq, t0) \<in> set log \<and> ae_now env \<le> t0 + session_ttl"
proof -
  have "log_wf (s0, [])" using assms(1) by (simp add: log_wf_def new_session_store_def)
  from auth_run.run_inv [OF this assms(2)] have "log_wf (s, log)" unfolding assms(3) .
  then show ?thesis using assms(4) by (fastforce simp: auth_required_passes log_wf_def)
qed

definition demo_env :: "int \<Rightarrow> auth_env" where
  "demo_env now = \<lparr>ae_now = now, ae_rnd = Some (''tok'', ''csrf''), ae_persist = True\<rparr>"

definition demo_server :: web_auth where
  "demo_server = \<lparr>wa_user = ''admin'', wa_pass = ''secret123'', wa_store = new_session_store, wa_limiter = Map.empty\<rparr>"

definition demo_request :: "string \<Rightarrow> string \<Rightarrow> request" where
  "demo_request m csrf = \<lparr>rq_method = m, rq_path = ''/api/config'', rq_session = ''tok'', rq_csrf = csrf, rq_ip = ''1.2.3.4''\<rparr>"

definition demo_events :: "(auth_env \<times> auth_event) list" where
  "demo_events = [(demo_env 5, Login (demo_request ''POST'' '''') (Some (''admin'', ''secret123'')))]"

theorem only_issued_sessions_pass_witness:
  "\<exists>t0. (''tok'', t0) \<in> set (snd (foldl logged_step (demo_server, []) demo_events)) \<and> 9 \<le> t0 + session_ttl"
proof -
  obtain s log where r: "foldl logged_step (demo_server, []) demo_events = (s, log)" by (metis surj_pair)
  have "fst (auth_required (demo_env 9) (demo_request ''PUT'' ''csrf'') s)"
    using r by (auto simp: demo_events_def logged_step_def handle_login_def demo_server_def demo_env_def demo_request_def
        configured_def limiter_allow_def credentials_equal_def issue_cases auth_required_passes new_session_store_def
        persist_locked_def session_ttl_def minute_def)
  moreover have "list_all env_ok demo_events" by (simp add: env_ok_def demo_env_def demo_events_def)
  moreover have "wa_store demo_server = new_session_store" by (simp add: demo_server_def)
  ultimately show ?thesis
    using only_issued_sessions_pass [OF _ _ r, of "demo_env 9" "demo_request ''PUT'' ''csrf''"]
    by (auto simp: r demo_env_def demo_request_def)
qed

text \<open>A session is issued only to someone who has the credentials: by a setup while no password exists
  (with a name and at least eight characters), a login with the stored password and name (or no name),
  or a reset that is itself signed in and repeats the stored password.\<close>

theorem sessions_need_credentials:
  assumes "auth_step (env, ev) s = (SignedIn t c, s')"
  shows "case ev of
      Setup b \<Rightarrow> \<not> configured s \<and> (\<exists>u p. b = Some (u, p) \<and> u \<noteq> [] \<and> 8 \<le> length p)
    | Login rq b \<Rightarrow> configured s \<and> (\<exists>u. b = Some (u, wa_pass s) \<and> (u = wa_user s \<or> u = []))
    | Reset rq b \<Rightarrow> fst (auth_required env rq s) \<and> (\<exists>p. b = Some (wa_pass s, p) \<and> 8 \<le> length p)
    | _ \<Rightarrow> False"
  using signed_in_only_by_credentials [OF assms] by blast

theorem sessions_need_credentials_witness:
  "configured demo_server \<and> ''secret123'' = wa_pass demo_server"
proof -
  have "\<exists>s'. auth_step (demo_env 5, Login (demo_request ''POST'' '''') (Some (''admin'', ''secret123''))) demo_server =
      (SignedIn ''tok'' ''csrf'', s')"
    by (simp add: handle_login_def demo_server_def demo_env_def demo_request_def configured_def
        limiter_allow_def credentials_equal_def issue_cases)
  then obtain s' where "auth_step (demo_env 5, Login (demo_request ''POST'' '''') (Some (''admin'', ''secret123'')))
      demo_server = (SignedIn ''tok'' ''csrf'', s')" by blast
  from sessions_need_credentials [OF this] show ?thesis by auto
qed

text \<open>The middleware lets a request through exactly when its session is stored and unexpired and, for a
  state-changing method on a path that is not exempt, its CSRF header equals the session's token.\<close>

theorem middleware_decides:
  "fst (auth_required env rq s) \<longleftrightarrow>
     rq_session rq \<noteq> [] \<and> (\<exists>ss. st_sessions (wa_store s) (rq_session rq) = Some ss \<and> ae_now env \<le> ss_expires ss \<and>
       (if is_write_method (rq_method rq) \<and> \<not> csrf_exempt (rq_path rq) then rq_csrf rq = ss_csrf ss else True))"
  by (auto simp: auth_required_passes)

text \<open>A successful password reset leaves the new session as the only one: every older token is revoked.\<close>

theorem reset_revokes_all:
  assumes "handle_reset env body s = (SignedIn t c, s')"
  shows "dom (st_sessions (wa_store s')) = {t} \<and> wa_pass s' = snd (the body) \<and> wa_user s' = wa_user s"
  using assms by (auto simp: handle_reset_def issue_cases store_clear_def split: if_splits option.splits)

theorem reset_revokes_all_witness:
  "\<exists>s' :: web_auth. dom (st_sessions (wa_store s')) = {''tok''} \<and> wa_pass s' = ''new-secret''"
proof -
  have "\<exists>s'. handle_reset (demo_env 5) (Some (''secret123'', ''new-secret'')) demo_server = (SignedIn ''tok'' ''csrf'', s')"
    by (simp add: handle_reset_def issue_cases demo_env_def demo_server_def)
  then obtain s' where "handle_reset (demo_env 5) (Some (''secret123'', ''new-secret'')) demo_server = (SignedIn ''tok'' ''csrf'', s')"
    by blast
  from reset_revokes_all [OF this] show ?thesis by auto
qed

text \<open>Ten failed logins from an address within a minute lock it out for exactly five minutes from the tenth
  failure; each of the ten was still allowed to try.\<close>

theorem ten_failures_lock_out:
  assumes "l ip = None" "length ts = 8"
    and "\<forall>u\<in>set (t0 # ts @ [t]). t0 \<le> u \<and> u \<le> t0 + login_window \<and> - (2 ^ 62) \<le> u \<and> u < 2 ^ 62"
  shows "(fst (limiter_allow now ip (fail_all ip (t0 # ts @ [t]) l)) \<longleftrightarrow> t + login_block \<le> now) \<and>
    (\<forall>k\<le>8. fst (limiter_allow now ip (fail_all ip (t0 # take k ts) l)))"
proof
  have "fail_all ip (t0 # ts @ [t]) l ip = Some \<lparr>rl_count = 10, rl_start = t0, rl_blocked = Some (t + login_block)\<rparr>"
    by (rule locked_out [where l = l and ip = ip, OF assms(1,3,2)])
  then show "fst (limiter_allow now ip (fail_all ip (t0 # ts @ [t]) l)) \<longleftrightarrow> t + login_block \<le> now"
    by (auto simp: limiter_allow_def)
  show "\<forall>k\<le>8. fst (limiter_allow now ip (fail_all ip (t0 # take k ts) l))"
  proof (intro allI impI)
    fix k :: nat assume k: "k \<le> 8"
    have sub: "set (t0 # take k ts) \<subseteq> set (t0 # ts @ [t])" by (auto dest: in_set_takeD)
    have "fail_all ip (t0 # take k ts) l ip = Some \<lparr>rl_count = Suc (length (take k ts)), rl_start = t0, rl_blocked = None\<rparr>"
    proof (rule failures_in_window [where l = l and ip = ip, OF assms(1)])
      show "\<forall>t\<in>set (t0 # take k ts). t0 \<le> t \<and> t \<le> t0 + login_window \<and> - (2 ^ 62) \<le> t \<and> t < 2 ^ 62"
        using assms(3) sub by blast
      show "length (take k ts) < 9" using k by simp
    qed
    then show "fst (limiter_allow now ip (fail_all ip (t0 # take k ts) l))"
      using k assms(2) by (intro allowed_in_window) auto
  qed
qed

theorem ten_failures_lock_out_witness:
  "\<not> fst (limiter_allow 100 ''10.0.0.7'' (fail_all ''10.0.0.7'' (0 # [1, 2, 3, 4, 5, 6, 7, 8] @ [9]) Map.empty))"
  using ten_failures_lock_out [of Map.empty "''10.0.0.7''" "[1, 2, 3, 4, 5, 6, 7, 8]" 0 9 100]
  by (simp add: login_window_def login_block_def minute_def)

text \<open>A restart keeps the signed-in browsers: loading what was persisted gives exactly the sessions that
  have not expired by then.\<close>

theorem restart_keeps_sessions:
  assumes "st_path st"
  shows "st_sessions (new_session_store_at now (st_disk (persist_locked True st))) = prune_expired now (st_sessions st) \<and>
    (fst (store_validate now token st) = Inr who \<longrightarrow>
     fst (store_validate now token (new_session_store_at now (st_disk (persist_locked True st)))) = Inr who)"
  using assms by (auto simp: new_session_store_at_def persist_locked_def store_validate_def prune_expired_def
      split: option.splits)

definition demo_store :: session_store where
  "demo_store = \<lparr>st_sessions = [''tok'' \<mapsto> \<lparr>ss_user = ''admin'', ss_csrf = ''c'', ss_created = 5, ss_expires = 500\<rparr>],
     st_path = True, st_disk = None\<rparr>"

theorem restart_keeps_sessions_witness:
  "fst (store_validate 7 ''tok'' (new_session_store_at 7 (st_disk (persist_locked True demo_store)))) = Inr (''admin'', ''c'')"
proof -
  have p: "st_path demo_store" by (simp add: demo_store_def)
  have v: "fst (store_validate 7 ''tok'' demo_store) = Inr (''admin'', ''c'')"
    by (simp add: store_validate_def demo_store_def)
  show ?thesis using restart_keeps_sessions [OF p, of 7 "''tok''" "(''admin'', ''c'')"] v by blast
qed

end
