(* ===== verification/WebConfig.thy ===== *)
theory WebConfig
  imports Json Config CamParams
begin

text \<open>
  The configuration and imaging endpoints (\<open>internal/web/handlers.go\<close>, \<open>config_apply.go\<close>, the persisting parts
  of \<open>api.go\<close> and \<open>web.go\<close>). The YAML library is three arguments: \<open>doc_of\<close> decodes a text into a map (the inner
  \<open>None\<close> is the nil map of an empty document), \<open>text_of\<close> encodes one, and \<open>unmarshal\<close> decodes over a
  configuration as in \<open>Config.load\<close>. A reply is a status with what the caller is told; storing into a nil map
  panics.
\<close>

section \<open>Writing the file\<close>

text \<open>The configuration file, if it exists, and the temporary files beside it.\<close>

record fs =
  fs_file :: "string option"
  fs_temps :: nat

record write_env =
  we_create :: bool
  we_write :: bool
  we_sync :: bool
  we_close :: bool
  we_rename :: bool

definition atomic_write :: "write_env \<Rightarrow> string \<Rightarrow> fs \<Rightarrow> bool \<times> fs" where
  "atomic_write en data f =
     (if \<not> we_create en then (False, f)
      else
        let f1 = f\<lparr>fs_temps := fs_temps f + 1\<rparr>; removed = f1\<lparr>fs_temps := fs_temps f1 - 1\<rparr> in
        if \<not> we_write en then (False, removed)
        else if \<not> we_sync en then (False, removed)
        else if \<not> we_close en then (False, removed)
        else if \<not> we_rename en then (False, removed)
        else (True, f1\<lparr>fs_file := Some data, fs_temps := fs_temps f1 - 1\<rparr>))"

text \<open>Reading, editing and rewriting the document.\<close>

datatype persist = Persisted | PersistFailed | PersistPanics

type_synonym yaml = "(string \<Rightarrow> doc option option) \<times> (doc \<Rightarrow> string option)"

definition persist_edit :: "yaml \<Rightarrow> write_env \<Rightarrow> bool \<Rightarrow> (doc \<Rightarrow> doc) \<Rightarrow> fs \<Rightarrow> persist \<times> fs" where
  "persist_edit = (\<lambda>(doc_of, text_of) en has_path edit f.
     if \<not> has_path then (PersistFailed, f)
     else case fs_file f of
       None \<Rightarrow> (PersistFailed, f)
     | Some data \<Rightarrow>
         (case doc_of data of
            None \<Rightarrow> (PersistFailed, f)
          | Some None \<Rightarrow> (PersistPanics, f)
          | Some (Some cfg) \<Rightarrow>
              (case text_of (edit cfg) of
                 None \<Rightarrow> (PersistFailed, f)
               | Some out \<Rightarrow> (case atomic_write en out f of (ok, f') \<Rightarrow> (if ok then Persisted else PersistFailed, f')))))"

text \<open>\<open>section[key] = value\<close> in a new section when there is none.\<close>

definition set_in :: "string \<Rightarrow> string \<Rightarrow> json \<Rightarrow> doc \<Rightarrow> doc" where
  "set_in sec key v cfg =
     AList.update sec (JObj (AList.update key v (case section_of cfg sec of Some s \<Rightarrow> s | None \<Rightarrow> []))) cfg"

definition persist_camera_flip :: "yaml \<Rightarrow> write_env \<Rightarrow> bool \<Rightarrow> string \<Rightarrow> json \<Rightarrow> fs \<Rightarrow> persist \<times> fs" where
  "persist_camera_flip y en has_path key v = persist_edit y en has_path (set_in ''camera'' key v)"

definition default_model_path :: string where
  "default_model_path = ''/var/lib/mibee-eye/models/nanodet-m.onnx''"

definition persist_ai_model :: "yaml \<Rightarrow> write_env \<Rightarrow> bool \<Rightarrow> string \<Rightarrow> fs \<Rightarrow> persist \<times> fs" where
  "persist_ai_model y en has_path model_id =
     persist_edit y en has_path
       (\<lambda>cfg. set_in ''ai'' ''model_path'' (JStr default_model_path) (set_in ''ai'' ''model'' (JStr model_id) cfg))"

definition persist_web_credentials :: "yaml \<Rightarrow> write_env \<Rightarrow> bool \<Rightarrow> int \<Rightarrow> string \<Rightarrow> string \<Rightarrow> fs \<Rightarrow> persist \<times> fs" where
  "persist_web_credentials y en has_path port user pass =
     persist_edit y en has_path
       (AList.update ''web''
          (JObj [(''enabled'', JBool True), (''port'', JInt port), (''username'', JStr user), (''password'', JStr pass)]))"

section \<open>How a change applies\<close>

definition camera_restart_eligible :: "camera_config \<Rightarrow> camera_config \<Rightarrow> bool" where
  "camera_restart_eligible old new =
     (if cam_mode old \<noteq> cam_mode new then False
      else if cam_width old \<noteq> cam_width new \<or> cam_height old \<noteq> cam_height new then False
      else if cam_fps old \<noteq> cam_fps new \<or> cam_bitrate old \<noteq> cam_bitrate new \<or> cam_codec old \<noteq> cam_codec new then False
      else if cam_substream old \<noteq> cam_substream new then False
      else effective_dims old = effective_dims new)"

section \<open>The state of the handlers\<close>

record web_state =
  ws_has_path :: bool
  ws_fs :: fs
  ws_username :: string
  ws_password :: string
  ws_self_restarts :: nat
  ws_camera_restarts :: nat

definition self_restart :: "web_state \<Rightarrow> web_state" where
  "self_restart s = s\<lparr>ws_self_restarts := ws_self_restarts s + 1\<rparr>"

text \<open>The restart hook of the camera: absent, failing or succeeding.\<close>

datatype camera_hook = NoHook | HookFails | HookWorks

text \<open>\<open>applied\<close> with what the reply says, and the new state; a failing hook falls back to the process.\<close>

definition apply_camera_restart :: "camera_hook \<Rightarrow> web_state \<Rightarrow> string \<times> web_state" where
  "apply_camera_restart hook s =
     (case hook of
        HookWorks \<Rightarrow> (''camera_restart'', s\<lparr>ws_camera_restarts := ws_camera_restarts s + 1\<rparr>)
      | _ \<Rightarrow> (''restart'', self_restart s))"

datatype put_reply = PutError nat | Applied string | PutPanics

text \<open>\<open>for k, v := range update { cfg[k] = ... }\<close> on a nil map.\<close>

definition merge_into :: "doc option \<Rightarrow> doc \<Rightarrow> doc option" where
  "merge_into cfg update = (case cfg of Some c \<Rightarrow> Some (deep_merge c update) | None \<Rightarrow> if update = [] then Some [] else None)"

definition take_username :: "doc \<Rightarrow> web_state \<Rightarrow> web_state" where
  "take_username update s =
     (case section_of update ''web'' of
        None \<Rightarrow> s
      | Some sec \<Rightarrow>
          (case string_of sec ''username'' of
             None \<Rightarrow> s
           | Some u \<Rightarrow> if u \<noteq> '''' \<and> u \<noteq> ''****'' then s\<lparr>ws_username := u\<rparr> else s))"

text \<open>The part before the write: the restored update, the new text, and the configurations before and after.\<close>

datatype put_plan = PlanError nat | PlanPanics | Plan doc string config config

definition plan_put ::
  "yaml \<Rightarrow> (string \<Rightarrow> config \<Rightarrow> config option) \<Rightarrow> bool \<Rightarrow> string option \<Rightarrow> doc option \<Rightarrow> put_plan"
where
  "plan_put = (\<lambda>(doc_of, text_of) unmarshal has_path file body.
     if \<not> has_path then PlanError 501
     else case body of
       None \<Rightarrow> PlanError 400
     | Some update0 \<Rightarrow>
     (case file of
       None \<Rightarrow> PlanError 500
     | Some data \<Rightarrow>
     (case doc_of data of
       None \<Rightarrow> PlanError 500
     | Some cfg \<Rightarrow>
     let update = restore_masked_secrets update0 (case cfg of None \<Rightarrow> [] | Some c \<Rightarrow> c) in
     (case unmarshal data default_config of
       None \<Rightarrow> PlanError 500
     | Some old_check \<Rightarrow>
     (case merge_into cfg update of
       None \<Rightarrow> PlanPanics
     | Some m \<Rightarrow>
     (case text_of m of
       None \<Rightarrow> PlanError 500
     | Some out \<Rightarrow>
     (case unmarshal out default_config of
       None \<Rightarrow> PlanError 400
     | Some check0 \<Rightarrow>
     (case validate check0 of Inl e \<Rightarrow> PlanError 400 | Inr check \<Rightarrow> Plan update out old_check check))))))))"

definition handle_put_config ::
  "yaml \<Rightarrow> (string \<Rightarrow> config \<Rightarrow> config option) \<Rightarrow> write_env \<Rightarrow> camera_hook \<Rightarrow> doc option \<Rightarrow> web_state \<Rightarrow> put_reply \<times> web_state"
where
  "handle_put_config y unmarshal en hook body s =
     (case plan_put y unmarshal (ws_has_path s) (fs_file (ws_fs s)) body of
        PlanError e \<Rightarrow> (PutError e, s)
      | PlanPanics \<Rightarrow> (PutPanics, s)
      | Plan update out old_check check \<Rightarrow>
          (case atomic_write en out (ws_fs s) of
             (False, f) \<Rightarrow> (PutError 500, s\<lparr>ws_fs := f\<rparr>)
           | (True, f) \<Rightarrow>
               let s1 = take_username update (s\<lparr>ws_fs := f\<rparr>);
                   camera_touched = section_of update ''camera'' \<noteq> None in
               if camera_touched \<and> hook \<noteq> NoHook \<and> camera_restart_eligible (cf_camera old_check) (cf_camera check)
               then (case apply_camera_restart hook s1 of (a, s2) \<Rightarrow> (Applied a, s2))
               else (Applied ''restart'', self_restart s1)))"

section \<open>The configuration document\<close>



section \<open>Imaging parameters\<close>

definition require_camera0 :: "string \<Rightarrow> bool" where
  "require_camera0 path_id \<longleftrightarrow> path_id = ''0''"

text \<open>The manager's parameters that can be read, and its ranges and enumerations.\<close>

definition handle_get_camera_params ::
  "(string \<Rightarrow> 'c \<Rightarrow> param_error + param_value) \<Rightarrow> string \<Rightarrow> 'c param_manager option \<Rightarrow> nat + (string \<times> param_value) list"
where
  "handle_get_camera_params get_p path_id params =
     (if \<not> require_camera0 path_id then Inl 404
      else case params of
        None \<Rightarrow> Inl 500
      | Some pm \<Rightarrow>
          Inr (concat (map (\<lambda>name. case manager_get get_p name pm of Inr v \<Rightarrow> [(name, v)] | Inl e \<Rightarrow> [])
                 (map fst param_ranges @ map fst param_enums))))"

definition handle_get_camera_options :: "string \<Rightarrow> nat + doc" where
  "handle_get_camera_options path_id =
     (if \<not> require_camera0 path_id then Inl 404
      else Inr
        (map (\<lambda>(name, rg). (name, JObj [(''min'', JNum (rg_min rg)), (''max'', JNum (rg_max rg)), (''default'', JNum (rg_default rg))]))
           param_ranges @
         map (\<lambda>(name, enums). (name, JObj [(''enums'', JList (map JStr enums))])) param_enums))"

text \<open>
  A decoded number that is an integer becomes one, unless its shortest \<open>%g\<close> text has a point, as it does from
  a million on with more than one significant digit. \<open>oor\<close> is the conversion of a number that does not fit.
\<close>

function significant :: "nat \<Rightarrow> nat" where
  "significant n = (if n = 0 \<or> n mod 10 \<noteq> 0 then n else significant (n div 10))"
  by pat_completeness auto

termination significant by (relation "measure id") auto

declare significant.simps [simp del]

definition text_has_point :: "int \<Rightarrow> bool" where
  "text_has_point n \<longleftrightarrow> 1000000 \<le> \<bar>n\<bar> \<and> 10 \<le> significant (nat \<bar>n\<bar>)"

definition coerce_float64 :: "(float64 \<Rightarrow> int) \<Rightarrow> json \<Rightarrow> param_value" where
  "coerce_float64 oor v =
     (case v of
        JNum f \<Rightarrow>
          let n = (case f64_trunc f of Some n \<Rightarrow> if - (2 ^ 63) \<le> n \<and> n < 2 ^ 63 then n else oor f | None \<Rightarrow> oor f) in
          if f64_eq f (f64_of_int n) \<and> \<not> text_has_point n then VInt n else VF64 f
      | JBool b \<Rightarrow> VBool b
      | JStr s \<Rightarrow> VStr s
      | JInt n \<Rightarrow> VInt n
      | _ \<Rightarrow> VOther)"

definition flip_as_bool :: "param_value \<Rightarrow> bool option" where
  "flip_as_bool v = (case v of VBool b \<Rightarrow> Some b | VInt n \<Rightarrow> Some (n \<noteq> 0) | VF64 x \<Rightarrow> Some (\<not> f64_eq x 0) | _ \<Rightarrow> None)"

definition flip_unchanged :: "(string \<Rightarrow> 'c \<Rightarrow> param_error + param_value) \<Rightarrow> string \<Rightarrow> param_value \<Rightarrow> 'c param_manager \<Rightarrow> bool" where
  "flip_unchanged get_p name v pm =
     (case manager_get get_p name pm of
        Inl e \<Rightarrow> False
      | Inr cur \<Rightarrow> flip_as_bool cur \<noteq> None \<and> flip_as_bool v \<noteq> None \<and> flip_as_bool cur = flip_as_bool v)"

text \<open>What the YAML encoder is given.\<close>

definition json_of_param :: "param_value \<Rightarrow> json" where
  "json_of_param v =
     (case v of VBool b \<Rightarrow> JBool b | VInt n \<Rightarrow> JInt n | VF64 x \<Rightarrow> JNum x | VStr s \<Rightarrow> JStr s | _ \<Rightarrow> JNull)"

definition is_flip :: "string \<Rightarrow> bool" where
  "is_flip name \<longleftrightarrow> name = ''HFlip'' \<or> name = ''VFlip''"

definition handle_post_camera_param ::
  "yaml \<Rightarrow> (float64 \<Rightarrow> int) \<Rightarrow> (string \<Rightarrow> param_value \<Rightarrow> 'c \<Rightarrow> param_error option \<times> 'c) \<Rightarrow>
   (string \<Rightarrow> 'c \<Rightarrow> param_error + param_value) \<Rightarrow> write_env \<Rightarrow> camera_hook \<Rightarrow> string \<Rightarrow> (string \<times> json) option \<Rightarrow>
   'c param_manager \<Rightarrow> web_state \<Rightarrow> put_reply \<times> 'c param_manager \<times> web_state"
where
  "handle_post_camera_param y oor set_p get_p en hook path_id body pm s =
     (if \<not> require_camera0 path_id then (PutError 404, pm, s)
      else case body of
        None \<Rightarrow> (PutError 400, pm, s)
      | Some (name, raw) \<Rightarrow>
          if name = '''' then (PutError 400, pm, s)
          else
            let value = coerce_float64 oor raw in
            if is_flip name \<and> flip_unchanged get_p name value pm then (Applied '''', pm, s)
            else case manager_set set_p name value pm of
              (Some e, pm1) \<Rightarrow> (PutError 400, pm1, s)
            | (None, pm1) \<Rightarrow>
                if is_flip name then
                  case persist_camera_flip y en (ws_has_path s) (map lower_char name) (json_of_param value) (ws_fs s) of
                    (Persisted, f) \<Rightarrow>
                      (case apply_camera_restart hook (s\<lparr>ws_fs := f\<rparr>) of (a, s2) \<Rightarrow> (Applied a, pm1, s2))
                  | (PersistFailed, f) \<Rightarrow> (PutError 500, pm1, s\<lparr>ws_fs := f\<rparr>)
                  | (PersistPanics, f) \<Rightarrow> (PutPanics, pm1, s)
                else (Applied '''', pm1, s))"

section \<open>The file stays whole\<close>


lemma atomic_write_file:
  "fs_file (snd (atomic_write en data f)) = (if fst (atomic_write en data f) then Some data else fs_file f)"
  by (simp add: atomic_write_def Let_def)

lemma atomic_write_False: "atomic_write en data f = (False, f') \<Longrightarrow> f' = f"
  by (auto simp: atomic_write_def Let_def split: if_splits)

lemma persist_edit_kept: "persist_edit y en has_path edit f = (r, f') \<Longrightarrow> r \<noteq> Persisted \<Longrightarrow> f' = f"
  by (auto simp: persist_edit_def split: if_splits option.splits prod.splits dest: atomic_write_False)

lemma persist_edit_written:
  "persist_edit (doc_of, text_of) en has_path edit f = (Persisted, f') \<Longrightarrow>
   \<exists>data cfg out. fs_file f = Some data \<and> doc_of data = Some (Some cfg) \<and> text_of (edit cfg) = Some out \<and> fs_file f' = Some out"
  using atomic_write_file by (auto simp: persist_edit_def split: if_splits option.splits prod.splits) (metis fst_conv snd_conv)+

lemma set_in_at: "doc_at (set_in sec key v cfg) [sec, key] = Some v"
  by (simp add: set_in_def)

lemma set_in_other: "doc_at (set_in sec key v cfg) [sec', key'] = doc_at cfg [sec', key']" if "sec' \<noteq> sec \<or> key' \<noteq> key"
  using that by (auto simp: set_in_def section_of_def split: option.splits json.splits)


lemma take_username_simps [simp]:
  "ws_fs (take_username u s) = ws_fs s" "ws_self_restarts (take_username u s) = ws_self_restarts s"
  "ws_camera_restarts (take_username u s) = ws_camera_restarts s" "ws_password (take_username u s) = ws_password s"
  by (simp_all add: take_username_def split: option.split)




section \<open>A saved configuration starts\<close>







text \<open>Whether the process restarts depends on the camera section alone: when the request names it and the hook works,
  a change that leaves the stream's geometry is answered with a camera restart, whatever else has changed, and the
  other sections wait for the next start.\<close>

theorem camera_section_decides:
  assumes "plan_put y unmarshal (ws_has_path s) (fs_file (ws_fs s)) body = Plan update out old check"
    "section_of update ''camera'' \<noteq> None" "camera_restart_eligible (cf_camera old) (cf_camera check)"
    "fst (atomic_write en out (ws_fs s))"
  shows "\<exists>s'. handle_put_config y unmarshal en HookWorks body s = (Applied ''camera_restart'', s') \<and>
    fs_file (ws_fs s') = Some out \<and> ws_self_restarts s' = ws_self_restarts s"
proof -
  obtain f where w: "atomic_write en out (ws_fs s) = (True, f)" using assms(4) by (cases "atomic_write en out (ws_fs s)") simp
  then have "fs_file f = Some out" using atomic_write_file [of en out "ws_fs s"] by simp
  then show ?thesis using assms(1,2,3) w by (simp add: handle_put_config_def apply_camera_restart_def)
qed

definition example_yaml :: yaml where
  "example_yaml = (\<lambda>t. Some (Some [(''rtsp'', JObj [(''port'', JInt 8554)])]),
     \<lambda>d. Some (if doc_at d [''rtsp'', ''port''] = Some (JInt 8555) then ''new'' else ''old''))"

definition example_unmarshal :: "string \<Rightarrow> config \<Rightarrow> config option" where
  "example_unmarshal t c = Some (if t = ''new'' then (cf_rtsp_update \<circ> rtsp_port_update) (\<lambda>_. 8555) c else c)"

definition example_web_state :: web_state where
  "example_web_state = \<lparr>ws_has_path = True, ws_fs = \<lparr>fs_file = Some ''old'', fs_temps = 0\<rparr>, ws_username = ''admin'',
     ws_password = ''pw'', ws_self_restarts = 0, ws_camera_restarts = 0\<rparr>"

definition all_writes_work :: write_env where
  "all_writes_work = \<lparr>we_create = True, we_write = True, we_sync = True, we_close = True, we_rename = True\<rparr>"

lemma example_plan:
  "plan_put example_yaml example_unmarshal True (Some ''old'')
     (Some [(''camera'', JObj [(''fps'', JNum 0)]), (''rtsp'', JObj [(''port'', JInt 8555)])]) =
   Plan [(''camera'', JObj [(''fps'', JNum 0)]), (''rtsp'', JObj [(''port'', JInt 8555)])] ''new'' default_config
     (cf_rtsp_update (rtsp_port_update (\<lambda>_. 8555)) default_config)"
proof -
  let ?c = "cf_rtsp_update (rtsp_port_update (\<lambda>_. 8555)) default_config"
  have "normalized ?c = cf_rtsp_update (rtsp_port_update (\<lambda>_. 8555)) (normalized default_config)" by (simp add: normalized_def)
  then have n: "normalized ?c = ?c" using default_valid by simp
  have "config_valid ?c" using default_valid(1) by (simp add: config_valid_def)
  then have "validate ?c = Inr ?c" by (simp add: validate_iff n)
  moreover have "restore_masked_secrets [(''camera'', JObj [(''fps'', JNum 0)]), (''rtsp'', JObj [(''port'', JInt 8555)])]
      [(''rtsp'', JObj [(''port'', JInt 8554)])] = [(''camera'', JObj [(''fps'', JNum 0)]), (''rtsp'', JObj [(''port'', JInt 8555)])]"
    by (simp add: restore_masked_secrets_def masked_sections_def restore_section_def section_of_def string_of_def)
  ultimately show ?thesis
    by (simp add: plan_put_def example_yaml_def example_unmarshal_def merge_into_def deep_merge_Cons merged_def Let_def)
qed

theorem camera_section_decides_witness:
  "\<exists>s'. handle_put_config example_yaml example_unmarshal all_writes_work HookWorks
       (Some [(''camera'', JObj [(''fps'', JNum 0)]), (''rtsp'', JObj [(''port'', JInt 8555)])]) example_web_state =
     (Applied ''camera_restart'', s') \<and> fs_file (ws_fs s') = Some ''new'' \<and> ws_self_restarts s' = 0"
  using camera_section_decides [of example_yaml example_unmarshal example_web_state _ _ "''new''" default_config _ all_writes_work]
    example_plan
  by (simp add: example_web_state_def section_of_def camera_restart_eligible_def effective_dims_def atomic_write_def all_writes_work_def Let_def)

text \<open>A flip whose file could not be written has already changed the camera's parameter, so sending it again counts
  as no change: it is answered with success, and nothing is saved or restarted.\<close>

theorem lost_flip_is_not_retried:
  assumes "is_flip name"
    "handle_post_camera_param y oor (rpi_set_param cv) base_get_param en hook ''0'' (Some (name, JBool b)) pm s = (PutError 500, pm1, s1)"
  shows "s1 = s \<and>
    handle_post_camera_param y oor (rpi_set_param cv) base_get_param en2 hook2 ''0'' (Some (name, JBool b)) pm1 s1 = (Applied '''', pm1, s1)"
proof -
  have name: "name = ''HFlip'' \<or> name = ''VFlip''" using assms(1) by (simp add: is_flip_def)
  have set: "manager_set (rpi_set_param cv) name (VBool b) pm = (None, pm1)" and s1: "s1 = s"
    using assms name
    by (auto simp: handle_post_camera_param_def require_camera0_def coerce_float64_def persist_camera_flip_def Let_def
        split: if_splits option.splits prod.splits persist.splits dest: persist_edit_kept)
  have "manager_get base_get_param name pm1 = Inr (stored_value cv (the (map_of onvif_to_cam name)) (VBool b))"
    by (rule rpi_params.manager_set_get [OF set])
  moreover have "stored_value cv (the (map_of onvif_to_cam name)) (VBool b) = VBool b"
    using name by (auto simp: onvif_to_cam_def stored_value_def managed_fields_eq set_field_def bool_value_def get_field_def)
  ultimately have "flip_unchanged base_get_param name (VBool b) pm1" by (simp add: flip_unchanged_def flip_as_bool_def)
  then show ?thesis using assms(1) name s1
    by (auto simp: handle_post_camera_param_def require_camera0_def coerce_float64_def Let_def)
qed

lemma example_flip_set: "\<exists>pm1. manager_set (rpi_set_param example_conv) ''HFlip'' (VBool True) example_cam = (None, pm1)"
  by (simp add: manager_set_def manager_validate_def param_enums_def param_ranges_def to_float64_def onvif_to_cam_def
      f64_less_def ieee_nan_def ieee_key_def example_cam_def new_param_manager_def rpi_set_param_def base_set_param_def
      map_param_name_def param_names_def set_param_value_def param_fields_def set_field_def bool_value_def default_params_def)

theorem lost_flip_is_not_retried_witness:
  "\<exists>pm1. handle_post_camera_param example_yaml (\<lambda>x. 0) (rpi_set_param example_conv) base_get_param
       (all_writes_work\<lparr>we_sync := False\<rparr>) NoHook ''0'' (Some (''HFlip'', JBool True)) example_cam example_web_state =
     (PutError 500, pm1, example_web_state) \<and>
   handle_post_camera_param example_yaml (\<lambda>x. 0) (rpi_set_param example_conv) base_get_param
       all_writes_work NoHook ''0'' (Some (''HFlip'', JBool True)) pm1 example_web_state = (Applied '''', pm1, example_web_state)"
proof -
  obtain pm1 where set: "manager_set (rpi_set_param example_conv) ''HFlip'' (VBool True) example_cam = (None, pm1)"
    using example_flip_set by blast
  have "manager_get base_get_param ''HFlip'' example_cam = Inr (VBool False)"
    by (simp add: manager_get_def onvif_to_cam_def example_cam_def new_param_manager_def base_get_param_def map_param_name_def
        param_names_def get_param_value_def param_fields_def get_field_def default_params_def)
  then have "\<not> flip_unchanged base_get_param ''HFlip'' (VBool True) example_cam" by (simp add: flip_unchanged_def flip_as_bool_def)
  then have "handle_post_camera_param example_yaml (\<lambda>x. 0) (rpi_set_param example_conv) base_get_param
       (all_writes_work\<lparr>we_sync := False\<rparr>) NoHook ''0'' (Some (''HFlip'', JBool True)) example_cam example_web_state =
     (PutError 500, pm1, example_web_state)"
    using set by (simp add: handle_post_camera_param_def require_camera0_def coerce_float64_def is_flip_def persist_camera_flip_def
        persist_edit_def example_yaml_def example_web_state_def all_writes_work_def atomic_write_def Let_def)
  then show ?thesis using lost_flip_is_not_retried [of "''HFlip''"] by (auto simp: is_flip_def)
qed

text \<open>A flip posted as the number one, which the manager accepts, is saved as a number; decoding it into the
  configuration's boolean then fails.\<close>

lemma numeric_flip_saved_as_number: "json_of_param (coerce_float64 oor (JNum (f64_of_int 1))) = JInt 1"
proof -
  have "f64_eq (f64_of_int 1) (f64_of_int 1)" by (simp add: f64_eq_def f64_is_nan_def f64_exp_def f64_of_int_def fl_encode_def
      int_log2.simps with_sign_def f64_inf_def)
  then show ?thesis using f64_trunc_of_int [of 1] by (simp add: coerce_float64_def json_of_param_def text_has_point_def)
qed

text \<open>Saving credentials replaces the whole section, so its other settings are lost.\<close>

lemma credentials_replace_section:
  "persist_web_credentials (doc_of, text_of) en has_path port u p f = (Persisted, f') \<Longrightarrow>
   \<exists>data cfg out d. fs_file f = Some data \<and> doc_of data = Some (Some cfg) \<and> text_of d = Some out \<and> fs_file f' = Some out \<and>
     doc_at d [''web'', ''allowed_origins''] = None \<and> doc_at d [''web'', ''username''] = Some (JStr u)"
  unfolding persist_web_credentials_def by (drule persist_edit_written) fastforce

end
