(* ===== verification/Observe.thy ===== *)
theory Observe
  imports Ieee TextUtil Json
begin

text \<open>
  Observability (\<open>internal/web/observe.go\<close>): the parsers of \<open>/proc\<close>, the sampler with its rates, the two
  bounded rings, request tracing and the endpoints that serve them. What the kernel's files hold, the clock and
  the parser of floating-point text are arguments; \<open>None\<close> is a panic.
\<close>

section \<open>The parsers\<close>

record cpu_times =
  ct_idle :: "64 word"
  ct_total :: "64 word"

text \<open>The leading fields that are numbers.\<close>

fun leading_numbers :: "string list \<Rightarrow> nat list" where
  "leading_numbers [] = []"
| "leading_numbers (f # fs) = (case parse_uint 64 f of None \<Rightarrow> [] | Some v \<Rightarrow> v # leading_numbers fs)"

definition cpu_times_of :: "nat list \<Rightarrow> cpu_times option option" where
  "cpu_times_of vals =
     (if vals = [] then Some None
      else if length vals < 4 then None
      else
        let idle = of_nat (vals ! 3); idle = (if 4 < length vals then idle + of_nat (vals ! 4) else idle) in
        Some (Some \<lparr>ct_idle = idle, ct_total = sum_list (map of_nat vals)\<rparr>))"

fun parse_cpu_lines :: "string list \<Rightarrow> cpu_times option option" where
  "parse_cpu_lines [] = Some None"
| "parse_cpu_lines (line # ls) =
     (if \<not> prefix ''cpu '' line then parse_cpu_lines ls else cpu_times_of (leading_numbers (tl (TextUtil.fields line))))"

definition parse_cpu_stat :: "string \<Rightarrow> cpu_times option option" where
  "parse_cpu_stat content = parse_cpu_lines (split_on CHR 0x0A content)"

text \<open>
  \<open>Sscanf(line, lit ++ " %d...", &v)\<close> after the line is known to start with \<open>lit\<close>: a space must follow, further
  white space is skipped, and the digits, if there are any and they fit, are stored; anything else leaves \<open>v\<close>.
\<close>

definition scan_uint :: "string \<Rightarrow> string \<Rightarrow> 64 word \<Rightarrow> 64 word" where
  "scan_uint lit line old =
     (let rest = drop (length lit) line in
      if leading_space rest = [] then old
      else case parse_uint 64 (takeWhile (\<lambda>c. digit_value c \<noteq> None) (trim_left rest)) of
             None \<Rightarrow> old | Some n \<Rightarrow> of_nat n)"

fun parse_two :: "string \<Rightarrow> string \<Rightarrow> string list \<Rightarrow> 64 word \<times> 64 word \<times> bool \<Rightarrow> 64 word \<times> 64 word \<times> bool" where
  "parse_two a b [] st = st"
| "parse_two a b (line # ls) (x, y, found) =
     (if prefix a line then parse_two a b ls (scan_uint a line x, y, True)
      else if prefix b line then parse_two a b ls (x, scan_uint b line y, found)
      else parse_two a b ls (x, y, found))"

definition parse_meminfo :: "string \<Rightarrow> (64 word \<times> 64 word) option" where
  "parse_meminfo content =
     (case parse_two ''MemTotal:'' ''MemAvailable:'' (split_on CHR 0x0A content) (0, 0, False) of
        (mem_total, avail, found) \<Rightarrow> if \<not> found then None else Some (mem_total * 1024, avail * 1024))"

definition parse_self_io :: "string \<Rightarrow> (64 word \<times> 64 word) option" where
  "parse_self_io content =
     (case parse_two ''rchar:'' ''wchar:'' (split_on CHR 0x0A content) (0, 0, False) of
        (rchar, wchar, found) \<Rightarrow> if \<not> found then None else Some (rchar, wchar))"

text \<open>\<open>v, _ := ParseUint(f, 10, 64)\<close>: no digits give 0, a number that does not fit the largest.\<close>

definition uint_or_limit :: "string \<Rightarrow> 64 word" where
  "uint_or_limit s =
     (if s = [] then 0
      else case digits_value 0 s of None \<Rightarrow> 0 | Some n \<Rightarrow> if n < 2 ^ 64 then of_nat n else - 1)"

definition net_line :: "64 word \<times> 64 word \<Rightarrow> string \<Rightarrow> 64 word \<times> 64 word" where
  "net_line = (\<lambda>(rx, tx) line.
     (case cut CHR '':'' line of
        (iface, data, found) \<Rightarrow>
          if \<not> found \<or> trim_space iface = ''lo'' then (rx, tx)
          else let fs = TextUtil.fields data in
               if 8 < length fs then (rx + uint_or_limit (fs ! 0), tx + uint_or_limit (fs ! 8)) else (rx, tx)))"

definition parse_net_dev :: "string \<Rightarrow> 64 word \<times> 64 word" where
  "parse_net_dev content = foldl net_line (0, 0) (drop 2 (split_on CHR 0x0A content))"

definition parse_self_stat :: "string \<Rightarrow> (64 word \<times> 64 word) option" where
  "parse_self_stat content =
     (case cut CHR '')'' content of
        (before, rest, found) \<Rightarrow>
          if \<not> found then None
          else let fs = TextUtil.fields rest in
               if length fs < 13 then None
               else case (parse_uint 64 (fs ! 11), parse_uint 64 (fs ! 12)) of
                      (Some u, Some st) \<Rightarrow> Some (of_nat u, of_nat st)
                    | _ \<Rightarrow> None)"

section \<open>Rates\<close>

definition f64_100 :: float64 where
  "f64_100 = f64_of_int 100"

definition cpu_percent_between :: "cpu_times \<Rightarrow> cpu_times \<Rightarrow> float64" where
  "cpu_percent_between prev cur =
     (let d_total = ct_total cur - ct_total prev in
      if ct_total prev = 0 \<or> d_total = 0 then 0
      else
        let d_idle = ct_idle cur - ct_idle prev;
            pct = f64_mul (f64_quot (f64_of_int (uint (d_total - d_idle))) (f64_of_int (uint d_total))) f64_100;
            pct = (if f64_less pct 0 then 0 else pct) in
        if f64_less f64_100 pct then f64_100 else pct)"

definition proc_cpu_percent :: "64 word \<Rightarrow> 64 word \<Rightarrow> float64 \<Rightarrow> float64 \<Rightarrow> float64" where
  "proc_cpu_percent prev_ticks cur_ticks dt_secs num_cpus =
     (if f64_less dt_secs 0 \<or> f64_eq dt_secs 0 \<or> f64_less num_cpus 0 \<or> f64_eq num_cpus 0 then 0
      else
        let pct = f64_quot (f64_mul (f64_quot (f64_quot (f64_of_int (uint (cur_ticks - prev_ticks))) f64_100) dt_secs) f64_100)
                    num_cpus in
        if f64_less pct 0 then 0 else pct)"

section \<open>Sampling\<close>

record sample =
  sm_ts :: int
  sm_cpu :: cpu_times
  sm_ticks :: "64 word"
  sm_net :: "64 word \<times> 64 word"

record snapshot =
  sn_ts :: int
  sn_interval_ms :: int
  sn_cpu :: float64
  sn_load :: "float64 list"
  sn_mem :: "64 word \<times> 64 word"
  sn_net :: "64 word \<times> 64 word"
  sn_rates :: "float64 \<times> float64"
  sn_proc_cpu :: float64
  sn_rss :: "64 word"
  sn_fds :: nat
  sn_io :: "64 word \<times> 64 word"

text \<open>What the files hold when they can be read, the open descriptors, the time, the processors.\<close>

record proc_env =
  pv_now :: int
  pv_stat :: "string option"
  pv_self_stat :: "string option"
  pv_net_dev :: "string option"
  pv_meminfo :: "string option"
  pv_loadavg :: "string option"
  pv_self_io :: "string option"
  pv_status :: "string option"
  pv_fds :: "nat option"
  pv_cpus :: nat

definition read_sample :: "proc_env \<Rightarrow> sample option" where
  "read_sample e =
     (let cpu = (case pv_stat e of None \<Rightarrow> Some None | Some d \<Rightarrow> parse_cpu_stat d);
          ticks = (case pv_self_stat e of None \<Rightarrow> 0
                   | Some d \<Rightarrow> (case parse_self_stat d of None \<Rightarrow> 0 | Some (u, st) \<Rightarrow> u + st));
          net = (case pv_net_dev e of None \<Rightarrow> (0, 0) | Some d \<Rightarrow> parse_net_dev d) in
      map_option (\<lambda>ct. \<lparr>sm_ts = pv_now e, sm_cpu = (case ct of None \<Rightarrow> \<lparr>ct_idle = 0, ct_total = 0\<rparr> | Some t \<Rightarrow> t),
                        sm_ticks = ticks, sm_net = net\<rparr>) cpu)"

definition read_load_avg :: "(string \<Rightarrow> float64) \<Rightarrow> string option \<Rightarrow> float64 list" where
  "read_load_avg parse_float file =
     (case file of
        None \<Rightarrow> [0, 0, 0]
      | Some d \<Rightarrow> (let out = map parse_float (take 3 (TextUtil.fields d)) in out @ replicate (3 - length out) 0))"

fun rss_lines :: "string list \<Rightarrow> 64 word" where
  "rss_lines [] = 0"
| "rss_lines (line # ls) = (if prefix ''VmRSS:'' line then scan_uint ''VmRSS:'' line 0 * 1024 else rss_lines ls)"

definition read_rss_bytes :: "string option \<Rightarrow> 64 word" where
  "read_rss_bytes file = (case file of None \<Rightarrow> 0 | Some d \<Rightarrow> rss_lines (split_on CHR 0x0A d))"

definition dt_seconds :: "sample \<Rightarrow> sample \<Rightarrow> float64" where
  "dt_seconds prev cur = duration_seconds (time_sub (sm_ts cur) (sm_ts prev))"

text \<open>\<open>disk_usage\<close>: blocks, free and available blocks and the block size, as \<open>statfs\<close> reports them.\<close>

definition disk_usage :: "(64 word \<times> 64 word \<times> 64 word \<times> 64 word) option \<Rightarrow> (64 word \<times> 64 word \<times> 64 word) option" where
  "disk_usage st =
     map_option (\<lambda>(blocks, bfree, bavail, bsize).
       let total = blocks * bsize; free = bfree * bsize; used = total - bavail * bsize in (total, used, free)) st"

section \<open>The shared state\<close>

record log_entry =
  le_ts :: int
  le_level :: string
  le_raw :: string

record request_entry =
  re_id :: string
  re_method :: string
  re_path :: string
  re_status :: int
  re_duration_ms :: float64
  re_ts :: int
  re_trace_id :: string

record observe =
  ob_snapshot :: snapshot
  ob_prev :: "sample option"
  ob_logs :: "log_entry list"
  ob_requests :: "request_entry list"
  ob_http_rx :: "64 word"
  ob_http_tx :: "64 word"
  ob_next_id :: "64 word"
  ob_log_cap :: nat
  ob_req_cap :: nat

definition empty_snapshot :: snapshot where
  "empty_snapshot = \<lparr>sn_ts = 0, sn_interval_ms = 0, sn_cpu = 0, sn_load = [], sn_mem = (0, 0), sn_net = (0, 0),
     sn_rates = (0, 0), sn_proc_cpu = 0, sn_rss = 0, sn_fds = 0, sn_io = (0, 0)\<rparr>"

definition new_observe :: observe where
  "new_observe = \<lparr>ob_snapshot = empty_snapshot, ob_prev = None, ob_logs = [], ob_requests = [], ob_http_rx = 0,
     ob_http_tx = 0, ob_next_id = 0, ob_log_cap = 1000, ob_req_cap = 500\<rparr>"

definition sample_now :: "(string \<Rightarrow> float64) \<Rightarrow> proc_env \<Rightarrow> observe \<Rightarrow> observe option" where
  "sample_now parse_float e ob =
     map_option (\<lambda>cur.
       let snap = empty_snapshot\<lparr>sn_ts := sm_ts cur div 1000000000\<rparr>;
           snap = (case ob_prev ob of
                     None \<Rightarrow> snap
                   | Some prev \<Rightarrow>
                       let dt = dt_seconds prev cur in
                       if \<not> f64_less 0 dt then snap
                       else snap\<lparr>
                         sn_interval_ms := (case f64_trunc (f64_mul dt (f64_of_int 1000)) of Some n \<Rightarrow> n | None \<Rightarrow> 0),
                         sn_cpu := cpu_percent_between (sm_cpu prev) (sm_cpu cur),
                         sn_proc_cpu := proc_cpu_percent (sm_ticks prev) (sm_ticks cur) dt (f64_of_int (int (pv_cpus e))),
                         sn_rates := (f64_quot (f64_of_int (uint (fst (sm_net cur) - fst (sm_net prev)))) dt,
                                      f64_quot (f64_of_int (uint (snd (sm_net cur) - snd (sm_net prev)))) dt)\<rparr>);
           snap = (case Option.bind (pv_meminfo e) parse_meminfo of None \<Rightarrow> snap | Some m \<Rightarrow> snap\<lparr>sn_mem := m\<rparr>);
           snap = snap\<lparr>sn_load := read_load_avg parse_float (pv_loadavg e)\<rparr>;
           snap = (case pv_self_io e of
                     None \<Rightarrow> snap
                   | Some d \<Rightarrow> snap\<lparr>sn_io := (case parse_self_io d of None \<Rightarrow> (0, 0) | Some io \<Rightarrow> io)\<rparr>) in
       ob\<lparr>ob_prev := Some cur,
          ob_snapshot := snap\<lparr>sn_rss := read_rss_bytes (pv_status e),
            sn_fds := (case pv_fds e of None \<Rightarrow> 0 | Some n \<Rightarrow> n), sn_net := sm_net cur\<rparr>\<rparr>) (read_sample e)"

text \<open>A full ring loses its oldest entry.\<close>

definition ring_add :: "nat \<Rightarrow> 'a list \<Rightarrow> 'a \<Rightarrow> 'a list" where
  "ring_add cap xs x = (if length xs = cap then drop 1 xs else xs) @ [x]"

definition add_log :: "int \<Rightarrow> string \<Rightarrow> string \<Rightarrow> observe \<Rightarrow> observe" where
  "add_log now level raw ob =
     ob\<lparr>ob_logs := ring_add (ob_log_cap ob) (ob_logs ob) \<lparr>le_ts = now, le_level = level, le_raw = raw\<rparr>\<rparr>"

definition logs_newest_first :: "observe \<Rightarrow> log_entry list" where
  "logs_newest_first ob = rev (ob_logs ob)"


definition requests_newest_first :: "observe \<Rightarrow> request_entry list" where
  "requests_newest_first ob = rev (ob_requests ob)"





section \<open>Log capture\<close>

definition level_marks :: "(string \<times> string) list" where
  "level_marks =
     [(''level=DEBUG'', ''debug''), (''level=INFO'', ''info''), (''level=WARN'', ''warn''), (''level=ERROR'', ''error''),
      (''[DEBUG]'', ''debug''), (''[INFO]'', ''info''), (''[WARNING]'', ''warn''), (''[ERROR]'', ''error''),
      (''DEBUG:'', ''debug''), (''WARNING:'', ''warn''), (''ERROR:'', ''error'')]"

definition level_from_line :: "string \<Rightarrow> string" where
  "level_from_line line = (case find (\<lambda>(m, l). contains line m) level_marks of None \<Rightarrow> ''info'' | Some (m, l) \<Rightarrow> l)"

text \<open>The handler that copies records: the attributes it carries, beside what it does with a record's own.\<close>

record tee_handler =
  th_attrs :: string
  th_group :: string

definition attrs_text :: "(string \<times> string) list \<Rightarrow> string" where
  "attrs_text attrs = concat (map (\<lambda>(k, v). '' '' @ k @ ''='' @ v) attrs)"

definition tee_handle :: "tee_handler \<Rightarrow> int \<Rightarrow> string \<Rightarrow> string \<Rightarrow> (string \<times> string) list \<Rightarrow> observe \<Rightarrow> observe" where
  "tee_handle h now level msg attrs ob = add_log now (to_lower level) (msg @ attrs_text attrs) ob"

definition with_attrs :: "(string \<times> string) list \<Rightarrow> tee_handler \<Rightarrow> tee_handler" where
  "with_attrs attrs h = h\<lparr>th_attrs := th_attrs h @ attrs_text attrs\<rparr>"

definition with_group :: "string \<Rightarrow> tee_handler \<Rightarrow> tee_handler" where
  "with_group name h = h\<lparr>th_group := name\<rparr>"

definition tee_write :: "int \<Rightarrow> string \<Rightarrow> observe \<Rightarrow> observe" where
  "tee_write now p ob = (let line = rev (dropWhile (\<lambda>c. c = CHR 0x0A) (rev p)) in add_log now (level_from_line line) line ob)"

section \<open>The middleware\<close>





section \<open>The endpoints\<close>

definition clamp_limit :: "string \<Rightarrow> int \<Rightarrow> int \<Rightarrow> int" where
  "clamp_limit raw def max_n =
     (let n = (if raw \<noteq> '''' then (case atoi raw of Some v \<Rightarrow> if 0 < v then v else def | None \<Rightarrow> def) else def) in
      if max_n < n then max_n else n)"

definition level_ranks :: "(string \<times> nat) list" where
  "level_ranks = [(''debug'', 0), (''info'', 1), (''warn'', 2), (''error'', 3)]"

definition level_rank :: "string \<Rightarrow> nat" where
  "level_rank level = (case map_of level_ranks (to_lower level) of None \<Rightarrow> 0 | Some r \<Rightarrow> r)"

fun logs_loop :: "nat \<Rightarrow> nat \<Rightarrow> log_entry list \<Rightarrow> log_entry list \<Rightarrow> log_entry list" where
  "logs_loop limit min_rank out [] = out"
| "logs_loop limit min_rank out (e # es) =
     (if length out = limit then out
      else if level_rank (le_level e) < min_rank then logs_loop limit min_rank out es
      else logs_loop limit min_rank (out @ [e]) es)"

definition handle_logs :: "string \<Rightarrow> string \<Rightarrow> observe \<Rightarrow> log_entry list" where
  "handle_logs limit level ob = logs_loop (nat (clamp_limit limit 200 1000)) (level_rank level) [] (logs_newest_first ob)"

definition handle_requests :: "string \<Rightarrow> observe \<Rightarrow> request_entry list" where
  "handle_requests limit ob = take (nat (clamp_limit limit 100 500)) (requests_newest_first ob)"

definition juint :: "64 word \<Rightarrow> json" where
  "juint w = JInt (uint w)"

text \<open>The traffic of RTSP and GB28181, the disk and the uptime in seconds are arguments.\<close>

definition handle_metrics_summary ::
  "64 word \<times> 64 word \<Rightarrow> (64 word \<times> 64 word \<times> 64 word) option \<Rightarrow> int \<Rightarrow> observe \<Rightarrow> doc"
where
  "handle_metrics_summary = (\<lambda>(rtsp_tx, gb_tx) disk uptime ob.
     let snap = ob_snapshot ob in
     [(''ts'', JInt (sn_ts snap)), (''interval_ms'', JInt (sn_interval_ms snap)),
      (''system'', JObj
         [(''cpu_percent'', JNum (sn_cpu snap)), (''load_avg'', JList (map JNum (sn_load snap))),
          (''memory'', JObj [(''total'', juint (fst (sn_mem snap))), (''used'', juint (fst (sn_mem snap) - snd (sn_mem snap))),
                             (''available'', juint (snd (sn_mem snap)))]),
          (''disks'', JList (case disk of None \<Rightarrow> []
             | Some (dtotal, used, free) \<Rightarrow>
                 [JObj [(''path'', JStr ''/''), (''total'', juint dtotal), (''used'', juint used), (''free'', juint free)]])),
          (''network'', JObj [(''rx_bytes'', juint (fst (sn_net snap))), (''tx_bytes'', juint (snd (sn_net snap))),
                              (''rx_rate'', JNum (fst (sn_rates snap))), (''tx_rate'', JNum (snd (sn_rates snap)))])]),
      (''process'', JObj
         [(''cpu_percent'', JNum (sn_proc_cpu snap)), (''rss_bytes'', juint (sn_rss snap)), (''open_fds'', JInt (int (sn_fds snap))),
          (''uptime'', JInt uptime), (''io_read_bytes'', juint (fst (sn_io snap))), (''io_write_bytes'', juint (snd (sn_io snap))),
          (''storage_bytes'', JInt 0),
          (''traffic'', JObj [(''http_rx_bytes'', juint (ob_http_rx ob)), (''http_tx_bytes'', juint (ob_http_tx ob)),
                              (''rtsp_tx_bytes'', juint rtsp_tx), (''gb28181_tx_bytes'', juint gb_tx)])])])"

section \<open>Rings\<close>

lemma ring_add_last:
  "0 < cap \<Longrightarrow> ring_add cap (drop (length h - cap) h) x = drop (length (h @ [x]) - cap) (h @ [x])"
proof (cases "length h < cap")
  case False
  assume "0 < cap"
  then show ?thesis using False by (simp add: ring_add_def Suc_diff_le)
qed (simp add: ring_add_def)

lemma ring_history:
  "0 < cap \<Longrightarrow> foldl (ring_add cap) [] h = drop (length h - cap) h"
proof (induction h rule: rev_induct)
  case (snoc x h)
  then show ?case using ring_add_last [of cap h x] by simp
qed simp

definition log_of :: "int \<times> string \<times> string \<Rightarrow> log_entry" where
  "log_of = (\<lambda>(now, level, raw). \<lparr>le_ts = now, le_level = level, le_raw = raw\<rparr>)"

lemma add_logs:
  "foldl (\<lambda>ob (now, level, raw). add_log now level raw ob) ob h =
     ob\<lparr>ob_logs := foldl (ring_add (ob_log_cap ob)) (ob_logs ob) (map log_of h)\<rparr>"
  by (induction h arbitrary: ob) (auto simp: add_log_def log_of_def)

lemma logs_loop_filter:
  "length out \<le> limit \<Longrightarrow>
   logs_loop limit r out es = out @ take (limit - length out) (filter (\<lambda>e. r \<le> level_rank (le_level e)) es)"
  by (induction limit r out es rule: logs_loop.induct) (auto simp: take_Cons' Suc_diff_Suc not_less)

lemma clamp_limit_range: "0 < def \<Longrightarrow> 0 < m \<Longrightarrow> 0 < clamp_limit raw def m \<and> clamp_limit raw def m \<le> m"
  by (simp add: clamp_limit_def Let_def split: option.split)

text \<open>Whatever was logged, the log endpoint answers with the newest entries first: of the last thousand, those of the
  requested level and above, up to the requested number.\<close>

theorem logs_served_newest_first:
  "handle_logs limit level (foldl (\<lambda>ob (now, level, raw). add_log now level raw ob) new_observe history) =
     take (nat (clamp_limit limit 200 1000))
       (filter (\<lambda>e. level_rank level \<le> level_rank (le_level e))
          (rev (drop (length history - 1000) (map log_of history))))"
  by (simp add: handle_logs_def logs_newest_first_def add_logs new_observe_def ring_history logs_loop_filter)

section \<open>Percentages\<close>




section \<open>The line of all processors\<close>

definition plain_char :: "char \<Rightarrow> bool" where
  "plain_char c \<longleftrightarrow> list_all (\<lambda>sp. hd sp \<noteq> c) spaces"

lemma leading_plain: "plain_char c \<Longrightarrow> leading_space (c # s) = []"
  by (auto simp: leading_space_def plain_char_def list_all_iff find_Some_iff prefix_Cons dest: spaces_nonempty
      split: option.splits) (metis list.sel(1) nth_mem spaces_nonempty)

lemma leading_blank: "leading_space (CHR '' '' # s) = '' ''"
  by (simp add: leading_space_def spaces_def)

lemma fields_word:
  "list_all plain_char w \<Longrightarrow> fields_from (w @ CHR '' '' # s) cur = (if cur @ w = [] then [] else [cur @ w]) @ fields_from s []"
proof (induction w arbitrary: cur)
  case Nil
  show ?case by (subst fields_from.simps) (simp add: leading_blank)
next
  case (Cons c w)
  then show ?case by (subst fields_from.simps) (simp add: leading_plain)
qed

lemma fields_last: "list_all plain_char w \<Longrightarrow> fields_from w cur = (if cur @ w = [] then [] else [cur @ w])"
proof (induction w arbitrary: cur)
  case Nil
  show ?case by (subst fields_from.simps) simp
next
  case (Cons c w)
  then show ?case by (subst fields_from.simps) (simp add: leading_plain)
qed

definition spaced :: "string list \<Rightarrow> string" where
  "spaced ws = concat (map (\<lambda>w. '' '' @ w) ws)"

lemma fields_spaced:
  "list_all (\<lambda>w. w \<noteq> [] \<and> list_all plain_char w) ws \<Longrightarrow> list_all plain_char w \<Longrightarrow> w \<noteq> [] \<Longrightarrow>
   fields_from (w @ spaced ws) [] = w # ws"
proof (induction ws arbitrary: w)
  case Nil
  then show ?case using fields_last [of w "[]"] by (simp add: spaced_def)
next
  case (Cons v ws)
  have "fields_from (w @ CHR '' '' # (v @ spaced ws)) [] = w # fields_from (v @ spaced ws) []"
    using fields_word [OF Cons.prems(2), of "v @ spaced ws" "[]"] Cons.prems(3) by simp
  then show ?case using Cons by (simp add: spaced_def)
qed

lemma digit_plain: "d < 10 \<Longrightarrow> plain_char (digit d)"
proof -
  have "list_all (\<lambda>d. plain_char (digit d)) [0..<10]" by code_simp
  then show "d < 10 \<Longrightarrow> plain_char (digit d)" by (simp add: list_all_iff)
qed

lemma decimal_plain: "list_all plain_char (decimal n)"
proof (induction n rule: decimal.induct)
  case (1 n)
  then show ?case by (subst decimal.simps) (auto simp: digit_plain)
qed

lemma leading_numbers_decimals:
  "list_all (\<lambda>n. n < 2 ^ 64) ns \<Longrightarrow> leading_numbers (map decimal ns) = ns"
  by (induction ns) (simp_all add: parse_uint_decimal)

lemma no_newline: "list_all plain_char w \<Longrightarrow> CHR 0x0A \<notin> set w"
  by (auto simp: list_all_iff plain_char_def spaces_def)

lemma parse_cpu_rendered:
  assumes "list_all (\<lambda>n. n < 2 ^ 64) ns"
  shows "parse_cpu_stat (''cpu '' @ spaced (map decimal ns) @ CHR 0x0A # rest) = cpu_times_of ns"
proof -
  let ?l = "''cpu '' @ spaced (map decimal ns)"
  have cpu: "list_all plain_char ''cpu''" by code_simp
  have "CHR 0x0A \<notin> set (spaced (map decimal ns))" using no_newline [OF decimal_plain] by (auto simp: spaced_def)
  then have s: "split_on CHR 0x0A (?l @ CHR 0x0A # rest) = ?l # split_on CHR 0x0A rest" by (intro split_on_append) simp
  have "TextUtil.fields (''cpu'' @ spaced ([] # map decimal ns)) = ''cpu'' # map decimal ns"
  proof -
    have "TextUtil.fields (''cpu'' @ CHR '' '' # spaced (map decimal ns)) = ''cpu'' # fields_from (spaced (map decimal ns)) []"
      using fields_word [OF cpu, of "spaced (map decimal ns)" "[]"] by (simp add: TextUtil.fields_def)
    moreover have "fields_from (spaced (map decimal ns)) [] = map decimal ns"
    proof (cases ns)
      case (Cons n ns')
      have "fields_from (CHR '' '' # (decimal n @ spaced (map decimal ns'))) [] = fields_from (decimal n @ spaced (map decimal ns')) []"
        using fields_word [of "[]" "decimal n @ spaced (map decimal ns')" "[]"] by simp
      then show ?thesis using fields_spaced [of "map decimal ns'" "decimal n"] decimal_plain
        by (simp add: Cons spaced_def list_all_iff)
    qed (simp add: spaced_def fields_from.simps)
    ultimately show ?thesis by (simp add: spaced_def)
  qed
  then have "TextUtil.fields ?l = ''cpu'' # map decimal ns" by (simp add: spaced_def)
  then show ?thesis using s leading_numbers_decimals [OF assms] by (simp add: parse_cpu_stat_def)
qed

text \<open>A line with at least four counters gives the idle time, waiting included, and the total; a line with one to three
  makes the parser index past its values.\<close>

theorem cpu_line_parsed:
  assumes "list_all (\<lambda>n. n < 2 ^ 64) ns"
  shows "(4 \<le> length ns \<longrightarrow>
      (\<exists>ct. parse_cpu_stat (''cpu '' @ spaced (map decimal ns) @ CHR 0x0A # rest) = Some (Some ct) \<and>
        ct_idle ct = of_nat (ns ! 3 + (if 4 < length ns then ns ! 4 else 0)) \<and> ct_total ct = of_nat (sum_list ns))) \<and>
    (0 < length ns \<and> length ns < 4 \<longrightarrow> parse_cpu_stat (''cpu '' @ spaced (map decimal ns) @ CHR 0x0A # rest) = None)"
proof -
  have "sum_list (map of_nat ns) = (of_nat (sum_list ns) :: 64 word)" by (induction ns) simp_all
  then show ?thesis unfolding parse_cpu_rendered [OF assms] by (auto simp: cpu_times_of_def Let_def)
qed

theorem cpu_line_parsed_witness:
  "parse_cpu_stat (''cpu '' @ spaced (map decimal [7, 0, 3]) @ CHR 0x0A # ''cpu0 7 0 3'') = None"
  using cpu_line_parsed [of "[7, 0, 3]" "''cpu0 7 0 3''"] by simp

section \<open>Traced requests\<close>


















text \<open>Attributes bound to a handler never reach the ring.\<close>

lemma bound_attributes_lost: "tee_handle (with_attrs attrs h) now level msg own ob = tee_handle h now level msg own ob"
  by (simp add: tee_handle_def)

end
