(* ===== verification/Sse.thy ===== *)
theory Sse
  imports Chan
begin

text \<open>
  The event channel of the web interface (\<open>internal/web/sse.go\<close>): a hub of clients with bounded channels, the
  frames it broadcasts and the loop that writes them to one client. The encoded payload is an argument (\<open>None\<close>
  when it does not encode). What a browser reads back is the reference at the end.
\<close>

section \<open>The hub\<close>

text \<open>\<open>cl_out\<close> is what the handler has written to the response, \<open>cl_done\<close> that it has returned. Clients live in a
  heap, the hub's set holds their positions.\<close>

record sse_client =
  cl_chan :: "bytes chan"
  cl_closed :: bool
  cl_out :: bytes
  cl_done :: bool

record sse_hub =
  sh_heap :: "sse_client list"
  sh_members :: "nat list"

definition new_sse_hub :: sse_hub where
  "new_sse_hub = \<lparr>sh_heap = [], sh_members = []\<rparr>"

definition sse_frame :: "bytes \<Rightarrow> bytes \<Rightarrow> bytes" where
  "sse_frame event data = str_bytes ''event: '' @ event @ [10] @ str_bytes ''data: '' @ data @ [10, 10]"

definition upd_client :: "nat \<Rightarrow> (sse_client \<Rightarrow> sse_client) \<Rightarrow> sse_hub \<Rightarrow> sse_hub" where
  "upd_client i f h = h\<lparr>sh_heap := (sh_heap h)[i := f (sh_heap h ! i)]\<rparr>"

definition sse_broadcast :: "bytes \<Rightarrow> bytes option \<Rightarrow> sse_hub \<Rightarrow> sse_hub" where
  "sse_broadcast event payload h =
     (case payload of
        None \<Rightarrow> h
      | Some data \<Rightarrow>
          foldl (\<lambda>h i. upd_client i (\<lambda>c. c\<lparr>cl_chan := offer (sse_frame event data) (cl_chan c)\<rparr>) h) h (sh_members h))"

definition sse_remove :: "nat \<Rightarrow> sse_hub \<Rightarrow> sse_hub" where
  "sse_remove i h =
     (let h = upd_client i (\<lambda>c. c\<lparr>cl_closed := True, cl_done := True\<rparr>) h in
      h\<lparr>sh_members := filter (\<lambda>j. j \<noteq> i) (sh_members h)\<rparr>)"

definition sse_count :: "sse_hub \<Rightarrow> nat" where
  "sse_count h = length (sh_members h)"

section \<open>The handler\<close>

definition retry_hint :: bytes where
  "retry_hint = str_bytes ''retry: 3000'' @ [10, 10]"

definition keepalive_comment :: bytes where
  "keepalive_comment = str_bytes '': keepalive'' @ [10, 10]"

definition client_capacity :: nat where
  "client_capacity = 16"

text \<open>A response that cannot flush is answered with 500 and no client is added.\<close>

definition sse_connect :: "bool \<Rightarrow> sse_hub \<Rightarrow> nat option \<times> sse_hub" where
  "sse_connect flusher h =
     (if \<not> flusher then (None, h)
      else let i = length (sh_heap h) in
        (Some i, h\<lparr>sh_heap := sh_heap h @ [\<lparr>cl_chan = new_chan client_capacity, cl_closed = False, cl_out = retry_hint, cl_done = False\<rparr>],
                   sh_members := i # sh_members h\<rparr>))"

text \<open>A round of the loop: the write of a chunk may fail, which ends the handler.\<close>

definition sse_write :: "bool \<Rightarrow> nat \<Rightarrow> bytes \<Rightarrow> sse_hub \<Rightarrow> sse_hub" where
  "sse_write ok i chunk h = (if ok then upd_client i (\<lambda>c. c\<lparr>cl_out := cl_out c @ chunk\<rparr>) h else sse_remove i h)"

datatype sse_event =
    Connect bool
  | Broadcast bytes "bytes option"
  | ClientFrame nat bool
  | ClientKeepalive nat bool
  | ClientGone nat

fun sse_step :: "sse_hub \<Rightarrow> sse_event \<Rightarrow> sse_hub" where
  "sse_step h (Connect flusher) = snd (sse_connect flusher h)"
| "sse_step h (Broadcast event payload) = sse_broadcast event payload h"
| "sse_step h (ClientFrame i ok) =
     (if length (sh_heap h) \<le> i \<or> cl_done (sh_heap h ! i) then h
      else case recv (cl_chan (sh_heap h ! i)) of
             (None, c) \<Rightarrow> h
           | (Some frame, c) \<Rightarrow> sse_write ok i frame (upd_client i (cl_chan_update (\<lambda>_. c)) h))"
| "sse_step h (ClientKeepalive i ok) =
     (if length (sh_heap h) \<le> i \<or> cl_done (sh_heap h ! i) then h else sse_write ok i keepalive_comment h)"
| "sse_step h (ClientGone i) =
     (if length (sh_heap h) \<le> i \<or> cl_done (sh_heap h ! i) then h else sse_remove i h)"

section \<open>The members\<close>

definition sse_wf :: "sse_hub \<Rightarrow> bool" where
  "sse_wf h \<longleftrightarrow> distinct (sh_members h) \<and>
     (\<forall>i. i \<in> set (sh_members h) \<longleftrightarrow> i < length (sh_heap h) \<and> \<not> cl_done (sh_heap h ! i)) \<and>
     (\<forall>c\<in>set (sh_heap h). cl_closed c = cl_done c \<and> capacity (cl_chan c) = client_capacity \<and>
        length (items (cl_chan c)) \<le> client_capacity)"

lemma upd_client_simps [simp]:
  "sh_members (upd_client i f h) = sh_members h" "length (sh_heap (upd_client i f h)) = length (sh_heap h)"
  "sh_heap (upd_client i f h) ! j = (if j = i \<and> i < length (sh_heap h) then f (sh_heap h ! i) else sh_heap h ! j)"
proof -
  show "sh_members (upd_client i f h) = sh_members h" "length (sh_heap (upd_client i f h)) = length (sh_heap h)"
    by (simp_all add: upd_client_def)
  show "sh_heap (upd_client i f h) ! j = (if j = i \<and> i < length (sh_heap h) then f (sh_heap h ! i) else sh_heap h ! j)"
    by (cases "i < length (sh_heap h)") (simp_all add: upd_client_def nth_list_update list_update_beyond not_less)
qed

text \<open>A broadcast reaches every member once, and nobody else.\<close>

lemma broadcast_heap:
  "distinct ms \<Longrightarrow>
   sh_members (foldl (\<lambda>h i. upd_client i f h) h ms) = sh_members h \<and>
   length (sh_heap (foldl (\<lambda>h i. upd_client i f h) h ms)) = length (sh_heap h) \<and>
   (\<forall>j<length (sh_heap h). sh_heap (foldl (\<lambda>h i. upd_client i f h) h ms) ! j =
      (if j \<in> set ms then f (sh_heap h ! j) else sh_heap h ! j))"
proof (induction ms arbitrary: h)
  case (Cons m ms)
  then show ?case using Cons.IH [of "upd_client m f h"] by auto
qed simp

definition client_ok :: "sse_client \<Rightarrow> bool" where
  "client_ok c \<longleftrightarrow> cl_closed c = cl_done c \<and> capacity (cl_chan c) = client_capacity \<and> length (items (cl_chan c)) \<le> client_capacity"

lemma sse_wf_nth:
  "sse_wf h \<longleftrightarrow> distinct (sh_members h) \<and>
     (\<forall>i. i \<in> set (sh_members h) \<longleftrightarrow> i < length (sh_heap h) \<and> \<not> cl_done (sh_heap h ! i)) \<and>
     (\<forall>i<length (sh_heap h). client_ok (sh_heap h ! i))"
  by (simp add: sse_wf_def client_ok_def all_set_conv_all_nth)

lemma wf_upd:
  assumes "sse_wf h" "\<And>c. client_ok c \<Longrightarrow> client_ok (f c)" "\<And>c. cl_done (f c) = cl_done c"
  shows "sse_wf (upd_client i f h)"
  using assms unfolding sse_wf_nth by auto

lemma wf_remove:
  assumes "sse_wf h" "i < length (sh_heap h)"
  shows "sse_wf (sse_remove i h)"
  using assms unfolding sse_wf_nth by (auto simp: sse_remove_def Let_def client_ok_def)

lemma sse_wf_write: "sse_wf h \<Longrightarrow> i < length (sh_heap h) \<Longrightarrow> sse_wf (sse_write ok i chunk h)"
  by (auto simp: sse_write_def client_ok_def intro!: wf_upd wf_remove)

lemma client_ok_recv: "client_ok c \<Longrightarrow> recv (cl_chan c) = (x, ch) \<Longrightarrow> client_ok (c\<lparr>cl_chan := ch\<rparr>)"
  by (auto simp: client_ok_def recv_def split: list.splits)

lemma sse_broadcast_members:
  assumes "distinct (sh_members h)"
  shows "sh_members (sse_broadcast event (Some data) h) = sh_members h"
    "length (sh_heap (sse_broadcast event (Some data) h)) = length (sh_heap h)"
    "j < length (sh_heap h) \<Longrightarrow> sh_heap (sse_broadcast event (Some data) h) ! j =
       (if j \<in> set (sh_members h) then (sh_heap h ! j)\<lparr>cl_chan := offer (sse_frame event data) (cl_chan (sh_heap h ! j))\<rparr> else sh_heap h ! j)"
  using broadcast_heap [OF assms, of "\<lambda>c. c\<lparr>cl_chan := offer (sse_frame event data) (cl_chan c)\<rparr>" h]
  unfolding sse_broadcast_def option.case by blast+

lemma sse_step_wf: "sse_wf h \<Longrightarrow> sse_wf (sse_step h e)"
proof (cases e)
  case (Connect flusher)
  then show "sse_wf h \<Longrightarrow> ?thesis"
    unfolding sse_wf_nth
    by (auto simp: sse_connect_def Let_def nth_append client_ok_def new_chan_def less_Suc_eq)
next
  case (Broadcast event payload)
  assume wf: "sse_wf h"
  then have d: "distinct (sh_members h)" by (simp add: sse_wf_def)
  have ok: "client_ok c \<Longrightarrow> client_ok (c\<lparr>cl_chan := offer x (cl_chan c)\<rparr>)" for c x
    by (simp add: client_ok_def offer_def)
  show ?thesis
  proof (cases payload)
    case (Some data)
    have "client_ok (sh_heap (sse_broadcast event (Some data) h) ! j) \<and>
        cl_done (sh_heap (sse_broadcast event (Some data) h) ! j) = cl_done (sh_heap h ! j)" if "j < length (sh_heap h)" for j
      using wf that ok by (simp add: sse_wf_nth sse_broadcast_members(3) [OF d that])
    then show ?thesis
      using wf unfolding Broadcast Some sse_step.simps sse_wf_nth sse_broadcast_members(1,2) [OF d] by blast
  qed (use wf in \<open>simp add: Broadcast sse_broadcast_def\<close>)
next
  case (ClientFrame i ok)
  assume wf: "sse_wf h"
  show ?thesis
  proof (cases "length (sh_heap h) \<le> i \<or> cl_done (sh_heap h ! i)")
    case False
    obtain x ch where r: "recv (cl_chan (sh_heap h ! i)) = (x, ch)" by fastforce
    have ok: "client_ok ((sh_heap h ! i)\<lparr>cl_chan := ch\<rparr>)" using wf False r by (auto simp: sse_wf_nth intro: client_ok_recv)
    have "sse_wf (upd_client i (cl_chan_update (\<lambda>_. ch)) h)" using wf ok False unfolding sse_wf_nth by auto
    then show ?thesis using False r wf by (auto simp: ClientFrame intro!: sse_wf_write split: option.split)
  qed (use wf in \<open>auto simp: ClientFrame\<close>)
qed (auto intro!: sse_wf_write wf_remove)

lemma sse_wf_new: "sse_wf new_sse_hub"
  by (simp add: sse_wf_def new_sse_hub_def)

interpretation sse_run: event_machine sse_step sse_wf "\<lambda>_. True"
  by unfold_locales (rule sse_step_wf)

section \<open>What a browser reads\<close>

datatype sse_block = RetryBlock | KeepaliveBlock | EventBlock bytes bytes

fun enc_block :: "sse_block \<Rightarrow> bytes" where
  "enc_block RetryBlock = retry_hint"
| "enc_block KeepaliveBlock = keepalive_comment"
| "enc_block (EventBlock event data) = sse_frame event data"

text \<open>One line without its end, and the rest; a reader that knows the lines of the specification.\<close>

definition take_line :: "bytes \<Rightarrow> (bytes \<times> bytes) option" where
  "take_line bs = (if 10 \<in> set bs then Some (takeWhile (\<lambda>b. b \<noteq> 10) bs, tl (dropWhile (\<lambda>b. b \<noteq> 10) bs)) else None)"

definition blank_line :: "'x \<Rightarrow> bytes \<Rightarrow> ('x \<times> bytes) option" where
  "blank_line x bs = (case take_line bs of Some ([], rest) \<Rightarrow> Some (x, rest) | _ \<Rightarrow> None)"

definition dec_block :: "bytes \<Rightarrow> (sse_block \<times> bytes) option" where
  "dec_block bs =
     (case take_line bs of
        None \<Rightarrow> None
      | Some (l, rest) \<Rightarrow>
          if prefix (str_bytes ''retry:'') l then blank_line RetryBlock rest
          else if prefix (str_bytes '':'') l then blank_line KeepaliveBlock rest
          else if prefix (str_bytes ''event: '') l then
            (case take_line rest of
               None \<Rightarrow> None
             | Some (l2, rest2) \<Rightarrow>
                 if prefix (str_bytes ''data: '') l2 then blank_line (EventBlock (drop 7 l) (drop 6 l2)) rest2 else None)
          else None)"

definition block_ok :: "sse_block \<Rightarrow> bool" where
  "block_ok b = (case b of EventBlock event data \<Rightarrow> 10 \<notin> set event \<and> 10 \<notin> set data | _ \<Rightarrow> True)"

lemma take_line_append: "10 \<notin> set l \<Longrightarrow> take_line (l @ 10 # rest) = Some (l, rest)"
  by (simp add: take_line_def takeWhile_append dropWhile_append)

lemma frame_no_newline: "10 \<notin> set (str_bytes ''event: '')" "10 \<notin> set (str_bytes ''data: '')"
  "10 \<notin> set (str_bytes ''retry: 3000'')" "10 \<notin> set (str_bytes '': keepalive'')"
  by (simp_all add: str_bytes_def of_char_def)

lemma heads: "str_bytes ''event: '' = 101 # str_bytes ''vent: ''" "str_bytes ''retry: 3000'' = str_bytes ''retry:'' @ str_bytes '' 3000''"
  "str_bytes '': keepalive'' = str_bytes '':'' @ str_bytes '' keepalive''" "str_bytes ''retry:'' = 114 # str_bytes ''etry:''"
  "str_bytes '':'' = [58]"
  by (simp_all add: str_bytes_def of_char_def)

lemma dec_enc_block: "block_ok b \<Longrightarrow> dec_block (enc_block b @ rest) = Some (b, rest)"
proof (cases b)
  case (EventBlock event data)
  assume "block_ok b"
  then have n: "10 \<notin> set (str_bytes ''event: '' @ event)" "10 \<notin> set (str_bytes ''data: '' @ data)"
    using frame_no_newline by (auto simp: EventBlock block_ok_def)
  have t: "take_line (enc_block b @ rest) = Some (str_bytes ''event: '' @ event, str_bytes ''data: '' @ data @ 10 # 10 # rest)"
    "take_line (str_bytes ''data: '' @ data @ 10 # 10 # rest) = Some (str_bytes ''data: '' @ data, 10 # rest)"
    using take_line_append [OF n(1)] take_line_append [OF n(2)] by (simp_all add: EventBlock sse_frame_def)
  have "\<not> prefix (str_bytes ''retry:'') (str_bytes ''event: '' @ event)" "\<not> prefix (str_bytes '':'') (str_bytes ''event: '' @ event)"
    by (simp_all add: heads)
  moreover have "take_line (10 # rest) = Some ([], rest)" using take_line_append [of "[]" rest] by simp
  ultimately show ?thesis unfolding dec_block_def t by (simp add: t(2) blank_line_def EventBlock)
next
  case RetryBlock
  have "take_line (enc_block b @ rest) = Some (str_bytes ''retry: 3000'', 10 # rest)"
    using take_line_append [OF frame_no_newline(3), of "10 # rest"] by (simp add: RetryBlock retry_hint_def)
  moreover have "take_line (10 # rest) = Some ([], rest)" using take_line_append [of "[]" rest] by simp
  ultimately show ?thesis by (simp add: dec_block_def blank_line_def RetryBlock heads(2))
next
  case KeepaliveBlock
  have "take_line (enc_block b @ rest) = Some (str_bytes '': keepalive'', 10 # rest)"
    using take_line_append [OF frame_no_newline(4), of "10 # rest"] by (simp add: KeepaliveBlock keepalive_comment_def)
  moreover have "take_line (10 # rest) = Some ([], rest)" using take_line_append [of "[]" rest] by simp
  moreover have "\<not> prefix (str_bytes ''retry:'') (str_bytes '': keepalive'')" by (simp add: heads)
  ultimately show ?thesis by (simp add: dec_block_def blank_line_def KeepaliveBlock heads(3))
qed

interpretation sse_codec: prefix_codec enc_block dec_block block_ok
  by unfold_locales (simp add: dec_enc_block, auto simp: retry_hint_def keepalive_comment_def sse_frame_def elim!: enc_block.elims)

fun events_in :: "sse_block list \<Rightarrow> (bytes \<times> bytes) list" where
  "events_in [] = []"
| "events_in (EventBlock event data # bs) = (event, data) # events_in bs"
| "events_in (_ # bs) = events_in bs"

fun broadcasts :: "sse_event list \<Rightarrow> (bytes \<times> bytes) list" where
  "broadcasts [] = []"
| "broadcasts (Broadcast event (Some data) # es) = (event, data) # broadcasts es"
| "broadcasts (_ # es) = broadcasts es"

lemma events_in_append [simp]: "events_in (xs @ ys) = events_in xs @ events_in ys"
  by (induction xs rule: events_in.induct) auto

lemma broadcasts_snoc: "broadcasts (es @ [e]) = broadcasts es @ broadcasts [e]"
  by (induction es rule: broadcasts.induct) auto

text \<open>What a client has written and still has queued, against what was broadcast to it.\<close>

definition client_view :: "sse_client \<Rightarrow> (bytes \<times> bytes) list \<Rightarrow> bool" where
  "client_view c sent \<longleftrightarrow>
     (\<exists>blocks queue. cl_out c = concat (map enc_block (RetryBlock # blocks)) \<and> list_all block_ok blocks \<and>
        items (cl_chan c) = map (\<lambda>(event, data). sse_frame event data) queue \<and>
        (\<forall>(event, data)\<in>set queue. block_ok (EventBlock event data)) \<and> subseq (events_in blocks @ queue) sent)"

lemma client_view_more: "client_view c sent \<Longrightarrow> subseq sent sent' \<Longrightarrow> client_view c sent'"
  unfolding client_view_def using subseq_order.trans by blast

lemma client_view_offer:
  assumes "client_view c sent" "10 \<notin> set event" "10 \<notin> set data"
  shows "client_view (c\<lparr>cl_chan := offer (sse_frame event data) (cl_chan c)\<rparr>) (sent @ [(event, data)])"
proof -
  obtain blocks queue where v: "cl_out c = concat (map enc_block (RetryBlock # blocks))" "list_all block_ok blocks"
    "items (cl_chan c) = map (\<lambda>(event, data). sse_frame event data) queue"
    "\<forall>(event, data)\<in>set queue. block_ok (EventBlock event data)" "subseq (events_in blocks @ queue) sent"
    using assms(1) unfolding client_view_def by blast
  show ?thesis
  proof (cases "length (items (cl_chan c)) < capacity (cl_chan c)")
    case True
    have "subseq ((events_in blocks @ queue) @ [(event, data)]) (sent @ [(event, data)])"
      using v(5) by (rule list_emb_append_mono) simp
    then show ?thesis unfolding client_view_def
      using True v assms(2,3) by (intro exI [of _ blocks] exI [of _ "queue @ [(event, data)]"]) (auto simp: offer_def block_ok_def)
  next
    case False
    have "client_view (c\<lparr>cl_chan := offer (sse_frame event data) (cl_chan c)\<rparr>) sent"
      unfolding client_view_def using False v by (intro exI [of _ blocks] exI [of _ queue]) (auto simp: offer_def)
    moreover have "subseq (sent @ []) (sent @ [(event, data)])" by (intro list_emb_append_mono) simp_all
    ultimately show ?thesis by (auto intro: client_view_more)
  qed
qed

lemma client_view_write:
  assumes "client_view c sent" "recv (cl_chan c) = (Some frame, ch)"
  shows "client_view (c\<lparr>cl_chan := ch, cl_out := cl_out c @ frame\<rparr>) sent"
proof -
  obtain blocks queue where v: "cl_out c = concat (map enc_block (RetryBlock # blocks))" "list_all block_ok blocks"
    "items (cl_chan c) = map (\<lambda>(event, data). sse_frame event data) queue"
    "\<forall>(event, data)\<in>set queue. block_ok (EventBlock event data)" "subseq (events_in blocks @ queue) sent"
    using assms(1) unfolding client_view_def by blast
  obtain event data q where q: "queue = (event, data) # q" "frame = sse_frame event data" "items ch = map (\<lambda>(event, data). sse_frame event data) q"
    using assms(2) v(3) by (cases queue) (auto simp: recv_def)
  show ?thesis unfolding client_view_def
    using v q by (intro exI [of _ "blocks @ [EventBlock event data]"] exI [of _ q]) auto
qed

lemma client_view_keepalive:
  assumes "client_view c sent"
  shows "client_view (c\<lparr>cl_out := cl_out c @ keepalive_comment\<rparr>) sent"
proof -
  obtain blocks queue where v: "cl_out c = concat (map enc_block (RetryBlock # blocks))" "list_all block_ok blocks"
    "items (cl_chan c) = map (\<lambda>(event, data). sse_frame event data) queue"
    "\<forall>(event, data)\<in>set queue. block_ok (EventBlock event data)" "subseq (events_in blocks @ queue) sent"
    using assms unfolding client_view_def by blast
  then show ?thesis unfolding client_view_def
    by (intro exI [of _ "blocks @ [KeepaliveBlock]"] exI [of _ queue]) (auto simp: block_ok_def)
qed

definition lawful :: "sse_event \<Rightarrow> bool" where
  "lawful e = (case e of Broadcast event (Some data) \<Rightarrow> 10 \<notin> set event \<and> 10 \<notin> set data | _ \<Rightarrow> True)"

lemma client_view_remove:
  "client_view (sh_heap h ! i) sent \<Longrightarrow> i < length (sh_heap h) \<Longrightarrow> client_view (sh_heap (sse_remove j h) ! i) sent"
  by (auto simp: sse_remove_def Let_def client_view_def)

lemma heap_remove_length [simp]: "length (sh_heap (sse_remove i h)) = length (sh_heap h)"
  by (simp add: sse_remove_def Let_def)

lemma client_view_step:
  assumes "sse_wf h" "lawful e" "i < length (sh_heap h)" "client_view (sh_heap h ! i) sent"
  shows "i < length (sh_heap (sse_step h e)) \<and> client_view (sh_heap (sse_step h e) ! i) (sent @ broadcasts [e])"
proof (cases e)
  case (Connect flusher)
  then show ?thesis using assms by (auto simp: sse_connect_def Let_def nth_append)
next
  case (Broadcast event payload)
  show ?thesis
  proof (cases payload)
    case (Some data)
    have d: "distinct (sh_members h)" using assms(1) by (simp add: sse_wf_def)
    have "10 \<notin> set event" "10 \<notin> set data" using assms(2) by (auto simp: Broadcast Some lawful_def)
    moreover have "subseq (sent @ []) (sent @ [(event, data)])" by (intro list_emb_append_mono) simp_all
    ultimately show ?thesis
      using assms(3,4) client_view_offer [OF assms(4)] client_view_more [OF assms(4)]
      by (simp add: Broadcast Some sse_broadcast_members(2,3) [OF d])
  qed (use assms in \<open>simp add: Broadcast sse_broadcast_def\<close>)
next
  case (ClientFrame j ok)
  show ?thesis
  proof (cases "length (sh_heap h) \<le> j \<or> cl_done (sh_heap h ! j)")
    case False
    obtain x ch where r: "recv (cl_chan (sh_heap h ! j)) = (x, ch)" by fastforce
    show ?thesis
    proof (cases x)
      case None
      then show ?thesis using False r assms by (simp add: ClientFrame)
    next
      case (Some frame)
      let ?h1 = "upd_client j (cl_chan_update (\<lambda>_. ch)) h"
      have view: "client_view (sh_heap ?h1 ! i) sent"
      proof (cases "j = i")
        case True
        then obtain blocks queue where v: "cl_out (sh_heap h ! j) = concat (map enc_block (RetryBlock # blocks))" "list_all block_ok blocks"
          "items (cl_chan (sh_heap h ! j)) = map (\<lambda>(event, data). sse_frame event data) queue"
          "\<forall>(event, data)\<in>set queue. block_ok (EventBlock event data)" "subseq (events_in blocks @ queue) sent"
          using assms(4) unfolding client_view_def by blast
        obtain q0 q where q: "queue = q0 # q" "items ch = map (\<lambda>(event, data). sse_frame event data) q"
          using r v(3) Some by (cases queue) (auto simp: recv_def)
        have "subseq (events_in blocks @ q) (events_in blocks @ queue)"
          unfolding q by (intro list_emb_append_mono subseq_order.refl list_emb_Cons)
        then have "subseq (events_in blocks @ q) sent" using v(5) subseq_order.trans by blast
        then show ?thesis unfolding client_view_def using True False v q
          by (intro exI [of _ blocks] exI [of _ q]) auto
      qed (use assms(4) in auto)
      show ?thesis
      proof (cases "ok \<and> j = i")
        case True
        then show ?thesis using False r Some assms client_view_write [OF assms(4)]
          by (auto simp: ClientFrame sse_write_def)
      next
        case False
        then show ?thesis using \<open>\<not> (length (sh_heap h) \<le> j \<or> cl_done (sh_heap h ! j))\<close> r Some assms(3,4) view client_view_remove [of ?h1 i sent j]
          by (auto simp: ClientFrame sse_write_def)
      qed
    qed
  qed (use assms in \<open>simp add: ClientFrame\<close>)
next
  case (ClientKeepalive j ok)
  then show ?thesis using assms client_view_keepalive [OF assms(4)] client_view_remove [OF assms(4,3), of j]
    by (auto simp: sse_write_def)
next
  case (ClientGone j)
  then show ?thesis using assms client_view_remove [OF assms(4,3), of j]
    by auto
qed

section \<open>Properties\<close>

text \<open>C21: Whatever the other clients do, a client's stream decodes into the retry hint followed by keepalives and events, and
  the events are broadcasts since it connected, in order, with some left out; at most sixteen more wait for it.\<close>

theorem client_reads_broadcasts_in_order:
  assumes "list_all lawful es" "sse_connect True (foldl sse_step new_sse_hub before) = (Some i, h)"
    and "c = sh_heap (foldl sse_step h es) ! i"
  shows "\<exists>blocks. decode_all dec_block (length blocks + 1) (cl_out c) = Some (RetryBlock # blocks) \<and>
    subseq (events_in blocks) (broadcasts es) \<and> length (items (cl_chan c)) \<le> client_capacity"
proof -
  have wf0: "sse_wf (foldl sse_step new_sse_hub before)" using sse_run.run_inv [OF sse_wf_new] by (simp add: list_all_iff)
  have "sse_step (foldl sse_step new_sse_hub before) (Connect True) = h" using assms(2) by simp
  then have wf: "sse_wf h" using sse_step_wf [OF wf0] by metis
  have start: "i < length (sh_heap h) \<and> client_view (sh_heap h ! i) []"
    using assms(2) unfolding client_view_def
    by (auto simp: sse_connect_def Let_def new_chan_def intro!: exI [of _ "[]"])
  have "sse_wf (foldl sse_step h es) \<and> i < length (sh_heap (foldl sse_step h es)) \<and> client_view (sh_heap (foldl sse_step h es) ! i) (broadcasts es)"
    using assms(1)
  proof (induction es rule: rev_induct)
    case Nil
    then show ?case using wf start by simp
  next
    case (snoc e es)
    then have "sse_wf (foldl sse_step h es)" "lawful e" "i < length (sh_heap (foldl sse_step h es))"
      "client_view (sh_heap (foldl sse_step h es) ! i) (broadcasts es)" by simp_all
    then show ?case using client_view_step [of "foldl sse_step h es" e i "broadcasts es"] sse_step_wf
      by (simp add: broadcasts_snoc [of es e])
  qed
  then obtain blocks queue where v: "cl_out c = concat (map enc_block (RetryBlock # blocks))" "list_all block_ok blocks"
    "subseq (events_in blocks @ queue) (broadcasts es)" and c: "client_ok c"
    unfolding assms(3) client_view_def sse_wf_nth by blast
  have "decode_all dec_block (length blocks + 1) (cl_out c) = Some (RetryBlock # blocks)"
    unfolding v(1) using v(2) by (intro sse_codec.decode_all_enc) (auto simp: list_all_iff block_ok_def)
  moreover have "subseq (events_in blocks) (events_in blocks @ queue)"
    using list_emb_append_mono [of "(=)" "events_in blocks" "events_in blocks" "[]" queue] by simp
  ultimately show ?thesis using v(3) c subseq_order.trans unfolding client_ok_def by blast
qed

theorem client_reads_broadcasts_in_order_witness:
  "\<exists>blocks. decode_all dec_block (length blocks + 1)
      (cl_out (sh_heap (foldl sse_step (snd (sse_connect True new_sse_hub))
        [Broadcast (str_bytes ''alarm'') (Some (str_bytes ''{}'')), ClientKeepalive 0 True, ClientFrame 0 True]) ! 0)) = Some (RetryBlock # blocks) \<and>
    subseq (events_in blocks) [(str_bytes ''alarm'', str_bytes ''{}'')]"
proof -
  let ?es = "[Broadcast (str_bytes ''alarm'') (Some (str_bytes ''{}'')), ClientKeepalive 0 True, ClientFrame 0 True]"
  have "list_all lawful ?es" by (simp add: lawful_def str_bytes_def of_char_def)
  moreover have "sse_connect True (foldl sse_step new_sse_hub []) = (Some 0, snd (sse_connect True new_sse_hub))"
    by (simp add: sse_connect_def Let_def new_sse_hub_def)
  ultimately have "\<exists>blocks. decode_all dec_block (length blocks + 1)
      (cl_out (sh_heap (foldl sse_step (snd (sse_connect True new_sse_hub)) ?es) ! 0)) = Some (RetryBlock # blocks) \<and>
    subseq (events_in blocks) (broadcasts ?es)"
    using client_reads_broadcasts_in_order [OF _ _ refl] by blast
  then show ?thesis by (simp del: foldl_Cons)
qed

end
