(* ===== verification/Rtsp.thy ===== *)
theory Rtsp
  imports AuHub TextUtil
begin

text \<open>
  The RTSP server of \<open>internal/rtsp/server.go\<close>: the two mounts, the mapping of sessions to mounts,
  the client count that starts and stops the frame reader, and the conversion of access units to
  RTP packets. The RTSP library is not part of the repository: whether credentials verify, whether a
  stream initializes, how an encoder packs units and which packets are accepted are arguments.
\<close>

section \<open>Mounts and the server\<close>

text \<open>
  \<open>mt_stream\<close> and \<open>mt_encoder\<close> say that the pointer is set; \<open>mt_reader\<close> that \<open>cancel\<close> is
  set, that is, the goroutine reading frames runs.
\<close>

record mount =
  mt_stream :: bool
  mt_encoder :: bool
  mt_sps :: "bytes option"
  mt_pps :: "bytes option"
  mt_clients :: int
  mt_base :: int
  mt_reader :: bool

datatype mount_id = MainMount | SubMount

record rtsp_server =
  rs_username :: string
  rs_mounts :: "mount_id \<Rightarrow> mount"
  rs_sessions :: "nat \<Rightarrow> mount_id option"

definition empty_mount :: mount where
  "empty_mount =
     \<lparr>mt_stream = False, mt_encoder = False, mt_sps = None, mt_pps = None, mt_clients = 0, mt_base = 0, mt_reader = False\<rparr>"

definition new_rtsp :: "string \<Rightarrow> rtsp_server" where
  "new_rtsp user = \<lparr>rs_username = user, rs_mounts = (\<lambda>_. empty_mount), rs_sessions = Map.empty\<rparr>"

definition set_mount :: "mount_id \<Rightarrow> mount \<Rightarrow> rtsp_server \<Rightarrow> rtsp_server" where
  "set_mount k m s = s\<lparr>rs_mounts := (rs_mounts s)(k := m)\<rparr>"

section \<open>The mount of a URL\<close>

text \<open>
  \<open>strings.EqualFold(seg, "sub")\<close> on the bytes of the segment: Unicode folds the long s (U+017F) to s.
\<close>

definition folds_to_sub :: "string list" where
  "folds_to_sub =
     [a @ b @ c. a \<leftarrow> [''s'', ''S'', [char_of (0xC5 :: nat), char_of (0xBF :: nat)]],
                 b \<leftarrow> [''u'', ''U''], c \<leftarrow> [''b'', ''B'']]"

definition mount_for_url :: "string option \<Rightarrow> mount_id" where
  "mount_for_url path =
     (case path of None \<Rightarrow> MainMount
      | Some p \<Rightarrow> if list_ex (\<lambda>seg. seg \<in> set folds_to_sub) (split_on (CHR ''/'') p) then SubMount else MainMount)"

section \<open>Streams and frame readers\<close>

record lib_env =
  le_verified :: bool
  le_init_ok :: bool
  le_encoder_ok :: bool
  le_now :: int

definition init_stream_locked :: "lib_env \<Rightarrow> mount \<Rightarrow> mount" where
  "init_stream_locked env m =
     (if \<not> le_init_ok env then m\<lparr>mt_stream := False\<rparr>
      else m\<lparr>mt_stream := True, mt_encoder := (mt_encoder m \<or> le_encoder_ok env)\<rparr>)"

definition stream_for :: "lib_env \<Rightarrow> mount \<Rightarrow> bool \<times> mount" where
  "stream_for env m = (let m = (if mt_stream m then m else init_stream_locked env m) in (mt_stream m, m))"

definition start_frame_reader :: "lib_env \<Rightarrow> mount \<Rightarrow> mount" where
  "start_frame_reader env m = m\<lparr>mt_base := le_now env, mt_reader := True\<rparr>"

definition stop_frame_reader :: "mount \<Rightarrow> mount" where
  "stop_frame_reader m = m\<lparr>mt_reader := False\<rparr>"

section \<open>Handlers\<close>

text \<open>Replies by status code.\<close>

definition has_auth :: "rtsp_server \<Rightarrow> bool" where
  "has_auth s \<longleftrightarrow> rs_username s \<noteq> []"

definition on_describe :: "lib_env \<Rightarrow> string option \<Rightarrow> rtsp_server \<Rightarrow> nat \<times> rtsp_server" where
  "on_describe env url s =
     (if has_auth s \<and> \<not> le_verified env then (401, s)
      else let k = mount_for_url url; (ok, m) = stream_for env (rs_mounts s k); s = set_mount k m s
           in (if ok then 200 else 404, s))"

definition on_setup :: "lib_env \<Rightarrow> nat \<Rightarrow> string option \<Rightarrow> rtsp_server \<Rightarrow> nat \<times> rtsp_server" where
  "on_setup env sid url s =
     (if has_auth s \<and> \<not> le_verified env then (401, s)
      else let k = mount_for_url url; (ok, m) = stream_for env (rs_mounts s k); s = set_mount k m s
           in if ok then (200, s\<lparr>rs_sessions := (rs_sessions s)(sid \<mapsto> k)\<rparr>) else (404, s))"

definition on_play :: "lib_env \<Rightarrow> nat \<Rightarrow> string option \<Rightarrow> rtsp_server \<Rightarrow> nat \<times> rtsp_server" where
  "on_play env sid url s =
     (let k = (case rs_sessions s sid of None \<Rightarrow> mount_for_url url | Some k \<Rightarrow> k);
          m = rs_mounts s k; m = m\<lparr>mt_clients := mt_clients m + 1\<rparr>;
          m = (if mt_clients m = 1 then start_frame_reader env m else m)
      in (200, set_mount k m s))"

definition on_session_close :: "nat \<Rightarrow> rtsp_server \<Rightarrow> rtsp_server" where
  "on_session_close sid s =
     (case rs_sessions s sid of
        None \<Rightarrow> s
      | Some k \<Rightarrow>
          (let s = s\<lparr>rs_sessions := (rs_sessions s)(sid := None)\<rparr>;
               m = rs_mounts s k; m = m\<lparr>mt_clients := mt_clients m - 1\<rparr>;
               m = (if mt_clients m = 0 then stop_frame_reader m else m)
           in set_mount k m s))"

definition client_count :: "rtsp_server \<Rightarrow> int" where
  "client_count s = mt_clients (rs_mounts s MainMount) + mt_clients (rs_mounts s SubMount)"

definition stop_rtsp :: "rtsp_server \<Rightarrow> rtsp_server" where
  "stop_rtsp s = s\<lparr>rs_mounts := (\<lambda>k. (stop_frame_reader (rs_mounts s k))\<lparr>mt_stream := False\<rparr>)\<rparr>"

section \<open>Access units to RTP packets\<close>

definition first_data :: "(nalu \<Rightarrow> bool) \<Rightarrow> nalu list \<Rightarrow> bytes option" where
  "first_data p ns = map_option nal_data (find p ns)"

definition update_format :: "lib_env \<Rightarrow> nalu list \<Rightarrow> mount \<Rightarrow> mount" where
  "update_format env ns m =
     (case (first_data is_sps ns, first_data is_pps ns) of
        (Some sps, Some pps) \<Rightarrow>
          (let m = m\<lparr>mt_sps := Some sps, mt_pps := Some pps\<rparr>
           in if mt_stream m \<and> mt_clients m = 0 then init_stream_locked env m else m)
      | _ \<Rightarrow> m)"

text \<open>The units handed to the encoder: the access unit's own, behind the parameter sets an IDR lacks.\<close>

definition inject_parameter_sets :: "nalu list \<Rightarrow> mount \<Rightarrow> bytes list" where
  "inject_parameter_sets ns m =
     (let nalus = map nal_data ns; has_sps = list_ex is_sps ns; has_pps = list_ex is_pps ns in
      if list_ex is_idr ns \<and> (\<not> has_sps \<or> \<not> has_pps) then
        (case (mt_sps m, mt_pps m) of
           (Some sps, Some pps) \<Rightarrow> (if \<not> has_sps then [sps] else []) @ (if \<not> has_pps then [pps] else []) @ nalus
         | _ \<Rightarrow> nalus)
      else nalus)"

text \<open>
  The RTP timestamp: \<open>Sub\<close> saturates, and the product of two durations is a 64-bit product.
\<close>

definition rtp_timestamp :: "int \<Rightarrow> int \<Rightarrow> 32 word" where
  "rtp_timestamp t base = of_int (go_div (i64 (time_sub t base * 90000)) 1000000000)"

text \<open>The loop writes packets until one is refused (the \<open>k\<close>-th is accepted when \<open>acc k\<close>).\<close>

fun write_rtp :: "(nat \<Rightarrow> bool) \<Rightarrow> nat \<Rightarrow> 32 word \<Rightarrow> 'p list \<Rightarrow> (32 word \<times> 'p) list" where
  "write_rtp acc k ts [] = []"
| "write_rtp acc k ts (p # ps) = (if acc k then (ts, p) # write_rtp acc (k + 1) ts ps else [])"

definition process_access_unit ::
  "(bytes list \<Rightarrow> 'p list option) \<Rightarrow> (nat \<Rightarrow> bool) \<Rightarrow> lib_env \<Rightarrow> access_unit \<Rightarrow> mount \<Rightarrow> (32 word \<times> 'p) list \<times> mount"
where
  "process_access_unit encode acc env au m =
     (if \<not> mt_stream m \<or> \<not> mt_encoder m then ([], m)
      else if au_nalus au = [] then ([], m)
      else
        let m = (if list_ex (\<lambda>n. is_sps n \<or> is_pps n) (au_nalus au) then update_format env (au_nalus au) m else m) in
        case encode (inject_parameter_sets (au_nalus au) m) of
          None \<Rightarrow> ([], m)
        | Some pkts \<Rightarrow> (write_rtp acc 0 (rtp_timestamp (au_time au) (mt_base m)) pkts, m))"

section \<open>Client accounting\<close>

datatype rtsp_event =
    RtspDescribe lib_env "string option"
  | RtspSetup lib_env nat "string option"
  | RtspPlay lib_env nat
  | RtspClose nat

fun rtsp_step :: "rtsp_server \<Rightarrow> rtsp_event \<Rightarrow> rtsp_server" where
  "rtsp_step s (RtspDescribe env url) = snd (on_describe env url s)"
| "rtsp_step s (RtspSetup env sid url) = snd (on_setup env sid url s)"
| "rtsp_step s (RtspPlay env sid) = snd (on_play env sid None s)"
| "rtsp_step s (RtspClose sid) = on_session_close sid s"

















lemma write_rtp_prefix: "\<exists>k. write_rtp acc n ts ps = map (Pair ts) (take k ps)"
proof (induction ps arbitrary: n)
  case (Cons p ps)
  obtain k where "write_rtp acc (n + 1) ts ps = map (Pair ts) (take k ps)" using Cons by blast
  then show ?case by (cases "acc n") (auto intro: exI [of _ "Suc k"] exI [of _ 0])
qed simp

lemma inject_cases:
  "\<exists>pre. inject_parameter_sets ns m = pre @ map nal_data ns \<and>
     (list_ex is_idr ns \<and> \<not> list_ex is_sps ns \<and> \<not> list_ex is_pps ns \<longrightarrow>
        (\<forall>sps pps. mt_sps m = Some sps \<and> mt_pps m = Some pps \<longrightarrow> pre = [sps, pps]))"
  by (auto simp: inject_parameter_sets_def Let_def split: option.splits)

lemma rtp_timestamp_small:
  assumes "0 \<le> t - base" "(t - base) * 90000 < 2 ^ 63"
  shows "rtp_timestamp t base = of_int ((t - base) * 90000 div 1000000000)"
proof -
  have "time_sub t base = t - base" using assms by (simp add: time_sub_def)
  moreover have "i64 ((t - base) * 90000) = (t - base) * 90000" using assms by simp
  ultimately show ?thesis using assms by (simp add: rtp_timestamp_def go_div_nonneg)
qed

section \<open>Properties\<close>


definition demo_lib :: lib_env where
  "demo_lib = \<lparr>le_verified = True, le_init_ok = True, le_encoder_ok = True, le_now = 0\<rparr>"



text \<open>A session that was set up but never played still counts down when it closes. After it the next client
  that plays brings the count from -1 to 0, and its frame reader is never started.\<close>

theorem setup_without_play_starves_next_client:
  assumes "le_verified env" "le_init_ok env" "a \<noteq> b"
    and "s = foldl rtsp_step (new_rtsp user) [RtspSetup env a None, RtspClose a, RtspSetup env b None, RtspPlay env b]"
  shows "mt_clients (rs_mounts s MainMount) = 0 \<and> \<not> mt_reader (rs_mounts s MainMount)"
  using assms by (auto simp: on_setup_def on_play_def on_session_close_def stream_for_def init_stream_locked_def
      new_rtsp_def set_mount_def mount_for_url_def empty_mount_def stop_frame_reader_def Let_def)

theorem setup_without_play_starves_next_client_witness:
  "\<not> mt_reader (rs_mounts (foldl rtsp_step (new_rtsp ''admin'')
      [RtspSetup demo_lib 1 None, RtspClose 1, RtspSetup demo_lib 2 None, RtspPlay demo_lib 2]) MainMount)"
  using setup_without_play_starves_next_client [of demo_lib 1 2 _ "''admin''", OF _ _ _ refl] by (simp add: demo_lib_def)

text \<open>An access unit reaches the encoder with all its units in order, and an IDR without parameter sets
  behind the stored SPS and PPS; every packet that is sent carries the same timestamp, and the packets
  sent are a prefix of what the encoder made.\<close>

theorem packets_of_access_unit:
  assumes "mt_stream m" "mt_encoder m" "au_nalus au \<noteq> []" "\<not> list_ex (\<lambda>n. is_sps n \<or> is_pps n) (au_nalus au)"
    and "list_ex is_idr (au_nalus au)" "mt_sps m = Some sps" "mt_pps m = Some pps"
    and "encode (sps # pps # map nal_data (au_nalus au)) = Some pkts"
  shows "\<exists>k. process_access_unit encode acc env au m =
    (map (Pair (rtp_timestamp (au_time au) (mt_base m))) (take k pkts), m)"
proof -
  have n: "\<not> list_ex is_sps (au_nalus au)" "\<not> list_ex is_pps (au_nalus au)"
    using assms(4) by (auto simp: list_ex_iff)
  have "inject_parameter_sets (au_nalus au) m = sps # pps # map nal_data (au_nalus au)"
    using inject_cases [of "au_nalus au" m] n assms(5-7) by auto
  then show ?thesis
    using write_rtp_prefix [of acc 0 "rtp_timestamp (au_time au) (mt_base m)" pkts] assms
    by (simp add: process_access_unit_def Let_def)
qed

theorem packets_of_access_unit_witness:
  "\<exists>k. process_access_unit (\<lambda>ns. Some ns) (\<lambda>_. True) demo_lib \<lparr>au_nalus = [nalu_of [0x65, 1]], au_time = 1000000000, au_key = True\<rparr>
     \<lparr>mt_stream = True, mt_encoder = True, mt_sps = Some [0x67], mt_pps = Some [0x68], mt_clients = 1, mt_base = 0, mt_reader = True\<rparr> =
     (map (Pair (rtp_timestamp 1000000000 0)) (take k [[0x67], [0x68], [0x65, 1]]),
      \<lparr>mt_stream = True, mt_encoder = True, mt_sps = Some [0x67], mt_pps = Some [0x68], mt_clients = 1, mt_base = 0, mt_reader = True\<rparr>)"
  using packets_of_access_unit [of "\<lparr>mt_stream = True, mt_encoder = True, mt_sps = Some [0x67], mt_pps = Some [0x68], mt_clients = 1, mt_base = 0, mt_reader = True\<rparr>"
      "\<lparr>au_nalus = [nalu_of [0x65, 1]], au_time = 1000000000, au_key = True\<rparr>" "[0x67]" "[0x68]" "\<lambda>ns. Some ns"]
  by (simp add: nalu_of_def mk_nalu_def)

text \<open>The timestamp is the elapsed time in 90 kHz ticks for the first 102481 seconds; then the 64-bit product
  wraps around, and from 102482 seconds (28 hours 28 minutes) of one reader's life on it jumps.\<close>

theorem rtp_timestamp_wraps:
  "(\<forall>d. 0 \<le> d \<and> d \<le> 102481 * 1000000000 \<longrightarrow> rtp_timestamp (base + d) base = of_int (d * 90000 div 1000000000)) \<and>
   rtp_timestamp (base + 102482 * 1000000000) base \<noteq> of_int (102482 * 1000000000 * 90000 div 1000000000)"
proof
  show "\<forall>d. 0 \<le> d \<and> d \<le> 102481 * 1000000000 \<longrightarrow> rtp_timestamp (base + d) base = of_int (d * 90000 div 1000000000)"
    using rtp_timestamp_small [of "base + d" base for d] by simp
  show "rtp_timestamp (base + 102482 * 1000000000) base \<noteq> of_int (102482 * 1000000000 * 90000 div 1000000000)"
    by (simp add: rtp_timestamp_def time_sub_def i64_def go_div_def)
qed

theorem rtp_timestamp_wraps_witness:
  "rtp_timestamp (7 + 2000000000) 7 = 180000"
proof -
  have "rtp_timestamp (7 + 2000000000) 7 = of_int (2000000000 * 90000 div 1000000000)"
    using rtp_timestamp_wraps [of 7] by (elim conjE allE [of _ 2000000000] impE) auto
  then show ?thesis by simp
qed

end
