(* ===== verification/Pump.thy ===== *)
theory Pump
  imports AuHub AuSplit
begin

text \<open>
  The pumps of \<open>cmd/server/main.go\<close>, from the frames of a camera (or of the substream encoder) to the hub: each
  frame is parsed, the last SPS and PPS are remembered, and a key frame that comes without them gets them in
  front. The two goroutines of the program have the same body.
\<close>

section \<open>The loop body\<close>

text \<open>The cached parameter sets; \<open>None\<close> is a nil slice.\<close>

record pump =
  pu_sps :: "bytes option"
  pu_pps :: "bytes option"

record unit_flags =
  has_sps :: bool
  has_pps :: bool
  has_idr :: bool

definition new_pump :: pump where
  "new_pump = \<lparr>pu_sps = None, pu_pps = None\<rparr>"

definition note_unit :: "pump \<times> unit_flags \<Rightarrow> nalu \<Rightarrow> pump \<times> unit_flags" where
  "note_unit = (\<lambda>(p, g) n.
     let (p, g) = (if is_sps n then (p\<lparr>pu_sps := Some (nal_data n)\<rparr>, g\<lparr>has_sps := True\<rparr>) else (p, g));
         (p, g) = (if is_pps n then (p\<lparr>pu_pps := Some (nal_data n)\<rparr>, g\<lparr>has_pps := True\<rparr>) else (p, g)) in
     (p, if is_idr n then g\<lparr>has_idr := True\<rparr> else g))"

definition injected_sps :: "bytes \<Rightarrow> nalu" where
  "injected_sps d = \<lparr>nal_type = 7, nal_data = d, is_idr = False, is_sps = True, is_pps = False\<rparr>"

definition injected_pps :: "bytes \<Rightarrow> nalu" where
  "injected_pps d = \<lparr>nal_type = 8, nal_data = d, is_idr = False, is_sps = False, is_pps = True\<rparr>"

definition inject_sets :: "pump \<Rightarrow> unit_flags \<Rightarrow> nalu list \<Rightarrow> nalu list" where
  "inject_sets p g nalus =
     (if has_idr g \<and> (\<not> has_sps g \<or> \<not> has_pps g) then
        case (pu_sps p, pu_pps p) of
          (Some s, Some q) \<Rightarrow> (if \<not> has_sps g then [injected_sps s] else []) @ (if \<not> has_pps g then [injected_pps q] else []) @ nalus
        | _ \<Rightarrow> nalus
      else nalus)"

text \<open>One frame; a frame without units is skipped, and \<open>None\<close> is a panic of the parser.\<close>

definition pump_frame :: "pump \<Rightarrow> cam_frame \<Rightarrow> (pump \<times> access_unit option) option" where
  "pump_frame p f =
     (case parse (fr_data f) of
        None \<Rightarrow> None
      | Some nalus \<Rightarrow>
          if nalus = [] then Some (p, None)
          else
            let (p1, g) = foldl note_unit (p, \<lparr>has_sps = False, has_pps = False, has_idr = False\<rparr>) nalus in
            Some (p1, Some \<lparr>au_nalus = inject_sets p1 g nalus, au_time = fr_time f, au_key = has_idr g\<rparr>))"

text \<open>The goroutine until its channel ends: what it writes to the hub.\<close>

fun pump_frames :: "pump \<Rightarrow> cam_frame list \<Rightarrow> (pump \<times> access_unit list) option" where
  "pump_frames p [] = Some (p, [])"
| "pump_frames p (f # fs) =
     (case pump_frame p f of
        None \<Rightarrow> None
      | Some (p1, out) \<Rightarrow>
          (case pump_frames p1 fs of
             None \<Rightarrow> None
           | Some (p2, aus) \<Rightarrow> Some (p2, (case out of None \<Rightarrow> aus | Some au \<Rightarrow> au # aus))))"

section \<open>What the cache stands for\<close>

text \<open>The units of a frame, and the last unit of a kind that a stream of units has shown.\<close>

definition frame_units :: "cam_frame \<Rightarrow> nalu list" where
  "frame_units f = (case parse (fr_data f) of None \<Rightarrow> [] | Some ns \<Rightarrow> ns)"

definition last_data :: "(nalu \<Rightarrow> bool) \<Rightarrow> nalu list \<Rightarrow> bytes option" where
  "last_data P ns = (case filter P ns of [] \<Rightarrow> None | _ \<Rightarrow> Some (nal_data (last (filter P ns))))"

definition any_unit :: "(nalu \<Rightarrow> bool) \<Rightarrow> nalu list \<Rightarrow> bool" where
  "any_unit P ns \<longleftrightarrow> (\<exists>n\<in>set ns. P n)"

definition completed :: "nalu list \<Rightarrow> nalu list \<Rightarrow> nalu list" where
  "completed seen ns =
     inject_sets \<lparr>pu_sps = last_data is_sps seen, pu_pps = last_data is_pps seen\<rparr>
       \<lparr>has_sps = any_unit is_sps ns, has_pps = any_unit is_pps ns, has_idr = any_unit is_idr ns\<rparr> ns"

text \<open>The specification: the access units a stream of frames becomes, given the units before it.\<close>

fun published :: "nalu list \<Rightarrow> cam_frame list \<Rightarrow> access_unit list" where
  "published seen [] = []"
| "published seen (f # fs) =
     (let ns = frame_units f; now = seen @ ns in
      (if ns = [] then [] else [\<lparr>au_nalus = completed now ns, au_time = fr_time f, au_key = any_unit is_idr ns\<rparr>]) @
      published now fs)"

lemma last_data_simps [simp]:
  "last_data P [] = None"
  "last_data P (ns @ [n]) = (if P n then Some (nal_data n) else last_data P ns)"
  by (auto simp: last_data_def split: list.splits)

lemma last_data_None: "last_data P ns = None \<longleftrightarrow> \<not> any_unit P ns"
proof (cases "filter P ns")
  case Nil
  then show ?thesis by (auto simp: last_data_def any_unit_def filter_empty_conv)
next
  case (Cons x xs)
  then have "x \<in> set ns" "P x" by (auto simp: filter_eq_Cons_iff)
  then show ?thesis using Cons by (auto simp: last_data_def any_unit_def)
qed

lemma last_data_mem: "last_data P ns = Some d \<Longrightarrow> \<exists>n\<in>set ns. P n \<and> nal_data n = d"
  using last_in_set [of "filter P ns"] by (auto simp: last_data_def split: list.splits)

lemma any_unit_append [simp]: "any_unit P (ns @ ms) \<longleftrightarrow> any_unit P ns \<or> any_unit P ms"
  by (auto simp: any_unit_def)

lemma any_unit_simps [simp]: "\<not> any_unit P []" "any_unit P (n # ns) \<longleftrightarrow> P n \<or> any_unit P ns"
  by (auto simp: any_unit_def)

lemma note_units:
  "foldl note_unit (\<lparr>pu_sps = last_data is_sps seen, pu_pps = last_data is_pps seen\<rparr>, \<lparr>has_sps = a, has_pps = b, has_idr = c\<rparr>) ns =
   (\<lparr>pu_sps = last_data is_sps (seen @ ns), pu_pps = last_data is_pps (seen @ ns)\<rparr>,
    \<lparr>has_sps = a \<or> any_unit is_sps ns, has_pps = b \<or> any_unit is_pps ns, has_idr = c \<or> any_unit is_idr ns\<rparr>)"
proof (induction ns rule: rev_induct)
  case (snoc n ns)
  then show ?case by (auto simp: note_unit_def append_assoc [symmetric] simp del: append_assoc)
qed simp

lemma pump_frame_completes:
  "pump_frame \<lparr>pu_sps = last_data is_sps seen, pu_pps = last_data is_pps seen\<rparr> f =
   Some (\<lparr>pu_sps = last_data is_sps (seen @ frame_units f), pu_pps = last_data is_pps (seen @ frame_units f)\<rparr>,
     if frame_units f = [] then None
     else Some \<lparr>au_nalus = completed (seen @ frame_units f) (frame_units f), au_time = fr_time f,
                au_key = any_unit is_idr (frame_units f)\<rparr>)"
  using parse_sound [of "fr_data f"]
  by (auto simp: pump_frame_def frame_units_def completed_def note_units)

lemma pump_frames_publish:
  "pump_frames \<lparr>pu_sps = last_data is_sps seen, pu_pps = last_data is_pps seen\<rparr> fs =
   Some (\<lparr>pu_sps = last_data is_sps (seen @ concat (map frame_units fs)),
          pu_pps = last_data is_pps (seen @ concat (map frame_units fs))\<rparr>, published seen fs)"
proof (induction fs arbitrary: seen)
  case (Cons f fs)
  show ?case using Cons.IH [of "seen @ frame_units f"] by (simp add: pump_frame_completes Let_def)
qed simp

lemma pump_starts_empty: "new_pump = \<lparr>pu_sps = last_data is_sps [], pu_pps = last_data is_pps []\<rparr>"
  by (simp add: new_pump_def)

lemma published_append:
  "published seen (fs @ gs) = published seen fs @ published (seen @ concat (map frame_units fs)) gs"
  by (induction fs arbitrary: seen) (simp_all add: Let_def)

section \<open>Key frames\<close>


lemma completed_key:
  assumes "any_unit is_idr ns" "last_data is_sps seen = Some s" "last_data is_pps seen = Some p"
  shows "completed seen ns =
    (if any_unit is_sps ns then [] else [injected_sps s]) @ (if any_unit is_pps ns then [] else [injected_pps p]) @ ns"
  using assms by (simp add: completed_def inject_sets_def)

text \<open>C7: Every access unit of a key frame that follows a first SPS and a first PPS carries both: its own, or the
  latest ones seen, in front of the units of the frame, which are all there; the pump never panics.\<close>

theorem keyframes_carry_parameter_sets:
  assumes "seen = concat (map frame_units (fs @ [f]))" "any_unit is_sps seen" "any_unit is_pps seen"
    and "any_unit is_idr (frame_units f)"
  shows "\<exists>p aus au front. pump_frames new_pump (fs @ [f]) = Some (p, aus @ [au]) \<and> au_key au \<and> au_time au = fr_time f \<and>
    au_nalus au = front @ frame_units f \<and> any_unit is_sps (au_nalus au) \<and> any_unit is_pps (au_nalus au) \<and>
    (\<forall>n\<in>set front. is_sps n \<and> last_data is_sps seen = Some (nal_data n) \<or> is_pps n \<and> last_data is_pps seen = Some (nal_data n))"
proof -
  obtain s where s: "last_data is_sps seen = Some s" using assms(2) by (cases "last_data is_sps seen") (auto simp: last_data_None)
  obtain p where p: "last_data is_pps seen = Some p" using assms(3) by (cases "last_data is_pps seen") (auto simp: last_data_None)
  have ne: "frame_units f \<noteq> []" using assms(4) by auto
  have now: "concat (map frame_units fs) @ frame_units f = seen" by (simp add: assms(1))
  let ?au = "\<lparr>au_nalus = completed seen (frame_units f), au_time = fr_time f, au_key = any_unit is_idr (frame_units f)\<rparr>"
  have "published [] (fs @ [f]) = published [] fs @ [?au]" using ne by (simp add: published_append Let_def now)
  then obtain q where run: "pump_frames new_pump (fs @ [f]) = Some (q, published [] fs @ [?au])"
    using pump_frames_publish [of "[]" "fs @ [f]"] by (simp add: pump_starts_empty)
  let ?front = "(if any_unit is_sps (frame_units f) then [] else [injected_sps s]) @
    (if any_unit is_pps (frame_units f) then [] else [injected_pps p])"
  have units: "au_nalus ?au = ?front @ frame_units f" using completed_key [OF assms(4) s p] by simp
  have "any_unit is_sps (?front @ frame_units f)" "any_unit is_pps (?front @ frame_units f)"
    by (auto simp: injected_sps_def injected_pps_def)
  moreover have "\<forall>n\<in>set ?front. is_sps n \<and> last_data is_sps seen = Some (nal_data n) \<or>
      is_pps n \<and> last_data is_pps seen = Some (nal_data n)"
    using s p by (auto simp: injected_sps_def injected_pps_def)
  moreover have "au_key ?au" "au_time ?au = fr_time f" using assms(4) by simp_all
  ultimately show ?thesis using run units by metis
qed

lemma frame_units_annexb:
  "\<forall>n\<in>set us. n \<noteq> [] \<and> no_start_code n \<Longrightarrow> frame_units \<lparr>fr_data = annexb us, fr_time = t\<rparr> = map nalu_of us"
  by (simp add: frame_units_def parse_annexb)

theorem keyframes_carry_parameter_sets_witness:
  "\<exists>p aus au. pump_frames new_pump [\<lparr>fr_data = annexb [[0x67, 1], [0x68, 2], [0x65, 3]], fr_time = 1\<rparr>,
      \<lparr>fr_data = annexb [[0x65, 4]], fr_time = 2\<rparr>] = Some (p, aus @ [au]) \<and>
    any_unit is_sps (au_nalus au) \<and> any_unit is_pps (au_nalus au)"
proof -
  have u: "frame_units \<lparr>fr_data = annexb [[0x67, 1], [0x68, 2], [0x65, 3]], fr_time = 1\<rparr> = map nalu_of [[0x67, 1], [0x68, 2], [0x65, 3]]"
    "frame_units \<lparr>fr_data = annexb [[0x65, 4]], fr_time = 2\<rparr> = map nalu_of [[0x65, 4]]"
    by (intro frame_units_annexb; simp add: no_start_code_def sc_at_def All_less_Suc nth_Cons')+
  show ?thesis
    using keyframes_carry_parameter_sets [OF refl, of "[\<lparr>fr_data = annexb [[0x67, 1], [0x68, 2], [0x65, 3]], fr_time = 1\<rparr>]"
        "\<lparr>fr_data = annexb [[0x65, 4]], fr_time = 2\<rparr>"]
    by (auto simp: u nalu_of_def mk_nalu_def simp del: annexb_simps)
qed

section \<open>From the encoder to the subscribers\<close>



end
