(* ===== verification/ServerMain.thy ===== *)
theory ServerMain
  imports WebConfig CamBake CamSources Substream RecIndex AuHub
begin

text \<open>
  The wiring of \<open>cmd/server/main.go\<close> that decides something: the camera a configuration builds, the boot with
  its exits, the configuration handed to the GB28181 library, the bridge of its frames, and the shutdown. What the
  started components answer is an argument (\<open>boot_env\<close>); the components themselves are in their theories.
\<close>

section \<open>The camera of a configuration\<close>

record camera_info =
  ci_name :: string
  ci_manufacturer :: string
  ci_model :: string
  ci_serial :: string
  ci_width :: "32 word"
  ci_height :: "32 word"
  ci_fps :: float32
  ci_codec :: string

record vid_backend =
  vb_bin :: string
  vb_params :: params
  vb_info :: camera_info
  vb_frame_buffer :: int
  vb_rotation :: int
  vb_encoder_device :: string
  vb_ffmpeg_bin :: string
  vb_sub_tap :: bool
  vb_ai_tap :: bool

record v4l2_backend =
  v4b_device :: string
  v4b_encoder_device :: string
  v4b_ffmpeg_bin :: string
  v4b_params :: params
  v4b_info :: camera_info
  v4b_rotation :: int
  v4b_sub_tap :: bool
  v4b_ai_tap :: bool

record rpi_backend =
  rb_bin :: string
  rb_params :: params
  rb_info :: camera_info
  rb_frame_buffer :: int

datatype built_camera =
    BuiltRtsp string params camera_info
  | BuiltVid vid_backend
  | BuiltV4l2 v4l2_backend
  | BuiltRpi rpi_backend

text \<open>\<open>float32(n)\<close>.\<close>

definition f32_of_int :: "int \<Rightarrow> float32" where
  "f32_of_int n = with_sign (n < 0) (fl_encode 23 (-149) f32_inf (\<bar>n\<bar>, 0))"

definition camera_params_of :: "camera_config \<Rightarrow> params" where
  "camera_params_of c = default_params\<lparr>pa_width := of_int (cam_width c), pa_height := of_int (cam_height c),
     pa_fps := f32_of_int (cam_fps c), pa_bitrate := of_int (cam_bitrate c),
     pa_brightness := f32_of_f64 (cam_brightness c), pa_contrast := f32_of_f64 (cam_contrast c),
     pa_saturation := f32_of_f64 (cam_saturation c), pa_sharpness := f32_of_f64 (cam_sharpness c),
     pa_idr_period := of_int (cam_idr_period c), pa_codec := ''hardwareH264'',
     pa_h_flip := cam_hflip c, pa_v_flip := cam_vflip c\<rparr>"

definition camera_info_of :: "config \<Rightarrow> camera_info" where
  "camera_info_of cfg =
     \<lparr>ci_name = dev_name (cf_device cfg), ci_manufacturer = dev_manufacturer (cf_device cfg),
      ci_model = dev_model (cf_device cfg), ci_serial = dev_serial_number (cf_device cfg),
      ci_width = of_int (cam_width (cf_camera cfg)), ci_height = of_int (cam_height (cf_camera cfg)),
      ci_fps = f32_of_int (cam_fps (cf_camera cfg)), ci_codec = ''H264''\<rparr>"

text \<open>The constructors of the two subprocess sources overwrite the size and rate of the info with the parameters'.\<close>

definition info_from_params :: "params \<Rightarrow> camera_info \<Rightarrow> camera_info" where
  "info_from_params p i = i\<lparr>ci_width := pa_width p, ci_height := pa_height p, ci_fps := pa_fps p\<rparr>"

definition build_camera :: "config \<Rightarrow> bool \<Rightarrow> bool \<Rightarrow> built_camera \<times> string" where
  "build_camera cfg sub_tap ai_tap =
     (let c = cf_camera cfg; p = camera_params_of c; i = camera_info_of cfg in
      if cam_mode c = ''rtsp'' then
        let url = cam_rtsp_url c;
            url = (if url = '''' then ''rtsp://127.0.0.1:'' @ decimal_int (rtsp_port (cf_rtsp cfg)) @ ''/stream'' else url) in
        (BuiltRtsp url p i, url)
      else if cam_mode c = ''rpicamvid'' then
        (BuiltVid \<lparr>vb_bin = cam_vid_bin c, vb_params = p, vb_info = info_from_params p i,
           vb_frame_buffer = cam_frame_buffer_size c, vb_rotation = normalize_rotation (cam_rotation c),
           vb_encoder_device = cam_encoder_device c, vb_ffmpeg_bin = cam_ffmpeg_bin c,
           vb_sub_tap = sub_tap, vb_ai_tap = ai_tap\<rparr>, '''')
      else if cam_mode c = ''v4l2'' then
        (BuiltV4l2 \<lparr>v4b_device = cam_device c, v4b_encoder_device = cam_encoder_device c,
           v4b_ffmpeg_bin = cam_ffmpeg_bin c, v4b_params = p, v4b_info = i,
           v4b_rotation = normalize_rotation (cam_rotation c), v4b_sub_tap = sub_tap, v4b_ai_tap = ai_tap\<rparr>, '''')
      else
        (BuiltRpi \<lparr>rb_bin = cam_bin_path c, rb_params = p, rb_info = info_from_params p i,
           rb_frame_buffer = cam_frame_buffer_size c\<rparr>, ''''))"

section \<open>Boot\<close>

text \<open>Step 0: the substream, when it is enabled and the capture path can feed it; a failing one is left out.\<close>

record boot_env =
  be_sub_probe :: "bool option"
  be_sub_m2m :: bool
  be_sub_ffmpeg :: bool
  be_camera :: bool
  be_detector :: bool
  be_rtsp :: bool
  be_onvif :: bool
  be_rtmp :: bool
  be_identity :: bool

definition boot_substream :: "boot_env \<Rightarrow> camera_config \<Rightarrow> substream option" where
  "boot_substream en c =
     (if sub_enabled (cam_substream c) \<and> substream_supported c
      then new_substream (substream_options_of c) (be_sub_probe en) (be_sub_m2m en) (be_sub_ffmpeg en)
      else None)"

definition ai_in_process :: "camera_config \<Rightarrow> bool" where
  "ai_in_process c \<longleftrightarrow>
     cam_mode c = ''v4l2'' \<or> (cam_mode c = ''rpicamvid'' \<and> (cam_rotation c = 90 \<or> cam_rotation c = 270))"

datatype ai_source = YuvTap | FfmpegDecoder

datatype hls_place = OnWebMux | OwnPort

text \<open>The configuration of the GB28181 library and its channels.\<close>

record channel_item =
  ch_device_id :: string
  ch_name :: string
  ch_manufacturer :: string
  ch_model :: string
  ch_civil_code :: string
  ch_address :: string
  ch_parent_id :: string
  ch_status :: string

record gb_device_config =
  dc_enabled :: bool
  dc_platform_sip_address :: string
  dc_platform_sip_port :: int
  dc_device_id :: string
  dc_channel_id :: string
  dc_sip_domain :: string
  dc_password :: string
  dc_local_sip_port :: int
  dc_register_interval_secs :: int
  dc_heartbeat_interval_secs :: int
  dc_heartbeat_timeout_count :: int
  dc_transport :: string
  dc_multicast_ttl :: int
  dc_max_sip_message_size :: int
  dc_tls_ca_file :: string
  dc_tls_cert_file :: string
  dc_tls_key_file :: string
  dc_tls_insecure_skip_verify :: bool
  dc_video_param_opt_download_speed :: string
  dc_video_param_opt_resolution :: string
  dc_extra_channels :: "channel_item list"

definition or_default :: "string \<Rightarrow> string \<Rightarrow> string" where
  "or_default d s = (if s = '''' then d else s)"

definition channel_item_of :: "string \<Rightarrow> extra_channel \<Rightarrow> channel_item" where
  "channel_item_of device_id ch =
     \<lparr>ch_device_id = ec_device_id ch, ch_name = ec_name ch, ch_manufacturer = ec_manufacturer ch, ch_model = ec_model ch,
      ch_civil_code = ec_civil_code ch, ch_address = ec_address ch, ch_parent_id = or_default device_id (ec_parent_id ch),
      ch_status = or_default ''ON'' (ec_status ch)\<rparr>"

definition to_device_config :: "gb28181_config \<Rightarrow> gb_device_config" where
  "to_device_config c =
     \<lparr>dc_enabled = gb_enabled c, dc_platform_sip_address = gb_platform_sip_address c,
      dc_platform_sip_port = gb_platform_sip_port c, dc_device_id = gb_device_id c, dc_channel_id = gb_channel_id c,
      dc_sip_domain = gb_sip_domain c, dc_password = gb_password c, dc_local_sip_port = gb_local_sip_port c,
      dc_register_interval_secs = gb_register_interval_secs c, dc_heartbeat_interval_secs = gb_heartbeat_interval_secs c,
      dc_heartbeat_timeout_count = gb_heartbeat_timeout_count c, dc_transport = gb_transport c,
      dc_multicast_ttl = gb_multicast_ttl c, dc_max_sip_message_size = gb_max_sip_message_size c,
      dc_tls_ca_file = gb_tls_ca_file c, dc_tls_cert_file = gb_tls_cert_file c, dc_tls_key_file = gb_tls_key_file c,
      dc_tls_insecure_skip_verify = gb_tls_insecure_skip_verify c,
      dc_video_param_opt_download_speed = gb_video_param_opt_download_speed c,
      dc_video_param_opt_resolution = gb_video_param_opt_resolution c,
      dc_extra_channels = map (channel_item_of (gb_device_id c)) (gb_extra_channels c)\<rparr>"

text \<open>What runs after a boot: the parts that depend on the configuration.\<close>

record server_parts =
  sv_camera :: built_camera
  sv_substream :: "substream option"
  sv_ai :: "ai_source option"
  sv_rtsp :: "rtsp_config option"
  sv_sub_mount :: bool
  sv_thermal :: bool
  sv_web :: bool
  sv_hls :: "hls_place option"
  sv_rtmp :: bool
  sv_recording :: bool
  sv_gb28181 :: "gb_device_config option"
  sv_position :: "(string \<times> string) option"
  sv_metrics_port :: "int option"

datatype boot_exit =
    EmptyOnvifPassword | CameraStartFailed | RtspStartFailed | OnvifInitFailed | RtmpStartFailed | IdentityInvalid

definition boot :: "boot_env \<Rightarrow> config \<Rightarrow> boot_exit + server_parts" where
  "boot en cfg =
     (if onvif_password (cf_onvif cfg) = '''' then Inl EmptyOnvifPassword
      else
        let c = cf_camera cfg;
            sub = boot_substream en c;
            ai_tap = ai_enabled (cf_ai cfg) \<and> ai_in_process c;
            (cam, external_url) = build_camera cfg (sub \<noteq> None) ai_tap in
        if \<not> be_camera en then Inl CameraStartFailed
        else if external_url = '''' \<and> \<not> be_rtsp en then Inl RtspStartFailed
        else if \<not> be_onvif en then Inl OnvifInitFailed
        else if rtmp_enabled (cf_rtmp cfg) \<and> \<not> be_rtmp en then Inl RtmpStartFailed
        else if gb_enabled (cf_gb28181 cfg) \<and> \<not> be_identity en then Inl IdentityInvalid
        else Inr
          \<lparr>sv_camera = cam, sv_substream = sub,
           sv_ai = (if ai_enabled (cf_ai cfg) \<and> be_detector en then Some (if ai_tap then YuvTap else FfmpegDecoder) else None),
           sv_rtsp = (if external_url = '''' then Some (cf_rtsp cfg) else None),
           sv_sub_mount = (external_url = '''' \<and> sub \<noteq> None),
           sv_thermal = th_enabled (cf_thermal cfg), sv_web = web_enabled (cf_web cfg),
           sv_hls = (if hls_enabled (cf_hls cfg) then Some (if web_enabled (cf_web cfg) then OnWebMux else OwnPort) else None),
           sv_rtmp = rtmp_enabled (cf_rtmp cfg), sv_recording = rec_enabled (cf_recording cfg),
           sv_gb28181 = (if gb_enabled (cf_gb28181 cfg) then Some (to_device_config (cf_gb28181 cfg)) else None),
           sv_position = (if gb_enabled (cf_gb28181 cfg) \<and> gb_longitude (cf_gb28181 cfg) \<noteq> '''' \<and> gb_latitude (cf_gb28181 cfg) \<noteq> ''''
             then Some (gb_longitude (cf_gb28181 cfg), gb_latitude (cf_gb28181 cfg)) else None),
           sv_metrics_port = (if met_enabled (cf_metrics cfg) then Some (met_port (cf_metrics cfg)) else None)\<rparr>)"

text \<open>One tick of the metrics poll reads the observability state of the web server, which may not exist: \<open>None\<close>
  is the panic on the nil server.\<close>

definition metrics_poll :: "'o option \<Rightarrow> ('o \<Rightarrow> 's) \<Rightarrow> 's option" where
  "metrics_poll web_observe snap = (case web_observe of None \<Rightarrow> None | Some ob \<Rightarrow> Some (snap ob))"

text \<open>Levels by their number in \<open>log/slog\<close>.\<close>

definition log_level_number :: "string \<Rightarrow> int" where
  "log_level_number level =
     (let l = map lower_char level in
      if l = ''debug'' then -4 else if l = ''warn'' then 4 else if l = ''error'' then 8 else 0)"

section \<open>Adapters of the GB28181 library\<close>

text \<open>The bridge of a subscription: a unit is taken from the hub's channel and offered, without blocking, to a second
  channel of the same capacity.\<close>

datatype bridge_event = HubSends access_unit | Bridges | LibraryTakes

record bridge =
  br_in :: "access_unit chan"
  br_out :: "access_unit chan"
  br_got :: "access_unit list"

definition new_bridge :: "nat \<Rightarrow> bridge" where
  "new_bridge n = \<lparr>br_in = new_chan n, br_out = new_chan n, br_got = []\<rparr>"

fun bridge_step :: "bridge \<Rightarrow> bridge_event \<Rightarrow> bridge" where
  "bridge_step b (HubSends au) = b\<lparr>br_in := offer au (br_in b)\<rparr>"
| "bridge_step b Bridges =
     (case recv (br_in b) of
        (None, c) \<Rightarrow> b\<lparr>br_in := c\<rparr>
      | (Some au, c) \<Rightarrow> b\<lparr>br_in := c, br_out := offer au (br_out b)\<rparr>)"
| "bridge_step b LibraryTakes =
     (case recv (br_out b) of
        (None, c) \<Rightarrow> b\<lparr>br_out := c\<rparr>
      | (Some au, c) \<Rightarrow> b\<lparr>br_out := c, br_got := br_got b @ [au]\<rparr>)"

record segment_meta =
  sg_file :: string
  sg_start :: int
  sg_end :: int
  sg_size :: int
  sg_frames :: int
  sg_keyframes :: int

definition lookup_meta :: "int \<Rightarrow> int \<Rightarrow> rec_index \<Rightarrow> segment_meta list" where
  "lookup_meta start_ms end_ms ix =
     map (\<lambda>s. \<lparr>sg_file = si_file s, sg_start = si_start s, sg_end = si_end s, sg_size = si_size s,
               sg_frames = si_frames s, sg_keyframes = si_keyframes s\<rparr>) (index_lookup start_ms end_ms ix)"

section \<open>Shutdown\<close>






section \<open>What the stream looks like\<close>













section \<open>Properties\<close>






text \<open>A configuration that validation accepts may still end the process at boot.\<close>

lemma valid_config_without_boot:
  "validate default_config = Inr default_config \<and> boot en default_config = Inl EmptyOnvifPassword"
  using default_valid validate_iff [of default_config default_config]
  by (simp add: boot_def default_config_def)









section \<open>Shutdown\<close>





section \<open>The bridge to the GB28181 library\<close>

fun bridge_sent :: "bridge_event list \<Rightarrow> access_unit list" where
  "bridge_sent [] = []"
| "bridge_sent (HubSends au # es) = au # bridge_sent es"
| "bridge_sent (_ # es) = bridge_sent es"

definition in_bridge :: "bridge \<Rightarrow> access_unit list" where
  "in_bridge b = br_got b @ items (br_out b) @ items (br_in b)"

lemma bridge_step_flow:
  "\<exists>zs. subseq zs (in_bridge b @ bridge_sent [e]) \<and> in_bridge (bridge_step b e) = zs \<and>
     of_nat (length (in_bridge b @ bridge_sent [e])) + dropped (br_in b) + dropped (br_out b) =
     of_nat (length zs) + dropped (br_in (bridge_step b e)) + dropped (br_out (bridge_step b e))"
proof (cases e)
  case (HubSends au)
  then show ?thesis by (auto simp: in_bridge_def offer_def)
next
  case Bridges
  show ?thesis
  proof (cases "items (br_in b)")
    case (Cons x xs)
    have "subseq (br_got b @ items (br_out b) @ xs) (br_got b @ items (br_out b) @ x # xs)"
      by (intro list_emb_append_mono subseq_order.refl list_emb_Cons)
    then show ?thesis using Bridges Cons by (auto simp: in_bridge_def recv_def offer_def algebra_simps)
  qed (use Bridges in \<open>auto simp: in_bridge_def recv_def\<close>)
next
  case LibraryTakes
  then show ?thesis by (cases "items (br_out b)") (auto simp: in_bridge_def recv_def)
qed

text \<open>The library gets the access units in the order the hub sent them, and every one is received, still queued, or
  counted as dropped by one of the two channels: the second count is nowhere in the hub's.\<close>

theorem bridge_keeps_order:
  "\<exists>zs. in_bridge (foldl bridge_step (new_bridge n) es) = zs \<and> subseq zs (bridge_sent es) \<and>
     of_nat (length (bridge_sent es)) = of_nat (length zs) +
       dropped (br_in (foldl bridge_step (new_bridge n) es)) + dropped (br_out (foldl bridge_step (new_bridge n) es))"
proof -
  have snoc: "bridge_sent (es @ [e]) = bridge_sent es @ bridge_sent [e]" for es e
    by (induction es rule: bridge_sent.induct) (cases e; simp)+
  show ?thesis
  proof (induction es rule: rev_induct)
    case Nil
    then show ?case by (simp add: new_bridge_def new_chan_def in_bridge_def)
  next
    case (snoc e es)
    let ?b = "foldl bridge_step (new_bridge n) es"
    obtain zs where zs: "subseq zs (in_bridge ?b @ bridge_sent [e])" "in_bridge (bridge_step ?b e) = zs"
      "of_nat (length (in_bridge ?b @ bridge_sent [e])) + dropped (br_in ?b) + dropped (br_out ?b) =
       of_nat (length zs) + dropped (br_in (bridge_step ?b e)) + dropped (br_out (bridge_step ?b e))"
      using bridge_step_flow by blast
    have "subseq (in_bridge ?b @ bridge_sent [e]) (bridge_sent es @ bridge_sent [e])" using snoc.IH by (intro list_emb_append_mono subseq_order.refl) simp
    then have "subseq zs (bridge_sent (es @ [e]))" unfolding \<open>\<And>es e. bridge_sent (es @ [e]) = bridge_sent es @ bridge_sent [e]\<close>
      using zs(1) subseq_order.trans by blast
    moreover have "of_nat (length (bridge_sent (es @ [e]))) = of_nat (length zs) +
        dropped (br_in (bridge_step ?b e)) + dropped (br_out (bridge_step ?b e))"
      using snoc.IH zs(3) unfolding \<open>\<And>es e. bridge_sent (es @ [e]) = bridge_sent es @ bridge_sent [e]\<close> by (auto simp: algebra_simps)
    ultimately show ?case using zs(2) by auto
  qed
qed

end
