(* ===== verification/GbHelpers.thy ===== *)
theory GbHelpers
  imports CamParams
begin

text \<open>
  The helpers around the GB28181 library: the alarm bridge (\<open>internal/gbalarm/gbalarm.go\<close>), the drift latch of
  the platform clock (\<open>internal/gbdate/gbdate.go\<close>) with its observer in \<open>cmd/server/main.go\<close>, and the static
  position (\<open>internal/gbposition/gbposition.go\<close>). Times are Unix milliseconds or seconds in 64 bits; the text of
  a local time is an argument.
\<close>

section \<open>The alarm bridge\<close>











definition mirror_mode_to_flips :: "32 word \<Rightarrow> bool \<times> bool" where
  "mirror_mode_to_flips mode =
     (if mode = 1 then (True, False) else if mode = 2 then (False, True) else if mode = 3 then (True, True) else (False, False))"

text \<open>The platform's \<open>FrameMirror\<close> command sets both parameters of the camera, whatever the first answers.\<close>

definition on_frame_mirror :: "(string \<Rightarrow> param_value \<Rightarrow> 'c \<Rightarrow> param_error option \<times> 'c) \<Rightarrow> 32 word \<Rightarrow> 'c \<Rightarrow> 'c" where
  "on_frame_mirror set_p mode c =
     (case mirror_mode_to_flips mode of
        (h, v) \<Rightarrow> snd (set_p ''vFlip'' (VBool v) (snd (set_p ''hFlip'' (VBool h) c))))"

section \<open>The drift latch\<close>

datatype drift_outcome = Stable | Warn | Recovered

definition warn_drift :: int where
  "warn_drift = 5"

definition evaluate_drift :: "int \<Rightarrow> int \<Rightarrow> int \<Rightarrow> drift_outcome \<times> int \<times> int" where
  "evaluate_drift platform local latch =
     (let drift = i64 (local - platform); mag = (if drift < 0 then i64 (- drift) else drift) in
      if mag \<le> warn_drift then (if latch \<noteq> 0 then (Recovered, drift, 0) else (Stable, drift, latch))
      else
        let moved = i64 (mag - latch); moved = (if moved < 0 then i64 (- moved) else moved) in
        if latch \<noteq> 0 \<and> moved < warn_drift then (Stable, drift, latch) else (Warn, drift, mag))"

text \<open>One tick of the observer: no answer of the platform yet is a time of zero.\<close>

definition observe_tick :: "int \<Rightarrow> int \<Rightarrow> int \<Rightarrow> drift_outcome \<times> int" where
  "observe_tick platform local latch =
     (if platform = 0 then (Stable, latch)
      else case evaluate_drift platform local latch of (o1, drift, latch') \<Rightarrow> (o1, latch'))"

fun observe_ticks :: "int \<Rightarrow> (int \<times> int) list \<Rightarrow> drift_outcome list" where
  "observe_ticks latch [] = []"
| "observe_ticks latch ((platform, local) # ts) =
     (case observe_tick platform local latch of (o1, latch') \<Rightarrow> o1 # observe_ticks latch' ts)"

section \<open>The position\<close>

record position_report =
  po_time :: string
  po_longitude :: string
  po_latitude :: string

definition current_position :: "(int \<Rightarrow> string) \<Rightarrow> int \<Rightarrow> string \<times> string \<Rightarrow> position_report" where
  "current_position local_time now = (\<lambda>(lon, lat). \<lparr>po_time = local_time now, po_longitude = lon, po_latitude = lat\<rparr>)"

section \<open>Alarms\<close>















section \<open>Properties\<close>



text \<open>A steady drift beyond the threshold is reported once, however long it lasts, and its end once; what an edge case
  of the first version of the latch would have done is excluded.\<close>

theorem steady_drift_reported_once:
  assumes "\<forall>(platform, local)\<in>set ticks. platform \<noteq> 0 \<and> local - platform = d" "5 < \<bar>d\<bar>" "\<bar>d\<bar> < 2 ^ 62"
    and "p \<noteq> 0" "\<bar>l - p\<bar> \<le> 5" "p' \<noteq> 0" "l' - p' = d"
  shows "observe_ticks 0 ((p', l') # ticks @ [(p, l), (p, l)]) = Warn # replicate (length ticks) Stable @ [Recovered, Stable]"
proof -
  have id: "i64 d = d" "i64 (- d) = - d" "i64 \<bar>d\<bar> = \<bar>d\<bar>" "i64 (l - p) = l - p" "i64 (p - l) = p - l" "i64 0 = 0"
    using assms(3,5) by (simp_all add: abs_if split: if_splits)
  have start: "observe_tick p' l' 0 = (Warn, \<bar>d\<bar>)"
    using assms(2,3,6) id by (cases "d < 0") (simp_all add: observe_tick_def evaluate_drift_def Let_def warn_drift_def assms(7))
  have quiet: "observe_ticks \<bar>d\<bar> (ts @ us) = replicate (length ts) Stable @ observe_ticks \<bar>d\<bar> us"
    if "\<forall>(platform, local)\<in>set ts. platform \<noteq> 0 \<and> local - platform = d" for ts us
    using that
  proof (induction ts)
    case (Cons t ts)
    obtain a b where t: "t = (a, b)" "a \<noteq> 0" "b - a = d" using Cons.prems by (cases t) auto
    have "observe_tick a b \<bar>d\<bar> = (Stable, \<bar>d\<bar>)"
      using t(2) id assms(2) by (cases "d < 0") (simp_all add: observe_tick_def evaluate_drift_def Let_def warn_drift_def t(3))
    then show ?case using Cons by (simp add: t)
  qed simp
  have stop: "observe_tick p l \<bar>d\<bar> = (Recovered, 0)" "observe_tick p l 0 = (Stable, 0)"
    using assms(2,4,5) id by (auto simp: observe_tick_def evaluate_drift_def Let_def warn_drift_def abs_if)
  show ?thesis using start quiet [OF assms(1), of "[(p, l), (p, l)]"] stop by simp
qed

theorem steady_drift_reported_once_witness:
  "observe_ticks 0 [(1000, 1007), (1060, 1067), (1120, 1127), (1180, 1181), (1180, 1181)] = [Warn, Stable, Stable, Recovered, Stable]"
  using steady_drift_reported_once [of "[(1060, 1067), (1120, 1127)]" 7 1180 1181 1000 1007] by (simp add: numeral_eq_Suc)

text \<open>The mirror command reaches the flips of the v4l2 source.\<close>

lemma frame_mirror_flips:
  "v4_flip_h (on_frame_mirror v4l2_set_param mode c) = fst (mirror_mode_to_flips mode) \<and>
   v4_flip_v (on_frame_mirror v4l2_set_param mode c) = snd (mirror_mode_to_flips mode)"
  by (simp add: on_frame_mirror_def v4l2_set_param_def Let_def split: prod.split)

end
