(* ===== verification/I2c.thy ===== *)
theory I2c
  imports Prelude
begin

text \<open>
  The two transports of \<open>internal/i2c/i2c.go\<close>. The bit-bang master is a program over line actions; what an action
  does to the world (sysfs files, wires) is an argument, and an action that fails ends the transfer. Against a device
  that follows the I2C protocol the master reads its registers. The kernel transport is the outcome of its system call.
\<close>

section \<open>Line actions\<close>

datatype pin = SDA | SCL

text \<open>\<open>Lo\<close> drives a line low, \<open>Rz\<close> releases it, \<open>Rd\<close> reads its value file, \<open>Wait\<close> counts half periods. \<open>Exists\<close>
  answers the empty text when the line's directory is missing.\<close>

datatype act = Lo pin | Rz pin | Rd pin | Wait nat | Exists pin | Export pin | Unexport pin

fun run_acts :: "(act \<Rightarrow> 'w \<Rightarrow> bytes option \<times> 'w) \<Rightarrow> act list \<Rightarrow> 'w \<Rightarrow> bool \<times> 'w" where
  "run_acts io [] w = (True, w)"
| "run_acts io (a # as) w = (case io a w of (None, w1) \<Rightarrow> (False, w1) | (Some c, w1) \<Rightarrow> run_acts io as w1)"

text \<open>Actions whose errors are ignored.\<close>

definition try_acts :: "(act \<Rightarrow> 'w \<Rightarrow> bytes option \<times> 'w) \<Rightarrow> act list \<Rightarrow> 'w \<Rightarrow> 'w" where
  "try_acts io as w = foldl (\<lambda>w a. snd (io a w)) w as"

text \<open>The last digit of the value file.\<close>

definition line_value :: "bytes \<Rightarrow> nat" where
  "line_value content = foldl (\<lambda>v c. if 48 \<le> c \<and> c \<le> 57 then unat (c - 48) else v) 0 content"

definition read_line :: "(act \<Rightarrow> 'w \<Rightarrow> bytes option \<times> 'w) \<Rightarrow> pin \<Rightarrow> 'w \<Rightarrow> nat option \<times> 'w" where
  "read_line io p w = (case io (Rd p) w of (c, w1) \<Rightarrow> (map_option line_value c, w1))"

section \<open>Bits and bytes\<close>

definition start_acts :: "act list" where
  "start_acts = [Rz SDA, Rz SCL, Wait 2, Lo SDA, Wait 1, Lo SCL]"

definition rstart_acts :: "act list" where
  "rstart_acts = [Rz SDA, Wait 1, Rz SCL, Wait 3, Lo SDA, Wait 1, Lo SCL]"

definition stop_acts :: "act list" where
  "stop_acts = [Lo SDA, Wait 1, Rz SCL, Wait 3, Rz SDA, Wait 2]"

definition wr_bit :: "bool \<Rightarrow> act list" where
  "wr_bit b = [if b then Rz SDA else Lo SDA, Wait 1, Rz SCL, Wait 3, Lo SCL, Wait 1]"

definition mack :: "act list" where
  "mack = [Lo SDA, Wait 1, Rz SCL, Wait 3, Lo SCL, Wait 1, Rz SDA]"

definition mnak :: "act list" where
  "mnak = [Rz SDA, Wait 1, Rz SCL, Wait 3, Lo SCL]"

definition rd_bit :: "(act \<Rightarrow> 'w \<Rightarrow> bytes option \<times> 'w) \<Rightarrow> 'w \<Rightarrow> nat option \<times> 'w" where
  "rd_bit io w =
     (case run_acts io [Rz SDA, Wait 1, Rz SCL, Wait 3] w of
        (False, w1) \<Rightarrow> (None, w1)
      | (True, w1) \<Rightarrow>
          (case read_line io SDA w1 of
             (None, w2) \<Rightarrow> (None, w2)
           | (Some v, w2) \<Rightarrow>
               (case run_acts io [Lo SCL, Wait 1] w2 of (ok, w3) \<Rightarrow> (if ok then Some v else None, w3))))"

text \<open>Eight bits, the highest first, and the acknowledgement of the other side.\<close>

definition byte_bits :: "byte \<Rightarrow> bool list" where
  "byte_bits v = map (bit v) [7, 6, 5, 4, 3, 2, 1, 0]"

definition send_byte :: "(act \<Rightarrow> 'w \<Rightarrow> bytes option \<times> 'w) \<Rightarrow> byte \<Rightarrow> 'w \<Rightarrow> bool option \<times> 'w" where
  "send_byte io v w =
     (case run_acts io (concat (map wr_bit (byte_bits v))) w of
        (False, w1) \<Rightarrow> (None, w1)
      | (True, w1) \<Rightarrow> (case rd_bit io w1 of (ack, w2) \<Rightarrow> (map_option (\<lambda>a. a = 0) ack, w2)))"

fun read_bits :: "(act \<Rightarrow> 'w \<Rightarrow> bytes option \<times> 'w) \<Rightarrow> nat \<Rightarrow> byte \<Rightarrow> 'w \<Rightarrow> byte option \<times> 'w" where
  "read_bits io 0 v w = (Some v, w)"
| "read_bits io (Suc k) v w =
     (case rd_bit io w of
        (None, w1) \<Rightarrow> (None, w1)
      | (Some b, w1) \<Rightarrow> read_bits io k (push_bit 1 v OR of_nat b) w1)"

fun read_bytes :: "(act \<Rightarrow> 'w \<Rightarrow> bytes option \<times> 'w) \<Rightarrow> nat \<Rightarrow> 'w \<Rightarrow> bytes option \<times> 'w" where
  "read_bytes io 0 w = (Some [], w)"
| "read_bytes io (Suc k) w =
     (case read_bits io 8 0 w of
        (None, w1) \<Rightarrow> (None, w1)
      | (Some v, w1) \<Rightarrow>
          (case run_acts io (if 0 < k then mack else mnak) w1 of
             (False, w2) \<Rightarrow> (None, w2)
           | (True, w2) \<Rightarrow> (case read_bytes io k w2 of (vs, w3) \<Rightarrow> (map_option (Cons v) vs, w3))))"

section \<open>Transfers\<close>

datatype i2c_error = LineError | NakAddrWrite | NakRegHi | NakRegLo | NakAddrRead | WriteNotImplemented

text \<open>After a missing acknowledgement the bus is released, whatever that answers; for the register bytes and the read
  address an error of a line counts as one.\<close>

definition give_up :: "(act \<Rightarrow> 'w \<Rightarrow> bytes option \<times> 'w) \<Rightarrow> i2c_error \<Rightarrow> 'w \<Rightarrow> (i2c_error + bytes) \<times> 'w" where
  "give_up io e w = (Inl e, snd (run_acts io stop_acts w))"

definition read_block_at :: "(act \<Rightarrow> 'w \<Rightarrow> bytes option \<times> 'w) \<Rightarrow> byte \<Rightarrow> 16 word \<Rightarrow> nat \<Rightarrow> 'w \<Rightarrow> (i2c_error + bytes) \<times> 'w" where
  "read_block_at io addr reg n w =
     (case run_acts io start_acts w of (False, w1) \<Rightarrow> (Inl LineError, w1) | (True, w1) \<Rightarrow>
     (case send_byte io (push_bit 1 addr) w1 of
        (None, w2) \<Rightarrow> (Inl LineError, w2)
      | (Some False, w2) \<Rightarrow> give_up io NakAddrWrite w2
      | (Some True, w2) \<Rightarrow>
     (case send_byte io (ucast (drop_bit 8 reg)) w2 of (a, w3) \<Rightarrow> if a \<noteq> Some True then give_up io NakRegHi w3 else
     (case send_byte io (ucast reg) w3 of (a, w4) \<Rightarrow> if a \<noteq> Some True then give_up io NakRegLo w4 else
     (case run_acts io rstart_acts w4 of (False, w5) \<Rightarrow> (Inl LineError, w5) | (True, w5) \<Rightarrow>
     (case send_byte io (push_bit 1 addr OR 1) w5 of (a, w6) \<Rightarrow> if a \<noteq> Some True then give_up io NakAddrRead w6 else
     (case read_bytes io n w6 of
        (None, w7) \<Rightarrow> (Inl LineError, w7)
      | (Some bs, w7) \<Rightarrow>
          (case run_acts io stop_acts w7 of (ok, w8) \<Rightarrow> (if ok then Inr bs else Inl LineError, w8)))))))))"

fun words_of :: "bytes \<Rightarrow> 16 word list" where
  "words_of (hi # lo # bs) = from_be16 hi lo # words_of bs"
| "words_of _ = []"

definition read_reg16 :: "(16 word \<Rightarrow> nat \<Rightarrow> 'w \<Rightarrow> ('e + bytes) \<times> 'w) \<Rightarrow> 16 word \<Rightarrow> 'w \<Rightarrow> ('e + 16 word) \<times> 'w" where
  "read_reg16 rb reg w =
     (case rb reg 2 w of (Inl e, w1) \<Rightarrow> (Inl e, w1) | (Inr bs, w1) \<Rightarrow> (Inr (from_be16 (bs ! 0) (bs ! 1)), w1))"

definition bb_write_reg16 :: "16 word \<Rightarrow> 16 word \<Rightarrow> 'w \<Rightarrow> (i2c_error + unit) \<times> 'w" where
  "bb_write_reg16 reg val w = (Inl WriteNotImplemented, w)"

definition chunk_words :: nat where
  "chunk_words = 128"

text \<open>Words in chunks, from word \<open>k\<close> on.\<close>

function read_words :: "(16 word \<Rightarrow> nat \<Rightarrow> 'w \<Rightarrow> ('e + bytes) \<times> 'w) \<Rightarrow> 16 word \<Rightarrow> nat \<Rightarrow> nat \<Rightarrow> 'w \<Rightarrow> ('e + 16 word list) \<times> 'w" where
  "read_words rb base n k w =
     (if n \<le> k then (Inr [], w)
      else
        let cnt = (if chunk_words < n - k then chunk_words else n - k) in
        case rb (base + of_nat k) (2 * cnt) w of
          (Inl e, w1) \<Rightarrow> (Inl e, w1)
        | (Inr tmp, w1) \<Rightarrow>
            (case read_words rb base n (k + cnt) w1 of
               (Inl e, w2) \<Rightarrow> (Inl e, w2)
             | (Inr ws, w2) \<Rightarrow> (Inr (words_of tmp @ ws), w2)))"
  by pat_completeness auto
termination by (relation "measure (\<lambda>(rb, base, n, k, w). n - k)") (auto simp: chunk_words_def)

declare read_words.simps [simp del]

section \<open>Opening\<close>

text \<open>Clock the lines until the device releases its data line, at most 32 times, then try to stop.\<close>

fun recover_loop :: "(act \<Rightarrow> 'w \<Rightarrow> bytes option \<times> 'w) \<Rightarrow> nat \<Rightarrow> 'w \<Rightarrow> bool \<times> 'w" where
  "recover_loop io 0 w = (True, w)"
| "recover_loop io (Suc i) w =
     (case run_acts io [Lo SCL, Wait 1, Rz SCL, Wait 2] w of
        (False, w1) \<Rightarrow> (False, w1)
      | (True, w1) \<Rightarrow>
          (case read_line io SDA w1 of
             (None, w2) \<Rightarrow> (False, w2)
           | (Some v, w2) \<Rightarrow>
               if v \<noteq> 0 then (True, try_acts io [Lo SCL, Wait 1, Lo SDA, Wait 1, Rz SCL, Wait 2, Rz SDA, Wait 2] w2)
               else recover_loop io i w2))"

definition recover_bus :: "(act \<Rightarrow> 'w \<Rightarrow> bytes option \<times> 'w) \<Rightarrow> 'w \<Rightarrow> bool \<times> 'w" where
  "recover_bus io w = recover_loop io 32 w"

definition open_gpio :: "(act \<Rightarrow> 'w \<Rightarrow> bytes option \<times> 'w) \<Rightarrow> pin \<Rightarrow> 'w \<Rightarrow> bool \<times> 'w" where
  "open_gpio io p w =
     (case io (Exists p) w of
        (there, w1) \<Rightarrow>
          (case (if there = Some [] then run_acts io [Export p] w1 else (True, w1)) of
             (False, w2) \<Rightarrow> (False, w2)
           | (True, w2) \<Rightarrow> run_acts io [Rz p] w2))"

definition bb_close :: "(act \<Rightarrow> 'w \<Rightarrow> bytes option \<times> 'w) \<Rightarrow> 'w \<Rightarrow> 'w" where
  "bb_close io w = try_acts io [Unexport SDA, Unexport SCL] w"

datatype open_error = PinUnavailable | RecoveryFailed | SclStuckLow | SdaStuckLow

definition new_bitbang :: "(act \<Rightarrow> 'w \<Rightarrow> bytes option \<times> 'w) \<Rightarrow> 'w \<Rightarrow> open_error option \<times> 'w" where
  "new_bitbang io w =
     (case open_gpio io SDA w of (False, w1) \<Rightarrow> (Some PinUnavailable, w1) | (True, w1) \<Rightarrow>
     (case open_gpio io SCL w1 of (False, w2) \<Rightarrow> (Some PinUnavailable, try_acts io [Unexport SDA] w2) | (True, w2) \<Rightarrow>
     (case read_line io SDA (try_acts io [Wait 2] w2) of (v, w3) \<Rightarrow>
     (case (if v = Some 0 then recover_bus io w3 else (True, w3)) of
        (False, w4) \<Rightarrow> (Some RecoveryFailed, bb_close io w4)
      | (True, w4) \<Rightarrow>
     (case read_line io SCL w4 of (v, w5) \<Rightarrow>
        if v = None \<or> v = Some 0 then (Some SclStuckLow, bb_close io w5)
        else (case read_line io SDA (try_acts io [Wait 2] w5) of (v, w6) \<Rightarrow>
          if v = Some 0 then (Some SdaStuckLow, bb_close io w6) else (None, w6)))))))"

section \<open>The kernel transport\<close>

text \<open>The result register of the call is unsigned, so the test for a negative value never holds, and a failed transfer
  returns the zeroed buffer. \<open>ioctl\<close> gives the register, the error number and the bytes the device sent.\<close>

definition twi_ioctl :: "64 word \<times> int \<Rightarrow> int option" where
  "twi_ioctl = (\<lambda>(rc, errno). if uint rc < 0 then Some errno else None)"

definition twi_wr_rd :: "(byte \<Rightarrow> 16 word \<Rightarrow> nat \<Rightarrow> (64 word \<times> int) \<times> bytes) \<Rightarrow> byte \<Rightarrow> 16 word \<Rightarrow> nat \<Rightarrow> int + bytes" where
  "twi_wr_rd xfer addr reg n =
     (case xfer addr reg n of
        (r, sent) \<Rightarrow>
          (case twi_ioctl r of
             Some e \<Rightarrow> Inl e
           | None \<Rightarrow> Inr (take n sent @ replicate (n - length sent) 0)))"

definition twi_read_block :: "(byte \<Rightarrow> 16 word \<Rightarrow> nat \<Rightarrow> (64 word \<times> int) \<times> bytes) \<Rightarrow> byte \<Rightarrow> 16 word \<Rightarrow> nat \<Rightarrow> 'w \<Rightarrow> (int + bytes) \<times> 'w" where
  "twi_read_block xfer addr reg n w = (twi_wr_rd xfer addr reg n, w)"


section \<open>The other end of the wires\<close>

text \<open>A register device as the I2C protocol prescribes it, the reference for the master: it sees the line levels, takes
  its address and a register number, acknowledges, and after a repeated start sends the register's bytes and those
  of the registers behind it until it is not acknowledged. It moves its data line only while the clock is low.\<close>

datatype receiving = RxAddr | RxHi | RxLo | RxData

datatype dev_mode = Off | Recv receiving "bool list" | Acking receiving | AckingRead | Send nat nat | MasterAck nat "bool option"

record device =
  dv_mode :: dev_mode
  dv_low :: bool
  dv_ptr :: "16 word"
  dv_addr :: byte
  dv_regs :: "16 word \<Rightarrow> 16 word"

definition reg_byte :: "(16 word \<Rightarrow> 16 word) \<Rightarrow> 16 word \<Rightarrow> nat \<Rightarrow> byte" where
  "reg_byte regs ptr i =
     (let r = regs (ptr + of_nat (i div 2)) in if even i then ucast (drop_bit 8 r) else ucast r)"

definition dev_byte :: "device \<Rightarrow> nat \<Rightarrow> byte" where
  "dev_byte d i = reg_byte (dv_regs d) (dv_ptr d) i"

definition bits_byte :: "bool list \<Rightarrow> byte" where
  "bits_byte bs = foldl (\<lambda>v b. push_bit 1 v OR of_bool b) 0 bs"

definition dev_start :: "device \<Rightarrow> device" where
  "dev_start d = d\<lparr>dv_mode := Recv RxAddr [], dv_low := False\<rparr>"

definition dev_stop :: "device \<Rightarrow> device" where
  "dev_stop d = d\<lparr>dv_mode := Off, dv_low := False\<rparr>"

text \<open>The clock rises: a receiver takes the bit.\<close>

definition dev_rise :: "bool \<Rightarrow> device \<Rightarrow> device" where
  "dev_rise b d =
     (case dv_mode d of
        Recv r bs \<Rightarrow> d\<lparr>dv_mode := Recv r (bs @ [b])\<rparr>
      | MasterAck i _ \<Rightarrow> d\<lparr>dv_mode := MasterAck i (Some b)\<rparr>
      | _ \<Rightarrow> d)"

definition dev_take :: "receiving \<Rightarrow> byte \<Rightarrow> device \<Rightarrow> device" where
  "dev_take r v d =
     (case r of
        RxAddr \<Rightarrow>
          (if v = push_bit 1 (dv_addr d) then d\<lparr>dv_mode := Acking RxAddr, dv_low := True\<rparr>
           else if v = push_bit 1 (dv_addr d) OR 1 then d\<lparr>dv_mode := AckingRead, dv_low := True\<rparr>
           else dev_stop d)
      | RxHi \<Rightarrow> d\<lparr>dv_mode := Acking RxHi, dv_low := True, dv_ptr := push_bit 8 (ucast v)\<rparr>
      | RxLo \<Rightarrow> d\<lparr>dv_mode := Acking RxLo, dv_low := True, dv_ptr := dv_ptr d OR ucast v\<rparr>
      | RxData \<Rightarrow> d\<lparr>dv_mode := Acking RxData, dv_low := True\<rparr>)"

definition dev_send :: "nat \<Rightarrow> nat \<Rightarrow> device \<Rightarrow> device" where
  "dev_send i k d = d\<lparr>dv_mode := Send i k, dv_low := \<not> bit (dev_byte d i) (7 - k)\<rparr>"

text \<open>The clock falls: the device moves on and may change its line.\<close>

definition dev_fall :: "device \<Rightarrow> device" where
  "dev_fall d =
     (case dv_mode d of
        Recv r bs \<Rightarrow> (if length bs = 8 then dev_take r (bits_byte bs) d else d)
      | Acking RxAddr \<Rightarrow> d\<lparr>dv_mode := Recv RxHi [], dv_low := False\<rparr>
      | Acking RxHi \<Rightarrow> d\<lparr>dv_mode := Recv RxLo [], dv_low := False\<rparr>
      | Acking _ \<Rightarrow> d\<lparr>dv_mode := Recv RxData [], dv_low := False\<rparr>
      | AckingRead \<Rightarrow> dev_send 0 0 d
      | Send i k \<Rightarrow> (if k < 7 then dev_send i (k + 1) d else d\<lparr>dv_mode := MasterAck i None, dv_low := False\<rparr>)
      | MasterAck i (Some False) \<Rightarrow> dev_send (i + 1) 0 d
      | MasterAck i _ \<Rightarrow> dev_stop d
      | Off \<Rightarrow> d)"

record wires =
  wi_sda :: bool
  wi_scl :: bool
  wi_dev :: device

text \<open>The lines are pulled up: a line is high unless an end drives it low. \<open>wi_sda\<close> and \<open>wi_scl\<close> are the master's.\<close>

definition sda_level :: "wires \<Rightarrow> bool" where
  "sda_level b \<longleftrightarrow> \<not> wi_sda b \<and> \<not> dv_low (wi_dev b)"

definition dev_sees :: "bool \<times> bool \<Rightarrow> bool \<times> bool \<Rightarrow> device \<Rightarrow> device" where
  "dev_sees = (\<lambda>(sda0, scl0) (sda1, scl1) d.
     if scl0 \<and> scl1 then (if sda0 \<and> \<not> sda1 then dev_start d else if \<not> sda0 \<and> sda1 then dev_stop d else d)
     else if \<not> scl0 \<and> scl1 then dev_rise sda1 d
     else if scl0 \<and> \<not> scl1 then dev_fall d
     else d)"

definition drive :: "(wires \<Rightarrow> wires) \<Rightarrow> wires \<Rightarrow> wires" where
  "drive f b =
     (let b1 = f b in
      b1\<lparr>wi_dev := dev_sees (sda_level b, \<not> wi_scl b) (sda_level b1, \<not> wi_scl b1) (wi_dev b1)\<rparr>)"

fun bus_io :: "act \<Rightarrow> wires \<Rightarrow> bytes option \<times> wires" where
  "bus_io (Lo SDA) b = (Some [], drive (\<lambda>b. b\<lparr>wi_sda := True\<rparr>) b)"
| "bus_io (Lo SCL) b = (Some [], drive (\<lambda>b. b\<lparr>wi_scl := True\<rparr>) b)"
| "bus_io (Rz SDA) b = (Some [], drive (\<lambda>b. b\<lparr>wi_sda := False\<rparr>) b)"
| "bus_io (Rz SCL) b = (Some [], drive (\<lambda>b. b\<lparr>wi_scl := False\<rparr>) b)"
| "bus_io (Rd SDA) b = (Some (if sda_level b then [49, 10] else [48, 10]), b)"
| "bus_io (Rd SCL) b = (Some (if wi_scl b then [48, 10] else [49, 10]), b)"
| "bus_io (Exists p) b = (Some [1], b)"
| "bus_io a b = (Some [], b)"

abbreviation bus_at :: "bool \<Rightarrow> bool \<Rightarrow> device \<Rightarrow> wires" where
  "bus_at a c d \<equiv> \<lparr>wi_sda = a, wi_scl = c, wi_dev = d\<rparr>"

abbreviation idle_bus :: "device \<Rightarrow> wires" where
  "idle_bus d \<equiv> bus_at False False d"

section \<open>The master against the device\<close>

lemma device_parts [simp]:
  "dv_low (dev_rise b d) = dv_low d" "dv_low (dev_start d) = False" "dv_low (dev_stop d) = False"
  by (simp_all add: dev_rise_def dev_start_def dev_stop_def split: dev_mode.split)

lemma line_values [simp]: "line_value [49, 10] = 1" "line_value [48, 10] = 0"
  by (simp_all add: line_value_def)

lemmas bus_defs = drive_def dev_sees_def sda_level_def Let_def read_line_def

lemma bus_start: "\<not> dv_low d \<Longrightarrow> run_acts bus_io start_acts (idle_bus d) = (True, bus_at True True (dev_fall (dev_start d)))"
  by (simp add: start_acts_def bus_defs)

lemma bus_rstart:
  "\<not> dv_low d \<Longrightarrow> run_acts bus_io rstart_acts (bus_at a True d) = (True, bus_at True True (dev_fall (dev_start (dev_rise True d))))"
  by (simp add: rstart_acts_def bus_defs)

lemma bus_stop:
  "\<not> dv_low d \<Longrightarrow> run_acts bus_io stop_acts (bus_at a True d) = (True, idle_bus (dev_stop (dev_rise False d)))"
  by (simp add: stop_acts_def bus_defs)

lemma bus_wr_bit:
  "\<not> dv_low d \<Longrightarrow> run_acts bus_io (wr_bit b) (bus_at a True d) = (True, bus_at (\<not> b) True (dev_fall (dev_rise b d)))"
  by (simp add: wr_bit_def bus_defs)

lemma bus_rd_bit:
  "rd_bit bus_io (bus_at a True d) =
     (Some (of_bool (\<not> dv_low d)), bus_at False True (dev_fall (dev_rise (\<not> dv_low d) d)))"
  by (simp add: rd_bit_def bus_defs)

lemma bus_mack:
  "\<not> dv_low d \<Longrightarrow> run_acts bus_io mack (bus_at a True d) = (True, bus_at False True (dev_fall (dev_rise False d)))"
  by (simp add: mack_def bus_defs)

lemma bus_mnak:
  "\<not> dv_low d \<Longrightarrow> run_acts bus_io mnak (bus_at a True d) = (True, bus_at False True (dev_fall (dev_rise True d)))"
  by (simp add: mnak_def bus_defs)

lemma run_acts_append:
  "run_acts io (as @ bs) w = (case run_acts io as w of (False, w1) \<Rightarrow> (False, w1) | (True, w1) \<Rightarrow> run_acts io bs w1)"
  by (induction as arbitrary: w) (simp_all split: prod.split option.split)

lemma shift_bit: "bit (push_bit 1 v OR of_bool b) n \<longleftrightarrow> (if n = 0 then b else bit (v :: byte) (n - 1) \<and> n < 8)"
  by (auto simp: bit_simps simp del: One_nat_def push_bit_Suc)

lemma byte_of_bits: "bits_byte (byte_bits v) = v"
proof (rule bit_word_eqI)
  fix n assume "n < LENGTH(8)"
  then have "n = 0 \<or> n = 1 \<or> n = 2 \<or> n = 3 \<or> n = 4 \<or> n = 5 \<or> n = 6 \<or> n = 7" by auto
  then show "bit (bits_byte (byte_bits v)) n = bit v n"
    by (elim disjE) (simp_all only: bits_byte_def byte_bits_def list.map foldl.simps shift_bit, simp_all)
qed

text \<open>Eight clocks deliver a byte; the ninth returns the acknowledgement.\<close>

lemma bus_bits:
  assumes "dv_mode d = Recv r cs" "\<not> dv_low d" "length cs + length bs < 8"
  shows "\<exists>a'. run_acts bus_io (concat (map wr_bit bs)) (bus_at a True d) = (True, bus_at a' True (d\<lparr>dv_mode := Recv r (cs @ bs)\<rparr>))"
  using assms
proof (induction bs arbitrary: a cs d)
  case Nil
  then show ?case by (auto intro!: exI [of _ a])
next
  case (Cons b bs)
  have s: "dev_fall (dev_rise b d) = d\<lparr>dv_mode := Recv r (cs @ [b])\<rparr>"
    using Cons.prems by (simp add: dev_rise_def dev_fall_def)
  show ?case
    using Cons.IH [of "d\<lparr>dv_mode := Recv r (cs @ [b])\<rparr>" "cs @ [b]" "\<not> b"] Cons.prems
    by (simp add: run_acts_append bus_wr_bit s)
qed

lemma bus_send_byte:
  assumes "dv_mode d = Recv r []" "\<not> dv_low d"
  shows "send_byte bus_io v (bus_at a True d) =
    (Some (dv_low (dev_take r v d)), bus_at False True (dev_fall (dev_rise (\<not> dv_low (dev_take r v d)) (dev_take r v d))))"
proof -
  have split: "byte_bits v = map (bit v) [7, 6, 5, 4, 3, 2, 1] @ [bit v 0]" by (simp add: byte_bits_def)
  obtain a' where first: "run_acts bus_io (concat (map wr_bit (map (bit v) [7, 6, 5, 4, 3, 2, 1]))) (bus_at a True d) =
      (True, bus_at a' True (d\<lparr>dv_mode := Recv r (map (bit v) [7, 6, 5, 4, 3, 2, 1])\<rparr>))"
    using bus_bits [OF assms, of "map (bit v) [7, 6, 5, 4, 3, 2, 1]" a] by auto
  have last: "dev_fall (dev_rise (bit v 0) (d\<lparr>dv_mode := Recv r (map (bit v) [7, 6, 5, 4, 3, 2, 1])\<rparr>)) = dev_take r v (d\<lparr>dv_mode := Recv r (byte_bits v)\<rparr>)"
    using byte_of_bits [of v] by (simp add: dev_rise_def dev_fall_def byte_bits_def)
  have same: "dev_take r v (d\<lparr>dv_mode := Recv r (byte_bits v)\<rparr>) = dev_take r v d"
    by (simp add: dev_take_def dev_stop_def split: receiving.split)
  have one: "concat (map wr_bit [bit v 0]) = wr_bit (bit v 0)" by simp
  have "run_acts bus_io (concat (map wr_bit (byte_bits v))) (bus_at a True d) = (True, bus_at (\<not> bit v 0) True (dev_take r v d))"
    unfolding split map_append concat_append run_acts_append first one
    using bus_wr_bit [of "d\<lparr>dv_mode := Recv r (map (bit v) [7, 6, 5, 4, 3, 2, 1])\<rparr>" "bit v 0" a'] assms(2)
    unfolding last same by simp
  then show ?thesis by (simp add: send_byte_def bus_rd_bit)
qed

text \<open>A byte is read in eight clocks, and the answer decides whether the next one follows.\<close>

lemma dev_send_simps [simp]:
  "dv_mode (dev_send i k d) = Send i k" "dv_low (dev_send i k d) \<longleftrightarrow> \<not> bit (dev_byte d i) (7 - k)"
  "dev_byte (dev_send i k d) = dev_byte d" "dev_send i' k' (dev_send i k d) = dev_send i' k' d"
  "dev_stop (dev_send i k d) = dev_stop d" "dev_start (dev_send i k d) = dev_start d"
  "dev_rise b (dev_send i k d) = dev_send i k d" "dev_stop (dev_stop d) = dev_stop d"
  by (auto simp: dev_send_def dev_byte_def dev_stop_def dev_start_def dev_rise_def)

lemma dev_fall_send:
  "k < 7 \<Longrightarrow> dev_fall (dev_send i k d) = dev_send i (Suc k) d"
  "dev_fall (dev_send i 7 d) = d\<lparr>dv_mode := MasterAck i None, dv_low := False\<rparr>"
  by (auto simp: dev_fall_def) (auto simp: dev_send_def)

lemma bus_read_bit:
  "k < 7 \<Longrightarrow> rd_bit bus_io (bus_at a True (dev_send i k d)) = (Some (of_bool (bit (dev_byte d i) (7 - k))), bus_at False True (dev_send i (Suc k) d))"
  "rd_bit bus_io (bus_at a True (dev_send i 7 d)) =
     (Some (of_bool (bit (dev_byte d i) 0)), bus_at False True (d\<lparr>dv_mode := MasterAck i None, dv_low := False\<rparr>))"
  by (simp_all add: bus_rd_bit dev_fall_send)

lemma bus_read_byte:
  "read_bits bus_io 8 0 (bus_at a True (dev_send i 0 d)) =
     (Some (dev_byte d i), bus_at False True (d\<lparr>dv_mode := MasterAck i None, dv_low := False\<rparr>))"
proof -
  have "read_bits bus_io 8 0 (bus_at a True (dev_send i 0 d)) =
     (Some (bits_byte (byte_bits (dev_byte d i))), bus_at False True (d\<lparr>dv_mode := MasterAck i None, dv_low := False\<rparr>))"
    using bus_read_bit(2) [of False i d]
    by (simp add: eval_nat_numeral bus_read_bit(1) bits_byte_def byte_bits_def)
  then show ?thesis by (simp add: byte_of_bits)
qed

lemma bus_read_bytes:
  "0 < n \<Longrightarrow> read_bytes bus_io n (bus_at a True (dev_send i 0 d)) =
     (Some (map (dev_byte d) [i..<i + n]), bus_at False True (dev_stop d))"
proof (induction n arbitrary: a i)
  case (Suc n)
  let ?m = "d\<lparr>dv_mode := MasterAck i None, dv_low := False\<rparr>"
  show ?case
  proof (cases "n = 0")
    case True
    have "dev_fall (dev_rise True ?m) = dev_stop d" by (simp add: dev_rise_def dev_fall_def dev_stop_def)
    then show ?thesis using True by (simp add: bus_read_byte bus_mnak)
  next
    case False
    have "dev_fall (dev_rise False ?m) = dev_send (Suc i) 0 d" by (simp add: dev_rise_def dev_fall_def dev_send_def dev_byte_def)
    then show ?thesis using False Suc.IH [of False "Suc i"] by (simp add: bus_read_byte bus_mack upt_conv_Cons)
  qed
qed simp

lemma pointer_bytes: "push_bit 8 (ucast (ucast (drop_bit 8 reg) :: byte)) OR ucast (ucast reg :: byte) = (reg :: 16 word)"
  by (rule bit_word_eqI) (auto simp: bit_simps)

lemma dev_start_fall [simp]: "dev_fall (dev_start d) = dev_start d"
  by (simp add: dev_start_def dev_fall_def)

lemma read_bit_set: "push_bit 1 a \<noteq> push_bit 1 b OR (1 :: byte)"
proof
  assume "push_bit 1 a = push_bit 1 b OR 1"
  then have "bit (push_bit 1 a OR of_bool False) 0 = bit (push_bit 1 b OR of_bool True) 0" by simp
  then show False unfolding shift_bit by simp
qed

text \<open>A register byte as the device takes it.\<close>

lemma bus_send_accepted:
  assumes "dv_mode d = Recv r []" "\<not> dv_low d" "dev_take r v d = d\<lparr>dv_mode := m, dv_low := True, dv_ptr := p\<rparr>"
    and "m = Acking r \<and> r \<noteq> RxData \<or> m = AckingRead"
  shows "send_byte bus_io v (bus_at a True d) = (Some True, bus_at False True (dev_fall (d\<lparr>dv_mode := m, dv_low := True, dv_ptr := p\<rparr>)))"
  using bus_send_byte [OF assms(1,2), of v a] assms(3,4) by (auto simp: dev_rise_def)

lemma bus_read_block:
  assumes "\<not> dv_low d" "dv_addr d = addr" "0 < n"
  shows "read_block_at bus_io addr reg n (idle_bus d) =
    (Inr (map (reg_byte (dv_regs d) reg) [0..<n]), idle_bus (dev_stop (d\<lparr>dv_ptr := reg\<rparr>)))"
proof -
  let ?hi = "push_bit 8 (ucast (ucast (drop_bit 8 reg) :: byte)) :: 16 word"
  let ?d1 = "d\<lparr>dv_mode := Recv RxHi [], dv_low := False\<rparr>"
  let ?d2 = "d\<lparr>dv_mode := Recv RxLo [], dv_low := False, dv_ptr := ?hi\<rparr>"
  let ?d3 = "d\<lparr>dv_mode := Recv RxData [], dv_low := False, dv_ptr := reg\<rparr>"
  have s1: "send_byte bus_io (push_bit 1 addr) (bus_at True True (dev_start d)) = (Some True, bus_at False True ?d1)"
    using bus_send_accepted [of "dev_start d" RxAddr "push_bit 1 addr" "dv_ptr d" "Acking RxAddr" True] assms(2)
    by (simp add: dev_start_def dev_take_def dev_fall_def)
  have s2: "send_byte bus_io (ucast (drop_bit 8 reg)) (bus_at False True ?d1) = (Some True, bus_at False True ?d2)"
    using bus_send_accepted [of ?d1 RxHi "ucast (drop_bit 8 reg)" ?hi "Acking RxHi" False]
    by (simp add: dev_take_def dev_fall_def)
  have s3: "send_byte bus_io (ucast reg) (bus_at False True ?d2) = (Some True, bus_at False True ?d3)"
    using bus_send_accepted [of ?d2 RxLo "ucast reg" reg "Acking RxLo" False] pointer_bytes [of reg]
    by (simp add: dev_take_def dev_fall_def)
  have r: "run_acts bus_io rstart_acts (bus_at False True ?d3) = (True, bus_at True True (dev_start ?d3))"
    by (simp add: bus_rstart dev_rise_def) (simp add: dev_start_def dev_fall_def)
  have s4: "send_byte bus_io (push_bit 1 addr OR 1) (bus_at True True (dev_start ?d3)) = (Some True, bus_at False True (dev_send 0 0 ?d3))"
    using bus_send_accepted [of "dev_start ?d3" RxAddr "push_bit 1 addr OR 1" reg AckingRead True] assms(2) read_bit_set [of addr addr]
    by (auto simp: dev_start_def dev_take_def dev_fall_def dev_send_def dev_byte_def)
  have rb: "read_bytes bus_io n (bus_at False True (dev_send 0 0 ?d3)) = (Some (map (dev_byte ?d3) [0..<n]), bus_at False True (dev_stop ?d3))"
    using bus_read_bytes [OF assms(3), of False 0 ?d3] by simp
  have bytes: "dev_byte ?d3 = reg_byte (dv_regs d) reg" by (rule ext) (simp add: dev_byte_def)
  have stop: "dev_stop (dev_rise False (dev_stop ?d3)) = dev_stop (d\<lparr>dv_ptr := reg\<rparr>)"
    by (simp add: dev_stop_def dev_rise_def)
  show ?thesis
    using bus_start [OF assms(1)] s1 s2 s3 r s4 rb bus_stop [of "dev_stop ?d3" False] bytes stop
    by (simp add: read_block_at_def)
qed

lemma bus_wrong_address:
  assumes "\<not> dv_low d" "dv_addr d \<noteq> addr" "dv_addr d < 128" "addr < 128"
  shows "read_block_at bus_io addr reg n (idle_bus d) = (Inl NakAddrWrite, idle_bus (dev_stop d))"
proof -
  have ne: "push_bit 1 addr \<noteq> push_bit 1 (dv_addr d)"
  proof
    assume "push_bit 1 addr = push_bit 1 (dv_addr d)"
    then have "bit (push_bit 1 addr OR of_bool False) (Suc n) = bit (push_bit 1 (dv_addr d) OR of_bool False) (Suc n)" for n by simp
    note eq = this [unfolded shift_bit]
    have low: "bit addr n = bit (dv_addr d) n" if "n < 7" for n using that eq [of n] by simp
    have high: "\<not> bit x 7" if "x < 128" for x :: byte
    proof -
      have "x AND mask 7 = x" using that by (intro less_mask_eq) simp
      then show ?thesis by (metis bit_and_iff bit_mask_iff less_irrefl)
    qed
    have "addr = dv_addr d"
    proof (rule bit_word_eqI)
      fix n assume "n < LENGTH(8)"
      then show "bit addr n = bit (dv_addr d) n" using low high assms(3,4) by (cases "n = 7") auto
    qed
    then show False using assms(2) by simp
  qed
  have "send_byte bus_io (push_bit 1 addr) (bus_at True True (dev_start d)) = (Some False, bus_at False True (dev_stop d))"
    using bus_send_byte [of "dev_start d" RxAddr "push_bit 1 addr" True] ne read_bit_set [of addr "dv_addr d"]
    by (simp add: dev_start_def dev_take_def dev_stop_def dev_rise_def dev_fall_def)
  then show ?thesis
    using bus_start [OF assms(1)] bus_stop [of "dev_stop d" False]
    by (simp add: read_block_at_def give_up_def dev_stop_def dev_rise_def)
qed

section \<open>Interface: a bus of 16-bit registers\<close>

text \<open>What the sensor relies on: a block read returns the bytes of the registers from its start on, and leaves the bus
  ready and the registers as they are. Reading words in chunks then returns the registers, and so does one word.\<close>

locale register_bus =
  fixes rb :: "16 word \<Rightarrow> nat \<Rightarrow> 'w \<Rightarrow> ('e + bytes) \<times> 'w"
    and ready :: "'w \<Rightarrow> bool"
    and regs :: "'w \<Rightarrow> 16 word \<Rightarrow> 16 word"
  assumes block: "ready w \<Longrightarrow> 0 < n \<Longrightarrow>
    \<exists>w'. rb reg n w = (Inr (map (reg_byte (regs w) reg) [0..<n]), w') \<and> ready w' \<and> regs w' = regs w"
begin

lemma words_of_bytes: "words_of (map (reg_byte r base) [0..<2 * n]) = map (\<lambda>i. r (base + of_nat i)) [0..<n]"
proof -
  have two: "[2 * i..<2 * i + 2] = [2 * i, Suc (2 * i)]" for i :: nat by (simp add: upt_rec)
  have w: "from_be16 (ucast (drop_bit 8 x)) (ucast x) = x" for x :: "16 word" by (rule from_be16_parts)
  have app: "words_of (concat (map (\<lambda>i. [f (2 * i), f (Suc (2 * i))]) ns)) = map (\<lambda>i. from_be16 (f (2 * i)) (f (Suc (2 * i)))) ns"
    for f :: "nat \<Rightarrow> byte" and ns by (induction ns) simp_all
  have "map (reg_byte r base) [0..<2 * n] = concat (map (\<lambda>i. [reg_byte r base (2 * i), reg_byte r base (Suc (2 * i))]) [0..<n])"
    by (induction n) simp_all
  then show ?thesis using app [of "reg_byte r base" "[0..<n]"] by (simp only:) (simp add: reg_byte_def Let_def w)
qed

lemma reads_words:
  assumes "ready w"
  shows "\<exists>w'. read_words rb base n k w = (Inr (map (\<lambda>i. regs w (base + of_nat i)) [k..<n]), w') \<and> ready w' \<and> regs w' = regs w"
  using assms
proof (induction "n - k" arbitrary: k w rule: less_induct)
  case less
  show ?case
  proof (cases "n \<le> k")
    case True
    then show ?thesis using less.prems by (simp add: read_words.simps)
  next
    case False
    define t where "t = (if chunk_words < n - k then chunk_words else n - k)"
    have t: "0 < t" "k + t \<le> n" using False by (auto simp: t_def chunk_words_def)
    obtain w1 where w1: "rb (base + of_nat k) (2 * t) w = (Inr (map (reg_byte (regs w) (base + of_nat k)) [0..<2 * t]), w1)"
      "ready w1" "regs w1 = regs w"
      using block [OF less.prems, of "2 * t"] t by auto
    obtain w2 where w2: "read_words rb base n (k + t) w1 = (Inr (map (\<lambda>i. regs w1 (base + of_nat i)) [k + t..<n]), w2)"
      "ready w2" "regs w2 = regs w1"
      using less.hyps [of "k + t" w1] t False w1(2) by fastforce
    have split: "[k..<n] = [k..<k + t] @ [k + t..<n]" using t(2) upt_add_eq_append [of k "k + t" "n - (k + t)"] by simp
    have shift: "map (\<lambda>i. regs w (base + of_nat k + of_nat i)) [0..<t] = map (\<lambda>i. regs w (base + of_nat i)) [k..<k + t]"
      by (simp only: list_eq_iff_nth_eq) (auto simp: add.assoc)
    have "words_of (map (reg_byte (regs w) (base + of_nat k)) [0..<2 * t]) = map (\<lambda>i. regs w (base + of_nat i)) [k..<k + t]"
      using words_of_bytes [of "regs w" "base + of_nat k" t] shift by (simp add: add.assoc)
    then show ?thesis using False w1 w2 unfolding split by (subst read_words.simps) (simp add: Let_def t_def [symmetric])
  qed
qed

lemma reads_reg:
  assumes "ready w"
  shows "\<exists>w'. read_reg16 rb reg w = (Inr (regs w reg), w') \<and> ready w' \<and> regs w' = regs w"
proof -
  obtain w' where "rb reg 2 w = (Inr (map (reg_byte (regs w) reg) [0..<2]), w')" "ready w'" "regs w' = regs w"
    using block [OF assms, of 2 reg] by auto
  moreover have "[0..<2] = [0, Suc 0]" by (simp add: upt_rec)
  moreover have "from_be16 (reg_byte (regs w) reg 0) (reg_byte (regs w) reg (Suc 0)) = regs w reg"
    using from_be16_parts [of "regs w reg"] by (simp add: reg_byte_def)
  ultimately show ?thesis by (auto simp: read_reg16_def)
qed

end

text \<open>The bit-bang master on a released bus provides it.\<close>

definition bus_ready :: "byte \<Rightarrow> wires \<Rightarrow> bool" where
  "bus_ready addr b \<longleftrightarrow> \<not> wi_sda b \<and> \<not> wi_scl b \<and> \<not> dv_low (wi_dev b) \<and> dv_addr (wi_dev b) = addr"

lemma bus_ready_idle: "bus_ready addr b \<Longrightarrow> b = idle_bus (wi_dev b)"
  by (cases b) (simp add: bus_ready_def)

interpretation bitbang: register_bus "read_block_at bus_io addr" "bus_ready addr" "\<lambda>b. dv_regs (wi_dev b)"
proof (unfold_locales)
  fix w reg and n :: nat
  assume "bus_ready addr w" "0 < n"
  then show "\<exists>w'. read_block_at bus_io addr reg n w = (Inr (map (reg_byte (dv_regs (wi_dev w)) reg) [0..<n]), w') \<and>
      bus_ready addr w' \<and> dv_regs (wi_dev w') = dv_regs (wi_dev w)"
    using bus_read_block [of "wi_dev w" addr n reg]
    by (subst bus_ready_idle [of addr w]) (auto simp: bus_ready_def dev_stop_def)
qed

section \<open>Recovery of a parked bus\<close>

text \<open>A device left in the middle of a byte holds the data line at its next zero bit. \<open>parked k v\<close> is the position of the
  bit at which the recovery loop sees the line released, 8 being the acknowledgement.\<close>

fun parked :: "byte \<Rightarrow> nat \<Rightarrow> nat \<Rightarrow> nat" where
  "parked v 0 k = 8"
| "parked v (Suc n) k = (if bit v (6 - k) then Suc k else parked v n (Suc k))"

definition after_recovery :: "nat \<Rightarrow> nat \<Rightarrow> device \<Rightarrow> device" where
  "after_recovery i m d = (if m < 7 \<and> \<not> bit (dev_byte d i) (6 - m) then dev_send i (Suc m) d else dev_stop d)"

abbreviation stop_tries :: "act list" where
  "stop_tries \<equiv> [Lo SCL, Wait 1, Lo SDA, Wait 1, Rz SCL, Wait 2, Rz SDA, Wait 2]"

lemma recover_step:
  assumes "k < 7"
  shows "recover_loop bus_io (Suc n) (idle_bus (dev_send i k d)) =
    (if bit (dev_byte d i) (6 - k) then (True, idle_bus (after_recovery i (Suc k) d))
     else recover_loop bus_io n (idle_bus (dev_send i (Suc k) d)))"
proof -
  have k: "7 - Suc k = 6 - k" by simp
  show ?thesis
  proof (cases "bit (dev_byte d i) (6 - k)")
    case False
    then show ?thesis using assms by (simp add: bus_defs dev_fall_send k)
  next
    case True
    show ?thesis
    proof (cases "Suc k = 7")
      case seven: True
      have "try_acts bus_io stop_tries (idle_bus (dev_send i 7 d)) = idle_bus (dev_stop d)"
        by (simp add: try_acts_def bus_defs dev_fall_send) (simp add: dev_rise_def dev_stop_def)
      then show ?thesis using True assms seven by (simp add: bus_defs dev_fall_send k after_recovery_def)
    next
      case False
      then have "Suc k < 7" using assms by simp
      then have "try_acts bus_io stop_tries (idle_bus (dev_send i (Suc k) d)) = idle_bus (after_recovery i (Suc k) d)"
        by (simp add: try_acts_def bus_defs dev_fall_send after_recovery_def)
      then show ?thesis using True assms by (simp add: bus_defs dev_fall_send k)
    qed
  qed
qed

lemma recover_last: "recover_loop bus_io (Suc n) (idle_bus (dev_send i 7 d)) = (True, idle_bus (dev_stop d))"
proof -
  have "try_acts bus_io stop_tries (idle_bus (d\<lparr>dv_low := False, dv_mode := MasterAck i (Some True)\<rparr>)) = idle_bus (dev_stop d)"
    by (simp add: try_acts_def bus_defs dev_fall_def dev_rise_def dev_stop_def)
  then show ?thesis by (simp add: bus_defs dev_fall_send) (simp add: dev_rise_def bus_defs)
qed

lemma recover_parked:
  "k + n = 7 \<Longrightarrow> n < t \<Longrightarrow> recover_loop bus_io t (idle_bus (dev_send i k d)) =
     (True, idle_bus (after_recovery i (parked (dev_byte d i) n k) d))"
proof (induction n arbitrary: k t)
  case 0
  then obtain t' where "t = Suc t'" by (cases t) auto
  then show ?case using 0 recover_last [of t' i d] by (simp add: after_recovery_def)
next
  case (Suc n)
  then obtain t' where t: "t = Suc t'" by (cases t) auto
  then show ?case using Suc recover_step [of k t' i d] by (simp add: after_recovery_def)
qed


section \<open>Properties\<close>

text \<open>Over the wires, against a device that follows the protocol, words read in chunks are the device's registers
  from the base on, whatever the device was doing before, and the bus is released afterwards; at another address
  the transfer is refused and the bus released too.\<close>

theorem bitbang_reads_registers:
  assumes "\<not> dv_low d" "dv_addr d < 128" "addr < 128"
  shows "\<exists>r d'. read_words (read_block_at bus_io addr) base n 0 (idle_bus d) = (r, idle_bus d') \<and> \<not> dv_low d' \<and>
    (if dv_addr d = addr then r = Inr (map (\<lambda>i. dv_regs d (base + of_nat i)) [0..<n])
     else n = 0 \<or> r = Inl NakAddrWrite)"
proof (cases "dv_addr d = addr")
  case True
  then obtain w' where "read_words (read_block_at bus_io addr) base n 0 (idle_bus d) =
      (Inr (map (\<lambda>i. dv_regs d (base + of_nat i)) [0..<n]), w')" "bus_ready addr w'"
    using bitbang.reads_words [of addr "idle_bus d" base n 0] assms(1) by (auto simp: bus_ready_def)
  moreover have "w' = idle_bus (wi_dev w')" "\<not> dv_low (wi_dev w')"
    using calculation(2) bus_ready_idle [of addr w'] by (auto simp: bus_ready_def)
  ultimately show ?thesis using True by metis
next
  case False
  have "dv_low (dev_stop d) = False" by simp
  then show ?thesis
    using False assms bus_wrong_address [OF assms(1) False assms(2,3)] by (subst read_words.simps) (auto simp: Let_def)
qed

theorem bitbang_reads_registers_witness:
  "\<exists>d'. read_words (read_block_at bus_io 0x33) 0x2400 200 0
      (idle_bus \<lparr>dv_mode = Off, dv_low = False, dv_ptr = 0, dv_addr = 0x33, dv_regs = (\<lambda>r. r * 3)\<rparr>) =
    (Inr (map (\<lambda>i. (0x2400 + of_nat i) * 3) [0..<200]), idle_bus d')"
  using bitbang_reads_registers [of "\<lparr>dv_mode = Off, dv_low = False, dv_ptr = 0, dv_addr = 0x33, dv_regs = (\<lambda>r. r * 3)\<rparr>"
      "0x33" "0x2400" 200] by auto

text \<open>Opening the bus of a parked device.\<close>

lemma open_idle:
  "open_gpio bus_io p (idle_bus d) = (True, idle_bus d)"
  by (cases p) (simp_all add: open_gpio_def bus_defs)

lemma try_wait: "try_acts bus_io [Wait n] b = b"
  by (simp add: try_acts_def)

lemma open_released:
  "\<not> dv_low d \<Longrightarrow> new_bitbang bus_io (idle_bus d) = (None, idle_bus d)"
  by (simp add: new_bitbang_def open_idle try_wait bus_defs)

lemma open_parked:
  assumes "k \<le> 7" "\<not> bit (dev_byte d i) (7 - k)"
  shows "new_bitbang bus_io (idle_bus (dev_send i k d)) =
    (let d' = after_recovery i (parked (dev_byte d i) (7 - k) k) d in
     if dv_low d' then (Some SdaStuckLow, idle_bus d') else (None, idle_bus d'))"
proof -
  have "recover_bus bus_io (idle_bus (dev_send i k d)) = (True, idle_bus (after_recovery i (parked (dev_byte d i) (7 - k) k) d))"
    unfolding recover_bus_def using assms(1) by (intro recover_parked) simp_all
  then show ?thesis
    using assms(2) by (simp add: new_bitbang_def open_idle try_wait bus_defs) (simp add: bb_close_def try_acts_def)
qed

lemma parked_range: "k + n = 7 \<Longrightarrow> k < parked v n k \<and> parked v n k \<le> 8"
  by (induction v n k rule: parked.induct) (auto simp: less_Suc_eq_le)

lemma after_recovery_cases:
  assumes "k \<le> 7"
  shows "(\<not> dv_low (after_recovery i (parked (dev_byte d i) (7 - k) k) d)) \<or>
    (\<exists>k'. k + 2 \<le> k' \<and> k' \<le> 7 \<and> \<not> bit (dev_byte d i) (7 - k') \<and> after_recovery i (parked (dev_byte d i) (7 - k) k) d = dev_send i k' d)"
proof -
  let ?m = "parked (dev_byte d i) (7 - k) k"
  have m: "k < ?m" using parked_range [of k "7 - k" "dev_byte d i"] assms by simp
  show ?thesis
  proof (cases "?m < 7 \<and> \<not> bit (dev_byte d i) (6 - ?m)")
    case True
    then have "7 - Suc ?m = 6 - ?m" by simp
    then show ?thesis using True m unfolding after_recovery_def by (intro disjI2 exI [of _ "Suc ?m"]) simp
  next
    case False
    then have "after_recovery i ?m d = dev_stop d" unfolding after_recovery_def by (rule if_not_P)
    then show ?thesis by simp
  qed
qed

definition reopened :: "nat \<Rightarrow> wires \<Rightarrow> wires" where
  "reopened n b = ((\<lambda>b. snd (new_bitbang bus_io b)) ^^ n) b"

lemma open_within:
  "k \<le> 7 \<Longrightarrow> \<not> bit (dev_byte d i) (7 - k) \<Longrightarrow> 7 < k + 2 * Suc t \<Longrightarrow>
    \<exists>n\<le>t. \<exists>d'. new_bitbang bus_io (reopened n (idle_bus (dev_send i k d))) = (None, idle_bus d') \<and> \<not> dv_low d'"
proof (induction t arbitrary: k)
  case 0
  then show ?case
    using after_recovery_cases [of k i d] open_parked [of k d i] by (auto simp: reopened_def Let_def)
next
  case (Suc t)
  let ?d = "after_recovery i (parked (dev_byte d i) (7 - k) k) d"
  show ?case
  proof (cases "dv_low ?d")
    case False
    then show ?thesis using Suc.prems open_parked [of k d i] by (intro exI [of _ 0]) (auto simp: reopened_def Let_def)
  next
    case True
    then obtain k' where k': "k + 2 \<le> k'" "k' \<le> 7" "\<not> bit (dev_byte d i) (7 - k')" "?d = dev_send i k' d"
      using after_recovery_cases [of k i d] Suc.prems(1) by auto
    then have first: "snd (new_bitbang bus_io (idle_bus (dev_send i k d))) = idle_bus (dev_send i k' d)"
      using open_parked [of k d i] Suc.prems True by (simp add: Let_def)
    obtain n d' where n: "n \<le> t" "new_bitbang bus_io (reopened n (idle_bus (dev_send i k' d))) = (None, idle_bus d')" "\<not> dv_low d'"
      using Suc.IH [OF k'(2,3)] k'(1) Suc.prems(3) by auto
    have "reopened (Suc n) (idle_bus (dev_send i k d)) = reopened n (idle_bus (dev_send i k' d))"
      unfolding reopened_def funpow_Suc_right by (simp add: first)
    then show ?thesis using n by (intro exI [of _ "Suc n"]) auto
  qed
qed

text \<open>C36: A device left in the middle of a byte, its line held low, is freed by opening the bus: each attempt that
  fails moves it on by at least two bits, so one of the first four attempts succeeds and finds the line released.\<close>

theorem parked_device_is_freed:
  assumes "k \<le> 7" "\<not> bit (dev_byte d i) (7 - k)"
  shows "\<exists>n\<le>3. \<exists>d'. new_bitbang bus_io (reopened n (idle_bus (dev_send i k d))) = (None, idle_bus d') \<and> \<not> dv_low d'"
  using open_within [OF assms, of 3] by simp

theorem parked_device_is_freed_witness:
  "\<exists>n\<le>3. \<exists>d'. new_bitbang bus_io (reopened n (idle_bus (dev_send 0 1
      \<lparr>dv_mode = Off, dv_low = False, dv_ptr = 0, dv_addr = 0x33, dv_regs = (\<lambda>r. 0x2A00)\<rparr>))) = (None, idle_bus d') \<and> \<not> dv_low d'"
  by (rule parked_device_is_freed) (simp_all add: dev_byte_def reg_byte_def)

text \<open>One attempt may fail: the stop condition needs the line released, and the clock before it may bring a zero bit.\<close>

lemma recovery_meets_zero_bit:
  "fst (new_bitbang bus_io (idle_bus (dev_send 0 1
     \<lparr>dv_mode = Off, dv_low = False, dv_ptr = 0, dv_addr = 0x33, dv_regs = (\<lambda>r. 0x2A00)\<rparr>))) = Some SdaStuckLow"
proof -
  define d where "d = \<lparr>dv_mode = Off, dv_low = False, dv_ptr = 0, dv_addr = 0x33, dv_regs = (\<lambda>r. 0x2A00)\<rparr>"
  have b: "dev_byte d 0 = 0x2A" by (simp add: d_def dev_byte_def reg_byte_def)
  have "parked 0x2A (Suc 5) 1 = Suc 1" unfolding parked.simps by simp
  then have "parked (dev_byte d 0) (7 - 1) 1 = 2" by (simp add: b)
  then have "after_recovery 0 (parked (dev_byte d 0) (7 - 1) 1) d = dev_send 0 3 d"
    by (simp add: after_recovery_def b)
  then show ?thesis unfolding d_def [symmetric] using open_parked [of 1 d 0] by (simp add: b Let_def)
qed

text \<open>A failed call of the kernel looks like zeros.\<close>

lemma twi_never_fails: "twi_wr_rd xfer addr reg n = Inr (take n (snd (xfer addr reg n)) @ replicate (n - length (snd (xfer addr reg n))) 0)"
  by (simp add: twi_wr_rd_def twi_ioctl_def split: prod.split)

end
