(* ===== verification/Thermal.thy ===== *)
theory Thermal
  imports I2c Config Json
begin

text \<open>
  The thermal side sensor: the registers it reads (\<open>internal/thermal/mlx.go\<close>), the discovery scan
  (\<open>scan.go\<close>), the poll service with its scan, target and overlay (\<open>service.go\<close>), the decoding of the calibration
  words that is integer work (\<open>ee.go\<close>), and the endpoints (\<open>internal/web/thermal.go\<close>). The compensation
  arithmetic from words to temperatures is an argument, and so are the answers of buses and files.
\<close>

section \<open>Registers\<close>

type_synonym ('w, 'e) block_reader = "16 word \<Rightarrow> nat \<Rightarrow> 'w \<Rightarrow> ('e + bytes) \<times> 'w"

definition pixels :: nat where
  "pixels = 768"

definition ee_words :: nat where
  "ee_words = 832"

text \<open>\<open>Vbe\<close>, the two compensation pixels, gain, PTAT, supply, control and status, in the order they are read.\<close>

definition aux_regs :: "16 word list" where
  "aux_regs = [0x0700, 0x0708, 0x0728, 0x070A, 0x0720, 0x072A, 0x800D, 0x8000]"

fun read_regs :: "('w, 'e) block_reader \<Rightarrow> 16 word list \<Rightarrow> 'w \<Rightarrow> ('e + 16 word list) \<times> 'w" where
  "read_regs rb [] w = (Inr [], w)"
| "read_regs rb (r # rs) w =
     (case read_reg16 rb r w of
        (Inl e, w1) \<Rightarrow> (Inl e, w1)
      | (Inr v, w1) \<Rightarrow>
          (case read_regs rb rs w1 of (Inl e, w2) \<Rightarrow> (Inl e, w2) | (Inr vs, w2) \<Rightarrow> (Inr (v # vs), w2)))"

definition read_aux :: "('w, 'e) block_reader \<Rightarrow> 'w \<Rightarrow> ('e + 16 word list) \<times> 'w" where
  "read_aux rb w = read_regs rb aux_regs w"

definition read_frame_raw :: "('w, 'e) block_reader \<Rightarrow> 'w \<Rightarrow> ('e + 16 word list) \<times> 'w" where
  "read_frame_raw rb w = read_words rb 0x0400 pixels 0 w"

definition read_eeprom :: "('w, 'e) block_reader \<Rightarrow> 'w \<Rightarrow> ('e + 16 word list) \<times> 'w" where
  "read_eeprom rb w = read_words rb 0x2400 ee_words 0 w"

definition read_id :: "('w, 'e) block_reader \<Rightarrow> 'w \<Rightarrow> ('e + 16 word) \<times> 'w" where
  "read_id rb w = read_reg16 rb 0x240C w"

section \<open>One pass\<close>

text \<open>What a pass reads, with the calibration words it used: the kept ones, or those it read.\<close>

definition sensor_pass ::
  "('w, 'e) block_reader \<Rightarrow> 16 word list option \<Rightarrow> 'w \<Rightarrow> (16 word list option \<times> (16 word list \<times> 16 word list) option) \<times> 'w"
where
  "sensor_pass rb kept w =
     (case (case kept of
              Some ee \<Rightarrow> (Some ee, w)
            | None \<Rightarrow> (case read_eeprom rb w of (Inl e, w1) \<Rightarrow> (None, w1) | (Inr ws, w1) \<Rightarrow> (Some ws, w1))) of
        (None, w1) \<Rightarrow> ((None, None), w1)
      | (Some ee, w1) \<Rightarrow>
          (case read_aux rb w1 of
             (Inl e, w2) \<Rightarrow> ((Some ee, None), w2)
           | (Inr aux, w2) \<Rightarrow>
               (case read_frame_raw rb w2 of
                  (Inl e, w3) \<Rightarrow> ((Some ee, None), w3)
                | (Inr frame, w3) \<Rightarrow> ((Some ee, Some (aux, frame)), w3))))"

text \<open>Grid, ambient temperature and supply voltage.\<close>

type_synonym reading = "float32 list \<times> float64 \<times> float64"

type_synonym calibration = "16 word list \<Rightarrow> 16 word list \<Rightarrow> 16 word list \<Rightarrow> reading"

type_synonym sensor_target = "bus_spec \<times> byte"

record good_frame =
  gf_time :: int
  gf_ta :: float64
  gf_to :: "float32 list"

record reading_state =
  rs_frame :: "64 word"
  rs_time :: int
  rs_trusted :: bool
  rs_reason :: string
  rs_ta :: float64
  rs_vdd :: float64
  rs_to :: "float32 list"
  rs_fps :: float32
  rs_last_good :: "good_frame option"

section \<open>Discovery\<close>

definition addr_min :: nat where "addr_min = 0x30"

definition addr_max :: nat where "addr_max = 0x3E"

definition addr_in_range :: "byte \<Rightarrow> bool" where
  "addr_in_range a \<longleftrightarrow> addr_min \<le> unat a \<and> unat a \<le> addr_max"

record hit =
  ht_bus :: string
  ht_addr :: byte
  ht_id :: "16 word"

definition plausible_id :: "16 word \<Rightarrow> bool" where
  "plausible_id i \<longleftrightarrow> i \<noteq> 0 \<and> i \<noteq> 0xFFFF"

definition twi_devices :: "(string \<Rightarrow> bool) \<Rightarrow> string list" where
  "twi_devices there = filter there (map (\<lambda>n. ''/dev/i2c-'' @ decimal n) [0..<16])"

text \<open>The window of a device: a device that cannot be opened ends it.\<close>

fun twi_window :: "(byte \<Rightarrow> bool) \<Rightarrow> (byte \<Rightarrow> 16 word option) \<Rightarrow> string \<Rightarrow> nat list \<Rightarrow> hit list" where
  "twi_window opens id_at dev [] = []"
| "twi_window opens id_at dev (a # as) =
     (if \<not> opens (of_nat a) then []
      else (case id_at (of_nat a) of
              Some i \<Rightarrow> if plausible_id i then [\<lparr>ht_bus = ''twi:'' @ dev, ht_addr = of_nat a, ht_id = i\<rparr>] else []
            | None \<Rightarrow> []) @ twi_window opens id_at dev as)"

text \<open>\<open>probe\<close> tells for a device and an address whether it opens and which identity word it reads.\<close>

record bus_world =
  bw_there :: "string \<Rightarrow> bool"
  bw_opens :: "string \<Rightarrow> byte \<Rightarrow> bool"
  bw_twi_id :: "string \<Rightarrow> byte \<Rightarrow> 16 word option"
  bw_pair_error :: "32 word \<Rightarrow> 32 word \<Rightarrow> string option"
  bw_gpio_id :: "32 word \<Rightarrow> 32 word \<Rightarrow> byte \<Rightarrow> 16 word option"

definition scan_twi :: "bus_world \<Rightarrow> hit list" where
  "scan_twi b = concat (map (\<lambda>dev. twi_window (bw_opens b dev) (bw_twi_id b dev) dev [addr_min..<Suc addr_max]) (twi_devices (bw_there b)))"

definition pair_error_hint :: "string \<Rightarrow> string" where
  "pair_error_hint s =
     (if contains s ''Permission denied'' then '' (sysfs GPIO export needs root)''
      else if contains s ''Device or resource busy'' then '' (pins held by another process)'' else '''')"

definition pair_text :: "32 word \<Rightarrow> 32 word \<Rightarrow> string" where
  "pair_text sda scl = decimal (unat sda) @ '','' @ decimal (unat scl)"

definition scan_gpio_pair :: "bus_world \<Rightarrow> 32 word \<Rightarrow> 32 word \<Rightarrow> hit list \<times> string option" where
  "scan_gpio_pair b sda scl =
     (case bw_pair_error b sda scl of
        Some err \<Rightarrow> ([], Some (''gpio '' @ pair_text sda scl @ '': '' @ err @ pair_error_hint err))
      | None \<Rightarrow>
          (concat (map (\<lambda>a. case bw_gpio_id b sda scl (of_nat a) of
                       Some i \<Rightarrow> if plausible_id i then [\<lparr>ht_bus = ''gpio:'' @ pair_text sda scl, ht_addr = of_nat a, ht_id = i\<rparr>] else []
                     | None \<Rightarrow> []) [addr_min..<Suc addr_max]), None))"

text \<open>The bus a hit describes; the pins are scanned from the text.\<close>

definition twi_spec :: "string \<Rightarrow> bus_spec" where
  "twi_spec dev = \<lparr>bus_type = ''twi'', bus_device = dev, bus_sda = 0, bus_scl = 0\<rparr>"

definition gpio_spec :: "32 word \<Rightarrow> 32 word \<Rightarrow> bus_spec" where
  "gpio_spec sda scl = \<lparr>bus_type = ''gpio'', bus_device = '''', bus_sda = sda, bus_scl = scl\<rparr>"

definition scan_u32 :: "string \<Rightarrow> 32 word option" where
  "scan_u32 s = (case parse_uint 32 s of Some n \<Rightarrow> Some (of_nat n) | None \<Rightarrow> None)"

definition hit_bus :: "hit \<Rightarrow> bus_spec" where
  "hit_bus h =
     (if take 4 (ht_bus h) = ''twi:'' then twi_spec (drop 4 (ht_bus h))
      else if take 5 (ht_bus h) = ''gpio:'' then
        (case cut (CHR '','') (drop 5 (ht_bus h)) of
           (sda, scl, found) \<Rightarrow>
             (case scan_u32 sda of
                None \<Rightarrow> gpio_spec 0 0
              | Some a \<Rightarrow> gpio_spec a (if found then (case scan_u32 scl of None \<Rightarrow> 0 | Some c \<Rightarrow> c) else 0)))
      else gpio_spec 0 0)"

text \<open>Go's quoted form of a text of ASCII characters.\<close>

definition hex_char :: "nat \<Rightarrow> char" where
  "hex_char n = (if n < 10 then char_of (48 + n) else char_of (87 + n))"

definition quoted_char :: "char \<Rightarrow> string" where
  "quoted_char c =
     (let n = of_char c :: nat; esc = (\<lambda>x. [CHR 0x5C, x]) in
      if n = 34 \<or> n = 92 then esc c
      else if n = 7 then esc (CHR ''a'') else if n = 8 then esc (CHR ''b'') else if n = 9 then esc (CHR ''t'')
      else if n = 10 then esc (CHR ''n'') else if n = 11 then esc (CHR ''v'') else if n = 12 then esc (CHR ''f'')
      else if n = 13 then esc (CHR ''r'')
      else if n < 32 \<or> n = 127 then [CHR 0x5C, CHR ''x'', hex_char (n div 16), hex_char (n mod 16)]
      else [c])"

definition quoted :: "string \<Rightarrow> string" where
  "quoted s = CHR 0x22 # concat (map quoted_char s) @ [CHR 0x22]"

definition bus_yaml :: "bus_spec \<Rightarrow> string" where
  "bus_yaml b =
     (if bus_type b = ''twi'' then ''{type: twi, device: '' @ quoted (bus_device b) @ ''}''
      else if bus_type b = ''gpio'' then
        ''{type: gpio, sda: '' @ decimal (unat (bus_sda b)) @ '', scl: '' @ decimal (unat (bus_scl b)) @ ''}''
      else ''{type: auto}'')"

definition upper_hex :: "nat \<Rightarrow> char" where
  "upper_hex n = (if n < 10 then char_of (48 + n) else char_of (55 + n))"

definition target_lines :: "bus_spec \<Rightarrow> byte \<Rightarrow> string" where
  "target_lines b a =
     ''thermal:'' @ [CHR 0x0A] @ ''  bus: '' @ bus_yaml b @ [CHR 0x0A] @ ''  addr: 0x'' @
     [upper_hex (unat a div 16), upper_hex (unat a mod 16)] @ [CHR 0x0A]"

definition config_snippet :: "hit \<Rightarrow> string" where
  "config_snippet h = target_lines (hit_bus h) (ht_addr h)"

text \<open>Hardware buses first, then the fixed pair of pins.\<close>

definition auto_detect :: "bus_world \<Rightarrow> hit option \<times> bool" where
  "auto_detect b =
     (case scan_twi b of
        h # hs \<Rightarrow> (Some h, False)
      | [] \<Rightarrow> (case fst (scan_gpio_pair b 226 227) of h # hs \<Rightarrow> (Some h, True) | [] \<Rightarrow> (None, False)))"

datatype transport = TwiBus string byte | GpioBus "32 word" "32 word" byte

definition open_target :: "bus_spec \<Rightarrow> byte \<Rightarrow> transport option" where
  "open_target spec addr =
     (if bus_type spec = ''twi'' then Some (TwiBus (bus_device spec) addr)
      else if bus_type spec = ''gpio'' then Some (GpioBus (bus_sda spec) (bus_scl spec) addr)
      else None)"

definition open_bus :: "bus_world \<Rightarrow> bus_spec \<Rightarrow> byte \<Rightarrow> transport option" where
  "open_bus b spec addr =
     (case open_target spec addr of
        Some t \<Rightarrow> Some t
      | None \<Rightarrow> (case fst (auto_detect b) of None \<Rightarrow> None | Some h \<Rightarrow> open_target (hit_bus h) (ht_addr h)))"


section \<open>The service\<close>

record scan_state =
  sc_running :: bool
  sc_started :: int
  sc_finished :: "int option"
  sc_hits :: "hit list"
  sc_pair_errors :: "string list"
  sc_error :: "string option"

record thermal_svc =
  ts_state :: reading_state
  ts_target :: sensor_target
  ts_last_target :: sensor_target
  ts_ee :: "16 word list option"
  ts_failures :: "32 word"
  ts_scan :: scan_state
  ts_stopped :: bool
  ts_overlay :: "string option"


text \<open>A pass starts by comparing the target: another sensor needs its own calibration.\<close>

definition begin_pass :: "thermal_svc \<Rightarrow> thermal_svc" where
  "begin_pass s =
     (if ts_target s \<noteq> ts_last_target s then s\<lparr>ts_ee := None, ts_last_target := ts_target s\<rparr> else s)"

definition sensor_fps :: "int \<Rightarrow> float32" where
  "sensor_fps elapsed =
     (let least = f64_quot (f64_of_int 1) (f64_of_int 32); el = duration_seconds elapsed;
          el = (if f64_less el least then least else el) in
      f32_of_f64 (f64_quot (f64_of_int 1) el))"

text \<open>\<open>sense\<close> is what opening the target's bus and reading it gives for the kept calibration words.\<close>

type_synonym sensing = "sensor_target \<Rightarrow> 16 word list option \<Rightarrow> 16 word list option \<times> (16 word list \<times> 16 word list) option"

definition end_pass :: "calibration \<Rightarrow> sensing \<Rightarrow> int \<Rightarrow> int \<Rightarrow> thermal_svc \<Rightarrow> thermal_svc" where
  "end_pass calib sense elapsed now s =
     (case sense (ts_last_target s) (ts_ee s) of
        (Some ee, Some (aux, frame)) \<Rightarrow>
          (case calib ee aux frame of
             (grid, ta, vdd) \<Rightarrow>
               s\<lparr>ts_ee := Some ee, ts_failures := 0,
                 ts_state := (ts_state s)\<lparr>rs_fps := sensor_fps elapsed, rs_frame := rs_frame (ts_state s) + 1, rs_time := now,
                   rs_trusted := True, rs_ta := ta, rs_vdd := vdd, rs_to := grid,
                   rs_last_good := Some \<lparr>gf_time = now, gf_ta = ta, gf_to = grid\<rparr>\<rparr>\<rparr>)
      | (ee, _) \<Rightarrow>
          s\<lparr>ts_ee := ee, ts_failures := ts_failures s + 1,
            ts_state := (ts_state s)\<lparr>rs_fps := 0, rs_time := now, rs_trusted := False, rs_reason := ''sensor_lost''\<rparr>\<rparr>)"

text \<open>Seconds until the next pass.\<close>

definition poll_backoff :: "32 word \<Rightarrow> nat" where
  "poll_backoff failures = (if 0 < failures then (if 30 < failures then 30 else unat failures) else 1)"








definition load_overlay :: "(string \<Rightarrow> sensor_target option) \<Rightarrow> string option \<Rightarrow> sensor_target option" where
  "load_overlay yaml_target file = (case file of None \<Rightarrow> None | Some t \<Rightarrow> yaml_target t)"

section \<open>The endpoints\<close>

definition thermal_available :: "thermal_svc \<Rightarrow> bool" where
  "thermal_available s = rs_trusted (ts_state s)"

definition radiometric :: "thermal_svc \<Rightarrow> bool" where
  "radiometric s \<longleftrightarrow> rs_last_good (ts_state s) \<noteq> None"

text \<open>The first largest and the first smallest pixel.\<close>

definition arg_extremes :: "float32 list \<Rightarrow> nat \<times> nat" where
  "arg_extremes grid =
     foldl (\<lambda>(hi, lo) i. (if f32_less (grid ! hi) (grid ! i) then i else hi, if f32_less (grid ! i) (grid ! lo) then i else lo))
       (0, 0) [0..<length grid]"

text \<open>\<open>round\<close>: a conversion to an integer that does not fit is left to the implementation (\<open>oor\<close>).\<close>

definition sign64 :: "float64 \<Rightarrow> float64" where
  "sign64 v = (if f64_less v 0 then f64_of_int (-1) else f64_of_int 1)"

definition round_places :: "(nat \<Rightarrow> float64 \<Rightarrow> float64) \<Rightarrow> nat \<Rightarrow> float64 \<Rightarrow> float64" where
  "round_places oor places v =
     (let mult = f64_of_int (10 ^ places); half = f64_quot (f64_of_int 1) (f64_of_int 2) in
      case f64_trunc v of
        None \<Rightarrow> oor places v
      | Some _ \<Rightarrow>
          (case f64_trunc (f64_add (f64_mul v mult) (f64_mul half (sign64 v))) of
             Some n \<Rightarrow> if - (2 ^ 63) \<le> n \<and> n < 2 ^ 63 then f64_quot (f64_of_int n) mult else oor places v
           | None \<Rightarrow> oor places v))"

definition spot_json :: "(nat \<Rightarrow> float64 \<Rightarrow> float64) \<Rightarrow> float32 list \<Rightarrow> nat \<Rightarrow> json" where
  "spot_json oor grid i =
     JObj [(''value_c'', JNum (round_places oor 1 (f64_of_f32 (grid ! i)))), (''x'', JInt (int (i mod 32))), (''y'', JInt (int (i div 32)))]"

definition payload :: "(nat \<Rightarrow> float64 \<Rightarrow> float64) \<Rightarrow> bool \<Rightarrow> thermal_svc \<Rightarrow> doc" where
  "payload oor grid s =
     (let st = ts_state s; r = round_places oor in
      case arg_extremes (rs_to st) of
        (hi, lo) \<Rightarrow>
          [(''timestamp_ms'', JInt (rs_time st)), (''frame_number'', JInt (uint (rs_frame st))), (''trusted'', JBool (rs_trusted st)),
           (''ta'', JNum (r 2 (rs_ta st))), (''vdd'', JNum (r 3 (rs_vdd st))), (''sensor_fps'', JNum (r 3 (f64_of_f32 (rs_fps st)))),
           (''max'', spot_json oor (rs_to st) hi), (''min'', spot_json oor (rs_to st) lo), (''spots'', JList [])] @
          (if rs_trusted st then []
           else (''reason'', JStr (rs_reason st)) #
             (case rs_last_good st of
                None \<Rightarrow> []
              | Some g \<Rightarrow>
                  (case arg_extremes (gf_to g) of
                     (ghi, glo) \<Rightarrow>
                       [(''last_known_good'', JObj [(''timestamp_ms'', JInt (gf_time g)), (''ta'', JNum (r 2 (gf_ta g))),
                          (''max'', spot_json oor (gf_to g) ghi), (''min'', spot_json oor (gf_to g) glo),
                          (''age_ms'', JInt (rs_time st - gf_time g))])]))) @
          (if grid then [(''grid'', JObj [(''w'', JInt 32), (''h'', JInt 24), (''unit'', JStr ''deg_c''),
             (''values'', JList (map (\<lambda>v. JNum (f64_of_f32 v)) (rs_to st)))])] else []))"

definition hit_json :: "hit \<Rightarrow> json" where
  "hit_json h = JObj [(''bus'', JStr (ht_bus h)), (''addr'', JInt (uint (ht_addr h))), (''id'', JInt (uint (ht_id h))),
     (''config'', JStr (config_snippet h))]"

definition json_opt :: "('a \<Rightarrow> json) \<Rightarrow> 'a option \<Rightarrow> json" where
  "json_opt f x = (case x of None \<Rightarrow> JNull | Some v \<Rightarrow> f v)"

definition scan_json :: "scan_state \<Rightarrow> json" where
  "scan_json st = JObj [(''running'', JBool (sc_running st)), (''started_ms'', JInt (sc_started st)),
     (''finished_ms'', json_opt JInt (sc_finished st)), (''hits'', JList (map hit_json (sc_hits st))),
     (''pair_errors'', JList (map JStr (sc_pair_errors st))), (''error'', json_opt JStr (sc_error st))]"



section \<open>Runs\<close>








section \<open>Passes over the transports\<close>

context register_bus
begin

lemma reads_regs:
  "ready w \<Longrightarrow> \<exists>w'. read_regs rb rs w = (Inr (map (regs w) rs), w') \<and> ready w' \<and> regs w' = regs w"
proof (induction rs arbitrary: w)
  case (Cons r rs)
  obtain w1 where w1: "read_reg16 rb r w = (Inr (regs w r), w1)" "ready w1" "regs w1 = regs w"
    using reads_reg [OF Cons.prems] by blast
  obtain w2 where "read_regs rb rs w1 = (Inr (map (regs w1) rs), w2)" "ready w2" "regs w2 = regs w1"
    using Cons.IH [OF w1(2)] by blast
  then show ?case using w1 by simp
qed simp

lemma pass_reads:
  assumes "ready w"
  shows "\<exists>w'. sensor_pass rb kept w =
      ((Some (case kept of Some ee \<Rightarrow> ee | None \<Rightarrow> map (\<lambda>i. regs w (0x2400 + of_nat i)) [0..<ee_words]),
        Some (map (regs w) aux_regs, map (\<lambda>i. regs w (0x0400 + of_nat i)) [0..<pixels])), w') \<and> ready w' \<and> regs w' = regs w"
proof -
  let ?ee = "case kept of Some ee \<Rightarrow> ee | None \<Rightarrow> map (\<lambda>i. regs w (0x2400 + of_nat i)) [0..<ee_words]"
  obtain w1 where w1: "(case kept of Some ee \<Rightarrow> (Some ee, w)
      | None \<Rightarrow> (case read_eeprom rb w of (Inl e, w1) \<Rightarrow> (None, w1) | (Inr ws, w1) \<Rightarrow> (Some ws, w1))) = (Some ?ee, w1)"
    "ready w1" "regs w1 = regs w"
    using reads_words [OF assms, where base = "0x2400" and n = ee_words and k = 0] assms by (cases kept) (auto simp: read_eeprom_def)
  obtain w2 where w2: "read_aux rb w1 = (Inr (map (regs w1) aux_regs), w2)" "ready w2" "regs w2 = regs w1"
    using reads_regs [OF w1(2), of aux_regs] unfolding read_aux_def by blast
  obtain w3 where w3: "read_frame_raw rb w2 = (Inr (map (\<lambda>i. regs w2 (0x0400 + of_nat i)) [0..<pixels]), w3)" "ready w3" "regs w3 = regs w2"
    using reads_words [OF w2(2), where base = "0x0400" and n = pixels and k = 0] unfolding read_frame_raw_def by blast
  show ?thesis unfolding sensor_pass_def w1(1) using w1 w2 w3 by simp
qed

end

text \<open>The kernel transport with a device that answers, and with one that does not: its failures read as zeros.\<close>

lemma twi_block: "twi_read_block xfer addr reg n w =
    (Inr (take n (snd (xfer addr reg n)) @ replicate (n - length (snd (xfer addr reg n))) 0), w)"
  by (simp add: twi_read_block_def twi_never_fails)

interpretation twi: register_bus "twi_read_block (\<lambda>a reg n. (r, map (reg_byte regs reg) [0..<n])) addr" "\<lambda>_. True" "\<lambda>_. regs"
  by unfold_locales (simp add: twi_block)

interpretation lost_twi: register_bus "twi_read_block (\<lambda>a reg n. (r, [])) addr" "\<lambda>_. True" "\<lambda>_ _. 0"
  by unfold_locales (auto simp: twi_block intro!: nth_equalityI simp: reg_byte_def)

text \<open>A sensor on a hardware bus that was unplugged: the pass succeeds with zeros, and its grid counts as trusted.\<close>

definition twi_sensing :: "(64 word \<times> int) \<Rightarrow> sensing" where
  "twi_sensing r t kept = fst (sensor_pass (twi_read_block (\<lambda>a reg n. (r, [])) (snd t)) kept ())"

lemma lost_twi_sensor_stays_trusted:
  "rs_trusted (ts_state (end_pass calib (twi_sensing (- 1, errno)) elapsed now s))"
proof -
  obtain w where "sensor_pass (twi_read_block (\<lambda>a reg n. (((- 1 :: 64 word), errno), [])) (snd (ts_last_target s))) (ts_ee s) () =
      ((Some (case ts_ee s of Some ee \<Rightarrow> ee | None \<Rightarrow> map (\<lambda>i. 0) [0..<ee_words]),
        Some (map (\<lambda>_. 0) aux_regs, map (\<lambda>i. 0) [0..<pixels])), w)"
    using lost_twi.pass_reads [where r = "(- 1, errno)" and w = "()" and addr = "snd (ts_last_target s)" and kept = "ts_ee s"] by auto
  then show ?thesis by (simp add: end_pass_def twi_sensing_def split: prod.split)
qed

section \<open>What a scan finds\<close>

lemma twi_window_hits:
  "h \<in> set (twi_window opens id_at dev as) \<Longrightarrow>
    \<exists>a\<in>set as. ht_bus h = ''twi:'' @ dev \<and> ht_addr h = of_nat a \<and> id_at (of_nat a) = Some (ht_id h) \<and> plausible_id (ht_id h) \<and> opens (of_nat a)"
  by (induction as) (auto split: if_splits option.splits)

lemma window_addr: "a \<in> set [addr_min..<Suc addr_max] \<Longrightarrow> addr_in_range (of_nat a) \<and> unat (of_nat a :: byte) = a"
  by (auto simp: addr_in_range_def addr_min_def addr_max_def unat_of_nat_lt)

lemma scan_u32_decimal: "scan_u32 (decimal (unat x)) = Some x"
  using parse_uint_decimal [of "unat x" 32] unsigned_less [where 'b = 32 and w = x and 'a = nat] by (simp add: scan_u32_def)

lemma decimal_digit_values: "set (decimal n) \<subseteq> {c. digit_value c \<noteq> None}"
  by (induction n rule: decimal.induct) (subst decimal.simps, auto)

lemma comma_no_digit: "CHR '','' \<notin> set (decimal n)"
  using decimal_digit_values [of n] by (auto simp: digit_value_def)

lemma hit_bus_twi: "ht_bus h = ''twi:'' @ dev \<Longrightarrow> hit_bus h = twi_spec dev"
  by (simp add: hit_bus_def)

lemma hit_bus_gpio: "ht_bus h = ''gpio:'' @ pair_text sda scl \<Longrightarrow> hit_bus h = gpio_spec sda scl"
proof -
  assume h: "ht_bus h = ''gpio:'' @ pair_text sda scl"
  have "takeWhile (\<lambda>x. x \<noteq> CHR '','') (decimal (unat sda)) = decimal (unat sda)" "\<forall>x\<in>set (decimal (unat sda)). x \<noteq> CHR '',''"
    using comma_no_digit [of "unat sda"] by (auto simp: takeWhile_eq_all_conv)
  then show ?thesis using h
    by (simp add: hit_bus_def pair_text_def cut_def takeWhile_tail scan_u32_decimal dropWhile_append2)
qed


lemma scan_twi_hits:
  assumes "h \<in> set (scan_twi b)"
  shows "\<exists>dev. open_target (hit_bus h) (ht_addr h) = Some (TwiBus dev (ht_addr h)) \<and> bw_there b dev \<and> bw_opens b dev (ht_addr h) \<and>
    bw_twi_id b dev (ht_addr h) = Some (ht_id h) \<and> plausible_id (ht_id h) \<and> addr_in_range (ht_addr h)"
proof -
  obtain dev where dev: "dev \<in> set (twi_devices (bw_there b))" "h \<in> set (twi_window (bw_opens b dev) (bw_twi_id b dev) dev [addr_min..<Suc addr_max])"
    using assms by (auto simp: scan_twi_def)
  obtain a where a: "a \<in> set [addr_min..<Suc addr_max]" "ht_bus h = ''twi:'' @ dev" "ht_addr h = of_nat a"
    "bw_twi_id b dev (of_nat a) = Some (ht_id h)" "plausible_id (ht_id h)" "bw_opens b dev (of_nat a)"
    using twi_window_hits [OF dev(2)] by blast
  have "open_target (hit_bus h) (ht_addr h) = Some (TwiBus dev (ht_addr h))"
    using hit_bus_twi [OF a(2)] by (simp add: open_target_def twi_spec_def)
  moreover have "bw_there b dev" using dev(1) by (simp add: twi_devices_def)
  ultimately show ?thesis using a window_addr [OF a(1)] by metis
qed

lemma scan_gpio_hits:
  assumes "h \<in> set (fst (scan_gpio_pair b sda scl))"
  shows "open_target (hit_bus h) (ht_addr h) = Some (GpioBus sda scl (ht_addr h)) \<and> bw_pair_error b sda scl = None \<and>
    bw_gpio_id b sda scl (ht_addr h) = Some (ht_id h) \<and> plausible_id (ht_id h) \<and> addr_in_range (ht_addr h)"
proof -
  have none: "bw_pair_error b sda scl = None" using assms by (auto simp: scan_gpio_pair_def split: option.splits)
  then obtain a where a: "a \<in> set [addr_min..<Suc addr_max]" "ht_bus h = ''gpio:'' @ pair_text sda scl" "ht_addr h = of_nat a"
    "bw_gpio_id b sda scl (of_nat a) = Some (ht_id h)" "plausible_id (ht_id h)"
    using assms by (auto simp: scan_gpio_pair_def simp del: upt_Suc split: option.splits if_splits)
  then show ?thesis
    using hit_bus_gpio [OF a(2)] none window_addr [OF a(1)] by (simp add: open_target_def gpio_spec_def)
qed

section \<open>Properties\<close>

text \<open>The bus \<open>auto\<close> opens exactly when the scan sees a sensor, and then on the transport and address at which a
  plausible identity was read, a hardware bus before the pins; it does not open only when no bus shows one.\<close>

theorem auto_bus_opens_a_sensor:
  assumes "bus_type spec = ''auto''"
  shows "case open_bus b spec addr of
      Some (TwiBus dev a) \<Rightarrow> bw_there b dev \<and> bw_opens b dev a \<and> addr_in_range a \<and> (\<exists>i. bw_twi_id b dev a = Some i \<and> plausible_id i)
    | Some (GpioBus sda scl a) \<Rightarrow> sda = 226 \<and> scl = 227 \<and> scan_twi b = [] \<and> addr_in_range a \<and> (\<exists>i. bw_gpio_id b sda scl a = Some i \<and> plausible_id i)
    | None \<Rightarrow> scan_twi b = [] \<and> fst (scan_gpio_pair b 226 227) = []"
proof -
  have auto: "open_target spec addr = None" using assms by (simp add: open_target_def)
  show ?thesis
  proof (cases "scan_twi b")
    case (Cons h hs)
    then obtain dev where "open_target (hit_bus h) (ht_addr h) = Some (TwiBus dev (ht_addr h))" "bw_there b dev" "bw_opens b dev (ht_addr h)"
      "bw_twi_id b dev (ht_addr h) = Some (ht_id h)" "plausible_id (ht_id h)" "addr_in_range (ht_addr h)"
      using scan_twi_hits [of h b] by auto
    then show ?thesis using Cons by (simp add: open_bus_def auto auto_detect_def)
  next
    case twi: Nil
    show ?thesis
    proof (cases "fst (scan_gpio_pair b 226 227)")
      case (Cons h hs)
      then show ?thesis using twi scan_gpio_hits [of h b 226 227] by (auto simp: open_bus_def auto auto_detect_def)
    qed (simp add: open_bus_def auto auto_detect_def twi)
  qed
qed

theorem auto_bus_opens_a_sensor_witness:
  "case open_bus \<lparr>bw_there = (\<lambda>d. d = ''/dev/i2c-3''), bw_opens = (\<lambda>_ _. True), bw_twi_id = (\<lambda>_ a. if a = 0x33 then Some 7 else None),
        bw_pair_error = (\<lambda>_ _. None), bw_gpio_id = (\<lambda>_ _ _. None)\<rparr>
      \<lparr>bus_type = ''auto'', bus_device = '''', bus_sda = 0, bus_scl = 0\<rparr> 0 of
    Some (TwiBus dev a) \<Rightarrow> addr_in_range a | Some (GpioBus sda scl a) \<Rightarrow> sda = 226 | None \<Rightarrow> True"
  using auto_bus_opens_a_sensor [of "\<lparr>bus_type = ''auto'', bus_device = '''', bus_sda = 0, bus_scl = 0\<rparr>"
      "\<lparr>bw_there = (\<lambda>d. d = ''/dev/i2c-3''), bw_opens = (\<lambda>_ _. True), bw_twi_id = (\<lambda>_ a. if a = 0x33 then Some 7 else None),
        bw_pair_error = (\<lambda>_ _. None), bw_gpio_id = (\<lambda>_ _ _. None)\<rparr>" 0]
  by (auto split: option.splits transport.splits)

text \<open>C35: A pass over the pins, against a device that follows the I2C protocol, reads the calibration block unless it
  is kept, the auxiliary registers and the whole frame, each from its address.\<close>

theorem bitbang_pass_reads_sensor:
  assumes "\<not> dv_low d" "dv_addr d = addr"
  shows "fst (sensor_pass (read_block_at bus_io addr) kept (idle_bus d)) =
    (Some (case kept of Some ee \<Rightarrow> ee | None \<Rightarrow> map (\<lambda>i. dv_regs d (0x2400 + of_nat i)) [0..<832]),
     Some (map (dv_regs d) [0x0700, 0x0708, 0x0728, 0x070A, 0x0720, 0x072A, 0x800D, 0x8000],
       map (\<lambda>i. dv_regs d (0x0400 + of_nat i)) [0..<768]))"
  using bitbang.pass_reads [of addr "idle_bus d" kept] assms
  by (cases kept) (auto simp: bus_ready_def ee_words_def pixels_def aux_regs_def)

theorem bitbang_pass_reads_sensor_witness:
  "fst (the (snd (fst (sensor_pass (read_block_at bus_io 0x33) (Some []) (idle_bus
      \<lparr>dv_mode = Off, dv_low = False, dv_ptr = 0, dv_addr = 0x33, dv_regs = (\<lambda>r. r)\<rparr>))))) =
    [0x0700, 0x0708, 0x0728, 0x070A, 0x0720, 0x072A, 0x800D, 0x8000]"
  by (simp add: bitbang_pass_reads_sensor)

subsection \<open>The service\<close>






lemma begin_pass_fields [simp]:
  "ts_state (begin_pass s) = ts_state s" "ts_target (begin_pass s) = ts_target s" "ts_scan (begin_pass s) = ts_scan s"
  "ts_failures (begin_pass s) = ts_failures s" "ts_last_target (begin_pass s) = ts_target s"
  by (simp_all add: begin_pass_def)

lemma end_pass_fields [simp]:
  "ts_target (end_pass calib sense elapsed now s) = ts_target s" "ts_scan (end_pass calib sense elapsed now s) = ts_scan s"
  "ts_last_target (end_pass calib sense elapsed now s) = ts_last_target s"
  "ts_ee (end_pass calib sense elapsed now s) = fst (sense (ts_last_target s) (ts_ee s))"
  by (auto simp: end_pass_def split: prod.split option.split)








text \<open>The bus \<open>auto\<close> is one target: a sensor that moves to another bus is read with the calibration of the old one.\<close>

lemma auto_target_keeps_calibration:
  "ts_target s = ts_last_target s \<Longrightarrow> ts_ee (begin_pass s) = ts_ee s"
  by (simp add: begin_pass_def)

end
