(* ===== verification/AiModels.thy ===== *)
theory AiModels
  imports WebConfig
begin

text \<open>
  The registry of detection models (\<open>internal/ai/registry.go\<close>), the endpoints that upload, activate and delete models
  (\<open>internal/web/api.go\<close>), and the resolution of the configured model at the start (\<open>internal/ai/service.go\<close>). The
  directory is a map from paths to contents; what a form, a write or the loading of a model answers is an argument.
  Paths are clean, and the JSON text of the manifest is its list of records.
\<close>

section \<open>Models\<close>

record model_spec =
  ms_id :: string
  ms_family :: string
  ms_input :: int
  ms_path :: string
  ms_source :: string

record upload_entry =
  ue_id :: string
  ue_family :: string
  ue_input :: int
  ue_file :: string

definition models_dir :: string where
  "models_dir = ''/var/lib/mibee-eye/models''"

definition upload_max_bytes :: nat where
  "upload_max_bytes = 33554432"

definition builtin_models :: "model_spec list" where
  "builtin_models =
     [\<lparr>ms_id = ''nanodet-plus-m-320'', ms_family = ''nanodet'', ms_input = 320, ms_path = models_dir @ ''/nanodet-m.onnx'', ms_source = ''builtin''\<rparr>,
      \<lparr>ms_id = ''nanodet-plus-m-416'', ms_family = ''nanodet'', ms_input = 416, ms_path = models_dir @ ''/nanodet-m-416.onnx'', ms_source = ''builtin''\<rparr>,
      \<lparr>ms_id = ''yolox-nano-416'', ms_family = ''yolox'', ms_input = 416, ms_path = models_dir @ ''/yolox-nano.onnx'', ms_source = ''builtin''\<rparr>]"

definition join_path :: "string \<Rightarrow> string \<Rightarrow> string" where
  "join_path dir file = dir @ ''/'' @ file"

definition base_name :: "string \<Rightarrow> string" where
  "base_name p = rev (takeWhile (\<lambda>c. c \<noteq> CHR ''/'') (rev p))"

text \<open>The disk: files with their contents, and the manifest, which a failed write leaves as it was or torn.\<close>

datatype manifest = NoManifest | Torn | Entries "upload_entry list"

datatype write_result = Written | Untouched | WriteTorn

record registry =
  rg_dir :: string
  rg_entries :: "model_spec list"
  rg_files :: "string \<Rightarrow> string option"
  rg_manifest :: manifest

definition write_manifest :: "write_result \<Rightarrow> upload_entry list \<Rightarrow> registry \<Rightarrow> bool \<times> registry" where
  "write_manifest wr us r =
     (case wr of
        Written \<Rightarrow> (True, r\<lparr>rg_manifest := Entries us\<rparr>)
      | Untouched \<Rightarrow> (False, r)
      | WriteTorn \<Rightarrow> (False, r\<lparr>rg_manifest := Torn\<rparr>))"

definition spec_of_entry :: "string \<Rightarrow> upload_entry \<Rightarrow> model_spec" where
  "spec_of_entry dir e =
     \<lparr>ms_id = ue_id e, ms_family = ue_family e, ms_input = ue_input e, ms_path = join_path dir (ue_file e), ms_source = ''uploaded''\<rparr>"

definition init_registry :: "write_result \<Rightarrow> string \<Rightarrow> registry \<Rightarrow> registry" where
  "init_registry wr dir r =
     (let r = r\<lparr>rg_dir := dir, rg_entries := builtin_models\<rparr> in
      if dir = '''' then r
      else case rg_manifest r of
        Entries us \<Rightarrow>
          let kept = filter (\<lambda>e. rg_files r (join_path dir (ue_file e)) \<noteq> None) us;
              r = r\<lparr>rg_entries := builtin_models @ map (spec_of_entry dir) kept\<rparr> in
          if length kept \<noteq> length us then snd (write_manifest wr kept r) else r
      | _ \<Rightarrow> r)"

definition current_uploads :: "model_spec list \<Rightarrow> upload_entry list" where
  "current_uploads ms =
     map (\<lambda>m. \<lparr>ue_id = ms_id m, ue_family = ms_family m, ue_input = ms_input m, ue_file = base_name (ms_path m)\<rparr>)
       (filter (\<lambda>m. ms_source m = ''uploaded'') ms)"

definition register_uploaded :: "write_result \<Rightarrow> model_spec \<Rightarrow> registry \<Rightarrow> bool \<times> registry" where
  "register_uploaded wr m r =
     (if rg_dir r = '''' then (False, r)
      else
        case write_manifest wr (current_uploads (rg_entries r) @
               [\<lparr>ue_id = ms_id m, ue_family = ms_family m, ue_input = ms_input m, ue_file = base_name (ms_path m)\<rparr>]) r of
          (False, r1) \<Rightarrow> (False, r1)
        | (True, r1) \<Rightarrow> (True, r1\<lparr>rg_entries := rg_entries r1 @ [m]\<rparr>))"

text \<open>The first uploaded entry with the identifier; a failed write of the manifest is ignored.\<close>

definition remove_first :: "('a \<Rightarrow> bool) \<Rightarrow> 'a list \<Rightarrow> 'a list" where
  "remove_first P xs = takeWhile (\<lambda>x. \<not> P x) xs @ drop 1 (dropWhile (\<lambda>x. \<not> P x) xs)"

definition remove_uploaded :: "write_result \<Rightarrow> string \<Rightarrow> registry \<Rightarrow> model_spec option \<times> registry" where
  "remove_uploaded wr i r =
     (let hit = (\<lambda>m. ms_id m = i \<and> ms_source m = ''uploaded'') in
      case find hit (rg_entries r) of
        None \<Rightarrow> (None, r)
      | Some m \<Rightarrow>
          let r1 = r\<lparr>rg_entries := remove_first hit (rg_entries r)\<rparr> in
          (Some m, if rg_dir r1 \<noteq> '''' then snd (write_manifest wr (current_uploads (rg_entries r1)) r1) else r1))"

definition find_model :: "string \<Rightarrow> registry \<Rightarrow> model_spec option" where
  "find_model i r = find (\<lambda>m. ms_id m = i) (rg_entries r)"

definition lower_alnum :: "char \<Rightarrow> bool" where
  "lower_alnum c \<longleftrightarrow> (let n = of_char c :: nat in 97 \<le> n \<and> n \<le> 122 \<or> 48 \<le> n \<and> n \<le> 57)"

definition valid_model_id :: "string \<Rightarrow> bool" where
  "valid_model_id i \<longleftrightarrow>
     i \<noteq> [] \<and> length i \<le> 64 \<and> lower_alnum (hd i) \<and> list_all (\<lambda>c. lower_alnum c \<or> c = CHR ''-'') i"

definition model_available :: "string \<Rightarrow> registry \<Rightarrow> bool" where
  "model_available p r \<longleftrightarrow> rg_files r p \<noteq> None"

record active_model =
  am_id :: string
  am_path :: string
  am_family :: string
  am_input :: int
  am_custom :: bool

definition resolve :: "string \<Rightarrow> string \<Rightarrow> registry \<Rightarrow> active_model option" where
  "resolve model path r =
     (if path \<noteq> '''' \<and> path \<noteq> default_model_path
      then Some \<lparr>am_id = ''custom'', am_path = path, am_family = ''nanodet'', am_input = 0, am_custom = True\<rparr>
      else
        case find_model (if model = '''' then ''nanodet-plus-m-320'' else model) r of
          None \<Rightarrow> None
        | Some m \<Rightarrow> Some \<lparr>am_id = ms_id m, am_path = ms_path m, am_family = ms_family m, am_input = ms_input m, am_custom = False\<rparr>)"

section \<open>The endpoints\<close>

text \<open>The form of an upload: family, the contents of its file fields; and what the disk and the loader answer. \<open>loads\<close>
  tries a model's content as a family and gives its input size.\<close>

record upload_form =
  uf_family :: string
  uf_files :: "string list"

record upload_env =
  up_open :: bool
  up_mkdir :: bool
  up_temp :: bool
  up_copy :: bool
  up_rename :: bool
  up_manifest :: write_result

type_synonym loader = "string \<Rightarrow> string \<Rightarrow> int option"

text \<open>The checks before the body is read, and the rest; another request can run in between.\<close>

definition upload_check :: "bool \<Rightarrow> string \<Rightarrow> registry \<Rightarrow> nat option" where
  "upload_check allowed i r =
     (if \<not> allowed then Some 501
      else if \<not> valid_model_id i then Some 400
      else if find_model i r \<noteq> None then Some 409
      else if rg_dir r = '''' then Some 501
      else None)"

definition model_path :: "string \<Rightarrow> string \<Rightarrow> string" where
  "model_path dir i = join_path dir (i @ ''.onnx'')"

definition upload_finish :: "loader \<Rightarrow> upload_env \<Rightarrow> string \<Rightarrow> upload_form option \<Rightarrow> registry \<Rightarrow> nat \<times> registry" where
  "upload_finish loads en i form r =
     (case form of
        None \<Rightarrow> (413, r)
      | Some f \<Rightarrow>
          if uf_family f \<noteq> ''nanodet'' \<and> uf_family f \<noteq> ''yolox'' then (400, r)
          else case uf_files f of
            [content] \<Rightarrow>
              if \<not> up_open en then (400, r)
              else if \<not> up_mkdir en then (500, r)
              else if \<not> up_temp en then (500, r)
              else if \<not> up_copy en then (500, r)
              else if upload_max_bytes < length content then (413, r)
              else (case loads content (uf_family f) of
                None \<Rightarrow> (400, r)
              | Some inp \<Rightarrow>
                  if \<not> up_rename en then (500, r)
                  else
                    let p = model_path (rg_dir r) i; r1 = r\<lparr>rg_files := (rg_files r)(p \<mapsto> content)\<rparr> in
                    (case register_uploaded (up_manifest en)
                            \<lparr>ms_id = i, ms_family = uf_family f, ms_input = inp, ms_path = p, ms_source = ''uploaded''\<rparr> r1 of
                       (True, r2) \<Rightarrow> (201, r2)
                     | (False, r2) \<Rightarrow> (500, r2\<lparr>rg_files := (rg_files r2)(p := None)\<rparr>)))
          | _ \<Rightarrow> (400, r))"

definition handle_upload :: "loader \<Rightarrow> bool \<Rightarrow> upload_env \<Rightarrow> string \<Rightarrow> upload_form option \<Rightarrow> registry \<Rightarrow> nat \<times> registry" where
  "handle_upload loads allowed en i form r =
     (case upload_check allowed i r of Some status \<Rightarrow> (status, r) | None \<Rightarrow> upload_finish loads en i form r)"

text \<open>\<open>running\<close> is the identifier of the running model, when the service runs.\<close>

definition handle_delete :: "bool \<Rightarrow> string option \<Rightarrow> write_result \<Rightarrow> string \<Rightarrow> registry \<Rightarrow> nat \<times> registry" where
  "handle_delete allowed running wr i r =
     (if \<not> allowed then (501, r)
      else if running = Some i then (409, r)
      else case remove_uploaded wr i r of
        (None, r1) \<Rightarrow> (if find_model i r1 \<noteq> None then 409 else 404, r1)
      | (Some m, r1) \<Rightarrow> (204, r1\<lparr>rg_files := (rg_files r1)(ms_path m := None)\<rparr>))"

text \<open>The list of models, with the running or configured one; a custom path is an entry of its own.\<close>

definition model_entry :: "registry \<Rightarrow> model_spec \<Rightarrow> json" where
  "model_entry r m = JObj [(''id'', JStr (ms_id m)), (''family'', JStr (ms_family m)), (''input'', JInt (ms_input m)),
     (''source'', JStr (ms_source m)), (''available'', JBool (model_available (ms_path m) r))]"

definition ai_allow_upload :: "yaml \<Rightarrow> string option \<Rightarrow> bool" where
  "ai_allow_upload = (\<lambda>(doc_of, text_of) file.
     case file of
       None \<Rightarrow> False
     | Some data \<Rightarrow>
         (case doc_of data of
            Some (Some d) \<Rightarrow> (case doc_at d [''ai'', ''allow_upload''] of Some (JBool b) \<Rightarrow> b | _ \<Rightarrow> False)
          | _ \<Rightarrow> False))"

definition resolve_configured :: "yaml \<Rightarrow> string option \<Rightarrow> registry \<Rightarrow> active_model option" where
  "resolve_configured = (\<lambda>(doc_of, text_of) file r.
     let sec = (case file of None \<Rightarrow> []
                | Some data \<Rightarrow> (case doc_of data of Some (Some d) \<Rightarrow> (case section_of d ''ai'' of Some s \<Rightarrow> s | None \<Rightarrow> []) | _ \<Rightarrow> []));
         str = (\<lambda>k. case string_of sec k of Some v \<Rightarrow> v | None \<Rightarrow> '''') in
     resolve (str ''model'') (str ''model_path'') r)"

definition handle_ai_models :: "yaml \<Rightarrow> string option \<Rightarrow> string option \<Rightarrow> registry \<Rightarrow> doc" where
  "handle_ai_models y file running r =
     (let configured = resolve_configured y file r;
          active = (case running of Some i \<Rightarrow> i | None \<Rightarrow> (case configured of Some m \<Rightarrow> am_id m | None \<Rightarrow> ''unknown'')) in
      [(''active'', JStr active),
       (''models'', JList (map (model_entry r) (rg_entries r) @
          (case configured of
             Some m \<Rightarrow> if am_custom m
                then [JObj [(''id'', JStr ''custom''), (''family'', JStr (am_family m)), (''input'', JInt (am_input m)),
                        (''source'', JStr ''custom''), (''available'', JBool (model_available (am_path m) r))]] else []
           | None \<Rightarrow> [])))] @
      (if ai_allow_upload y file then [(''upload'', JObj [(''allowed'', JBool True), (''max_bytes'', JInt (int upload_max_bytes))])] else []))"

text \<open>Activation: the new detector is built before the running one is replaced. The running state is the active model.\<close>

datatype activation_error = UnknownModel | ModelUnavailable | LoadFailed

definition activate_model :: "loader \<Rightarrow> string \<Rightarrow> registry \<Rightarrow> string \<Rightarrow> activation_error option \<times> string" where
  "activate_model loads i r running =
     (case find_model i r of
        None \<Rightarrow> (Some UnknownModel, running)
      | Some m \<Rightarrow>
          (case rg_files r (ms_path m) of
             None \<Rightarrow> (Some ModelUnavailable, running)
           | Some content \<Rightarrow> (case loads content (ms_family m) of None \<Rightarrow> (Some LoadFailed, running) | Some _ \<Rightarrow> (None, i))))"

definition handle_activate ::
  "yaml \<Rightarrow> write_env \<Rightarrow> bool \<Rightarrow> loader \<Rightarrow> string \<Rightarrow> registry \<Rightarrow> string option \<times> fs \<Rightarrow> nat \<times> string option \<times> fs"
where
  "handle_activate y en has_path loads i r = (\<lambda>(running, f).
     case running of
       None \<Rightarrow> (501, running, f)
     | Some cur \<Rightarrow>
         (case activate_model loads i r cur of
            (Some UnknownModel, c) \<Rightarrow> (404, Some c, f)
          | (Some ModelUnavailable, c) \<Rightarrow> (409, Some c, f)
          | (Some LoadFailed, c) \<Rightarrow> (500, Some c, f)
          | (None, c) \<Rightarrow>
              (case persist_ai_model y en has_path i f of
                 (Persisted, f1) \<Rightarrow> (200, Some c, f1)
               | (_, f1) \<Rightarrow> (500, Some c, f1))))"

section \<open>Runs of the endpoints\<close>




section \<open>The registry\<close>


lemma base_of_joined: "CHR ''/'' \<notin> set file \<Longrightarrow> base_name (join_path dir file) = file"
proof -
  assume "CHR ''/'' \<notin> set file"
  then have all: "\<forall>x\<in>set (rev file). x \<noteq> CHR ''/''" by auto
  have "base_name (join_path dir file) = rev (takeWhile (\<lambda>c. c \<noteq> CHR ''/'') (rev file @ CHR ''/'' # rev dir))"
    by (simp add: base_name_def join_path_def)
  also have "\<dots> = rev (rev file)" by (subst takeWhile_append2) (use all in auto)
  finally show ?thesis by simp
qed

lemma valid_id_no_slash: "valid_model_id i \<Longrightarrow> CHR ''/'' \<notin> set (i @ ''.onnx'')"
  by (auto simp: valid_model_id_def list_all_iff lower_alnum_def)


definition entry_of_spec :: "model_spec \<Rightarrow> upload_entry" where
  "entry_of_spec m = \<lparr>ue_id = ms_id m, ue_family = ms_family m, ue_input = ms_input m, ue_file = base_name (ms_path m)\<rparr>"

definition uploaded_ok :: "registry \<Rightarrow> model_spec \<Rightarrow> bool" where
  "uploaded_ok r m \<longleftrightarrow>
     valid_model_id (ms_id m) \<and> ms_path m = model_path (rg_dir r) (ms_id m) \<and> ms_source m = ''uploaded'' \<and> rg_files r (ms_path m) \<noteq> None"

lemma uploaded_ok_update [simp]:
  "uploaded_ok (r\<lparr>rg_entries := ms\<rparr>) = uploaded_ok r" "uploaded_ok (r\<lparr>rg_manifest := mf\<rparr>) = uploaded_ok r"
  by (simp_all add: uploaded_ok_def fun_eq_iff)

definition manifest_list :: "manifest \<Rightarrow> upload_entry list option" where
  "manifest_list mf = (case mf of NoManifest \<Rightarrow> Some [] | Torn \<Rightarrow> None | Entries us \<Rightarrow> Some us)"

text \<open>The builtin models, then the uploaded ones with their files; the manifest lists them, and possibly others whose file
  is gone.\<close>

definition registry_ok :: "registry \<Rightarrow> bool" where
  "registry_ok r \<longleftrightarrow>
     rg_dir r \<noteq> '''' \<and> distinct (map ms_id (rg_entries r)) \<and>
     (\<exists>ups us. rg_entries r = builtin_models @ ups \<and> list_all (uploaded_ok r) ups \<and> manifest_list (rg_manifest r) = Some us \<and>
        filter (\<lambda>e. rg_files r (join_path (rg_dir r) (ue_file e)) \<noteq> None) us = map entry_of_spec ups)"




lemma entry_spec:
  "uploaded_ok r m \<Longrightarrow> ue_file (entry_of_spec m) = ms_id m @ ''.onnx'' \<and> spec_of_entry (rg_dir r) (entry_of_spec m) = m \<and>
     join_path (rg_dir r) (ue_file (entry_of_spec m)) = ms_path m"
  using valid_id_no_slash [of "ms_id m"]
  by (auto simp: uploaded_ok_def entry_of_spec_def spec_of_entry_def model_path_def base_of_joined)


text \<open>A restart finds the same models.\<close>

lemma restart_same_entries:
  assumes "registry_ok r"
  shows "rg_entries (init_registry wr (rg_dir r) r) = rg_entries r"
proof -
  obtain ups us where u: "rg_entries r = builtin_models @ ups" "list_all (uploaded_ok r) ups" "manifest_list (rg_manifest r) = Some us"
    "filter (\<lambda>e. rg_files r (join_path (rg_dir r) (ue_file e)) \<noteq> None) us = map entry_of_spec ups" "rg_dir r \<noteq> ''''"
    using assms unfolding registry_ok_def by blast
  have again: "map (spec_of_entry (rg_dir r)) (map entry_of_spec ups) = ups"
    using u(2) by (induction ups) (auto simp: entry_spec)
  have keeps: "rg_entries (snd (write_manifest wr vs r')) = rg_entries r'" for vs r'
    by (simp add: write_manifest_def split: write_result.split)
  show ?thesis
  proof (cases "rg_manifest r")
    case NoManifest
    then show ?thesis using u by (simp add: init_registry_def manifest_list_def)
  next
    case Torn
    then show ?thesis using u(3) by (simp add: manifest_list_def)
  next
    case (Entries vs)
    then show ?thesis using u again keeps by (simp add: init_registry_def manifest_list_def Let_def)
  qed
qed


lemma current_uploads_entries: "current_uploads ms = map entry_of_spec (filter (\<lambda>m. ms_source m = ''uploaded'') ms)"
  by (simp add: current_uploads_def entry_of_spec_def)




definition fresh_disk :: "(string \<Rightarrow> string option) \<Rightarrow> registry" where
  "fresh_disk files = \<lparr>rg_dir = '''', rg_entries = builtin_models, rg_files = files, rg_manifest = NoManifest\<rparr>"

lemma registry_ok_fresh: "dir \<noteq> '''' \<Longrightarrow> registry_ok (init_registry wr dir (fresh_disk files))"
  by (auto simp: registry_ok_def init_registry_def fresh_disk_def manifest_list_def builtin_models_def intro!: exI [of _ "[]"])

lemma write_manifest_dir [simp]: "rg_dir (snd (write_manifest wr us r)) = rg_dir r"
  by (simp add: write_manifest_def split: write_result.split)




lemma found_model_id: "registry_ok r \<Longrightarrow> find_model i r = Some m \<Longrightarrow> ms_id m = i \<and> i \<noteq> ''''"
proof -
  assume a: "registry_ok r" "find_model i r = Some m"
  then have m: "m \<in> set (rg_entries r)" "ms_id m = i" by (auto simp: find_model_def find_Some_iff)
  obtain ups where "rg_entries r = builtin_models @ ups" "list_all (uploaded_ok r) ups" using a(1) unfolding registry_ok_def by blast
  then have "m \<in> set builtin_models \<or> uploaded_ok r m" using m(1) by (auto simp: list_all_iff)
  then show ?thesis using m(2) by (auto simp: builtin_models_def uploaded_ok_def valid_model_id_def)
qed

lemma section_strings:
  "doc_at d [sec, k1] = Some (JStr v1) \<Longrightarrow> doc_at d [sec, k2] = Some (JStr v2) \<Longrightarrow>
   \<exists>s. section_of d sec = Some s \<and> string_of s k1 = Some v1 \<and> string_of s k2 = Some v2"
  by (auto simp: section_of_def string_of_def split: option.splits json.splits)


definition all_upload_works :: upload_env where
  "all_upload_works = \<lparr>up_open = True, up_mkdir = True, up_temp = True, up_copy = True, up_rename = True, up_manifest = Written\<rparr>"



text \<open>C39: an activation that is answered with success runs the model, and the next start resolves the saved
  configuration to that same model, also when a custom path was configured before.\<close>

theorem activated_model_survives_restart:
  assumes "handle_activate (doc_of, text_of) en has_path loads i r (running, f) = (200, running', f')"
    and "registry_ok r"
    and "\<And>d out. text_of d = Some out \<Longrightarrow> doc_of out = Some (Some d)"
  shows "running' = Some i \<and>
    (\<exists>m. find_model i r = Some m \<and> (\<exists>content inp. rg_files r (ms_path m) = Some content \<and> loads content (ms_family m) = Some inp) \<and>
      resolve_configured (doc_of, text_of) (fs_file f') (init_registry wr (rg_dir r) r) =
        Some \<lparr>am_id = i, am_path = ms_path m, am_family = ms_family m, am_input = ms_input m, am_custom = False\<rparr>)"
proof -
  obtain cur where cur: "activate_model loads i r cur = (None, i)" "running' = Some i"
      "persist_ai_model (doc_of, text_of) en has_path i f = (Persisted, f')"
    using assms(1) by (auto simp: handle_activate_def activate_model_def split: option.splits persist.splits prod.splits)
  obtain m content inp where m: "find_model i r = Some m" "rg_files r (ms_path m) = Some content" "loads content (ms_family m) = Some inp"
    using cur(1) by (auto simp: activate_model_def split: option.splits)
  have i: "ms_id m = i" "i \<noteq> ''''" using found_model_id [OF assms(2) m(1)] by auto
  let ?edit = "\<lambda>cfg. set_in ''ai'' ''model_path'' (JStr default_model_path) (set_in ''ai'' ''model'' (JStr i) cfg)"
  obtain cfg out where w: "text_of (?edit cfg) = Some out" "fs_file f' = Some out"
    using persist_edit_written [OF cur(3) [unfolded persist_ai_model_def]] by blast
  have doc: "doc_of out = Some (Some (?edit cfg))" by (rule assms(3)) (rule w(1))
  have "doc_at (?edit cfg) [''ai'', ''model''] = Some (JStr i)" "doc_at (?edit cfg) [''ai'', ''model_path''] = Some (JStr default_model_path)"
    by (simp_all add: set_in_at set_in_other del: doc_at.simps)
  from section_strings [OF this] obtain s where s: "section_of (?edit cfg) ''ai'' = Some s" "string_of s ''model'' = Some i"
      "string_of s ''model_path'' = Some default_model_path" by blast
  have "resolve_configured (doc_of, text_of) (fs_file f') (init_registry wr (rg_dir r) r) = resolve i default_model_path (init_registry wr (rg_dir r) r)"
    by (simp add: resolve_configured_def Let_def doc w(2) s)
  also have "\<dots> = Some \<lparr>am_id = i, am_path = ms_path m, am_family = ms_family m, am_input = ms_input m, am_custom = False\<rparr>"
    using m(1) i restart_same_entries [OF assms(2)] by (simp add: resolve_def find_model_def)
  finally show ?thesis using cur(2) m by blast
qed

definition example_ai_doc :: doc where
  "example_ai_doc = [(''ai'', JObj [(''model_path'', JStr ''custom.onnx'')])]"

definition example_ai_saved :: doc where
  "example_ai_saved = [(''ai'', JObj [(''model_path'', JStr default_model_path), (''model'', JStr ''yolox-nano-416'')])]"

definition example_ai_yaml :: yaml where
  "example_ai_yaml =
     (\<lambda>t. if t = ''old'' then Some (Some example_ai_doc) else if t = ''new'' then Some (Some example_ai_saved) else None,
      \<lambda>d. if d = example_ai_saved then Some ''new'' else None)"

definition example_model_disk :: registry where
  "example_model_disk = init_registry Written models_dir (fresh_disk (\<lambda>p. if p = models_dir @ ''/yolox-nano.onnx'' then Some ''onnx'' else None))"

theorem activated_model_survives_restart_witness:
  "resolve_configured example_ai_yaml (Some ''old'') example_model_disk =
     Some \<lparr>am_id = ''custom'', am_path = ''custom.onnx'', am_family = ''nanodet'', am_input = 0, am_custom = True\<rparr> \<and>
   fst (handle_activate example_ai_yaml all_writes_work True (\<lambda>c f. Some 416) ''yolox-nano-416'' example_model_disk
     (Some ''custom'', \<lparr>fs_file = Some ''old'', fs_temps = 0\<rparr>)) = 200 \<and>
   resolve_configured example_ai_yaml (Some ''new'') (init_registry Written models_dir example_model_disk) =
     Some \<lparr>am_id = ''yolox-nano-416'', am_path = models_dir @ ''/yolox-nano.onnx'', am_family = ''yolox'', am_input = 416, am_custom = False\<rparr>"
proof -
  let ?f = "\<lparr>fs_file = Some ''old'', fs_temps = 0\<rparr> :: fs"
  let ?m = "\<lparr>ms_id = ''yolox-nano-416'', ms_family = ''yolox'', ms_input = 416, ms_path = models_dir @ ''/yolox-nano.onnx'', ms_source = ''builtin''\<rparr>"
  have dir: "models_dir \<noteq> ''''" by (simp add: models_dir_def)
  have ok: "registry_ok example_model_disk" unfolding example_model_disk_def by (rule registry_ok_fresh) (rule dir)
  have found: "find_model ''yolox-nano-416'' example_model_disk = Some ?m" "rg_dir example_model_disk = models_dir"
    "rg_files example_model_disk (models_dir @ ''/yolox-nano.onnx'') = Some ''onnx''"
    by (simp_all add: find_model_def example_model_disk_def init_registry_def fresh_disk_def builtin_models_def Let_def)
  have edit: "set_in ''ai'' ''model_path'' (JStr default_model_path) (set_in ''ai'' ''model'' (JStr ''yolox-nano-416'') example_ai_doc) = example_ai_saved"
    by (simp add: set_in_def section_of_def example_ai_doc_def example_ai_saved_def)
  have run: "handle_activate example_ai_yaml all_writes_work True (\<lambda>c f. Some 416) ''yolox-nano-416'' example_model_disk (Some ''custom'', ?f) =
      (200, Some ''yolox-nano-416'', ?f\<lparr>fs_file := Some ''new''\<rparr>)"
    by (simp add: handle_activate_def activate_model_def found persist_ai_model_def persist_edit_def example_ai_yaml_def edit
        atomic_write_def all_writes_work_def Let_def)
  have law: "text_of d = Some out \<Longrightarrow> doc_of out = Some (Some d)" if "example_ai_yaml = (doc_of, text_of)" for doc_of text_of d out
    using that by (auto simp: example_ai_yaml_def split: if_splits)
  obtain doc_of text_of where y: "example_ai_yaml = (doc_of, text_of)" by (cases example_ai_yaml)
  have "resolve_configured example_ai_yaml (Some ''new'') (init_registry Written models_dir example_model_disk) =
      Some \<lparr>am_id = ''yolox-nano-416'', am_path = models_dir @ ''/yolox-nano.onnx'', am_family = ''yolox'', am_input = 416, am_custom = False\<rparr>"
    using activated_model_survives_restart [OF run [unfolded y] ok law [OF y], of Written] found unfolding y by simp
  moreover have "resolve_configured example_ai_yaml (Some ''old'') example_model_disk =
     Some \<lparr>am_id = ''custom'', am_path = ''custom.onnx'', am_family = ''nanodet'', am_input = 0, am_custom = True\<rparr>"
    by (simp add: resolve_configured_def example_ai_yaml_def example_ai_doc_def section_of_def string_of_def resolve_def default_model_path_def)
  ultimately show ?thesis using run by simp
qed

section \<open>What the registry does not exclude\<close>

text \<open>The identifier of an upload is compared with identifiers only, so an upload may take the file of a builtin model,
  and deleting it deletes that file.\<close>

lemma upload_takes_builtin_file:
  "let r = init_registry Written models_dir (fresh_disk (\<lambda>p. Some ''original''));
       (status, r1) = handle_upload (\<lambda>c f. Some 320) True all_upload_works ''nanodet-m'' (Some \<lparr>uf_family = ''nanodet'', uf_files = [''other'']\<rparr>) r;
       (status', r2) = handle_delete True (Some ''yolox-nano-416'') Written ''nanodet-m'' r1 in
   status = 201 \<and> rg_files r1 default_model_path = Some ''other'' \<and> status' = 204 \<and> rg_files r2 default_model_path = None \<and>
   rg_entries r2 = builtin_models"
  by (simp add: init_registry_def fresh_disk_def Let_def handle_upload_def upload_check_def valid_model_id_def models_dir_def
      lower_alnum_def find_model_def builtin_models_def upload_finish_def all_upload_works_def upload_max_bytes_def register_uploaded_def
      write_manifest_def handle_delete_def remove_uploaded_def remove_first_def model_path_def join_path_def default_model_path_def)

text \<open>The identifier is checked before the body is read and not again, so two uploads at the same time both register it.\<close>

lemma simultaneous_uploads_duplicate_id:
  "let r = init_registry Written ''d'' (fresh_disk (\<lambda>p. None)); form = Some \<lparr>uf_family = ''yolox'', uf_files = [''onnx'']\<rparr>;
       (status1, r1) = upload_finish (\<lambda>c f. Some 320) all_upload_works ''m1'' form r;
       (status2, r2) = upload_finish (\<lambda>c f. Some 320) all_upload_works ''m1'' form r1 in
   upload_check True ''m1'' r = None \<and> status1 = 201 \<and> status2 = 201 \<and> map ms_id (drop 3 (rg_entries r2)) = [''m1'', ''m1'']"
  by (simp add: init_registry_def fresh_disk_def Let_def upload_check_def valid_model_id_def
      lower_alnum_def find_model_def builtin_models_def upload_finish_def all_upload_works_def upload_max_bytes_def register_uploaded_def
      write_manifest_def)

text \<open>The manifest is overwritten in place: after a torn write no uploaded model is found any more, although their files are there.\<close>

lemma torn_manifest_forgets_uploads:
  "let (ok, r1) = write_manifest WriteTorn us r in
   \<not> ok \<and> rg_files r1 = rg_files r \<and> rg_entries (init_registry wr dir r1) = builtin_models"
  by (simp add: write_manifest_def init_registry_def Let_def)

end
