(* ===== verification/Spec2Isabelle.thy ===== *)
theory Spec2Isabelle
  imports Prelude Ieee Base64 Json H264 Chan AuHub Yuv CamPipe AuSplit CamParams CamBake CamSources Substream Restartable TextUtil Config
    Amf Flv RtmpChunk RtmpPush HlsTs HlsServer RecIndex RecWriter RecReader Fmp4 MseStream WebAuth WebConfig Observe Sse Rtsp Pump ServerMain GbHelpers
    I2c Thermal AiModels
begin

text \<open>
  This library models the core of a camera server: H.264 access units come from a camera source,
  a hub (\<open>internal/h264/hub.go\<close>) broadcasts them, and RTMP push, HLS, the recorder, the MSE
  stream and RTSP consume them; a web interface with sessions controls the server.

  Conventions. A struct is a record with the fields the code reads or writes; a Go \<open>int\<close> is an
  \<open>int\<close> or, where it counts or indexes, a \<open>nat\<close>; fixed-width integers that the code shifts,
  masks or lets wrap are words, and 64-bit products that can overflow go through \<open>i64\<close>. A
  definition with an \<open>option\<close> result uses \<open>None\<close> for a panic unless its text says otherwise.
  What is not in the repository (sockets, disks, clocks, random tokens, the RTSP and ONVIF libraries)
  is an argument: the bytes a peer sends, the outcome of a file operation, the current time. A mutex
  makes its critical section one step, and goroutines appear as an arbitrary sequence of events; the
  properties quantify over the sequence.

  Theories, in the order of the data flow.

  \<^item> \<open>Prelude\<close>: bytes, slices with their panics, byte orders, 64-bit arithmetic, and the interfaces
    \<open>prefix_codec\<close> (a self-delimiting encoding), \<open>stream_splitter\<close> (an incremental cut of a stream),
    \<open>event_machine\<close>, \<open>monotone_machine\<close> and \<open>refinement\<close>. \<open>Chan\<close>: a buffered channel with a
    non-blocking send, interface \<open>drop_channel\<close>. \<open>Ieee\<close>: floating-point numbers as bit patterns, comparison,
    truncation and rounding. \<open>Base64\<close>: the standard encoding with padding.
  \<^item> \<open>H264\<close> (\<open>internal/h264/parser.go\<close>) and \<open>AuHub\<close> (\<open>internal/h264/hub.go\<close>): the Annex-B
    parser never panics and recovers framed units; a subscriber sees the broadcast with exactly the
    counted units left out, for as long as its identifier is its own.
  \<^item> \<open>Yuv\<close> (\<open>internal/camera/downscale.go\<close>, \<open>yuv_transform.go\<close>): the optimised pixel loops equal
    their pixel-by-pixel references. \<open>CamPipe\<close> (\<open>pipe.go\<close>, \<open>telemetry_filter.go\<close>): the two byte
    streams of the camera subprocess. \<open>AuSplit\<close> (\<open>rpicamvid.go\<close>, the ffmpeg reader of
    \<open>v4l2_source.go\<close>): the readers that group a byte stream into access units; the frames depend on the
    bytes only. \<open>CamBake\<close> (\<open>readLoopYUV\<close>, \<open>pump\<close>): raw frames turned and mirrored in reused buffers.
    \<open>CamParams\<close> (\<open>params.go\<close>, \<open>params_reflect.go\<close>, \<open>params_serialize.go\<close>, \<open>manager.go\<close>): the
    parameters, their wire format, the four sources as instances of \<open>param_camera\<close>, the manager.
    \<open>CamSources\<close> (\<open>camera.go\<close>, \<open>rpicamvid.go\<close>, \<open>v4l2_source.go\<close>, \<open>rtsp_source.go\<close>): messages of
    the camera process, start-up and its descriptors, restart delays, the reader beside \<open>Stop\<close> as a step
    relation, the packets of an RTSP session. \<open>Substream\<close> (\<open>substream.go\<close>): decimation, tap, failover; no
    panic, no leaked encoder, a failing encoder is given up. \<open>Restartable\<close> (\<open>restartable.go\<close>): a step
    relation for the pumps; restarts lose and reorder nothing.
  \<^item> \<open>TextUtil\<close>: the functions of \<open>strings\<close> and \<open>strconv\<close> the code uses. \<open>Config\<close>
    (\<open>internal/config/config.go\<close>): overrides, validation, loading; validation accepts exactly the valid
    configurations, and the substream of a loaded configuration never panics.
  \<^item> \<open>Amf\<close>, \<open>Flv\<close>, \<open>RtmpChunk\<close>, \<open>RtmpPush\<close> (\<open>internal/rtmp\<close>): codec, chunk layer, session set-up
    against a conforming server, delivery of access units, push loop and reconnection.
  \<^item> \<open>HlsTs\<close>, \<open>HlsServer\<close> (\<open>internal/hls\<close>): transport-stream packets, segments, window and playlist.
  \<^item> \<open>RecIndex\<close>, \<open>RecWriter\<close>, \<open>RecReader\<close> (\<open>internal/recording\<close>): index with its file, retention,
    recorder, reader, and the round trip from the recorder to the reader.
  \<^item> \<open>Fmp4\<close>, \<open>MseStream\<close>, \<open>WebAuth\<close>, \<open>Sse\<close> (\<open>internal/web\<close>): fragments, the shared media clock and the
    realignment after a loss, sessions and their middleware, the event streams of the clients.
  \<^item> \<open>Json\<close>, \<open>WebConfig\<close> (\<open>handlers.go\<close>, \<open>config_apply.go\<close>, \<open>web.go\<close>, \<open>api.go\<close>): documents, their merge and masks,
    the endpoints that edit the configuration file, and when the camera is restarted in place. \<open>Observe\<close>
    (\<open>observe.go\<close>): parsers of the system's counters, rings of samples, logs and requests, the request middleware.
  \<^item> \<open>Rtsp\<close> (\<open>internal/rtsp/server.go\<close>): mounts, client counting, parameter sets, timestamps. \<open>Pump\<close> and
    \<open>ServerMain\<close> (\<open>cmd/server/main.go\<close>): the pump from the camera to the hub with its parameter sets, the
    composition from the encoder's bytes to a subscriber, the camera a configuration builds, the boot, the adapters, the
    shutdown. \<open>GbHelpers\<close> (\<open>internal/gbalarm\<close>, \<open>gbdate\<close>, \<open>gbposition\<close>): alarms, clock drift, position.
  \<^item> \<open>I2c\<close> (\<open>internal/i2c/i2c.go\<close>): the bit-banged bus, proved against a device that follows the protocol edge by
    edge (interface \<open>register_bus\<close>). \<open>Thermal\<close> (\<open>internal/thermal\<close>): registers, discovery, poll service, scans.
  \<^item> \<open>AiModels\<close> (\<open>internal/ai/registry.go\<close>, \<open>internal/web/api.go\<close>): the registry of models on disk, upload,
    activation and deletion.

  What the lemmas show. Round trips (framing, AMF0, AVCC, boxes, chunks, transport packets,
  recorded segments, persisted sessions, turned frames) are instances of \<open>prefix_codec\<close> or are proved
  pointwise. State invariants are instances of \<open>event_machine\<close>: every event preserves the invariant,
  so it holds after every sequence. The index is related to its abstract list by \<open>refinement\<close>. Loops
  that scan bytes are functions with a decreasing measure; the reading loops of the chunk layer take
  the bytes left as their measure; the push loop is a function of the list of what arrives, so it ends
  with the list; retention decreases the number of recordings. No definition uses fuel that can run
  out silently.

  Not modelled: flag parsing and goroutine wiring in \<open>cmd/server/main.go\<close>, the device access of \<open>internal/v4l2\<close>, the
  floating-point compensation and the drawing of \<open>internal/thermal\<close>, the process handling of the operating system (its
  outcomes are arguments), the adapters of the ONVIF and tracing libraries, the inference runtime, HTML assets, log
  messages, HTTP headers and metrics counters.
\<close>

end
